(* ===== verification/Prelude.thy ===== *)
theory Prelude
  imports
    Main
    "HOL-Library.AList"
    "HOL-Library.Multiset"
    "HOL-Library.Word"
    "HOL-Library.Sublist"
    "HOL-Library.Char_ord"
    "HOL-Library.List_Lexorder"
begin

text \<open>
  What every component shares: the Go notions the sources use (error values, panics, early
  returns, indexed slices, maps, string functions), the combinators that thread them, and the
  lemmas about lists, association lists and loops that the component proofs rest on.

  \<^item> A call that may fail has a result of type \<open>fault + 'a\<close>: \<open>Inl (Err e)\<close> is a returned
    non-nil error, \<open>Inl (Panic p)\<close> a run-time panic, \<open>Inr v\<close> a normal return.
  \<^item> A Go map that is only read is an association list whose order is the order in which
    \<^verbatim>\<open>range\<close> visits it; theorems quantify over the list and so over every order.
    A map that is part of a component's state is an association list too, and every
    \<^verbatim>\<open>range\<close> over it goes through an order function that may permute it.
  \<^item> Strings and byte slices are character lists.
\<close>

section \<open>Collections of facts\<close>

named_theorems go_simps \<open>inversion of the result combinators\<close>
named_theorems tr_simps \<open>inversion of translator computations\<close>

section \<open>Errors, panics and results\<close>

text \<open>
  Go errors. \<open>ErrWrap\<close> is \<^verbatim>\<open>fmt.Errorf("...: %w", err)\<close>; \<open>ErrNotFound\<close> is an API status
  error whose reason is NotFound; \<open>ErrDomainConflict\<close> is the sentinel value of the same name.
\<close>

datatype go_error =
    ErrNew string
  | ErrWrap string go_error
  | ErrNotFound string
  | ErrDomainConflict

datatype go_panic =
    IndexOutOfRange
  | NilDereference
  | PanicError go_error
  | PanicMsg string

datatype fault = Err go_error | Panic go_panic

type_synonym 'a res = "fault + 'a"

type_synonym 'v gomap = "(string \<times> 'v) list"

type_synonym bytes = string

text \<open>\<^verbatim>\<open>err.Error()\<close>.\<close>

fun error_Error :: "go_error \<Rightarrow> string" where
  "error_Error (ErrNew s) = s"
| "error_Error (ErrWrap s e) = s @ '': '' @ error_Error e"
| "error_Error (ErrNotFound s) = s @ '' not found''"
| "error_Error ErrDomainConflict = ''ingress has a conflicting domain with another ingress''"

text \<open>\<^verbatim>\<open>errors.Is(err, ErrDomainConflict)\<close> and \<^verbatim>\<open>apierrors.IsNotFound(err)\<close>: both unwrap.\<close>

fun errors_Is_conflict :: "go_error \<Rightarrow> bool" where
  "errors_Is_conflict ErrDomainConflict = True"
| "errors_Is_conflict (ErrWrap _ e) = errors_Is_conflict e"
| "errors_Is_conflict _ = False"

fun IsNotFound :: "go_error \<Rightarrow> bool" where
  "IsNotFound (ErrNotFound _) = True"
| "IsNotFound (ErrWrap _ e) = IsNotFound e"
| "IsNotFound _ = False"

abbreviation isr :: "'e + 'a \<Rightarrow> bool" where "isr m \<equiv> \<not> isl m"

definition bindr :: "'e + 'a \<Rightarrow> ('a \<Rightarrow> 'e + 'b) \<Rightarrow> 'e + 'b" where
  "bindr m f = (case m of Inl e \<Rightarrow> Inl e | Inr a \<Rightarrow> f a)"

text \<open>A Go call returning \<open>(v, err)\<close> followed by \<^verbatim>\<open>if err != nil { return nil, err }\<close>.\<close>

definition liftE :: "go_error + 'a \<Rightarrow> 'a res" where
  "liftE m = (case m of Inl e \<Rightarrow> Inl (Err e) | Inr a \<Rightarrow> Inr a)"

text \<open>A loop over a slice whose body updates the loop state and may leave the function.\<close>

primrec foldM :: "('s \<Rightarrow> 'a \<Rightarrow> 'e + 's) \<Rightarrow> 's \<Rightarrow> 'a list \<Rightarrow> 'e + 's" where
  "foldM f s [] = Inr s"
| "foldM f s (x # xs) = bindr (f s x) (\<lambda>s'. foldM f s' xs)"

lemma bindr_simps [simp]:
  "bindr (Inl e) f = Inl e"
  "bindr (Inr a) f = f a"
  by (simp_all add: bindr_def)

lemma liftE_simps [simp]:
  "liftE (Inl e) = Inl (Err e)"
  "liftE (Inr a) = Inr a"
  by (simp_all add: liftE_def)

lemma bindr_Inr_iff [go_simps]: "bindr m f = Inr b \<longleftrightarrow> (\<exists>a. m = Inr a \<and> f a = Inr b)"
  by (cases m) simp_all

lemma bindr_Inl_iff [go_simps]: "bindr m f = Inl e \<longleftrightarrow> m = Inl e \<or> (\<exists>a. m = Inr a \<and> f a = Inl e)"
  by (cases m) simp_all

lemma bindr_assoc: "bindr (bindr m f) g = bindr m (\<lambda>a. bindr (f a) g)"
  by (cases m) simp_all

lemma bindr_Inr_right [simp]: "bindr m Inr = m"
  by (cases m) simp_all

lemma foldM_append: "foldM f s (xs @ ys) = bindr (foldM f s xs) (\<lambda>s'. foldM f s' ys)"
  by (induction xs arbitrary: s) (simp_all add: bindr_assoc)

text \<open>A loop whose body never leaves is a plain fold.\<close>

lemma foldM_total:
  assumes "\<And>s x. x \<in> set xs \<Longrightarrow> f s x = Inr (g s x)"
  shows "foldM f s xs = Inr (foldl g s xs)"
  using assms by (induction xs arbitrary: s) simp_all

text \<open>An invariant of the loop state that every iteration keeps holds after the loop.\<close>

lemma foldM_invariant:
  assumes "foldM f s xs = Inr t" and "I s"
    and "\<And>s x s'. x \<in> set xs \<Longrightarrow> I s \<Longrightarrow> f s x = Inr s' \<Longrightarrow> I s'"
  shows "I t"
  using assms
proof (induction xs arbitrary: s)
  case Nil
  then show ?case by simp
next
  case (Cons x xs)
  from Cons.prems(1) obtain s' where s': "f s x = Inr s'" and t: "foldM f s' xs = Inr t"
    by (auto simp: bindr_Inr_iff)
  have "I s'" by (rule Cons.prems(3) [OF _ Cons.prems(2) s']) simp
  then show ?case using t Cons.prems(3) by (auto intro: Cons.IH)
qed

text \<open>A loop leaves by the first iteration that leaves.\<close>

lemma foldM_Inl:
  assumes "foldM f s xs = Inl e"
  obtains x s' where "x \<in> set xs" and "f s' x = Inl e"
  using assms
proof (induction xs arbitrary: s thesis)
  case Nil
  then show ?case by simp
next
  case (Cons x xs)
  from Cons.prems(2) consider "f s x = Inl e"
    | s' where "f s x = Inr s'" and "foldM f s' xs = Inl e"
    by (auto simp: bindr_Inl_iff)
  then show ?case
  proof cases
    case 1
    then show ?thesis by (intro Cons.prems(1) [of x s]) simp_all
  next
    case 2
    show ?thesis
      by (rule Cons.IH [OF _ 2(2)]) (use Cons.prems(1) in auto)
  qed
qed

section \<open>Slices\<close>

text \<open>Reading and writing \<^verbatim>\<open>xs[i]\<close>: out of range is a run-time panic.\<close>

definition index_get :: "'a list \<Rightarrow> nat \<Rightarrow> 'a res" where
  "index_get xs i = (if i < length xs then Inr (xs ! i) else Inl (Panic IndexOutOfRange))"

definition index_set :: "'a list \<Rightarrow> nat \<Rightarrow> 'a \<Rightarrow> 'a list res" where
  "index_set xs i v = (if i < length xs then Inr (xs[i := v]) else Inl (Panic IndexOutOfRange))"

text \<open>\<^verbatim>\<open>xs[i] = append(xs[i], v...)\<close> on a slice of slices known to hold index \<open>i\<close>.\<close>

definition append_at :: "nat \<Rightarrow> 'a list \<Rightarrow> 'a list list \<Rightarrow> 'a list list" where
  "append_at i v xs = xs[i := (xs ! i) @ v]"

text \<open>Dereferencing a pointer that may be nil.\<close>

definition deref :: "'a option \<Rightarrow> 'a res" where
  "deref p = (case p of None \<Rightarrow> Inl (Panic NilDereference) | Some a \<Rightarrow> Inr a)"

lemma deref_simps [simp]:
  "deref None = Inl (Panic NilDereference)"
  "deref (Some a) = Inr a"
  by (simp_all add: deref_def)

lemma index_get_simps [simp]:
  "i < length xs \<Longrightarrow> index_get xs i = Inr (xs ! i)"
  "\<not> i < length xs \<Longrightarrow> index_get xs i = Inl (Panic IndexOutOfRange)"
  by (simp_all add: index_get_def)

lemma index_set_simps [simp]:
  "i < length xs \<Longrightarrow> index_set xs i v = Inr (xs[i := v])"
  "\<not> i < length xs \<Longrightarrow> index_set xs i v = Inl (Panic IndexOutOfRange)"
  by (simp_all add: index_set_def)

lemma length_append_at [simp]: "length (append_at i v xs) = length xs"
  by (simp add: append_at_def)

lemma nth_append_at: "i < length xs \<Longrightarrow>
  append_at i v xs ! j = (if i = j then xs ! i @ v else xs ! j)"
  by (simp add: append_at_def nth_list_update)

lemma append_at_nth_same [simp]: "i < length xs \<Longrightarrow> append_at i v xs ! i = xs ! i @ v"
  by (simp add: append_at_def)

lemma append_at_nth_other [simp]: "i \<noteq> j \<Longrightarrow> append_at i v xs ! j = xs ! j"
  by (simp add: append_at_def)

text \<open>
  The loop \<^verbatim>\<open>for i := 0; i < n; i++ { xss[i] = append(xss[i], f(i)...) }\<close> appends
  pointwise below \<open>n\<close> and leaves the rest of the slice alone.
\<close>

lemma foldl_append_at:
  assumes "n \<le> length xss"
  shows "foldl (\<lambda>acc i. append_at i (f i) acc) xss [0..<n] =
    map (\<lambda>j. if j < n then xss ! j @ f j else xss ! j) [0..<length xss]"
  using assms
proof (induction n)
  case 0
  then show ?case by (simp add: map_nth)
next
  case (Suc n)
  then show ?case
    by (intro nth_equalityI) (auto simp: nth_append_at less_Suc_eq)
qed

section \<open>Maps as association lists\<close>

text \<open>
  The interface a component relies on when it keeps a Go map: lookup after update and after
  delete, and the invariant (one entry per key) that both keep.
\<close>

locale go_map =
  fixes lookup :: "'m \<Rightarrow> 'k \<Rightarrow> 'v option"
    and update :: "'k \<Rightarrow> 'v \<Rightarrow> 'm \<Rightarrow> 'm"
    and remove :: "'k \<Rightarrow> 'm \<Rightarrow> 'm"
    and entries :: "'m \<Rightarrow> ('k \<times> 'v) list"
    and wf :: "'m \<Rightarrow> bool"
  assumes lookup_update: "lookup (update k v m) = (lookup m)(k \<mapsto> v)"
    and lookup_remove: "lookup (remove k m) = (lookup m)(k := None)"
    and wf_update: "wf m \<Longrightarrow> wf (update k v m)"
    and wf_remove: "wf m \<Longrightarrow> wf (remove k m)"
    and entries_lookup: "wf m \<Longrightarrow> (k, v) \<in> set (entries m) \<longleftrightarrow> lookup m k = Some v"
    and entries_distinct: "wf m \<Longrightarrow> distinct (map fst (entries m))"
begin

lemma entries_update:
  "wf m \<Longrightarrow> (j, w) \<in> set (entries (update k v m)) \<longleftrightarrow>
     (if j = k then w = v else (j, w) \<in> set (entries m))"
  by (auto simp: entries_lookup wf_update lookup_update)

lemma entries_remove:
  "wf m \<Longrightarrow> (j, w) \<in> set (entries (remove k m)) \<longleftrightarrow> j \<noteq> k \<and> (j, w) \<in> set (entries m)"
  by (auto simp: entries_lookup wf_remove lookup_remove)

lemma update_remove_entries:
  "wf m \<Longrightarrow> (j, w) \<in> set (entries (update k v (remove k m))) \<longleftrightarrow>
     (if j = k then w = v else (j, w) \<in> set (entries m))"
  by (auto simp: entries_update entries_remove wf_remove)

lemma entries_unique:
  assumes "wf m" "(k, v) \<in> set (entries m)" "(k, w) \<in> set (entries m)"
  shows "v = w"
  using assms by (simp add: entries_lookup)

end

definition wf_alist :: "('k \<times> 'v) list \<Rightarrow> bool" where
  "wf_alist m \<longleftrightarrow> distinct (map fst m)"

interpretation al: go_map map_of AList.update AList.delete "\<lambda>m. m" wf_alist
proof unfold_locales
  fix k :: 'k and v :: 'v and m :: "('k \<times> 'v) list"
  show "map_of (AList.update k v m) = (map_of m)(k \<mapsto> v)"
    by (rule AList.update_conv')
  show "map_of (AList.delete k m) = (map_of m)(k := None)"
    by (rule AList.delete_conv')
  show "wf_alist m \<Longrightarrow> wf_alist (AList.update k v m)"
    unfolding wf_alist_def by (rule AList.distinct_update)
  show "wf_alist m \<Longrightarrow> wf_alist (AList.delete k m)"
    unfolding wf_alist_def by (rule AList.distinct_delete)
  show "wf_alist m \<Longrightarrow> (k, v) \<in> set m \<longleftrightarrow> map_of m k = Some v"
    unfolding wf_alist_def by (simp add: map_of_eq_Some_iff)
  show "wf_alist m \<Longrightarrow> distinct (map fst m)"
    by (simp add: wf_alist_def)
qed

lemma wf_alist_Nil [simp, intro]: "wf_alist []"
  by (simp add: wf_alist_def)

lemma alist_ball:
  assumes "wf_alist m"
  shows "(\<forall>(k, v) \<in> set m. Q k v) \<longleftrightarrow> (\<forall>k v. map_of m k = Some v \<longrightarrow> Q k v)"
  using al.entries_lookup [OF assms] by (metis (no_types, lifting) case_prodE case_prodI2 case_prodD)

lemma map_of_filter_value:
  assumes "wf_alist m"
  shows "map_of (filter (\<lambda>(k, v). P v) m) k =
    (case map_of m k of None \<Rightarrow> None | Some v \<Rightarrow> if P v then Some v else None)"
  using assms
proof (induction m)
  case Nil
  then show ?case by simp
next
  case (Cons p m)
  obtain j v where p: "p = (j, v)" by fastforce
  from Cons.prems have "wf_alist m" and "map_of m j = None"
    by (simp_all add: wf_alist_def p map_of_eq_None_iff)
  then show ?case using Cons.IH by (cases "k = j") (simp_all add: p)
qed

text \<open>\<^verbatim>\<open>m[k]\<close> on a map of strings or byte slices: the zero value when the key is absent.\<close>

definition gomap_get :: "string gomap \<Rightarrow> string \<Rightarrow> string" where
  "gomap_get m k = (case map_of m k of None \<Rightarrow> [] | Some v \<Rightarrow> v)"

text \<open>An order in which \<^verbatim>\<open>range\<close> may visit a map of the state.\<close>

definition range_order :: "('a list \<Rightarrow> 'a list) \<Rightarrow> bool" where
  "range_order ord \<longleftrightarrow> (\<forall>xs. mset (ord xs) = mset xs)"

lemma range_order_set: "range_order ord \<Longrightarrow> set (ord xs) = set xs"
  by (metis range_order_def set_mset_mset)

lemma range_order_length: "range_order ord \<Longrightarrow> length (ord xs) = length xs"
  by (metis range_order_def size_mset)

lemma range_order_Nil: "range_order ord \<Longrightarrow> ord [] = []"
  using range_order_length [of ord "[]"] by simp

lemma range_order_id [simp, intro]: "range_order (\<lambda>xs. xs)"
  by (simp add: range_order_def)

lemma mset_concat_map_perm:
  "mset xs = mset ys \<Longrightarrow> mset (concat (map f xs)) = mset (concat (map f ys))"
proof -
  assume "mset xs = mset ys"
  then have "mset (map (mset \<circ> f) xs) = mset (map (mset \<circ> f) ys)"
    by (metis mset_map)
  then show ?thesis
    by (metis mset_concat map_map sum_mset_sum_list)
qed

section \<open>Transition systems\<close>

text \<open>
  A component as a transition system with an invariant: what holds initially and is kept by every
  step holds in every reachable state.
\<close>

locale transition_system =
  fixes init :: "'s \<Rightarrow> bool" and step :: "'s \<Rightarrow> 's \<Rightarrow> bool" and inv :: "'s \<Rightarrow> bool"
  assumes init_inv: "init s \<Longrightarrow> inv s"
    and step_inv: "inv s \<Longrightarrow> step s s' \<Longrightarrow> inv s'"
begin

lemma steps_inv: "step\<^sup>*\<^sup>* s s' \<Longrightarrow> inv s \<Longrightarrow> inv s'"
  by (induction rule: rtranclp_induct) (auto intro: step_inv)

lemma reachable_inv: "init s \<Longrightarrow> step\<^sup>*\<^sup>* s s' \<Longrightarrow> inv s'"
  using steps_inv init_inv by blast

end

section \<open>Strings\<close>

fun strings_Join :: "string list \<Rightarrow> string \<Rightarrow> string" where
  "strings_Join [] sep = []"
| "strings_Join [x] sep = x"
| "strings_Join (x # y # xs) sep = x @ sep @ strings_Join (y # xs) sep"

text \<open>\<^verbatim>\<open>strings.Split(s, c)\<close> for a separator of one character.\<close>

fun strings_Split :: "string \<Rightarrow> char \<Rightarrow> string list" where
  "strings_Split [] c = [[]]"
| "strings_Split (x # xs) c =
     (if x = c then [] # strings_Split xs c
      else case strings_Split xs c of
          [] \<Rightarrow> [[x]]
        | p # ps \<Rightarrow> (x # p) # ps)"

lemma strings_Split_no_sep: "c \<notin> set s \<Longrightarrow> strings_Split s c = [s]"
  by (induction s) auto

lemma strings_Split_append:
  "c \<notin> set s \<Longrightarrow> strings_Split (s @ c # t) c = s # strings_Split t c"
  by (induction s) auto

lemma strings_Split_Join:
  assumes "xs \<noteq> []" and "\<And>x. x \<in> set xs \<Longrightarrow> c \<notin> set x"
  shows "strings_Split (strings_Join xs [c]) c = xs"
  using assms
proof (induction xs "[c]" rule: strings_Join.induct)
  case 1
  then show ?case by simp
next
  case (2 x)
  then show ?case by (simp add: strings_Split_no_sep)
next
  case (3 x y xs)
  then show ?case by (simp add: strings_Split_append)
qed

abbreviation strings_HasPrefix :: "string \<Rightarrow> string \<Rightarrow> bool" where
  "strings_HasPrefix s p \<equiv> prefix p s"

definition ascii_lower :: "char \<Rightarrow> char" where
  "ascii_lower c = (if of_char c \<in> {65..90::nat} then char_of (of_char c + (32::nat)) else c)"

text \<open>
  \<^verbatim>\<open>strings.EqualFold(s, "true")\<close>: none of the letters of the second argument has a case
  variant outside ASCII, so folding ASCII letters decides it.
\<close>

definition strings_EqualFold :: "string \<Rightarrow> string \<Rightarrow> bool" where
  "strings_EqualFold s t \<longleftrightarrow> map ascii_lower s = map ascii_lower t"

text \<open>\<^verbatim>\<open>strconv.Itoa\<close> and \<^verbatim>\<open>%d\<close> on a non-negative number.\<close>

fun nat_str :: "nat \<Rightarrow> string" where
  "nat_str n = (if n < 10 then [char_of (48 + n)] else nat_str (n div 10) @ [char_of (48 + n mod 10)])"

declare nat_str.simps [simp del]

text \<open>The number a string of decimal digits denotes.\<close>

definition str_nat :: "string \<Rightarrow> nat" where
  "str_nat s = foldl (\<lambda>n c. 10 * n + (of_char c - 48)) 0 s"

lemma str_nat_nat_str: "str_nat (nat_str n) = n"
proof (induction n rule: nat_str.induct)
  case (1 n)
  show ?case
  proof (cases "n < 10")
    case True
    then show ?thesis
      by (simp add: str_nat_def nat_str.simps [of n])
  next
    case False
    then have IH: "foldl (\<lambda>n c. 10 * n + (of_char c - 48)) 0 (nat_str (n div 10)) = n div 10"
      using "1.IH" by (simp add: str_nat_def)
    have "n mod 10 < 10" by simp
    with False show ?thesis
      by (simp add: str_nat_def nat_str.simps [of n] IH)
  qed
qed

lemma nat_str_inj: "nat_str m = nat_str n \<Longrightarrow> m = n"
  by (metis str_nat_nat_str)

text \<open>\<^verbatim>\<open>sets.String.List()\<close>: the members in increasing order.\<close>

definition sets_List :: "string set \<Rightarrow> string list" where
  "sets_List s = sorted_list_of_set s"

end
