(* ===== verification/Kube_Types.thy ===== *)
theory Kube_Types
  imports Prelude
begin

text \<open>
  The Kubernetes and Knative objects the control plane reads, with the fields it reads:
  secrets, services, endpoints, nodes and Calico IPAM blocks, and the Knative \<^verbatim>\<open>Ingress\<close>.
  Pointer fields are options; maps are association lists.
\<close>

record NamespacedName =
  nn_Namespace :: string
  nn_Name :: string

lemma NamespacedName_collapse [simp]: "\<lparr>nn_Namespace = nn_Namespace k, nn_Name = nn_Name k\<rparr> = k"
  by simp

section \<open>Core objects\<close>

record Secret =
  sec_Data :: "bytes gomap"

datatype ServiceType = ClusterIP | NodePort | LoadBalancer | ExternalName

text \<open>
  A service port: \<open>sp_TargetPort\<close> is the \<^verbatim>\<open>IntVal\<close> of the target port, which is 0 when the
  target port is given by name.
\<close>

record ServicePort =
  sp_Name :: string
  sp_Port :: "32 word"
  sp_TargetPort :: "32 word"

record Service =
  svc_Type :: ServiceType
  svc_ExternalName :: string
  svc_Ports :: "ServicePort list"

record EndpointAddress =
  ea_IP :: string
  ea_NodeName :: "string option"

record EndpointSubset =
  es_Addresses :: "EndpointAddress list"

record Endpoints =
  ep_Subsets :: "EndpointSubset list"

record NodeAddress =
  na_Address :: string

record Node =
  nd_Name :: string
  nd_Addresses :: "NodeAddress list"

section \<open>Knative Ingress\<close>

text \<open>\<^verbatim>\<open>intstr.IntOrString\<close>: both values; the one that is not meant is zero.\<close>

record IntOrString =
  ios_IntVal :: "32 word"
  ios_StrVal :: string

record IngressBackendSplit =
  bs_ServiceNamespace :: string
  bs_ServiceName :: string
  bs_ServicePort :: IntOrString
  bs_Percent :: int
  bs_AppendHeaders :: "string gomap"

text \<open>\<open>hp_Headers\<close> maps a header to the exact value to match, which may be empty.\<close>

record HTTPIngressPath =
  hp_Path :: string
  hp_RewriteHost :: string
  hp_Headers :: "string gomap"
  hp_Splits :: "IngressBackendSplit list"
  hp_AppendHeaders :: "string gomap"

text \<open>\<^verbatim>\<open>IngressVisibility\<close> is a string; \<open>VisibilityOther\<close> stands for any other value.\<close>

datatype IngressVisibility = ExternalIP | ClusterLocal | VisibilityOther string

fun visibility_str :: "IngressVisibility \<Rightarrow> string" where
  "visibility_str ExternalIP = ''ExternalIP''"
| "visibility_str ClusterLocal = ''ClusterLocal''"
| "visibility_str (VisibilityOther s) = s"

datatype HTTPOption = HTTPOptionEnabled | HTTPOptionRedirected | HTTPOptionUnset

record IngressRule =
  ir_Hosts :: "string list"
  ir_Visibility :: IngressVisibility
  ir_HTTP :: "HTTPIngressPath list option"

record IngressTLS =
  it_Hosts :: "string list"
  it_SecretName :: string
  it_SecretNamespace :: string

record Ingress =
  ing_Namespace :: string
  ing_Name :: string
  ing_Annotations :: "string gomap"
  ing_Labels :: "string gomap"
  ing_TLS :: "IngressTLS list"
  ing_Rules :: "IngressRule list"
  ing_HTTPOption :: HTTPOption

end
