(* ===== verification/Sni.thy ===== *)
theory Sni
  imports Kube_Types
begin

text \<open>
  SNI matches, \<^verbatim>\<open>SNIMatch\<close> of \<^verbatim>\<open>pkg/envoy/api/listener.go\<close> and their deduplication in
  \<^verbatim>\<open>pkg/generator/sni.go\<close>. \<^verbatim>\<open>consume\<close> keeps the pointer of the first match of every certificate
  source and appends the hosts of later matches to the object it points to, so matches live
  in an explicit heap: a pointer is an index into the list of allocated matches.
\<close>

record SNIMatch =
  sm_Hosts :: "string list"
  sm_CertSource :: NamespacedName
  sm_CertificateChain :: bytes
  sm_PrivateKey :: bytes

type_synonym sni_heap = "SNIMatch list"

record dedupedSNIMatch =
  dd_sniMatch :: nat
  dd_hosts :: "string set"

type_synonym sniMatches = "(NamespacedName \<times> dedupedSNIMatch) list"

text \<open>One iteration of the loop over the hosts of a further match.\<close>

definition consume_host :: "sni_heap \<times> dedupedSNIMatch \<Rightarrow> string \<Rightarrow> sni_heap \<times> dedupedSNIMatch" where
  "consume_host hs host =
     (let (h, state) = hs in
      if host \<notin> dd_hosts state
      then (h[dd_sniMatch state :=
               (h ! dd_sniMatch state)\<lparr>sm_Hosts := sm_Hosts (h ! dd_sniMatch state) @ [host]\<rparr>],
            state\<lparr>dd_hosts := insert host (dd_hosts state)\<rparr>)
      else (h, state))"

definition consume :: "sni_heap \<times> sniMatches \<Rightarrow> nat \<Rightarrow> sni_heap \<times> sniMatches" where
  "consume hs m =
     (let (h, s) = hs; match = h ! m in
      case map_of s (sm_CertSource match) of
        None \<Rightarrow>
          (h, AList.update (sm_CertSource match)
                \<lparr>dd_sniMatch = m, dd_hosts = set (sm_Hosts match)\<rparr> s)
      | Some state \<Rightarrow>
          (let (h', state') = foldl consume_host (h, state) (sm_Hosts match)
           in (h', AList.update (sm_CertSource match) state' s)))"

definition consume_all :: "sni_heap \<times> sniMatches \<Rightarrow> nat list \<Rightarrow> sni_heap \<times> sniMatches" where
  "consume_all hs ms = foldl consume hs ms"

text \<open>\<^verbatim>\<open>list()\<close>: the pointers of the collapsed matches, in the order the map is visited.\<close>

definition sni_list ::
  "((NamespacedName \<times> dedupedSNIMatch) list \<Rightarrow> (NamespacedName \<times> dedupedSNIMatch) list) \<Rightarrow>
   sniMatches \<Rightarrow> nat list" where
  "sni_list ord s =
     (if length s = 0 then [] else map (\<lambda>(k, match). dd_sniMatch match) (ord s))"

section \<open>The host loop\<close>

lemma consume_host_frame:
  "length (fst (consume_host (h, st) x)) = length h"
  "dd_sniMatch (snd (consume_host (h, st) x)) = dd_sniMatch st"
  "q \<noteq> dd_sniMatch st \<Longrightarrow> fst (consume_host (h, st) x) ! q = h ! q"
  by (auto simp: consume_host_def)

text \<open>
  The loop over hosts appends the new ones, without repetition, to the object of the state and
  keeps the state's set equal to the object's hosts. No other object changes.
\<close>

lemma consume_hosts:
  assumes "foldl consume_host (h, st) xs = (h', st')"
    and "dd_sniMatch st < length h" "dd_hosts st = set (sm_Hosts (h ! dd_sniMatch st))"
  shows "length h' = length h \<and> dd_sniMatch st' = dd_sniMatch st \<and>
    (\<forall>q. q \<noteq> dd_sniMatch st \<longrightarrow> h' ! q = h ! q) \<and>
    (\<exists>new. h' ! dd_sniMatch st =
       (h ! dd_sniMatch st)\<lparr>sm_Hosts := sm_Hosts (h ! dd_sniMatch st) @ new\<rparr> \<and>
       distinct new \<and> set new = set xs - set (sm_Hosts (h ! dd_sniMatch st))) \<and>
    dd_hosts st' = set (sm_Hosts (h' ! dd_sniMatch st))"
  using assms
proof (induction xs arbitrary: h' st' rule: rev_induct)
  case Nil
  then show ?case by (auto intro: exI [of _ "[]"])
next
  case (snoc x xs)
  obtain h1 st1 where 1: "foldl consume_host (h, st) xs = (h1, st1)" by fastforce
  note IH = snoc.IH [OF 1 snoc.prems(2,3)]
  let ?p = "dd_sniMatch st"
  from IH obtain new where new: "h1 ! ?p = (h ! ?p)\<lparr>sm_Hosts := sm_Hosts (h ! ?p) @ new\<rparr>"
    "distinct new" "set new = set xs - set (sm_Hosts (h ! ?p))" by blast
  have last: "consume_host (h1, st1) x = (h', st')" using snoc.prems(1) 1 by simp
  show ?case
  proof (cases "x \<in> dd_hosts st1")
    case True
    with last have "h' = h1" "st' = st1" by (simp_all add: consume_host_def)
    with True IH new show ?thesis by (auto intro!: exI [of _ new])
  next
    case False
    with last IH have h': "h' = h1[?p := (h1 ! ?p)\<lparr>sm_Hosts := sm_Hosts (h1 ! ?p) @ [x]\<rparr>]"
      and st': "st' = st1\<lparr>dd_hosts := insert x (dd_hosts st1)\<rparr>"
      by (simp_all add: consume_host_def)
    from IH snoc.prems(2) have len: "?p < length h1" by simp
    have "x \<notin> set (sm_Hosts (h1 ! ?p))" using False IH by simp
    with h' st' len IH new show ?thesis
      by (auto intro!: exI [of _ "new @ [x]"])
  qed
qed

section \<open>The invariant and what a sequence of matches collapses to\<close>

definition sni_inv :: "sni_heap \<times> sniMatches \<Rightarrow> bool" where
  "sni_inv hs \<longleftrightarrow>
     (let (h, s) = hs in
      wf_alist s \<and>
      (\<forall>(src, st) \<in> set s. dd_sniMatch st < length h \<and>
         sm_CertSource (h ! dd_sniMatch st) = src \<and>
         dd_hosts st = set (sm_Hosts (h ! dd_sniMatch st))))"

lemma sni_inv_empty [simp]: "sni_inv (h, [])"
  by (simp add: sni_inv_def)

text \<open>One match: a new entry for a new source, or the host loop on the entry of its source.\<close>

lemma consume_cases:
  assumes "sni_inv (h, s)" "m < length h"
  obtains (fresh) "map_of s (sm_CertSource (h ! m)) = None"
      "consume (h, s) m = (h, AList.update (sm_CertSource (h ! m))
         \<lparr>dd_sniMatch = m, dd_hosts = set (sm_Hosts (h ! m))\<rparr> s)"
  | (merge) st h' st' where "map_of s (sm_CertSource (h ! m)) = Some st"
      "foldl consume_host (h, st) (sm_Hosts (h ! m)) = (h', st')"
      "consume (h, s) m = (h', AList.update (sm_CertSource (h ! m)) st' s)"
proof (cases "map_of s (sm_CertSource (h ! m))")
  case None
  then show ?thesis using fresh by (simp add: consume_def Let_def)
next
  case (Some st)
  obtain h' st' where "foldl consume_host (h, st) (sm_Hosts (h ! m)) = (h', st')" by fastforce
  then show ?thesis using merge Some by (simp add: consume_def Let_def)
qed

lemma sni_inv_iff:
  "sni_inv (h, s) \<longleftrightarrow> wf_alist s \<and> (\<forall>src st. map_of s src = Some st \<longrightarrow>
     dd_sniMatch st < length h \<and> sm_CertSource (h ! dd_sniMatch st) = src \<and>
     dd_hosts st = set (sm_Hosts (h ! dd_sniMatch st)))"
  by (simp add: sni_inv_def alist_ball cong: conj_cong)

lemma sni_inv_lookup:
  assumes "sni_inv (h, s)" "map_of s src = Some st"
  shows "dd_sniMatch st < length h" "sm_CertSource (h ! dd_sniMatch st) = src"
    "dd_hosts st = set (sm_Hosts (h ! dd_sniMatch st))"
  using assms by (simp_all add: sni_inv_iff)

lemma sni_inv_ptr_inj:
  assumes "sni_inv (h, s)" "map_of s a = Some st" "map_of s b = Some st'"
    "dd_sniMatch st = dd_sniMatch st'"
  shows "a = b"
  using sni_inv_lookup [OF assms(1,2)] sni_inv_lookup [OF assms(1,3)] assms(4) by simp

lemma consume_inv:
  assumes "sni_inv (h, s)" "m < length h" "consume (h, s) m = (h', s')"
  shows "sni_inv (h', s') \<and> length h' = length h"
proof (cases rule: consume_cases [OF assms(1,2)])
  case 1
  with assms show ?thesis
    by (auto simp: sni_inv_iff al.wf_update al.lookup_update split: if_splits)
next
  case (2 st h1 st1)
  note merge = this
  have eqs: "h' = h1" "s' = AList.update (sm_CertSource (h ! m)) st1 s"
    using merge assms(3) by simp_all
  note st = sni_inv_lookup [OF assms(1) merge(1)]
  note loop = consume_hosts [OF merge(2) st(1,3)]
  have "dd_sniMatch st' < length h1 \<and> sm_CertSource (h1 ! dd_sniMatch st') = src \<and>
      dd_hosts st' = set (sm_Hosts (h1 ! dd_sniMatch st'))"
    if "map_of s' src = Some st'" for src st'
  proof (cases "src = sm_CertSource (h ! m)")
    case True
    with that eqs have "st' = st1" by (simp add: al.lookup_update)
    with True st loop show ?thesis by auto
  next
    case False
    with that eqs have l: "map_of s src = Some st'" by (simp add: al.lookup_update)
    with False have "dd_sniMatch st' \<noteq> dd_sniMatch st"
      using sni_inv_ptr_inj [OF assms(1) l merge(1)] by blast
    with loop sni_inv_lookup [OF assms(1) l] show ?thesis by simp
  qed
  then show ?thesis
    using assms(1) eqs loop by (auto simp: sni_inv_iff al.wf_update)
qed

text \<open>
  What a sequence of matches collapses to, over the heap it starts from: the entries are the
  certificate sources of the matches; an entry points to the first match of its source, whose
  hosts are now those of all matches of the source; every object that is not the first of its
  source is unchanged, and so are the certificates and keys of all of them.
\<close>

definition source_hosts :: "sni_heap \<Rightarrow> nat list \<Rightarrow> NamespacedName \<Rightarrow> string set" where
  "source_hosts h ms src = \<Union> (set (map (\<lambda>m. set (sm_Hosts (h ! m)))
     (filter (\<lambda>m. sm_CertSource (h ! m) = src) ms)))"

definition collapsed :: "sni_heap \<Rightarrow> nat list \<Rightarrow> sni_heap \<times> sniMatches \<Rightarrow> bool" where
  "collapsed h ms hs \<longleftrightarrow>
     (let (h', s) = hs in
      length h' = length h \<and>
      (\<forall>q. sm_CertSource (h' ! q) = sm_CertSource (h ! q) \<and>
           sm_CertificateChain (h' ! q) = sm_CertificateChain (h ! q) \<and>
           sm_PrivateKey (h' ! q) = sm_PrivateKey (h ! q)) \<and>
      (\<forall>q. (\<forall>st. map_of s (sm_CertSource (h ! q)) = Some st \<longrightarrow> dd_sniMatch st \<noteq> q) \<longrightarrow>
           h' ! q = h ! q) \<and>
      (\<forall>src. map_option dd_sniMatch (map_of s src) =
           find (\<lambda>m. sm_CertSource (h ! m) = src) ms) \<and>
      (\<forall>src st. map_of s src = Some st \<longrightarrow>
           set (sm_Hosts (h' ! dd_sniMatch st)) = source_hosts h ms src))"

lemma find_snoc: "find P (xs @ [x]) = (case find P xs of None \<Rightarrow> if P x then Some x else None | r \<Rightarrow> r)"
  by (induction xs) auto

lemma source_hosts_snoc:
  "source_hosts h (ms @ [m]) src =
     source_hosts h ms src \<union> (if sm_CertSource (h ! m) = src then set (sm_Hosts (h ! m)) else {})"
  by (auto simp: source_hosts_def)

lemma source_hosts_none:
  "find (\<lambda>m. sm_CertSource (h ! m) = src) ms = None \<Longrightarrow> source_hosts h ms src = {}"
  by (auto simp: source_hosts_def find_None_iff)

lemma find_mem: "find P xs = Some x \<Longrightarrow> x \<in> set xs \<and> P x"
  by (auto simp: find_Some_iff)

lemma consume_all_snoc: "consume_all hs (ms @ [m]) = consume (consume_all hs ms) m"
  by (simp add: consume_all_def)

lemma consume_all_inv:
  assumes "\<forall>m \<in> set ms. m < length h"
  shows "sni_inv (consume_all (h, []) ms) \<and> length (fst (consume_all (h, []) ms)) = length h"
  using assms
proof (induction ms rule: rev_induct)
  case Nil
  then show ?case by (simp add: consume_all_def)
next
  case (snoc m ms)
  obtain h1 s1 where 1: "consume_all (h, []) ms = (h1, s1)" by fastforce
  obtain h2 s2 where 2: "consume (h1, s1) m = (h2, s2)" by fastforce
  have "sni_inv (h1, s1)" "m < length h1" "length h1 = length h" using snoc 1 by auto
  then show ?case using consume_inv [OF _ _ 2] by (simp add: consume_all_snoc 1 2)
qed

lemma collapsedD:
  assumes "collapsed h ms (h1, s1)"
  shows "length h1 = length h"
    and "sm_CertSource (h1 ! q) = sm_CertSource (h ! q)"
    and "sm_CertificateChain (h1 ! q) = sm_CertificateChain (h ! q)"
    and "sm_PrivateKey (h1 ! q) = sm_PrivateKey (h ! q)"
    and "(\<And>st. map_of s1 (sm_CertSource (h ! q)) = Some st \<Longrightarrow> dd_sniMatch st \<noteq> q) \<Longrightarrow>
      h1 ! q = h ! q"
    and "map_option dd_sniMatch (map_of s1 src) = find (\<lambda>m. sm_CertSource (h ! m) = src) ms"
    and "map_of s1 src = Some st \<Longrightarrow>
      set (sm_Hosts (h1 ! dd_sniMatch st)) = source_hosts h ms src"
  using assms by (auto simp: collapsed_def)

lemma consume_collapsed_fresh:
  assumes c: "collapsed h ms (h1, s1)" and none: "map_of s1 (sm_CertSource (h ! m)) = None"
    and s2: "map_of s2 = (map_of s1)(sm_CertSource (h ! m) \<mapsto>
      \<lparr>dd_sniMatch = m, dd_hosts = set (sm_Hosts (h1 ! m))\<rparr>)"
  shows "collapsed h (ms @ [m]) (h1, s2)"
proof -
  let ?src = "sm_CertSource (h ! m)"
  note c = collapsedD [OF c]
  have hm: "h1 ! m = h ! m" by (rule c(5)) (simp add: none)
  have empty: "source_hosts h ms ?src = {}"
    using c(6) [of ?src] none by (intro source_hosts_none) simp
  have "h1 ! q = h ! q"
    if "\<And>st. map_of s2 (sm_CertSource (h ! q)) = Some st \<Longrightarrow> dd_sniMatch st \<noteq> q" for q
  proof (rule c(5))
    fix st assume l: "map_of s1 (sm_CertSource (h ! q)) = Some st"
    with none have "sm_CertSource (h ! q) \<noteq> ?src" by auto
    with l that [of st] show "dd_sniMatch st \<noteq> q" by (simp add: s2)
  qed
  moreover have "map_option dd_sniMatch (map_of s2 src) =
      find (\<lambda>m. sm_CertSource (h ! m) = src) (ms @ [m])" for src
    using c(6) [of src] none by (auto simp: s2 find_snoc split: option.splits)
  moreover have "set (sm_Hosts (h1 ! dd_sniMatch st)) = source_hosts h (ms @ [m]) src"
    if "map_of s2 src = Some st" for src st
    using that c(7) [of src] empty hm by (auto simp: s2 source_hosts_snoc split: if_splits)
  ultimately show ?thesis
    unfolding collapsed_def using c(1-4) by auto
qed

text \<open>
  The hosts a match contributes: either its object is untouched so far, or it is the first of
  its source and all it holds comes from matches already seen.
\<close>

lemma collapsed_hosts:
  assumes c: "collapsed h ms (h1, s1)" and st: "map_of s1 (sm_CertSource (h ! m)) = Some st"
  shows "set (sm_Hosts (h1 ! m)) \<union> source_hosts h ms (sm_CertSource (h ! m)) =
    set (sm_Hosts (h ! m)) \<union> source_hosts h ms (sm_CertSource (h ! m))"
proof (cases "dd_sniMatch st = m")
  case True
  then have "m \<in> set ms"
    using collapsedD(6) [OF c, of "sm_CertSource (h ! m)"] st find_mem [of _ ms] by fastforce
  then have "set (sm_Hosts (h ! m)) \<subseteq> source_hosts h ms (sm_CertSource (h ! m))"
    by (auto simp: source_hosts_def)
  then show ?thesis using collapsedD(7) [OF c st] True by auto
next
  case False
  then show ?thesis using collapsedD(5) [OF c, of m] st by simp
qed

lemma consume_collapsed_merge:
  assumes c: "collapsed h ms (h1, s1)" and i: "sni_inv (h1, s1)"
    and st: "map_of s1 (sm_CertSource (h ! m)) = Some st"
    and loop: "foldl consume_host (h1, st) (sm_Hosts (h1 ! m)) = (h2, st')"
    and s2: "map_of s2 = (map_of s1)(sm_CertSource (h ! m) \<mapsto> st')"
  shows "collapsed h (ms @ [m]) (h2, s2)"
proof -
  let ?src = "sm_CertSource (h ! m)" and ?p = "dd_sniMatch st"
  note L = sni_inv_lookup [OF i st] and cd = collapsedD [OF c]
  note loop = consume_hosts [OF loop L(1,3)]
  obtain new where new: "h2 ! ?p = (h1 ! ?p)\<lparr>sm_Hosts := sm_Hosts (h1 ! ?p) @ new\<rparr>"
    "set new = set (sm_Hosts (h1 ! m)) - set (sm_Hosts (h1 ! ?p))" using loop by blast
  have others: "h2 ! q = h1 ! q" if "q \<noteq> ?p" for q using loop that by simp
  have ptr: "dd_sniMatch st' = ?p" using loop by simp
  have "sm_CertSource (h2 ! q) = sm_CertSource (h ! q) \<and>
      sm_CertificateChain (h2 ! q) = sm_CertificateChain (h ! q) \<and>
      sm_PrivateKey (h2 ! q) = sm_PrivateKey (h ! q)" for q
    using others [of q] cd(2-4) [of q] new(1) by (cases "q = ?p") auto
  moreover have "h2 ! q = h ! q"
    if q: "\<And>st. map_of s2 (sm_CertSource (h ! q)) = Some st \<Longrightarrow> dd_sniMatch st \<noteq> q" for q
  proof -
    have p: "q \<noteq> ?p" using q [of st'] ptr L(2) cd(2) s2 by auto
    have "dd_sniMatch st1 \<noteq> q" if "map_of s1 (sm_CertSource (h ! q)) = Some st1" for st1
      using that p st q [of st1] by (cases "sm_CertSource (h ! q) = ?src") (auto simp: s2)
    then show ?thesis using others [OF p] cd(5) by simp
  qed
  moreover have "map_option dd_sniMatch (map_of s2 src) =
      find (\<lambda>m. sm_CertSource (h ! m) = src) (ms @ [m])" for src
    using cd(6) [of src] st ptr by (auto simp: s2 find_snoc split: option.splits)
  moreover have "set (sm_Hosts (h2 ! dd_sniMatch st2)) = source_hosts h (ms @ [m]) src"
    if l: "map_of s2 src = Some st2" for src st2
  proof (cases "src = ?src")
    case True
    then have "set (sm_Hosts (h2 ! dd_sniMatch st2)) =
        set (sm_Hosts (h1 ! m)) \<union> source_hosts h ms ?src"
      using l ptr new s2 cd(7) [OF st] by auto
    then show ?thesis using True collapsed_hosts [OF c st] by (auto simp: source_hosts_snoc)
  next
    case False
    then have l1: "map_of s1 src = Some st2" using l s2 by simp
    have "dd_sniMatch st2 \<noteq> ?p" using False sni_inv_ptr_inj [OF i l1 st] by blast
    then show ?thesis
      using False cd(7) [OF l1] others by (simp add: source_hosts_snoc)
  qed
  ultimately show ?thesis
    unfolding collapsed_def using cd(1) loop by auto
qed

lemma consume_collapsed:
  assumes c: "collapsed h ms (h1, s1)" and i: "sni_inv (h1, s1)" and m: "m < length h"
    and step: "consume (h1, s1) m = (h2, s2)"
  shows "collapsed h (ms @ [m]) (h2, s2)"
proof -
  note cd = collapsedD [OF c]
  from m have m1: "m < length h1" by (simp add: cd(1))
  show ?thesis
  proof (cases rule: consume_cases [OF i m1])
    case 1
    then show ?thesis
      using consume_collapsed_fresh [OF c, of m s2] step cd(2) [of m] by (simp add: al.lookup_update)
  next
    case (2 st h' st')
    then show ?thesis
      using consume_collapsed_merge [OF c i _ 2(2), of s2] step cd(2) [of m]
      by (simp add: al.lookup_update)
  qed
qed

lemma consume_all_collapsed:
  assumes "\<forall>m \<in> set ms. m < length h"
  shows "collapsed h ms (consume_all (h, []) ms)"
  using assms
proof (induction ms rule: rev_induct)
  case Nil
  then show ?case by (simp add: consume_all_def collapsed_def)
next
  case (snoc m ms)
  obtain h1 s1 where 1: "consume_all (h, []) ms = (h1, s1)" by fastforce
  obtain h2 s2 where 2: "consume (h1, s1) m = (h2, s2)" by fastforce
  have "sni_inv (h1, s1)" using consume_all_inv [of ms h] snoc.prems 1 by simp
  then show ?case
    using consume_collapsed [OF _ _ _ 2, of h ms] snoc 1 by (simp add: consume_all_snoc 2)
qed

section \<open>Properties\<close>

lemma set_sni_list: "range_order ord \<Longrightarrow> set (sni_list ord s) = (\<lambda>(k, d). dd_sniMatch d) ` set s"
  by (auto simp: sni_list_def range_order_set image_iff)

lemma sni_list_ptr:
  assumes "range_order ord" "sni_inv (h', s)" "p \<in> set (sni_list ord s)"
  obtains st where "map_of s (sm_CertSource (h' ! p)) = Some st" "dd_sniMatch st = p"
proof -
  obtain k st where kst: "(k, st) \<in> set s" "p = dd_sniMatch st"
    using assms(1,3) by (auto simp: set_sni_list)
  then have l: "map_of s k = Some st" using assms(2) by (simp add: sni_inv_iff wf_alist_def)
  then show thesis using that sni_inv_lookup(2) [OF assms(2) l] kst(2) by simp
qed

text \<open>
  Deduplication of SNI matches: consuming a list of matches and listing the result gives
  exactly one match per certificate source, the first one of that source, with the certificate
  and key it had and with the hosts of all matches of the source.
\<close>

lemma sni_dedup:
  assumes "\<forall>m \<in> set ms. m < length h" "consume_all (h, []) ms = (h', s)" "range_order ord"
  shows "distinct (map (\<lambda>p. sm_CertSource (h' ! p)) (sni_list ord s)) \<and>
    (\<lambda>p. sm_CertSource (h' ! p)) ` set (sni_list ord s) = (\<lambda>m. sm_CertSource (h ! m)) ` set ms \<and>
    (\<forall>p \<in> set (sni_list ord s).
       find (\<lambda>m. sm_CertSource (h ! m) = sm_CertSource (h' ! p)) ms = Some p \<and>
       sm_CertificateChain (h' ! p) = sm_CertificateChain (h ! p) \<and>
       sm_PrivateKey (h' ! p) = sm_PrivateKey (h ! p) \<and>
       set (sm_Hosts (h' ! p)) = source_hosts h ms (sm_CertSource (h' ! p)))"
proof -
  have inv: "sni_inv (h', s)" using consume_all_inv [OF assms(1)] assms(2) by simp
  note C = collapsedD [OF consume_all_collapsed [OF assms(1), unfolded assms(2)]]
  have each: "find (\<lambda>m. sm_CertSource (h ! m) = sm_CertSource (h' ! p)) ms = Some p \<and>
      sm_CertificateChain (h' ! p) = sm_CertificateChain (h ! p) \<and>
      sm_PrivateKey (h' ! p) = sm_PrivateKey (h ! p) \<and>
      set (sm_Hosts (h' ! p)) = source_hosts h ms (sm_CertSource (h' ! p))"
    if p: "p \<in> set (sni_list ord s)" for p
  proof -
    obtain st where st: "map_of s (sm_CertSource (h' ! p)) = Some st" "dd_sniMatch st = p"
      by (rule sni_list_ptr [OF assms(3) inv p])
    then show ?thesis using C(3,4) C(6) [of "sm_CertSource (h' ! p)"] C(7) [OF st(1)] by simp
  qed
  have "sm_CertSource (h ! m) \<in> (\<lambda>p. sm_CertSource (h' ! p)) ` set (sni_list ord s)" if m: "m \<in> set ms" for m
  proof -
    have "find (\<lambda>n. sm_CertSource (h ! n) = sm_CertSource (h ! m)) ms \<noteq> None"
      using m by (auto simp: find_None_iff)
    then obtain st where st: "map_of s (sm_CertSource (h ! m)) = Some st"
      using C(6) [of "sm_CertSource (h ! m)"] by auto
    then have "dd_sniMatch st \<in> set (sni_list ord s)"
      by (force simp: set_sni_list [OF assms(3)] dest: map_of_SomeD)
    then show ?thesis using sni_inv_lookup(2) [OF inv st] by force
  qed
  moreover have "sm_CertSource (h' ! p) \<in> (\<lambda>m. sm_CertSource (h ! m)) ` set ms" if "p \<in> set (sni_list ord s)" for p
    using each [OF that] find_mem [of _ ms p] by force
  moreover have "map (\<lambda>p. sm_CertSource (h' ! p)) (sni_list ord s) = map fst (ord s)"
    using inv range_order_set [OF assms(3)] range_order_Nil [OF assms(3)]
    by (auto simp: sni_list_def sni_inv_def split_beta)
  moreover have "distinct (map fst (ord s))"
  proof -
    have "mset (map fst (ord s)) = mset (map fst s)" using assms(3) by (simp add: range_order_def)
    then show ?thesis using inv by (metis mset_eq_imp_distinct_iff sni_inv_iff wf_alist_def)
  qed
  ultimately show ?thesis using each by auto
qed

definition ex_heap :: sni_heap where
  "ex_heap = map (\<lambda>(hosts, secret). \<lparr>sm_Hosts = hosts, sm_CertSource = \<lparr>nn_Namespace = ''ns'', nn_Name = secret\<rparr>,
       sm_CertificateChain = ''CRT'', sm_PrivateKey = ''KEY''\<rparr>)
     [([''a.io''], ''s''), ([''b.io''], ''t''), ([''b.io'', ''a.io''], ''s'')]"

text \<open>
  Consuming is not idempotent on the stored matches: the hosts a match collected for one
  snapshot stay with it, so in a later snapshot it still has the hosts of matches that are gone.
\<close>

lemma sni_hosts_persist:
  assumes "\<forall>m \<in> set ms. m < length h" "consume_all (h, []) ms = (h', s)"
    and "\<forall>m \<in> set later. m < length h'" "consume_all (h', []) later = (h'', s')"
    and "p \<in> set later" "find (\<lambda>m. sm_CertSource (h ! m) = src) ms = Some p"
    and "map_of s' src = Some st"
  shows "source_hosts h ms src \<subseteq> set (sm_Hosts (h'' ! dd_sniMatch st))"
proof -
  note C = collapsedD [OF consume_all_collapsed [OF assms(1), unfolded assms(2)]]
  note C' = collapsedD [OF consume_all_collapsed [OF assms(3), unfolded assms(4)]]
  obtain st1 where "map_of s src = Some st1" "dd_sniMatch st1 = p" using C(6) [of src] assms(6) by auto
  then have "set (sm_Hosts (h' ! p)) = source_hosts h ms src" using C(7) by blast
  moreover have "sm_CertSource (h' ! p) = src" using C(2) find_mem [OF assms(6)] by simp
  ultimately have "source_hosts h ms src \<subseteq> source_hosts h' later src"
    using assms(5) by (auto simp: source_hosts_def)
  then show ?thesis using C'(7) [OF assms(7)] by blast
qed

end
