(* ===== verification/Translator_Monad.thy ===== *)
theory Translator_Monad
  imports Sni
begin

text \<open>
  The effects of the ingress translator: it allocates SNI matches, registers references with
  the tracker, and leaves early with an error, with \<^verbatim>\<open>nil, nil\<close>, or by a panic. A computation
  is a function from the state to an exit or a value, and the next state; the state survives an
  early exit, because what was tracked stays tracked.
\<close>

record Reference =
  ref_Kind :: string
  ref_APIVersion :: string
  ref_Namespace :: string
  ref_Name :: string

record tr_state =
  ts_heap :: sni_heap
  ts_tracked :: "(Reference \<times> NamespacedName) list"

datatype exit = ExitErr go_error | ExitNil | ExitPanic go_panic

type_synonym 'a tr = "tr_state \<Rightarrow> (exit + 'a) \<times> tr_state"

definition retT :: "'a \<Rightarrow> 'a tr" where
  "retT a s = (Inr a, s)"

definition exitT :: "exit \<Rightarrow> 'a tr" where
  "exitT e s = (Inl e, s)"

definition bindT :: "'a tr \<Rightarrow> ('a \<Rightarrow> 'b tr) \<Rightarrow> 'b tr" where
  "bindT m f s = (case m s of (Inl e, s') \<Rightarrow> (Inl e, s') | (Inr a, s') \<Rightarrow> f a s')"

text \<open>A pure result: a returned error and a panic both leave the translator.\<close>

definition liftT :: "'a res \<Rightarrow> 'a tr" where
  "liftT r = (case r of Inr a \<Rightarrow> retT a
     | Inl (Err e) \<Rightarrow> exitT (ExitErr e)
     | Inl (Panic p) \<Rightarrow> exitT (ExitPanic p))"

primrec forT :: "('s \<Rightarrow> 'a \<Rightarrow> 's tr) \<Rightarrow> 's \<Rightarrow> 'a list \<Rightarrow> 's tr" where
  "forT f a [] = retT a"
| "forT f a (x # xs) = bindT (f a x) (\<lambda>a'. forT f a' xs)"

section \<open>Evaluation\<close>

lemma bindT_simps:
  "bindT (retT a) f = f a"
  "bindT (exitT e) f = exitT e"
  by (simp_all add: bindT_def retT_def exitT_def fun_eq_iff)

lemma liftT_simps [simp]:
  "liftT (Inr a) = retT a"
  "liftT (Inl (Err e)) = exitT (ExitErr e)"
  "liftT (Inl (Panic p)) = exitT (ExitPanic p)"
  by (simp_all add: liftT_def)

lemma bindT_Inr [tr_simps]:
  "bindT m f s = (Inr b, s'') \<longleftrightarrow> (\<exists>a s'. m s = (Inr a, s') \<and> f a s' = (Inr b, s''))"
  by (auto simp: bindT_def split: prod.splits sum.splits)

lemma bindT_Inl [tr_simps]:
  "bindT m f s = (Inl e, s'') \<longleftrightarrow>
     m s = (Inl e, s'') \<or> (\<exists>a s'. m s = (Inr a, s') \<and> f a s' = (Inl e, s''))"
  by (auto simp: bindT_def split: prod.splits sum.splits)

lemma retT_Inr [simp]: "retT a s = (Inr b, s') \<longleftrightarrow> b = a \<and> s' = s"
  by (auto simp: retT_def)

lemma retT_Inl [simp]: "retT a s \<noteq> (Inl e, s')"
  by (simp add: retT_def)

lemma exitT_Inr [simp]: "exitT e s \<noteq> (Inr b, s')"
  by (simp add: exitT_def)

lemma exitT_Inl [simp]: "exitT e s = (Inl e', s') \<longleftrightarrow> e' = e \<and> s' = s"
  by (auto simp: exitT_def)

lemma liftT_Inr [simp]: "liftT r s = (Inr b, s') \<longleftrightarrow> r = Inr b \<and> s' = s"
  by (cases r rule: sum.exhaust) (auto simp: liftT_def split: fault.splits sum.splits)

lemma liftT_Inl [tr_simps]:
  "liftT r s = (Inl x, s') \<longleftrightarrow> s' = s \<and>
     ((\<exists>e. r = Inl (Err e) \<and> x = ExitErr e) \<or> (\<exists>p. r = Inl (Panic p) \<and> x = ExitPanic p))"
  by (auto simp: liftT_def split: sum.splits fault.splits)

lemma forT_append: "forT f a (xs @ ys) = bindT (forT f a xs) (\<lambda>a'. forT f a' ys)"
  by (induction xs arbitrary: a)
    (auto simp: bindT_simps fun_eq_iff bindT_def split: prod.splits sum.splits)

text \<open>A loop returns exactly when it visits every element; its result threads through them.\<close>

lemma forT_snoc_Inr:
  "forT f a (xs @ [x]) s = (Inr b, s'') \<longleftrightarrow>
     (\<exists>a' s'. forT f a xs s = (Inr a', s') \<and> f a' x s' = (Inr b, s''))"
  by (auto simp: forT_append bindT_Inr)

text \<open>
  A loop whose body succeeds exactly on the elements satisfying \<open>ok\<close>, and then moves the loop
  variable and the state along the functions \<open>A\<close> and \<open>S\<close> of the elements visited so far.
\<close>

lemma forT_exact:
  assumes "\<And>pre x b s'. f (A pre) x (S pre) = (Inr b, s') \<longleftrightarrow>
      ok x \<and> b = A (pre @ [x]) \<and> s' = S (pre @ [x])"
  shows "forT f (A pre) xs (S pre) = (Inr b, s') \<longleftrightarrow>
    (\<forall>x \<in> set xs. ok x) \<and> b = A (pre @ xs) \<and> s' = S (pre @ xs)"
proof (induction xs arbitrary: pre)
  case Nil
  show ?case by auto
next
  case (Cons x xs)
  show ?case by (auto simp: bindT_Inr assms Cons.IH)
qed

text \<open>A loop leaves by the exit of one of its iterations.\<close>

lemma forT_Inl:
  assumes "forT f a xs s = (Inl e, s')"
  obtains x a' s1 where "x \<in> set xs" "f a' x s1 = (Inl e, s')"
  using assms
proof (induction xs arbitrary: a s thesis)
  case Nil
  then show ?case by simp
next
  case (Cons x xs)
  from Cons.prems(2) consider "f a x s = (Inl e, s')"
    | a' s1 where "forT f a' xs s1 = (Inl e, s')"
    by (auto simp: bindT_Inl)
  then show ?case
  proof cases
    case 1
    then show ?thesis by (intro Cons.prems(1) [of x a s]) simp_all
  next
    case 2
    show ?thesis by (rule Cons.IH [OF _ 2]) (use Cons.prems(1) in auto)
  qed
qed

end
