(* ===== verification/Envoy_Types.thy ===== *)
theory Envoy_Types
  imports Prelude
begin

text \<open>
  The Envoy resources the control plane produces: the protobuf messages of
  \<^verbatim>\<open>go-control-plane\<close>, with the fields the sources under \<^verbatim>\<open>pkg/\<close> set. A message field that is
  a pointer is an \<open>option\<close>; a \<^verbatim>\<open>oneof\<close> is a datatype; an enum is a datatype; durations are
  nanoseconds.

  Packing a message into \<^verbatim>\<open>anypb.Any\<close> keeps the message: \<open>AnyNew m\<close> is \<^verbatim>\<open>anypb.New(m)\<close>, and
  \<open>AnyType url\<close> is an \<^verbatim>\<open>Any\<close> with a type URL and no value. Whether serialisation fails is
  decided by the protobuf run time, a parameter of every builder that packs a message.
\<close>

datatype 'm any = AnyNew 'm | AnyType string

section \<open>Headers, routes and virtual hosts\<close>

datatype HeaderAppendAction =
  APPEND_IF_EXISTS_OR_ADD | ADD_IF_ABSENT | OVERWRITE_IF_EXISTS_OR_ADD

record HeaderValue =
  hv_Key :: string
  hv_Value :: string

record HeaderValueOption =
  hvo_Header :: HeaderValue
  hvo_AppendAction :: HeaderAppendAction

record ClusterWeight =
  cw_Name :: string
  cw_Weight :: "32 word"
  cw_RequestHeadersToAdd :: "HeaderValueOption list"

text \<open>A header matcher: the header's name and, when set, the exact value to match.\<close>

record HeaderMatcher =
  hm_Name :: string
  hm_StringMatch_Exact :: "string option"

record RouteMatch =
  rm_Prefix :: string
  rm_Headers :: "HeaderMatcher list"

record UpgradeConfig =
  uc_UpgradeType :: string
  uc_Enabled :: bool

record RouteAction =
  ra_WeightedClusters :: "ClusterWeight list"
  ra_Timeout :: int
  ra_UpgradeConfigs :: "UpgradeConfig list"
  ra_HostRewriteLiteral :: "string option"

record RedirectAction =
  rd_HttpsRedirect :: bool

datatype RouteActionOneof = Route_Route RouteAction | Route_Redirect RedirectAction

datatype ExtAuthzPerRoute = EAPR_Disabled bool | EAPR_CheckSettings "string gomap"

type_synonym per_filter_config = "(string \<times> ExtAuthzPerRoute any option) list"

record Route =
  rt_Name :: string
  rt_Match :: RouteMatch
  rt_Action :: RouteActionOneof
  rt_RequestHeadersToAdd :: "HeaderValueOption list"
  rt_TypedPerFilterConfig :: per_filter_config

record VirtualHost =
  vh_Name :: string
  vh_Domains :: "string list"
  vh_Routes :: "Route list"
  vh_TypedPerFilterConfig :: per_filter_config

text \<open>A virtual host in a slice is a pointer, so it may be nil.\<close>

record RouteConfiguration =
  rc_Name :: string
  rc_VirtualHosts :: "VirtualHost option list"
  rc_ValidateClusters :: bool

section \<open>Endpoints and clusters\<close>

datatype SocketProtocol = TCP | UDP

record SocketAddress =
  sa_Protocol :: SocketProtocol
  sa_Address :: string
  sa_PortValue :: "32 word"
  sa_Ipv4Compat :: bool

record LbEndpoint =
  lbe_SocketAddress :: SocketAddress

record ClusterLoadAssignment =
  cla_ClusterName :: string
  cla_Endpoints :: "LbEndpoint list list"

datatype DiscoveryType = STATIC | STRICT_DNS | LOGICAL_DNS

datatype HttpProtocolOptions = ExplicitHttp2 | ExplicitHttp1 | ExplicitNone

datatype TlsVersion = TLS_AUTO | TLSv1_2 | TLSv1_3

datatype SanType = SAN_DNS | SAN_URI | SAN_EMAIL | SAN_IP

record SubjectAltNameMatcher =
  san_Type :: SanType
  san_Exact :: string

record UpstreamTlsContext =
  utc_AlpnProtocols :: "string list"
  utc_MinVersion :: TlsVersion
  utc_MaxVersion :: TlsVersion
  utc_TrustedCa :: bytes
  utc_MatchSANs :: "SubjectAltNameMatcher list"

record 'c TransportSocket =
  ts_Name :: string
  ts_TypedConfig :: "'c any"

record Cluster =
  cl_Name :: string
  cl_Type :: DiscoveryType
  cl_ConnectTimeout :: "int option"
  cl_LoadAssignment :: ClusterLoadAssignment
  cl_TransportSocket :: "UpstreamTlsContext TransportSocket option"
  cl_TypedExtensionProtocolOptions :: "(string \<times> HttpProtocolOptions any option) list"

section \<open>HTTP filters and the connection manager\<close>

datatype ApiVersion = API_AUTO | API_V2 | API_V3

record BufferSettings =
  bs_MaxRequestBytes :: "32 word"
  bs_AllowPartialMessage :: bool
  bs_PackAsBytes :: bool

datatype ExtAuthzService =
    GrpcService (gs_ClusterName: string) (gs_Timeout: int) (gs_InitialMetadata: "HeaderValue list")
  | HttpService (hs_Uri: string) (hs_Cluster: string) (hs_Timeout: int)
      (hs_PathPrefix: string) (hs_HeadersToAdd: "HeaderValue list")

record ExtAuthz =
  ea_TransportApiVersion :: ApiVersion
  ea_FailureModeAllow :: bool
  ea_WithRequestBody :: BufferSettings
  ea_ClearRouteCache :: bool
  ea_Services :: "ExtAuthzService option"

record HttpFilter =
  hf_Name :: string
  hf_TypedConfig :: "ExtAuthz any"

record FileAccessLog =
  fal_Path :: string

record AccessLog =
  acl_Name :: string
  acl_TypedConfig :: "FileAccessLog any option"

record ZipkinConfig =
  zk_CollectorCluster :: string
  zk_CollectorEndpoint :: string
  zk_SharedSpanContext :: bool
  zk_CollectorEndpointVersion :: string

record HcmTracing =
  ht_ProviderName :: string
  ht_TypedConfig :: "ZipkinConfig any option"

text \<open>The route discovery source: always the aggregated discovery stream (\<^verbatim>\<open>Ads\<close>).\<close>

datatype ConfigSourceSpecifier = Ads

record Rds =
  rds_ResourceApiVersion :: ApiVersion
  rds_ConfigSource :: ConfigSourceSpecifier
  rds_InitialFetchTimeout :: int
  rds_RouteConfigName :: string

datatype CodecType = AUTO | HTTP1 | HTTP2

record HttpConnectionManager =
  hcm_CodecType :: CodecType
  hcm_StatPrefix :: string
  hcm_HttpFilters :: "HttpFilter option list"
  hcm_Rds :: Rds
  hcm_StreamIdleTimeout :: int
  hcm_XffNumTrustedHops :: "32 word"
  hcm_UseRemoteAddress :: "bool option"
  hcm_AccessLog :: "AccessLog list"
  hcm_GenerateRequestId :: "bool option"
  hcm_Tracing :: "HcmTracing option"

section \<open>Listeners\<close>

record CidrRange =
  cr_AddressPrefix :: string
  cr_PrefixLen :: "32 word"

datatype ConnectionSourceType = SOURCE_ANY | SAME_IP_OR_LOOPBACK | SOURCE_EXTERNAL

record FilterChainMatch =
  fcm_SourceType :: ConnectionSourceType
  fcm_SourcePrefixRanges :: "CidrRange list"
  fcm_ServerNames :: "string list"

record Filter =
  fl_Name :: string
  fl_TypedConfig :: "HttpConnectionManager any"

record CryptoMbConfig =
  cmb_PollDelay :: int
  cmb_PrivateKey :: bytes

datatype TlsPrivateKey = InlineKey bytes | KeyProvider string "CryptoMbConfig any"

record TlsCertificate =
  tc_CertificateChain :: bytes
  tc_PrivateKey :: TlsPrivateKey

record DownstreamTlsContext =
  dtc_AlpnProtocols :: "string list"
  dtc_MinVersion :: TlsVersion
  dtc_CipherSuites :: "string list"
  dtc_TlsCertificates :: "TlsCertificate list"

record FilterChain =
  fc_FilterChainMatch :: "FilterChainMatch option"
  fc_Filters :: "Filter list"
  fc_TransportSocket :: "DownstreamTlsContext TransportSocket option"

datatype ListenerFilterConfig = LF_ProxyProtocol | LF_TypeUrl string

record ListenerFilter =
  lf_Name :: string
  lf_Config :: ListenerFilterConfig

record Listener =
  ls_Name :: string
  ls_Address :: SocketAddress
  ls_ListenerFilters :: "ListenerFilter list"
  ls_FilterChains :: "FilterChain list"

section \<open>Serialisation\<close>

datatype proto_msg =
    M_ExtAuthzPerRoute ExtAuthzPerRoute
  | M_HttpProtocolOptions HttpProtocolOptions
  | M_UpstreamTlsContext UpstreamTlsContext
  | M_DownstreamTlsContext DownstreamTlsContext
  | M_HttpConnectionManager HttpConnectionManager
  | M_FileAccessLog FileAccessLog
  | M_ZipkinConfig ZipkinConfig
  | M_ExtAuthz ExtAuthz
  | M_CryptoMb CryptoMbConfig
  | M_ProxyProtocol

text \<open>The protobuf run time: the error, if any, of serialising a message.\<close>

type_synonym marshaler = "proto_msg \<Rightarrow> go_error option"

definition anypb_New :: "marshaler \<Rightarrow> ('m \<Rightarrow> proto_msg) \<Rightarrow> 'm \<Rightarrow> go_error + 'm any" where
  "anypb_New mar tag m = (case mar (tag m) of Some e \<Rightarrow> Inl e | None \<Rightarrow> Inr (AnyNew m))"

text \<open>\<^verbatim>\<open>a, _ := anypb.New(m)\<close>: the error is dropped and the pointer is nil when there was one.\<close>

definition anypb_ptr :: "marshaler \<Rightarrow> ('m \<Rightarrow> proto_msg) \<Rightarrow> 'm \<Rightarrow> 'm any option" where
  "anypb_ptr mar tag m = (case anypb_New mar tag m of Inl _ \<Rightarrow> None | Inr a \<Rightarrow> Some a)"

text \<open>A run time that serialises every message.\<close>

definition marshals_all :: "marshaler \<Rightarrow> bool" where
  "marshals_all mar \<longleftrightarrow> (\<forall>m. mar m = None)"

lemma anypb_New_ok [simp]: "marshals_all mar \<Longrightarrow> anypb_New mar tag m = Inr (AnyNew m)"
  by (simp add: marshals_all_def anypb_New_def)

lemma anypb_ptr_ok [simp]: "marshals_all mar \<Longrightarrow> anypb_ptr mar tag m = Some (AnyNew m)"
  by (simp add: anypb_ptr_def)

lemma anypb_New_Inr: "anypb_New mar tag m = Inr a \<Longrightarrow> a = AnyNew m"
  by (simp add: anypb_New_def split: option.splits)

lemma marshals_all_None [simp, intro]: "marshals_all (\<lambda>_. None)"
  by (simp add: marshals_all_def)

end
