(* ===== verification/Kourier_Config.thy ===== *)
theory Kourier_Config
  imports Envoy_Types
begin

text \<open>
  The configuration of the control plane, \<^verbatim>\<open>pkg/config\<close>: the constants and namespace helpers of
  \<^verbatim>\<open>config.go\<close>, the parsing of the \<^verbatim>\<open>config-kourier\<close> ConfigMap (\<^verbatim>\<open>configmap.go\<close>), and the
  external-authorization set-up (\<^verbatim>\<open>ext_authz.go\<close>). The process environment is a partial map
  from names to values.
\<close>

type_synonym environ = "string \<Rightarrow> string option"

definition os_Getenv :: "environ \<Rightarrow> string \<Rightarrow> string" where
  "os_Getenv env k = (case env k of None \<Rightarrow> [] | Some v \<Rightarrow> v)"

section \<open>Constants and namespaces\<close>

definition InternalServiceName :: string where "InternalServiceName = ''kourier-internal''"
definition ExternalServiceName :: string where "ExternalServiceName = ''kourier''"
definition HTTPPortExternal :: "32 word" where "HTTPPortExternal = 8080"
definition HTTPPortInternal :: "32 word" where "HTTPPortInternal = 8081"
definition HTTPSPortInternal :: "32 word" where "HTTPSPortInternal = 8444"
definition HTTPSPortExternal :: "32 word" where "HTTPSPortExternal = 8443"
definition HTTPPortProb :: "32 word" where "HTTPPortProb = 8090"
definition HTTPSPortProb :: "32 word" where "HTTPSPortProb = 9443"
definition InternalKourierDomain :: string where "InternalKourierDomain = ''internalkourier''"
definition GatewayNamespaceEnv :: string where "GatewayNamespaceEnv = ''KOURIER_GATEWAY_NAMESPACE''"
definition ServingNamespaceEnv :: string where "ServingNamespaceEnv = ''SERVING_NAMESPACE''"
definition KourierIngressClassName :: string where
  "KourierIngressClassName = ''kourier.ingress.networking.knative.dev''"
definition disableHTTP2AnnotationKey :: string where
  "disableHTTP2AnnotationKey = ''kourier.knative.dev/disable-http2''"

lemmas port_defs = HTTPPortExternal_def HTTPPortInternal_def HTTPSPortInternal_def
  HTTPSPortExternal_def HTTPPortProb_def HTTPSPortProb_def

text \<open>\<^verbatim>\<open>system.Namespace()\<close> panics when its variable is not set.\<close>

definition system_Namespace :: "environ \<Rightarrow> string res" where
  "system_Namespace env =
     (if os_Getenv env ''SYSTEM_NAMESPACE'' \<noteq> [] then Inr (os_Getenv env ''SYSTEM_NAMESPACE'')
      else Inl (Panic (PanicMsg ''The environment variable SYSTEM_NAMESPACE is not set'')))"

definition GatewayNamespace :: "environ \<Rightarrow> string res" where
  "GatewayNamespace env =
     (let namespace = os_Getenv env GatewayNamespaceEnv
      in if namespace = [] then system_Namespace env else Inr namespace)"

definition ServingNamespace :: "environ \<Rightarrow> string res" where
  "ServingNamespace env =
     (let namespace = os_Getenv env ServingNamespaceEnv
      in if namespace = [] then system_Namespace env else Inr namespace)"

text \<open>
  \<^verbatim>\<open>network.GetServiceHostname\<close>; the cluster's domain name is read from the resolver's file.
\<close>

definition GetServiceHostname :: "string \<Rightarrow> string \<Rightarrow> string \<Rightarrow> string" where
  "GetServiceHostname clusterDomain name namespace =
     name @ ''.'' @ namespace @ ''.svc.'' @ clusterDomain"

definition ServiceHostnames :: "environ \<Rightarrow> string \<Rightarrow> (string \<times> string) res" where
  "ServiceHostnames env clusterDomain =
     bindr (GatewayNamespace env) (\<lambda>ns1.
     bindr (GatewayNamespace env) (\<lambda>ns2.
       Inr (GetServiceHostname clusterDomain ExternalServiceName ns1,
            GetServiceHostname clusterDomain InternalServiceName ns2)))"

text \<open>\<^verbatim>\<open>kmap.KeyPriority.Value\<close>: the value of the first listed key that is present, or "".\<close>

fun KeyPriority_Value :: "string list \<Rightarrow> string gomap \<Rightarrow> string" where
  "KeyPriority_Value [] m = []"
| "KeyPriority_Value (k # ks) m =
     (case map_of m k of Some v \<Rightarrow> v | None \<Rightarrow> KeyPriority_Value ks m)"

definition disableHTTP2Annotation :: "string list" where [simp]: "disableHTTP2Annotation = [disableHTTP2AnnotationKey]"

definition GetDisableHTTP2 :: "string gomap \<Rightarrow> string" where
  "GetDisableHTTP2 annotations = KeyPriority_Value disableHTTP2Annotation annotations"

section \<open>Number and boolean parsing of the Go standard library\<close>

definition strconv_ParseBool :: "string \<Rightarrow> go_error + bool" where
  "strconv_ParseBool s =
     (if s \<in> {''1'', ''t'', ''T'', ''TRUE'', ''true'', ''True''} then Inr True
      else if s \<in> {''0'', ''f'', ''F'', ''FALSE'', ''false'', ''False''} then Inr False
      else Inl (ErrNew (''strconv.ParseBool: parsing '' @ s @ '': invalid syntax'')))"

definition is_digit :: "char \<Rightarrow> bool" where
  "is_digit c \<longleftrightarrow> of_char c \<in> {48..57::nat}"

definition strconv_ParseUint :: "string \<Rightarrow> nat \<Rightarrow> go_error + nat" where
  "strconv_ParseUint s bits =
     (if s = [] \<or> \<not> list_all is_digit s
      then Inl (ErrNew (''strconv.ParseUint: parsing '' @ s @ '': invalid syntax''))
      else if str_nat s \<ge> 2 ^ bits
      then Inl (ErrNew (''strconv.ParseUint: parsing '' @ s @ '': value out of range''))
      else Inr (str_nat s))"

definition strconv_Atoi :: "string \<Rightarrow> go_error + int" where
  "strconv_Atoi s =
     (let neg = (s \<noteq> [] \<and> hd s = CHR ''-'');
          digits = (if s \<noteq> [] \<and> (hd s = CHR ''-'' \<or> hd s = CHR ''+'') then tl s else s);
          n = (if neg then - int (str_nat digits) else int (str_nat digits))
      in if digits = [] \<or> \<not> list_all is_digit digits
         then Inl (ErrNew (''strconv.Atoi: parsing '' @ s @ '': invalid syntax''))
         else if n < - (2 ^ 63) \<or> n \<ge> 2 ^ 63
         then Inl (ErrNew (''strconv.Atoi: parsing '' @ s @ '': value out of range''))
         else Inr n)"

definition is_space :: "char \<Rightarrow> bool" where
  "is_space c \<longleftrightarrow> of_char c \<in> {9, 10, 11, 12, 13, 32::nat}"

definition strings_TrimSpace :: "string \<Rightarrow> string" where
  "strings_TrimSpace s = rev (dropWhile is_space (rev (dropWhile is_space s)))"

section \<open>The config-kourier ConfigMap\<close>

record Tracing =
  tr_Enabled :: bool
  tr_CollectorHost :: string
  tr_CollectorPort :: "16 word"
  tr_CollectorEndpoint :: string

text \<open>\<^verbatim>\<open>Kourier\<close>: the parsed ConfigMap. \<open>IdleTimeout\<close> is in nanoseconds.\<close>

record Kourier =
  EnableServiceAccessLogging :: bool
  EnableProxyProtocol :: bool
  ClusterCertSecret :: string
  IdleTimeout :: int
  TrustedHopsCount :: "32 word"
  EnableCryptoMB :: bool
  CipherSuites :: "string set"
  kTracing :: Tracing

definition no_tracing :: Tracing where
  "no_tracing = \<lparr>tr_Enabled = False, tr_CollectorHost = [], tr_CollectorPort = 0,
     tr_CollectorEndpoint = []\<rparr>"

definition DefaultConfig :: Kourier where
  "DefaultConfig = \<lparr>EnableServiceAccessLogging = True, EnableProxyProtocol = False,
     ClusterCertSecret = [], IdleTimeout = 0, TrustedHopsCount = 0, EnableCryptoMB = False,
     CipherSuites = {}, kTracing = no_tracing\<rparr>"

text \<open>
  The parsers of \<^verbatim>\<open>knative.dev/pkg/configmap\<close> the source calls: each reads one key and, when it
  is present, overwrites its target field. A parser is a function from the configuration built
  so far to the next one.
\<close>

type_synonym parse_func = "string gomap \<Rightarrow> Kourier \<Rightarrow> go_error + Kourier"

definition AsBool :: "string \<Rightarrow> (bool \<Rightarrow> Kourier \<Rightarrow> Kourier) \<Rightarrow> parse_func" where
  "AsBool key target data nc =
     (case map_of data key of None \<Rightarrow> Inr nc
      | Some raw \<Rightarrow> bindr (strconv_ParseBool raw) (\<lambda>v. Inr (target v nc)))"

definition AsString :: "string \<Rightarrow> (string \<Rightarrow> Kourier \<Rightarrow> Kourier) \<Rightarrow> parse_func" where
  "AsString key target data nc =
     (case map_of data key of None \<Rightarrow> Inr nc | Some raw \<Rightarrow> Inr (target raw nc))"

definition AsDuration ::
  "(string \<Rightarrow> go_error + int) \<Rightarrow> string \<Rightarrow> (int \<Rightarrow> Kourier \<Rightarrow> Kourier) \<Rightarrow> parse_func" where
  "AsDuration parseDuration key target data nc =
     (case map_of data key of None \<Rightarrow> Inr nc
      | Some raw \<Rightarrow> (case parseDuration raw of
            Inl e \<Rightarrow> Inl (ErrWrap (''failed to parse '' @ key) e)
          | Inr v \<Rightarrow> Inr (target v nc)))"

definition AsUint32 :: "string \<Rightarrow> (32 word \<Rightarrow> Kourier \<Rightarrow> Kourier) \<Rightarrow> parse_func" where
  "AsUint32 key target data nc =
     (case map_of data key of None \<Rightarrow> Inr nc
      | Some raw \<Rightarrow> (case strconv_ParseUint raw 32 of
            Inl e \<Rightarrow> Inl (ErrWrap (''failed to parse '' @ key) e)
          | Inr v \<Rightarrow> Inr (target (of_nat v) nc)))"

definition AsStringSet :: "string \<Rightarrow> (string set \<Rightarrow> Kourier \<Rightarrow> Kourier) \<Rightarrow> parse_func" where
  "AsStringSet key target data nc =
     (case map_of data key of None \<Rightarrow> Inr nc
      | Some raw \<Rightarrow>
          Inr (target (set (map strings_TrimSpace (strings_Split raw CHR '',''))) nc))"

text \<open>
  \<open>parseURI\<close> is \<^verbatim>\<open>url.ParseRequestURI\<close> on \<^verbatim>\<open>"scheme://" + raw\<close>, as the host name, the port and
  the path of the parsed URL.
\<close>

type_synonym uri_parser = "string \<Rightarrow> go_error + string \<times> string \<times> string"

definition asTracing :: "uri_parser \<Rightarrow> string \<Rightarrow> parse_func" where
  "asTracing parseURI collectorFullEndpoint data nc =
     (case map_of data collectorFullEndpoint of
        None \<Rightarrow> Inr nc
      | Some raw \<Rightarrow>
          if raw = [] then Inr nc
          else (case parseURI (''scheme://'' @ raw) of
              Inl e \<Rightarrow> Inl (ErrWrap (raw @ '' is not a valid URL'') e)
            | Inr (host, port, path) \<Rightarrow>
                (case strconv_ParseUint port 32 of
                   Inl e \<Rightarrow> Inl (ErrWrap (port @ '' is not a valid port'') e)
                 | Inr collectorPortUint64 \<Rightarrow>
                     if collectorPortUint64 > 65535
                     then Inl (ErrNew (''port '' @ nat_str collectorPortUint64 @
                                 '' must be a valid port''))
                     else Inr (nc\<lparr>kTracing := \<lparr>tr_Enabled = True, tr_CollectorHost = host,
                                 tr_CollectorPort = of_nat collectorPortUint64,
                                 tr_CollectorEndpoint = path\<rparr>\<rparr>))))"

text \<open>\<^verbatim>\<open>configmap.Parse\<close>: the parsers in order, up to the first error.\<close>

definition cm_Parse :: "string gomap \<Rightarrow> parse_func list \<Rightarrow> Kourier \<Rightarrow> go_error + Kourier" where
  "cm_Parse data parsers nc = foldM (\<lambda>nc p. p data nc) nc parsers"

text \<open>The keys of the config map.\<close>

definition enableServiceAccessLoggingKey :: string where [simp]: "enableServiceAccessLoggingKey = ''enable-service-access-logging''"
definition enableProxyProtocol_key :: string where [simp]: "enableProxyProtocol_key = ''enable-proxy-protocol''"
definition clusterCert :: string where [simp]: "clusterCert = ''cluster-cert-secret''"
definition IdleTimeoutKey :: string where [simp]: "IdleTimeoutKey = ''stream-idle-timeout''"
definition trustedHopsCount :: string where [simp]: "trustedHopsCount = ''trusted-hops-count''"
definition cipherSuites :: string where [simp]: "cipherSuites = ''cipher-suites''"
definition enableCryptoMB :: string where [simp]: "enableCryptoMB = ''enable-cryptomb''"
definition TracingCollectorFullEndpoint :: string where [simp]: "TracingCollectorFullEndpoint = ''tracing-collector-full-endpoint''"

definition kourier_parsers :: "(string \<Rightarrow> go_error + int) \<Rightarrow> uri_parser \<Rightarrow> parse_func list" where
  "kourier_parsers parseDuration parseURI =
    [ AsBool enableServiceAccessLoggingKey (\<lambda>v nc. nc\<lparr>EnableServiceAccessLogging := v\<rparr>),
      AsBool enableProxyProtocol_key (\<lambda>v nc. nc\<lparr>EnableProxyProtocol := v\<rparr>),
      AsString clusterCert (\<lambda>v nc. nc\<lparr>ClusterCertSecret := v\<rparr>),
      AsDuration parseDuration IdleTimeoutKey (\<lambda>v nc. nc\<lparr>IdleTimeout := v\<rparr>),
      AsUint32 trustedHopsCount (\<lambda>v nc. nc\<lparr>TrustedHopsCount := v\<rparr>),
      AsStringSet cipherSuites (\<lambda>v nc. nc\<lparr>CipherSuites := v\<rparr>),
      AsBool enableCryptoMB (\<lambda>v nc. nc\<lparr>EnableCryptoMB := v\<rparr>),
      asTracing parseURI TracingCollectorFullEndpoint ]"

definition NewConfigFromMap ::
  "(string \<Rightarrow> go_error + int) \<Rightarrow> uri_parser \<Rightarrow> string gomap \<Rightarrow> go_error + Kourier" where
  "NewConfigFromMap parseDuration parseURI configMap =
     cm_Parse configMap (kourier_parsers parseDuration parseURI) DefaultConfig"

text \<open>\<^verbatim>\<open>NewConfigFromConfigMap\<close> passes the \<open>Data\<close> of the ConfigMap on.\<close>

record ConfigMap =
  cmap_Data :: "string gomap"

definition NewConfigFromConfigMap ::
  "(string \<Rightarrow> go_error + int) \<Rightarrow> uri_parser \<Rightarrow> ConfigMap \<Rightarrow> go_error + Kourier" where
  "NewConfigFromConfigMap parseDuration parseURI cm =
     NewConfigFromMap parseDuration parseURI (cmap_Data cm)"

section \<open>The reconciler's configuration store\<close>

text \<open>
  \<^verbatim>\<open>pkg/reconciler/ingress/config/store.go\<close>: the configuration carried by a context, or the
  defaults when the context carries none. Of the network configuration the translator reads
  only \<open>SystemInternalTLS\<close>.
\<close>

record NetworkConfig =
  SystemInternalTLS :: string

record Config =
  cfg_Kourier :: Kourier
  cfg_Network :: NetworkConfig

definition defaultConfig :: NetworkConfig where
  "defaultConfig = \<lparr>SystemInternalTLS = ''disabled''\<rparr>"

type_synonym ctx = "Config option"

definition FromContextOrDefaults :: "ctx \<Rightarrow> Config" where
  "FromContextOrDefaults ctx =
     (case ctx of Some cfg \<Rightarrow> cfg
      | None \<Rightarrow> \<lparr>cfg_Kourier = DefaultConfig, cfg_Network = defaultConfig\<rparr>)"

definition ToContext :: "ctx \<Rightarrow> Config \<Rightarrow> ctx" where
  "ToContext ctx c = Some c"

definition SystemInternalTLSEnabled :: "NetworkConfig \<Rightarrow> bool" where
  "SystemInternalTLSEnabled c \<longleftrightarrow> SystemInternalTLS c = ''enabled''"

section \<open>External authorization\<close>

definition extAuthzClusterName :: string where "extAuthzClusterName = ''extAuthz''"
definition unixMaxPort :: int where "unixMaxPort = 65535"
definition wk_HTTPExternalAuthorization :: string where
  "wk_HTTPExternalAuthorization = ''envoy.filters.http.ext_authz''"

record ExternalAuthzConfig =
  ea_Enabled :: bool
  ea_Cluster :: "Cluster option"
  ea_HTTPFilter :: "HttpFilter option"

definition ExternalAuthz_default :: ExternalAuthzConfig where
  "ExternalAuthz_default = \<lparr>ea_Enabled = False, ea_Cluster = None, ea_HTTPFilter = None\<rparr>"

definition isValidExtAuthzProtocol :: "string \<Rightarrow> bool" where
  "isValidExtAuthzProtocol protocol \<longleftrightarrow> protocol \<in> {''grpc'', ''http'', ''https''}"

text \<open>\<^verbatim>\<open>config\<close>, the struct filled from the \<^verbatim>\<open>KOURIER_EXTAUTHZ_*\<close> variables.\<close>

record extauthz_env =
  env_Host :: string
  env_FailureModeAllow :: bool
  env_MaxRequestBytes :: "32 word"
  env_Timeout :: int
  env_Protocol :: string
  env_PackAsBytes :: bool
  env_PathPrefix :: string

definition extAuthzCluster :: "marshaler \<Rightarrow> string \<Rightarrow> 32 word \<Rightarrow> string \<Rightarrow> Cluster" where
  "extAuthzCluster mar host port protocol =
     (let explicitHTTPConfig =
            (if protocol = ''grpc'' then ExplicitHttp2
             else if protocol = ''http'' \<or> protocol = ''https'' then ExplicitHttp1
             else ExplicitNone);
          opts = anypb_ptr mar M_HttpProtocolOptions explicitHTTPConfig
      in \<lparr>cl_Name = extAuthzClusterName, cl_Type = STRICT_DNS,
          cl_ConnectTimeout = Some (5 * 10 ^ 9),
          cl_LoadAssignment = \<lparr>cla_ClusterName = extAuthzClusterName,
            cla_Endpoints = [[\<lparr>lbe_SocketAddress = \<lparr>sa_Protocol = TCP, sa_Address = host,
              sa_PortValue = port, sa_Ipv4Compat = True\<rparr>\<rparr>]]\<rparr>,
          cl_TransportSocket = None,
          cl_TypedExtensionProtocolOptions =
            [(''envoy.extensions.upstreams.http.v3.HttpProtocolOptions'', opts)]\<rparr>)"

text \<open>\<^verbatim>\<open>time.Duration(conf.Timeout) * time.Millisecond\<close> is a 64-bit product.\<close>

definition duration_ms :: "int \<Rightarrow> int" where
  "duration_ms t = sint (word_of_int (t * 1000000) :: 64 word)"

definition externalAuthZFilter :: "marshaler \<Rightarrow> extauthz_env \<Rightarrow> HttpFilter res" where
  "externalAuthZFilter mar conf =
     (let timeout = duration_ms (env_Timeout conf);
          headers = [\<lparr>hv_Key = ''client'', hv_Value = ''kourier''\<rparr>]
      in if env_Protocol conf \<noteq> ''grpc'' \<and> env_PackAsBytes conf
         then Inl (Panic (PanicError
                (ErrNew ''pack as bytes option cannot be set when using http protocol'')))
         else
           (let services =
                  (if env_Protocol conf = ''grpc''
                   then Some (GrpcService extAuthzClusterName timeout headers)
                   else if env_Protocol conf = ''http'' \<or> env_Protocol conf = ''https''
                   then Some (HttpService (env_Protocol conf @ ''://'' @ env_Host conf)
                          extAuthzClusterName timeout (env_PathPrefix conf) headers)
                   else None);
                extAuthConfig = \<lparr>ea_TransportApiVersion = API_V3,
                  ea_FailureModeAllow = env_FailureModeAllow conf,
                  ea_WithRequestBody = \<lparr>bs_MaxRequestBytes = env_MaxRequestBytes conf,
                     bs_AllowPartialMessage = True, bs_PackAsBytes = env_PackAsBytes conf\<rparr>,
                  ea_ClearRouteCache = False, ea_Services = services\<rparr>
            in (case anypb_New mar M_ExtAuthz extAuthConfig of
                  Inl e \<Rightarrow> Inl (Panic (PanicError e))
                | Inr envoyConf \<Rightarrow>
                    Inr \<lparr>hf_Name = wk_HTTPExternalAuthorization, hf_TypedConfig = envoyConf\<rparr>)))"

text \<open>
  \<^verbatim>\<open>net.SplitHostPort\<close>: the port follows the last colon; a host in brackets may hold colons,
  any other host may not, and no bracket may stand elsewhere.
\<close>

definition last_colon :: "string \<Rightarrow> nat option" where
  "last_colon s =
     (if CHR '':'' \<in> set s
      then Some (length s - Suc (length (takeWhile (\<lambda>c. c \<noteq> CHR '':'') (rev s))))
      else None)"

definition net_SplitHostPort :: "string \<Rightarrow> go_error + string \<times> string" where
  "net_SplitHostPort hostport =
     (case last_colon hostport of
        None \<Rightarrow> Inl (ErrNew ''missing port in address'')
      | Some i \<Rightarrow>
          if hd hostport = CHR ''['' then
            (let e = length (takeWhile (\<lambda>c. c \<noteq> CHR '']'') hostport) in
             if e = length hostport then Inl (ErrNew ''missing ] in address'')
             else if Suc e = length hostport then Inl (ErrNew ''missing port in address'')
             else if Suc e \<noteq> i then
               (if hostport ! Suc e = CHR '':'' then Inl (ErrNew ''too many colons in address'')
                else Inl (ErrNew ''missing port in address''))
             else if CHR ''['' \<in> set (drop 1 hostport) then Inl (ErrNew ''unexpected [ in address'')
             else if CHR '']'' \<in> set (drop (Suc e) hostport)
             then Inl (ErrNew ''unexpected ] in address'')
             else Inr (take (e - 1) (drop 1 hostport), drop (Suc i) hostport))
          else
            (if CHR '':'' \<in> set (take i hostport) then Inl (ErrNew ''too many colons in address'')
             else if CHR ''['' \<in> set hostport then Inl (ErrNew ''unexpected [ in address'')
             else if CHR '']'' \<in> set hostport then Inl (ErrNew ''unexpected ] in address'')
             else Inr (take i hostport, drop (Suc i) hostport)))"

text \<open>
  \<^verbatim>\<open>init()\<close>: the value of the package variable \<^verbatim>\<open>ExternalAuthz\<close> after start-up.
  \<open>process\<close> is \<^verbatim>\<open>envconfig.Process\<close> on the struct above; an error of it is a panic.
\<close>

definition ext_authz_init ::
  "marshaler \<Rightarrow> (environ \<Rightarrow> go_error + extauthz_env) \<Rightarrow> environ \<Rightarrow> ExternalAuthzConfig res" where
  "ext_authz_init mar process env =
     (if os_Getenv env ''KOURIER_EXTAUTHZ_HOST'' = [] then Inr ExternalAuthz_default
      else case process env of
        Inl e \<Rightarrow> Inl (Panic (PanicError e))
      | Inr conf \<Rightarrow>
          if \<not> isValidExtAuthzProtocol (env_Protocol conf)
          then Inl (Panic (PanicError (ErrNew (''protocol '' @ env_Protocol conf @ '' is invalid''))))
          else case net_SplitHostPort (env_Host conf) of
            Inl e \<Rightarrow> Inl (Panic (PanicError e))
          | Inr (host, portStr) \<Rightarrow>
              (case strconv_Atoi portStr of
                 Inl e \<Rightarrow> Inl (Panic (PanicError e))
               | Inr port \<Rightarrow>
                   if port > unixMaxPort
                   then Inl (Panic (PanicMsg ''port bigger than 65535''))
                   else bindr (externalAuthZFilter mar conf) (\<lambda>filter.
                     Inr \<lparr>ea_Enabled = True,
                          ea_Cluster = Some (extAuthzCluster mar host (word_of_int port)
                                              (env_Protocol conf)),
                          ea_HTTPFilter = Some filter\<rparr>)))"

end
