(* ===== verification/Envoy_Api.thy ===== *)
theory Envoy_Api
  imports Kourier_Config
begin

text \<open>
  The builders of \<^verbatim>\<open>pkg/envoy/api\<close> for header lists, weighted clusters, endpoints, clusters,
  routes, virtual hosts, HTTP connection managers and route configurations; one definition
  per Go function. The listener builders have their own theory.
\<close>

section \<open>Headers, weighted clusters and endpoints\<close>

text \<open>\<^verbatim>\<open>headers.go\<close>: one option per header, in the order the map is visited.\<close>

definition headersToAdd :: "string gomap \<Rightarrow> HeaderValueOption list" where
  "headersToAdd headers =
     (if length headers = 0 then []
      else map (\<lambda>(headerName, headerVal).
             \<lparr>hvo_Header = \<lparr>hv_Key = headerName, hv_Value = headerVal\<rparr>,
              hvo_AppendAction = OVERWRITE_IF_EXISTS_OR_ADD\<rparr>) headers)"

definition NewWeightedCluster :: "string \<Rightarrow> 32 word \<Rightarrow> string gomap \<Rightarrow> ClusterWeight" where
  "NewWeightedCluster name trafficPerc headers =
     \<lparr>cw_Name = name, cw_Weight = trafficPerc, cw_RequestHeadersToAdd = headersToAdd headers\<rparr>"

definition NewLBEndpoint :: "string \<Rightarrow> 32 word \<Rightarrow> LbEndpoint" where
  "NewLBEndpoint ip port =
     \<lparr>lbe_SocketAddress = \<lparr>sa_Protocol = TCP, sa_Address = ip, sa_PortValue = port,
        sa_Ipv4Compat = True\<rparr>\<rparr>"

definition NewCluster ::
  "marshaler \<Rightarrow> string \<Rightarrow> int \<Rightarrow> LbEndpoint list \<Rightarrow> bool \<Rightarrow>
   UpstreamTlsContext TransportSocket option \<Rightarrow> DiscoveryType \<Rightarrow> Cluster" where
  "NewCluster mar name connectTimeout endpoints isHTTP2 transportSocket discoveryType =
     (let cluster = \<lparr>cl_Name = name, cl_Type = discoveryType,
            cl_ConnectTimeout = Some connectTimeout,
            cl_LoadAssignment = \<lparr>cla_ClusterName = name, cla_Endpoints = [endpoints]\<rparr>,
            cl_TransportSocket = transportSocket,
            cl_TypedExtensionProtocolOptions = []\<rparr>
      in if isHTTP2
         then cluster\<lparr>cl_TypedExtensionProtocolOptions :=
                [(''envoy.extensions.upstreams.http.v3.HttpProtocolOptions'',
                  anypb_ptr mar M_HttpProtocolOptions ExplicitHttp2)]\<rparr>
         else cluster)"

section \<open>Routes and virtual hosts\<close>

text \<open>The trailing \<^verbatim>\<open>region ...string\<close> of \<^verbatim>\<open>NewRoute\<close> is accepted and not used.\<close>

definition NewRoute ::
  "string \<Rightarrow> HeaderMatcher list \<Rightarrow> string \<Rightarrow> ClusterWeight list \<Rightarrow> int \<Rightarrow> string gomap \<Rightarrow>
   string \<Rightarrow> string list \<Rightarrow> Route" where
  "NewRoute name headersMatch path wrs routeTimeout headers hostRewrite region =
     (let routeAction = \<lparr>ra_WeightedClusters = wrs, ra_Timeout = routeTimeout,
            ra_UpgradeConfigs = [\<lparr>uc_UpgradeType = ''websocket'', uc_Enabled = True\<rparr>],
            ra_HostRewriteLiteral = (if hostRewrite \<noteq> [] then Some hostRewrite else None)\<rparr>
      in \<lparr>rt_Name = name,
          rt_Match = \<lparr>rm_Prefix = path, rm_Headers = headersMatch\<rparr>,
          rt_Action = Route_Route routeAction,
          rt_RequestHeadersToAdd = headersToAdd headers,
          rt_TypedPerFilterConfig = []\<rparr>)"

definition NewRedirectRoute :: "string \<Rightarrow> HeaderMatcher list \<Rightarrow> string \<Rightarrow> Route" where
  "NewRedirectRoute name headersMatch path =
     \<lparr>rt_Name = name,
      rt_Match = \<lparr>rm_Prefix = path, rm_Headers = headersMatch\<rparr>,
      rt_Action = Route_Redirect \<lparr>rd_HttpsRedirect = True\<rparr>,
      rt_RequestHeadersToAdd = [],
      rt_TypedPerFilterConfig = []\<rparr>"

definition NewRouteExtAuthzDisabled ::
  "marshaler \<Rightarrow> string \<Rightarrow> HeaderMatcher list \<Rightarrow> string \<Rightarrow> ClusterWeight list \<Rightarrow> int \<Rightarrow>
   string gomap \<Rightarrow> string \<Rightarrow> Route" where
  "NewRouteExtAuthzDisabled mar name headersMatch path wrs routeTimeout headers hostRewrite =
     (NewRoute name headersMatch path wrs routeTimeout headers hostRewrite [])
       \<lparr>rt_TypedPerFilterConfig :=
          [(wk_HTTPExternalAuthorization, anypb_ptr mar M_ExtAuthzPerRoute (EAPR_Disabled True))]\<rparr>"

definition NewVirtualHost :: "string \<Rightarrow> string list \<Rightarrow> Route list \<Rightarrow> VirtualHost" where
  "NewVirtualHost name domains routes =
     \<lparr>vh_Name = name, vh_Domains = domains, vh_Routes = routes, vh_TypedPerFilterConfig = []\<rparr>"

definition NewVirtualHostWithExtAuthz ::
  "marshaler \<Rightarrow> string \<Rightarrow> string gomap \<Rightarrow> string list \<Rightarrow> Route list \<Rightarrow> VirtualHost" where
  "NewVirtualHostWithExtAuthz mar name contextExtensions domains routes =
     \<lparr>vh_Name = name, vh_Domains = domains, vh_Routes = routes,
      vh_TypedPerFilterConfig =
        [(wk_HTTPExternalAuthorization,
          anypb_ptr mar M_ExtAuthzPerRoute (EAPR_CheckSettings contextExtensions))]\<rparr>"

section \<open>The HTTP connection manager and route configurations\<close>

definition wk_Router :: string where "wk_Router = ''envoy.filters.http.router''"
definition wk_Zipkin :: string where "wk_Zipkin = ''envoy.tracers.zipkin''"

definition router_filter :: HttpFilter where
  "router_filter = \<lparr>hf_Name = wk_Router,
     hf_TypedConfig =
       AnyType ''type.googleapis.com/envoy.extensions.filters.http.router.v3.Router''\<rparr>"

text \<open>
  \<open>authz\<close> is the package variable \<^verbatim>\<open>config.ExternalAuthz\<close>; its filter pointer is appended when
  external authorization is enabled.
\<close>

definition NewHTTPConnectionManager ::
  "marshaler \<Rightarrow> ExternalAuthzConfig \<Rightarrow> string \<Rightarrow> Kourier \<Rightarrow> HttpConnectionManager" where
  "NewHTTPConnectionManager mar authz routeConfigName kourierConfig =
     (let filters =
            (if ea_Enabled authz then [ea_HTTPFilter authz] else []) @ [Some router_filter];
          mgr = \<lparr>hcm_CodecType = AUTO, hcm_StatPrefix = ''ingress_http'',
            hcm_HttpFilters = filters,
            hcm_Rds = \<lparr>rds_ResourceApiVersion = API_V3, rds_ConfigSource = Ads,
              rds_InitialFetchTimeout = 10 * 10 ^ 9, rds_RouteConfigName = routeConfigName\<rparr>,
            hcm_StreamIdleTimeout = IdleTimeout kourierConfig,
            hcm_XffNumTrustedHops = TrustedHopsCount kourierConfig,
            hcm_UseRemoteAddress = None, hcm_AccessLog = [],
            hcm_GenerateRequestId = None, hcm_Tracing = None\<rparr>;
          mgr = (if EnableProxyProtocol kourierConfig
                 then mgr\<lparr>hcm_UseRemoteAddress := Some True\<rparr> else mgr);
          mgr = (if EnableServiceAccessLogging kourierConfig
                 then mgr\<lparr>hcm_AccessLog := [\<lparr>acl_Name = ''envoy.file_access_log'',
                        acl_TypedConfig = anypb_ptr mar M_FileAccessLog
                          \<lparr>fal_Path = ''/dev/stdout''\<rparr>\<rparr>]\<rparr>
                 else mgr)
      in if tr_Enabled (kTracing kourierConfig)
         then mgr\<lparr>hcm_GenerateRequestId := Some True,
                hcm_Tracing := Some \<lparr>ht_ProviderName = wk_Zipkin,
                  ht_TypedConfig = anypb_ptr mar M_ZipkinConfig
                    \<lparr>zk_CollectorCluster = ''tracing-collector'',
                     zk_CollectorEndpoint = tr_CollectorEndpoint (kTracing kourierConfig),
                     zk_SharedSpanContext = False,
                     zk_CollectorEndpointVersion = ''HTTP_JSON''\<rparr>\<rparr>\<rparr>
         else mgr)"

definition NewRouteConfig :: "string \<Rightarrow> VirtualHost option list \<Rightarrow> RouteConfiguration" where
  "NewRouteConfig name virtualHosts =
     \<lparr>rc_Name = name, rc_VirtualHosts = virtualHosts, rc_ValidateClusters = True\<rparr>"

section \<open>Facts about the builders\<close>

text \<open>The cluster names a route sends traffic to.\<close>

definition route_clusters :: "Route \<Rightarrow> string list" where
  "route_clusters r =
     (case rt_Action r of
        Route_Route ra \<Rightarrow> map cw_Name (ra_WeightedClusters ra)
      | Route_Redirect _ \<Rightarrow> [])"

definition vhost_clusters :: "VirtualHost \<Rightarrow> string list" where
  "vhost_clusters vh = concat (map route_clusters (vh_Routes vh))"

lemma NewRoute_sel [simp]:
  "rt_Name (NewRoute n hm p wrs t hs hr rg) = n"
  "rt_Match (NewRoute n hm p wrs t hs hr rg) = \<lparr>rm_Prefix = p, rm_Headers = hm\<rparr>"
  "route_clusters (NewRoute n hm p wrs t hs hr rg) = map cw_Name wrs"
  by (simp_all add: NewRoute_def route_clusters_def)

lemma NewRedirectRoute_sel [simp]: "route_clusters (NewRedirectRoute n hm p) = []"
  by (simp add: NewRedirectRoute_def route_clusters_def)

lemma NewRouteExtAuthzDisabled_sel [simp]:
  "route_clusters (NewRouteExtAuthzDisabled mar n hm p wrs t hs hr) = map cw_Name wrs"
  by (simp add: NewRouteExtAuthzDisabled_def NewRoute_def route_clusters_def)

lemma NewVirtualHost_sel [simp]:
  "vh_Name (NewVirtualHost n ds rs) = n"
  "vh_Domains (NewVirtualHost n ds rs) = ds"
  "vh_Routes (NewVirtualHost n ds rs) = rs"
  by (simp_all add: NewVirtualHost_def)

lemma NewVirtualHostWithExtAuthz_sel [simp]:
  "vh_Name (NewVirtualHostWithExtAuthz mar n ce ds rs) = n"
  "vh_Domains (NewVirtualHostWithExtAuthz mar n ce ds rs) = ds"
  "vh_Routes (NewVirtualHostWithExtAuthz mar n ce ds rs) = rs"
  by (simp_all add: NewVirtualHostWithExtAuthz_def)

lemma NewCluster_sel [simp]:
  "cl_Name (NewCluster mar n t eps h2 tsk ty) = n"
  "cla_Endpoints (cl_LoadAssignment (NewCluster mar n t eps h2 tsk ty)) = [eps]"
  "cl_Type (NewCluster mar n t eps h2 tsk ty) = ty"
  "cl_TransportSocket (NewCluster mar n t eps h2 tsk ty) = tsk"
  by (simp_all add: NewCluster_def Let_def)

lemma NewWeightedCluster_sel [simp]:
  "cw_Name (NewWeightedCluster n w hs) = n"
  "cw_Weight (NewWeightedCluster n w hs) = w"
  by (simp_all add: NewWeightedCluster_def)

lemma NewRouteConfig_sel [simp]:
  "rc_Name (NewRouteConfig n vhs) = n"
  "rc_VirtualHosts (NewRouteConfig n vhs) = vhs"
  "rc_ValidateClusters (NewRouteConfig n vhs)"
  by (simp_all add: NewRouteConfig_def)

end
