(* ===== verification/Regions.thy ===== *)
theory Regions
  imports Prelude
begin

text \<open>
  The regions of the gateway, \<^verbatim>\<open>pkg/region/main.go\<close>: a fixed list of maps, one per region,
  with the region's \<open>id\<close>, its \<open>name\<close> (the suffix of its clusters) and its \<open>label\<close> (the
  Kubernetes node whose pods belong to it). The translator, the caches and the listener
  builder all loop over this list by index and range over each map for one key.
\<close>

definition InitRegions :: "string gomap list" where
  "InitRegions =
    [ [(''id'', ''0''), (''name'', ''region1''), (''label'', ''node1'')],
      [(''id'', ''1''), (''name'', ''region2''), (''label'', ''node2'')],
      [(''id'', ''2''), (''name'', ''region3''), (''label'', ''node3'')] ]"

definition regions :: "string gomap list" where
  "regions = InitRegions"

text \<open>\<^verbatim>\<open>for key, value := range m { if key == k { body(value) } }\<close>.\<close>

definition for_key :: "string \<Rightarrow> ('s \<Rightarrow> string \<Rightarrow> 'e + 's) \<Rightarrow> 's \<Rightarrow> string gomap \<Rightarrow> 'e + 's" where
  "for_key k body s m =
     foldM (\<lambda>s (key, value). if key = k then body s value else Inr s) s m"

text \<open>
  Ranging over a map for one key is a lookup, whatever the iteration order: the body runs once
  with the key's value, or not at all.
\<close>

lemma for_key_absent: "k \<notin> fst ` set m \<Longrightarrow> for_key k body s m = Inr s"
  unfolding for_key_def by (induction m arbitrary: s) auto

lemma for_key_lookup:
  assumes "distinct (map fst m)"
  shows "for_key k body s m = (case map_of m k of None \<Rightarrow> Inr s | Some v \<Rightarrow> body s v)"
  using assms
proof (induction m arbitrary: s)
  case Nil
  then show ?case by (simp add: for_key_def)
next
  case (Cons p m)
  obtain key v where p: "p = (key, v)" by fastforce
  have step: "for_key k body s (p # m) =
      bindr (if key = k then body s v else Inr s) (\<lambda>s'. for_key k body s' m)"
    by (simp add: for_key_def p)
  show ?case
  proof (cases "key = k")
    case True
    then have "\<And>s'. for_key k body s' m = Inr s'"
      using Cons.prems p by (intro for_key_absent) auto
    then show ?thesis using True step p by simp
  next
    case False
    then show ?thesis using Cons step p by simp
  qed
qed

definition region_name :: "nat \<Rightarrow> string" where
  "region_name i = gomap_get (regions ! i) ''name''"

definition region_label :: "nat \<Rightarrow> string" where
  "region_label i = gomap_get (regions ! i) ''label''"

lemma length_regions [simp]: "length regions = 3"
  by (simp add: regions_def InitRegions_def)

lemma upto_regions: "[0..<length regions] = [0, 1, 2]"
  by (simp add: upt_rec)

lemma upt_three [simp]: "[0..<3] = [0, 1, 2::nat]"
  by (simp add: upt_rec)

lemma region_cases: "i < length regions \<Longrightarrow> i = 0 \<or> i = 1 \<or> i = 2"
  by auto

lemma ex_region: "(\<exists>i < length regions. P i) \<longleftrightarrow> P 0 \<or> P 1 \<or> P 2"
  by (simp add: numeral_eq_Suc Ex_less_Suc2)

lemma all_region: "(\<forall>i < length regions. P i) \<longleftrightarrow> P 0 \<and> P 1 \<and> P 2"
  by (simp add: numeral_eq_Suc All_less_Suc2)

lemma Un_region: "(\<Union>i < length regions. f i) = f 0 \<union> f 1 \<union> f 2"
  by (auto simp: numeral_eq_Suc lessThan_Suc)

lemma region_lookup:
  assumes "i < length regions"
  shows "distinct (map fst (regions ! i))"
    and "map_of (regions ! i) ''name'' = Some (region_name i)"
    and "map_of (regions ! i) ''label'' = Some (region_label i)"
  using region_cases [OF assms]
  by (auto simp: regions_def InitRegions_def region_name_def region_label_def gomap_get_def)

lemma for_name [simp]:
  "i < length regions \<Longrightarrow> for_key ''name'' body s (regions ! i) = body s (region_name i)"
  by (simp add: for_key_lookup region_lookup del: length_regions)

lemma for_label [simp]:
  "i < length regions \<Longrightarrow> for_key ''label'' body s (regions ! i) = body s (region_label i)"
  by (simp add: for_key_lookup region_lookup del: length_regions)

lemma region_values:
  "region_name 0 = ''region1''" "region_name (Suc 0) = ''region2''" "region_name 2 = ''region3''"
  "region_label 0 = ''node1''" "region_label (Suc 0) = ''node2''" "region_label 2 = ''node3''"
  by (simp_all add: region_name_def region_label_def regions_def InitRegions_def gomap_get_def
      numeral_2_eq_2)

lemma region_name_inj:
  "i < length regions \<Longrightarrow> j < length regions \<Longrightarrow> region_name i = region_name j \<Longrightarrow> i = j"
  by (auto dest!: region_cases simp: region_values simp del: length_regions)

lemma region_label_inj:
  "i < length regions \<Longrightarrow> j < length regions \<Longrightarrow> region_label i = region_label j \<Longrightarrow> i = j"
  by (auto dest!: region_cases simp: region_values simp del: length_regions)

end
