(* ===== verification/Translator.thy ===== *)
theory Translator
  imports Translator_Monad Envoy_Api Regions
begin

text \<open>
  The ingress translator, \<^verbatim>\<open>pkg/generator/ingress_translator.go\<close>: from a Knative ingress and the
  secrets, services and endpoints it refers to, to the SNI matches, clusters and virtual hosts
  of Envoy, per region. Each loop of \<^verbatim>\<open>translateIngress\<close> is a definition of its own (its body as
  a step on the loop variables), composed in the order of the source.
\<close>

section \<open>Parameters and results\<close>

text \<open>
  What the translator is given by its environment: the process environment, the protobuf run
  time, and \<^verbatim>\<open>tls.X509KeyPair\<close>, as the error it returns if any.
\<close>

record world =
  w_env :: environ
  w_mar :: marshaler
  w_x509 :: "bytes \<Rightarrow> bytes \<Rightarrow> go_error option"

text \<open>The getters and the tracker; the tracker is the error it returns for a reference, if any.\<close>

record IngressTranslator =
  secretGetter :: "string \<Rightarrow> string \<Rightarrow> go_error + Secret"
  endpointsGetter :: "string \<Rightarrow> string \<Rightarrow> go_error + Endpoints"
  serviceGetter :: "string \<Rightarrow> string \<Rightarrow> go_error + Service"
  tracker :: "Reference \<Rightarrow> NamespacedName \<Rightarrow> go_error option"

definition NewIngressTranslator ::
  "(string \<Rightarrow> string \<Rightarrow> go_error + Secret) \<Rightarrow> (string \<Rightarrow> string \<Rightarrow> go_error + Endpoints) \<Rightarrow>
   (string \<Rightarrow> string \<Rightarrow> go_error + Service) \<Rightarrow> (Reference \<Rightarrow> NamespacedName \<Rightarrow> go_error option) \<Rightarrow>
   IngressTranslator" where
  "NewIngressTranslator sg eg vg tk =
     \<lparr>secretGetter = sg, endpointsGetter = eg, serviceGetter = vg, tracker = tk\<rparr>"

record translatedIngress =
  ti_name :: NamespacedName
  ti_sniMatches :: "nat list"
  ti_clusters :: "Cluster list"
  ti_externalVirtualHosts :: "VirtualHost option list list"
  ti_externalTLSVirtualHosts :: "VirtualHost option list list"
  ti_internalVirtualHosts :: "VirtualHost option list list"

definition certFieldInSecret :: string where "certFieldInSecret = ''tls.crt''"
definition keyFieldInSecret :: string where "keyFieldInSecret = ''tls.key''"

definition envCertsSecretNamespace :: string where [simp]: "envCertsSecretNamespace = ''CERTS_SECRET_NAMESPACE''"
definition envCertsSecretName :: string where [simp]: "envCertsSecretName = ''CERTS_SECRET_NAME''"

definition useHTTPSListenerWithOneCert :: "environ \<Rightarrow> bool" where
  "useHTTPSListenerWithOneCert env \<longleftrightarrow>
     os_Getenv env envCertsSecretNamespace \<noteq> [] \<and> os_Getenv env envCertsSecretName \<noteq> []"

section \<open>Tracking\<close>

definition ing_nn :: "Ingress \<Rightarrow> NamespacedName" where
  "ing_nn ing = \<lparr>nn_Namespace = ing_Namespace ing, nn_Name = ing_Name ing\<rparr>"

text \<open>\<^verbatim>\<open>t.TrackReference(ref, ingress)\<close>: registers the reference, or returns an error.\<close>

definition TrackReference :: "IngressTranslator \<Rightarrow> Reference \<Rightarrow> Ingress \<Rightarrow> tr_state \<Rightarrow>
    (go_error + unit) \<times> tr_state" where
  "TrackReference t ref ing st =
     (case tracker t ref (ing_nn ing) of
        Some e \<Rightarrow> (Inl e, st)
      | None \<Rightarrow> (Inr (), st\<lparr>ts_tracked := ts_tracked st @ [(ref, ing_nn ing)]\<rparr>))"

text \<open>An error of a call leaves the translator, wrapped by \<open>wrap\<close>.\<close>

definition orExit :: "(go_error \<Rightarrow> go_error) \<Rightarrow> (tr_state \<Rightarrow> (go_error + 'a) \<times> tr_state) \<Rightarrow> 'a tr" where
  "orExit wrap m s =
     (case m s of (Inl e, s') \<Rightarrow> (Inl (ExitErr (wrap e)), s') | (Inr a, s') \<Rightarrow> (Inr a, s'))"

definition secretRef :: "string \<Rightarrow> string \<Rightarrow> Reference" where
  "secretRef ns name = \<lparr>ref_Kind = ''Secret'', ref_APIVersion = ''v1'', ref_Namespace = ns,
     ref_Name = name\<rparr>"

definition serviceRef :: "string \<Rightarrow> string \<Rightarrow> Reference" where
  "serviceRef ns name = \<lparr>ref_Kind = ''Service'', ref_APIVersion = ''v1'', ref_Namespace = ns,
     ref_Name = name\<rparr>"

definition endpointsRef :: "string \<Rightarrow> string \<Rightarrow> Reference" where
  "endpointsRef ns name = \<lparr>ref_Kind = ''Endpoints'', ref_APIVersion = ''v1'', ref_Namespace = ns,
     ref_Name = name\<rparr>"

definition trackSecret :: "IngressTranslator \<Rightarrow> string \<Rightarrow> string \<Rightarrow> Ingress \<Rightarrow> unit tr" where
  "trackSecret t ns name ing = orExit (\<lambda>e. e) (TrackReference t (secretRef ns name) ing)"

definition trackService :: "IngressTranslator \<Rightarrow> string \<Rightarrow> string \<Rightarrow> Ingress \<Rightarrow> unit tr" where
  "trackService t svcNs svcName ing =
     bindT (orExit (ErrWrap ''could not track service reference'')
              (TrackReference t (serviceRef svcNs svcName) ing)) (\<lambda>_.
            orExit (ErrWrap ''could not track endpoints reference'')
              (TrackReference t (endpointsRef svcNs svcName) ing))"

section \<open>Pieces of a route\<close>

definition matchHeadersFromHTTPPath :: "HTTPIngressPath \<Rightarrow> HeaderMatcher list" where
  "matchHeadersFromHTTPPath httpPath =
     map (\<lambda>(header, exact).
       \<lparr>hm_Name = header, hm_StringMatch_Exact = (if exact \<noteq> [] then Some exact else None)\<rparr>)
     (hp_Headers httpPath)"

definition domainsForRule :: "IngressRule \<Rightarrow> string list" where
  "domainsForRule rule = concat (map (\<lambda>host. [host, host @ '':*'']) (ir_Hosts rule))"

text \<open>
  \<^verbatim>\<open>lbEndpointsForKubeEndpointsTest\<close>: nil when no address is ready, otherwise one list of
  endpoints per region (and one more, unused), with the ready addresses of the region's node.
  A nil node name is dereferenced.
\<close>

definition lbEndpointsForKubeEndpointsTest :: "Endpoints \<Rightarrow> 32 word \<Rightarrow> LbEndpoint list list res" where
  "lbEndpointsForKubeEndpointsTest kubeEndpoints targetPort =
     (let readyAddressCount = sum_list (map (\<lambda>s. length (es_Addresses s)) (ep_Subsets kubeEndpoints))
      in if readyAddressCount = 0 then Inr []
         else foldM (\<lambda>eps i.
                for_key ''label'' (\<lambda>eps value.
                  foldM (\<lambda>eps subset.
                    foldM (\<lambda>eps address.
                      bindr (deref (ea_NodeName address)) (\<lambda>nodeName.
                        if nodeName = value
                        then Inr (append_at i [NewLBEndpoint (ea_IP address) targetPort] eps)
                        else Inr eps))
                    eps (es_Addresses subset))
                  eps (ep_Subsets kubeEndpoints))
                eps (regions ! i))
              (replicate (length regions + 1) []) [0..<length regions])"

definition DataPlaneUserSAN :: "string \<Rightarrow> string" where
  "DataPlaneUserSAN namespace = ''kn-user-'' @ map ascii_lower namespace"

definition createUpstreamTLSContext :: "bytes \<Rightarrow> string \<Rightarrow> string list \<Rightarrow> UpstreamTlsContext" where
  "createUpstreamTLSContext caCertificate namespace alpnProtocols =
     \<lparr>utc_AlpnProtocols = alpnProtocols, utc_MinVersion = TLSv1_3, utc_MaxVersion = TLSv1_3,
      utc_TrustedCa = caCertificate,
      utc_MatchSANs =
        [\<lparr>san_Type = SAN_DNS, san_Exact = ''kn-routing''\<rparr>,
         \<lparr>san_Type = SAN_DNS, san_Exact = DataPlaneUserSAN namespace\<rparr>]\<rparr>"

definition wk_TransportSocketTls :: string where
  "wk_TransportSocketTls = ''envoy.transport_sockets.tls''"

definition createUpstreamTransportSocket ::
  "world \<Rightarrow> IngressTranslator \<Rightarrow> bool \<Rightarrow> string \<Rightarrow> UpstreamTlsContext TransportSocket res" where
  "createUpstreamTransportSocket w t http2 namespace =
     bindr (ServingNamespace (w_env w)) (\<lambda>servingNs.
       case secretGetter t servingNs ''routing-serving-certs'' of
         Inl e \<Rightarrow> Inl (Err (ErrWrap ''failed to fetch activator CA secret'' e))
       | Inr caSecret \<Rightarrow>
           (let alpnProtocols = (if http2 then ''h2'' else []) in
            bindr (liftE (anypb_New (w_mar w) M_UpstreamTlsContext
                     (createUpstreamTLSContext (gomap_get (sec_Data caSecret) ''ca.crt'') namespace
                        [alpnProtocols]))) (\<lambda>tlsAny.
              Inr \<lparr>ts_Name = wk_TransportSocketTls, ts_TypedConfig = tlsAny\<rparr>)))"

text \<open>The loop over the ports of the service, with its four variables.\<close>

record port_choice =
  pc_externalPort :: "32 word"
  pc_targetPort :: "32 word"
  pc_http2 :: bool
  pc_httpsPortUsed :: bool

definition port_step :: "IntOrString \<Rightarrow> port_choice \<Rightarrow> ServicePort \<Rightarrow> port_choice" where
  "port_step servicePort pc port =
     (let pc = (if sp_Port port = ios_IntVal servicePort \<or> sp_Name port = ios_StrVal servicePort
                then pc\<lparr>pc_externalPort := sp_Port port, pc_targetPort := sp_TargetPort port\<rparr>
                else pc);
          pc = (if sp_Name port = ''http2'' \<or> sp_Name port = ''h2c''
                then pc\<lparr>pc_http2 := True\<rparr> else pc)
      in if sp_Port port = ios_IntVal servicePort \<and> sp_Name port = ''https''
         then pc\<lparr>pc_httpsPortUsed := True\<rparr> else pc)"

definition select_port :: "IntOrString \<Rightarrow> ServicePort list \<Rightarrow> port_choice" where
  "select_port servicePort ports =
     foldl (port_step servicePort)
       \<lparr>pc_externalPort = 80, pc_targetPort = 80, pc_http2 = False, pc_httpsPortUsed = False\<rparr> ports"

section \<open>translateIngress\<close>

text \<open>One TLS section: track, fetch and validate its secret, then allocate its SNI match.\<close>

definition tls_step :: "world \<Rightarrow> IngressTranslator \<Rightarrow> Ingress \<Rightarrow> nat list \<Rightarrow> IngressTLS \<Rightarrow> nat list tr" where
  "tls_step w t ing sniMatches ingressTLS =
     bindT (trackSecret t (it_SecretNamespace ingressTLS) (it_SecretName ingressTLS) ing) (\<lambda>_.
       case secretGetter t (it_SecretNamespace ingressTLS) (it_SecretName ingressTLS) of
         Inl e \<Rightarrow> exitT (ExitErr (ErrWrap ''failed to fetch secret'' e))
       | Inr secret \<Rightarrow>
           (let crt = gomap_get (sec_Data secret) certFieldInSecret;
                k = gomap_get (sec_Data secret) keyFieldInSecret
            in case w_x509 w crt k of
                 Some e \<Rightarrow> exitT (ExitErr (ErrWrap ''invalid secret is specified'' e))
               | None \<Rightarrow> (\<lambda>st.
                   (Inr (sniMatches @ [length (ts_heap st)]),
                    st\<lparr>ts_heap := ts_heap st @
                         [\<lparr>sm_Hosts = it_Hosts ingressTLS,
                           sm_CertSource = \<lparr>nn_Namespace = it_SecretNamespace ingressTLS,
                                            nn_Name = it_SecretName ingressTLS\<rparr>,
                           sm_CertificateChain = crt, sm_PrivateKey = k\<rparr>]\<rparr>))))"

text \<open>The endpoints and the discovery type of a split's service.\<close>

definition split_endpoints ::
  "IngressTranslator \<Rightarrow> IngressBackendSplit \<Rightarrow> Service \<Rightarrow> port_choice \<Rightarrow>
   (LbEndpoint list list \<times> DiscoveryType) tr" where
  "split_endpoints t split service pc =
     (if svc_Type service = ExternalName then
        bindT (liftT (index_set [] 0 [NewLBEndpoint (svc_ExternalName service) (pc_externalPort pc)]))
          (\<lambda>eps. retT (eps, LOGICAL_DNS))
      else
        (case endpointsGetter t (bs_ServiceNamespace split) (bs_ServiceName split) of
           Inl e \<Rightarrow>
             if IsNotFound e then exitT ExitNil
             else exitT (ExitErr (ErrWrap (''failed to fetch endpoints '' @
                    bs_ServiceNamespace split @ ''/'' @ bs_ServiceName split) e))
         | Inr endpoints \<Rightarrow>
             bindT (liftT (lbEndpointsForKubeEndpointsTest endpoints (pc_targetPort pc)))
               (\<lambda>eps. retT (eps, STATIC))))"

text \<open>The loop over the regions that adds a split's clusters and weights.\<close>

definition split_regions ::
  "world \<Rightarrow> IngressBackendSplit \<Rightarrow> LbEndpoint list list \<Rightarrow> bool \<Rightarrow>
   UpstreamTlsContext TransportSocket option \<Rightarrow> DiscoveryType \<Rightarrow>
   Cluster list \<times> ClusterWeight list list \<Rightarrow> (Cluster list \<times> ClusterWeight list list) res" where
  "split_regions w split publicLbEndpoints http2 transportSocket typ acc =
     (let splitName = bs_ServiceNamespace split @ ''/'' @ bs_ServiceName split in
      foldM (\<lambda>acc i.
        for_key ''name'' (\<lambda>(clusters, wrs) value.
          bindr (index_get publicLbEndpoints i) (\<lambda>eps.
            Inr (clusters @ [NewCluster (w_mar w) (splitName @ ''_'' @ value) (5 * 10 ^ 9) eps http2
                               transportSocket typ],
                 append_at i [NewWeightedCluster (splitName @ ''_'' @ value)
                               (word_of_int (bs_Percent split)) (bs_AppendHeaders split)] wrs)))
        acc (regions ! i))
      acc [0..<length regions])"

text \<open>One split: track and fetch its service, choose the port, build its clusters.\<close>

definition split_step ::
  "world \<Rightarrow> IngressTranslator \<Rightarrow> ctx \<Rightarrow> Ingress \<Rightarrow> HTTPIngressPath \<Rightarrow>
   Cluster list \<times> ClusterWeight list list \<Rightarrow> IngressBackendSplit \<Rightarrow>
   (Cluster list \<times> ClusterWeight list list) tr" where
  "split_step w t ctx ing httpPath acc split =
     bindT (trackService t (bs_ServiceNamespace split) (bs_ServiceName split) ing) (\<lambda>_.
       case serviceGetter t (bs_ServiceNamespace split) (bs_ServiceName split) of
         Inl e \<Rightarrow>
           if IsNotFound e then exitT ExitNil
           else exitT (ExitErr (ErrWrap (''failed to fetch service '' @
                  bs_ServiceNamespace split @ ''/'' @ bs_ServiceName split) e))
       | Inr service \<Rightarrow>
           (let pc = select_port (bs_ServicePort split) (svc_Ports service);
                http2 = (if strings_EqualFold (GetDisableHTTP2 (ing_Annotations ing)) ''true''
                         then False else pc_http2 pc)
            in bindT (split_endpoints t split service pc) (\<lambda>(publicLbEndpoints, typ).
               let cfg = FromContextOrDefaults ctx in
               bindT (if (SystemInternalTLSEnabled (cfg_Network cfg) \<or> pc_httpsPortUsed pc) \<and>
                         hp_RewriteHost httpPath = []
                      then bindT (liftT (createUpstreamTransportSocket w t http2
                                           (bs_ServiceNamespace split))) (\<lambda>ts. retT (Some ts))
                      else retT None) (\<lambda>transportSocket.
                 liftT (split_regions w split publicLbEndpoints http2 transportSocket typ acc)))))"

text \<open>The routes of one path: per region, or for region 0 only on the two special paths.\<close>

definition add_routes ::
  "world \<Rightarrow> Ingress \<Rightarrow> bool \<Rightarrow> IngressRule \<Rightarrow> HTTPIngressPath \<Rightarrow> string \<Rightarrow> string \<Rightarrow>
   ClusterWeight list list \<Rightarrow> Route list list \<Rightarrow> Route list list res" where
  "add_routes w ing extAuthzEnabled rule httpPath path pathName wrs routes =
     (if extAuthzEnabled \<and> strings_HasPrefix path ''/.well-known/acme-challenge/''
      then Inr (append_at 0 [NewRouteExtAuthzDisabled (w_mar w) pathName
             (matchHeadersFromHTTPPath httpPath) path (wrs ! 0) 0 (hp_AppendHeaders httpPath)
             (hp_RewriteHost httpPath)] routes)
      else if w_env w ''KOURIER_HTTPOPTION_DISABLED'' = None \<and>
              ing_HTTPOption ing = HTTPOptionRedirected \<and> ir_Visibility rule = ExternalIP
      then Inr (append_at 0
             [NewRedirectRoute pathName (matchHeadersFromHTTPPath httpPath) path] routes)
      else foldM (\<lambda>routes i.
             for_key ''label'' (\<lambda>routes value. Inr (append_at i
               [NewRoute pathName (matchHeadersFromHTTPPath httpPath) path (wrs ! i) 0
                  (hp_AppendHeaders httpPath) (hp_RewriteHost httpPath) [value]] routes))
             routes (regions ! i))
           routes [0..<length regions])"

text \<open>One path of a rule: its splits, then its routes.\<close>

definition path_step ::
  "world \<Rightarrow> IngressTranslator \<Rightarrow> ctx \<Rightarrow> Ingress \<Rightarrow> bool \<Rightarrow> IngressRule \<Rightarrow> string \<Rightarrow>
   Cluster list \<times> Route list list \<times> Route list \<Rightarrow> HTTPIngressPath \<Rightarrow>
   (Cluster list \<times> Route list list \<times> Route list) tr" where
  "path_step w t ctx ing extAuthzEnabled rule ruleName acc httpPath =
     (let (clusters, routes, tlsRoutes) = acc;
          path = (if hp_Path httpPath = [] then ''/'' else hp_Path httpPath);
          pathName = ruleName @ ''.Paths['' @ path @ '']''
      in bindT (forT (split_step w t ctx ing httpPath)
                  (clusters, replicate (length regions + 1) []) (hp_Splits httpPath))
           (\<lambda>(clusters, wrs).
             if length wrs \<noteq> 0 then
               bindT (liftT (add_routes w ing extAuthzEnabled rule httpPath path pathName wrs routes))
                 (\<lambda>routes. retT (clusters, routes,
                   tlsRoutes @
                     (if length (ing_TLS ing) \<noteq> 0 \<or> useHTTPSListenerWithOneCert (w_env w)
                      then [NewRoute pathName (matchHeadersFromHTTPPath httpPath) path (wrs ! 0) 0
                              (hp_AppendHeaders httpPath) (hp_RewriteHost httpPath) []]
                      else [])))
             else retT (clusters, routes, tlsRoutes)))"

text \<open>\<^verbatim>\<open>kmeta.UnionMaps\<close>: later maps win.\<close>

definition UnionMaps :: "string gomap \<Rightarrow> string gomap \<Rightarrow> string gomap" where
  "UnionMaps a b = foldl (\<lambda>m (k, v). AList.update k v m) a b"

text \<open>
  The virtual hosts of a rule: with external authorization only region 0 gets one and the
  other entries stay nil; without it every region gets one.
\<close>

definition rule_vhosts ::
  "world \<Rightarrow> Ingress \<Rightarrow> bool \<Rightarrow> IngressRule \<Rightarrow> string \<Rightarrow> Route list list \<Rightarrow> Route list \<Rightarrow>
   VirtualHost option list \<times> VirtualHost option" where
  "rule_vhosts w ing extAuthzEnabled rule ruleName routes tlsRoutes =
     (let virtualHost = replicate (length regions + 1) None in
      if extAuthzEnabled then
        (let contextExtensions = UnionMaps
               [(''client'', ''kourier''), (''visibility'', visibility_str (ir_Visibility rule))]
               (ing_Labels ing)
         in (virtualHost[0 := Some (NewVirtualHostWithExtAuthz (w_mar w) ruleName contextExtensions
                                      (domainsForRule rule) (routes ! 0))],
             if length tlsRoutes \<noteq> 0
             then Some (NewVirtualHostWithExtAuthz (w_mar w) ruleName contextExtensions
                          (domainsForRule rule) tlsRoutes)
             else None))
      else
        (foldl (\<lambda>vh i. vh[i := Some (NewVirtualHost ruleName (domainsForRule rule) (routes ! i))])
           virtualHost [0..<length regions],
         if length tlsRoutes \<noteq> 0
         then Some (NewVirtualHost ruleName (domainsForRule rule) tlsRoutes) else None))"

record rule_acc =
  ra_clusters :: "Cluster list"
  ra_internal :: "VirtualHost option list list"
  ra_external :: "VirtualHost option list list"
  ra_externalTLS :: "VirtualHost option list list"

text \<open>The final loop of a rule: append its virtual hosts to the lists of every region.\<close>

definition add_vhosts ::
  "IngressRule \<Rightarrow> VirtualHost option list \<Rightarrow> VirtualHost option \<Rightarrow> rule_acc \<Rightarrow> rule_acc" where
  "add_vhosts rule virtualHost virtualTLSHost acc =
     foldl (\<lambda>acc i.
       let acc = acc\<lparr>ra_internal := append_at i [virtualHost ! i] (ra_internal acc)\<rparr> in
       if ir_Visibility rule = ExternalIP then
         (let acc = acc\<lparr>ra_external := append_at i [virtualHost ! i] (ra_external acc)\<rparr> in
          if virtualTLSHost \<noteq> None
          then acc\<lparr>ra_externalTLS := append_at i [virtualTLSHost] (ra_externalTLS acc)\<rparr>
          else acc)
       else acc)
     acc [0..<length regions]"

definition rule_step ::
  "world \<Rightarrow> IngressTranslator \<Rightarrow> ctx \<Rightarrow> Ingress \<Rightarrow> bool \<Rightarrow> rule_acc \<Rightarrow> nat \<times> IngressRule \<Rightarrow> rule_acc tr" where
  "rule_step w t ctx ing extAuthzEnabled acc i_rule =
     (let (i, rule) = i_rule;
          ruleName = ''('' @ ing_Namespace ing @ ''/'' @ ing_Name ing @ '').Rules['' @ nat_str i @ '']''
      in bindT (liftT (deref (ir_HTTP rule))) (\<lambda>paths.
         bindT (forT (path_step w t ctx ing extAuthzEnabled rule ruleName)
                  (ra_clusters acc, replicate (length regions + 1) [], []) paths)
           (\<lambda>(clusters, routes, tlsRoutes).
             if length routes = 0 then exitT ExitNil
             else
               (let (virtualHost, virtualTLSHost) =
                      rule_vhosts w ing extAuthzEnabled rule ruleName routes tlsRoutes
                in retT (add_vhosts rule virtualHost virtualTLSHost (acc\<lparr>ra_clusters := clusters\<rparr>))))))"

definition translate ::
  "world \<Rightarrow> IngressTranslator \<Rightarrow> ctx \<Rightarrow> Ingress \<Rightarrow> bool \<Rightarrow> translatedIngress tr" where
  "translate w t ctx ing extAuthzEnabled =
     bindT (forT (tls_step w t ing) [] (ing_TLS ing)) (\<lambda>sniMatches.
     bindT (forT (rule_step w t ctx ing extAuthzEnabled)
              \<lparr>ra_clusters = [],
               ra_internal = replicate (length regions + 1) [],
               ra_external = replicate (length regions + 1) [],
               ra_externalTLS = replicate (length regions + 1) []\<rparr>
              (enumerate 0 (ing_Rules ing))) (\<lambda>acc.
       retT \<lparr>ti_name = ing_nn ing, ti_sniMatches = sniMatches, ti_clusters = ra_clusters acc,
             ti_externalVirtualHosts = ra_external acc,
             ti_externalTLSVirtualHosts = ra_externalTLS acc,
             ti_internalVirtualHosts = ra_internal acc\<rparr>))"

text \<open>
  \<^verbatim>\<open>translateIngress\<close> returns a translation, or nil when a referenced service or its endpoints
  do not exist yet, or an error; the state holds what was allocated and tracked.
\<close>

definition translateIngress ::
  "world \<Rightarrow> IngressTranslator \<Rightarrow> ctx \<Rightarrow> Ingress \<Rightarrow> bool \<Rightarrow> tr_state \<Rightarrow>
   translatedIngress option res \<times> tr_state" where
  "translateIngress w t ctx ing extAuthzEnabled st =
     (case translate w t ctx ing extAuthzEnabled st of
        (Inr ti, st') \<Rightarrow> (Inr (Some ti), st')
      | (Inl ExitNil, st') \<Rightarrow> (Inr None, st')
      | (Inl (ExitErr e), st') \<Rightarrow> (Inl (Err e), st')
      | (Inl (ExitPanic p), st') \<Rightarrow> (Inl (Panic p), st'))"

end
