(* ===== verification/Translator_Spec.thy ===== *)
theory Translator_Spec
  imports Translator
begin

text \<open>
  What a translation is, without the loops: every cluster, route and virtual host as a function
  of the ingress and of the objects it refers to. The refinement at the end of the theory shows
  that a translation the translator returns is the one specified here, and the properties of
  the translator are read off the specification.
\<close>

section \<open>Specification\<close>

definition split_cluster_name :: "IngressBackendSplit \<Rightarrow> nat \<Rightarrow> string" where
  "split_cluster_name split i =
     bs_ServiceNamespace split @ ''/'' @ bs_ServiceName split @ ''_'' @ region_name i"

definition split_weight :: "nat \<Rightarrow> IngressBackendSplit \<Rightarrow> ClusterWeight" where
  "split_weight i split =
     NewWeightedCluster (split_cluster_name split i) (word_of_int (bs_Percent split))
       (bs_AppendHeaders split)"

text \<open>The objects behind a split, when they exist.\<close>

definition split_service :: "IngressTranslator \<Rightarrow> IngressBackendSplit \<Rightarrow> Service" where
  "split_service t split = projr (serviceGetter t (bs_ServiceNamespace split) (bs_ServiceName split))"

definition split_kube_endpoints :: "IngressTranslator \<Rightarrow> IngressBackendSplit \<Rightarrow> Endpoints" where
  "split_kube_endpoints t split =
     projr (endpointsGetter t (bs_ServiceNamespace split) (bs_ServiceName split))"

definition split_port :: "IngressTranslator \<Rightarrow> IngressBackendSplit \<Rightarrow> port_choice" where
  "split_port t split = select_port (bs_ServicePort split) (svc_Ports (split_service t split))"

definition split_http2 :: "IngressTranslator \<Rightarrow> Ingress \<Rightarrow> IngressBackendSplit \<Rightarrow> bool" where
  "split_http2 t ing split \<longleftrightarrow>
     pc_http2 (split_port t split) \<and>
     \<not> strings_EqualFold (GetDisableHTTP2 (ing_Annotations ing)) ''true''"

definition split_socket ::
  "world \<Rightarrow> IngressTranslator \<Rightarrow> ctx \<Rightarrow> Ingress \<Rightarrow> HTTPIngressPath \<Rightarrow> IngressBackendSplit \<Rightarrow>
   UpstreamTlsContext TransportSocket option" where
  "split_socket w t ctx ing httpPath split =
     (if (SystemInternalTLSEnabled (cfg_Network (FromContextOrDefaults ctx)) \<or>
          pc_httpsPortUsed (split_port t split)) \<and> hp_RewriteHost httpPath = []
      then Some (projr (createUpstreamTransportSocket w t (split_http2 t ing split)
                          (bs_ServiceNamespace split)))
      else None)"

text \<open>The endpoints of region \<open>i\<close>: the ready addresses on the region's node, in order.\<close>

definition all_addresses :: "Endpoints \<Rightarrow> EndpointAddress list" where
  "all_addresses eps = concat (map es_Addresses (ep_Subsets eps))"

definition region_endpoints :: "nat \<Rightarrow> Endpoints \<Rightarrow> 32 word \<Rightarrow> LbEndpoint list" where
  "region_endpoints i eps port =
     map (\<lambda>a. NewLBEndpoint (ea_IP a) port)
       (filter (\<lambda>a. ea_NodeName a = Some (region_label i)) (all_addresses eps))"

definition split_clusters ::
  "world \<Rightarrow> IngressTranslator \<Rightarrow> ctx \<Rightarrow> Ingress \<Rightarrow> HTTPIngressPath \<Rightarrow> IngressBackendSplit \<Rightarrow> Cluster list" where
  "split_clusters w t ctx ing httpPath split =
     map (\<lambda>i. NewCluster (w_mar w) (split_cluster_name split i) (5 * 10 ^ 9)
             (region_endpoints i (split_kube_endpoints t split) (pc_targetPort (split_port t split)))
             (split_http2 t ing split) (split_socket w t ctx ing httpPath split) STATIC)
       [0..<length regions]"

definition path_clusters ::
  "world \<Rightarrow> IngressTranslator \<Rightarrow> ctx \<Rightarrow> Ingress \<Rightarrow> HTTPIngressPath \<Rightarrow> Cluster list" where
  "path_clusters w t ctx ing httpPath =
     concat (map (split_clusters w t ctx ing httpPath) (hp_Splits httpPath))"

definition rule_paths :: "IngressRule \<Rightarrow> HTTPIngressPath list" where
  "rule_paths rule = (case ir_HTTP rule of None \<Rightarrow> [] | Some ps \<Rightarrow> ps)"

definition rule_clusters ::
  "world \<Rightarrow> IngressTranslator \<Rightarrow> ctx \<Rightarrow> Ingress \<Rightarrow> IngressRule \<Rightarrow> Cluster list" where
  "rule_clusters w t ctx ing rule = concat (map (path_clusters w t ctx ing) (rule_paths rule))"

definition path_or_root :: "HTTPIngressPath \<Rightarrow> string" where
  "path_or_root httpPath = (if hp_Path httpPath = [] then ''/'' else hp_Path httpPath)"

definition path_name :: "string \<Rightarrow> HTTPIngressPath \<Rightarrow> string" where
  "path_name ruleName httpPath = ruleName @ ''.Paths['' @ path_or_root httpPath @ '']''"

definition acme_path :: "bool \<Rightarrow> HTTPIngressPath \<Rightarrow> bool" where
  "acme_path extAuthz httpPath \<longleftrightarrow>
     extAuthz \<and> strings_HasPrefix (path_or_root httpPath) ''/.well-known/acme-challenge/''"

definition redirected :: "world \<Rightarrow> Ingress \<Rightarrow> IngressRule \<Rightarrow> bool" where
  "redirected w ing rule \<longleftrightarrow> w_env w ''KOURIER_HTTPOPTION_DISABLED'' = None \<and>
     ing_HTTPOption ing = HTTPOptionRedirected \<and> ir_Visibility rule = ExternalIP"

definition path_route :: "string \<Rightarrow> nat \<Rightarrow> string list \<Rightarrow> HTTPIngressPath \<Rightarrow> Route" where
  "path_route ruleName i rg httpPath =
     NewRoute (path_name ruleName httpPath) (matchHeadersFromHTTPPath httpPath)
       (path_or_root httpPath) (map (split_weight i) (hp_Splits httpPath)) 0
       (hp_AppendHeaders httpPath) (hp_RewriteHost httpPath) rg"

text \<open>The routes a path adds to region \<open>i\<close>, and to the TLS virtual host.\<close>

definition path_routes ::
  "world \<Rightarrow> Ingress \<Rightarrow> bool \<Rightarrow> IngressRule \<Rightarrow> string \<Rightarrow> nat \<Rightarrow> HTTPIngressPath \<Rightarrow> Route list" where
  "path_routes w ing extAuthz rule ruleName i httpPath =
     (if acme_path extAuthz httpPath then
        (if i = 0 then [NewRouteExtAuthzDisabled (w_mar w) (path_name ruleName httpPath)
                          (matchHeadersFromHTTPPath httpPath) (path_or_root httpPath)
                          (map (split_weight 0) (hp_Splits httpPath)) 0
                          (hp_AppendHeaders httpPath) (hp_RewriteHost httpPath)] else [])
      else if redirected w ing rule then
        (if i = 0 then [NewRedirectRoute (path_name ruleName httpPath)
                          (matchHeadersFromHTTPPath httpPath) (path_or_root httpPath)] else [])
      else [path_route ruleName i [region_label i] httpPath])"

definition path_tls_routes :: "world \<Rightarrow> Ingress \<Rightarrow> string \<Rightarrow> HTTPIngressPath \<Rightarrow> Route list" where
  "path_tls_routes w ing ruleName httpPath =
     (if length (ing_TLS ing) \<noteq> 0 \<or> useHTTPSListenerWithOneCert (w_env w)
      then [path_route ruleName 0 [] httpPath] else [])"

definition rule_name :: "Ingress \<Rightarrow> nat \<Rightarrow> string" where
  "rule_name ing n = ''('' @ ing_Namespace ing @ ''/'' @ ing_Name ing @ '').Rules['' @ nat_str n @ '']''"

definition rule_routes ::
  "world \<Rightarrow> Ingress \<Rightarrow> bool \<Rightarrow> nat \<Rightarrow> nat \<times> IngressRule \<Rightarrow> Route list" where
  "rule_routes w ing extAuthz i nr =
     concat (map (path_routes w ing extAuthz (snd nr) (rule_name ing (fst nr)) i)
       (rule_paths (snd nr)))"

definition rule_tls_routes :: "world \<Rightarrow> Ingress \<Rightarrow> nat \<times> IngressRule \<Rightarrow> Route list" where
  "rule_tls_routes w ing nr =
     concat (map (path_tls_routes w ing (rule_name ing (fst nr))) (rule_paths (snd nr)))"

definition context_extensions :: "Ingress \<Rightarrow> IngressRule \<Rightarrow> string gomap" where
  "context_extensions ing rule = UnionMaps
     [(''client'', ''kourier''), (''visibility'', visibility_str (ir_Visibility rule))]
     (ing_Labels ing)"

text \<open>The virtual host of a rule in region \<open>i\<close>: nil outside region 0 under external authorization.\<close>

definition rule_vhost ::
  "world \<Rightarrow> Ingress \<Rightarrow> bool \<Rightarrow> nat \<Rightarrow> nat \<times> IngressRule \<Rightarrow> VirtualHost option" where
  "rule_vhost w ing extAuthz i nr =
     (let rule = snd nr; routes = rule_routes w ing extAuthz i nr in
      if extAuthz then
        (if i = 0 then Some (NewVirtualHostWithExtAuthz (w_mar w) (rule_name ing (fst nr))
                               (context_extensions ing rule) (domainsForRule rule) routes)
         else None)
      else Some (NewVirtualHost (rule_name ing (fst nr)) (domainsForRule rule) routes))"

definition rule_tls_vhost ::
  "world \<Rightarrow> Ingress \<Rightarrow> bool \<Rightarrow> nat \<times> IngressRule \<Rightarrow> VirtualHost option" where
  "rule_tls_vhost w ing extAuthz nr =
     (let rule = snd nr; routes = rule_tls_routes w ing nr in
      if routes = [] then None
      else if extAuthz then
        Some (NewVirtualHostWithExtAuthz (w_mar w) (rule_name ing (fst nr))
                (context_extensions ing rule) (domainsForRule rule) routes)
      else Some (NewVirtualHost (rule_name ing (fst nr)) (domainsForRule rule) routes))"

definition is_external :: "nat \<times> IngressRule \<Rightarrow> bool" where
  "is_external nr \<longleftrightarrow> ir_Visibility (snd nr) = ExternalIP"

text \<open>The virtual hosts of a list of numbered rules, per region.\<close>

definition internal_vhosts ::
  "world \<Rightarrow> Ingress \<Rightarrow> bool \<Rightarrow> (nat \<times> IngressRule) list \<Rightarrow> nat \<Rightarrow> VirtualHost option list" where
  "internal_vhosts w ing extAuthz nrs i = map (rule_vhost w ing extAuthz i) nrs"

definition external_vhosts ::
  "world \<Rightarrow> Ingress \<Rightarrow> bool \<Rightarrow> (nat \<times> IngressRule) list \<Rightarrow> nat \<Rightarrow> VirtualHost option list" where
  "external_vhosts w ing extAuthz nrs i = map (rule_vhost w ing extAuthz i) (filter is_external nrs)"

definition external_tls_vhosts ::
  "world \<Rightarrow> Ingress \<Rightarrow> bool \<Rightarrow> (nat \<times> IngressRule) list \<Rightarrow> VirtualHost option list" where
  "external_tls_vhosts w ing extAuthz nrs =
     filter (\<lambda>v. v \<noteq> None) (map (rule_tls_vhost w ing extAuthz) (filter is_external nrs))"

text \<open>
  A slice of slices with \<open>len(regions)+1\<close> entries: the entry of region \<open>i\<close> is \<open>f i\<close>, and the
  last one, which no loop reaches, stays empty.
\<close>

definition region_table :: "(nat \<Rightarrow> 'a list) \<Rightarrow> 'a list list" where
  "region_table f = map f [0..<length regions] @ [[]]"

lemma region_table_eq: "region_table f = [f 0, f 1, f 2, []]"
  by (simp add: region_table_def)

lemma length_region_table [simp]: "length (region_table f) = Suc (length regions)"
  by (simp add: region_table_def)

lemma region_table_not_Nil [simp]: "region_table f \<noteq> []" "[] \<noteq> region_table f"
  by (simp_all add: region_table_def)

lemma region_table_nth [simp]: "i < length regions \<Longrightarrow> region_table f ! i = f i"
  by (auto simp: region_table_eq dest!: region_cases simp del: length_regions)

lemma region_table_nth0 [simp]: "region_table f ! 0 = f 0"
  by (simp add: region_table_eq)

lemma region_table_empty:
  "replicate (length regions + 1) [] = region_table (\<lambda>_. [])"
  "replicate 4 [] = region_table (\<lambda>_. [])"
  by (simp_all add: region_table_eq numeral_eq_Suc)

lemma region_table_cong:
  "(\<And>i. i < length regions \<Longrightarrow> f i = g i) \<Longrightarrow> region_table f = region_table g"
  by (simp add: region_table_eq)

text \<open>The loop \<^verbatim>\<open>xss[i] = append(xss[i], g(i)...)\<close> over the regions.\<close>

lemma region_table_fold:
  "foldl (\<lambda>acc i. append_at i (g i) acc) (region_table f) [0..<length regions] =
     region_table (\<lambda>i. f i @ g i)"
  by (simp add: region_table_eq append_at_def)

lemma region_table_append_zero:
  "append_at 0 v (region_table f) = region_table (\<lambda>i. f i @ (if i = 0 then v else []))"
  by (simp add: region_table_eq append_at_def)

section \<open>Endpoints\<close>

lemma foldM_addresses:
  assumes "i < length eps" "\<forall>a \<in> set as. ea_NodeName a \<noteq> None"
  shows "foldM (\<lambda>eps address. bindr (deref (ea_NodeName address)) (\<lambda>nodeName.
      if nodeName = lbl then Inr (append_at i [NewLBEndpoint (ea_IP address) port] eps)
      else Inr eps)) eps as =
    (Inr (append_at i (map (\<lambda>a. NewLBEndpoint (ea_IP a) port)
       (filter (\<lambda>a. ea_NodeName a = Some lbl) as)) eps) :: LbEndpoint list list res)"
  using assms
proof (induction as arbitrary: eps)
  case Nil
  then show ?case by (simp add: append_at_def)
next
  case (Cons a as)
  then show ?case by (cases "ea_NodeName a") (auto simp: append_at_def)
qed

text \<open>A nil node name among the ready addresses is a nil dereference.\<close>

lemma foldM_addresses_nil:
  assumes "\<exists>a \<in> set as. ea_NodeName a = None"
  shows "foldM (\<lambda>eps address. bindr (deref (ea_NodeName address)) (\<lambda>nodeName.
      if nodeName = lbl then Inr (append_at i [NewLBEndpoint (ea_IP address) port] eps)
      else Inr eps)) eps as = (Inl (Panic NilDereference) :: LbEndpoint list list res)"
  using assms
proof (induction as arbitrary: eps)
  case Nil
  then show ?case by simp
next
  case (Cons a as)
  then show ?case by (cases "ea_NodeName a") auto
qed

text \<open>The two inner loops together run over all addresses.\<close>

lemma foldM_concat: "foldM (\<lambda>s x. foldM f s (g x)) s xs = foldM f s (concat (map g xs))"
  by (induction xs arbitrary: s) (simp_all add: foldM_append)

lemma lbEndpoints_unfold:
  "lbEndpointsForKubeEndpointsTest kubeEndpoints port =
     (if all_addresses kubeEndpoints = [] then Inr []
      else foldM (\<lambda>eps i.
             foldM (\<lambda>eps address. bindr (deref (ea_NodeName address)) (\<lambda>nodeName.
               if nodeName = region_label i
               then Inr (append_at i [NewLBEndpoint (ea_IP address) port] eps) else Inr eps))
             eps (all_addresses kubeEndpoints))
           (replicate (length regions + 1) []) [0..<length regions])"
proof -
  have count: "sum_list (map (\<lambda>s. length (es_Addresses s)) ss) = length (concat (map es_Addresses ss))"
    for ss by (induction ss) auto
  show ?thesis
    unfolding lbEndpointsForKubeEndpointsTest_def Let_def count upto_regions
    by (simp add: all_addresses_def foldM_concat)
qed

lemma lbEndpoints_nil: "all_addresses eps = [] \<Longrightarrow> lbEndpointsForKubeEndpointsTest eps port = Inr []"
  by (simp add: lbEndpoints_unfold)

lemma lbEndpoints_panic:
  assumes "\<exists>a \<in> set (all_addresses eps). ea_NodeName a = None"
  shows "lbEndpointsForKubeEndpointsTest eps port = Inl (Panic NilDereference)"
  using assms by (auto simp: lbEndpoints_unfold upto_regions foldM_addresses_nil)

text \<open>With ready addresses, all on known nodes: the endpoints of every region.\<close>

lemma lbEndpoints_ok:
  assumes "all_addresses eps \<noteq> []" "\<forall>a \<in> set (all_addresses eps). ea_NodeName a \<noteq> None"
  shows "lbEndpointsForKubeEndpointsTest eps port = Inr (region_table (\<lambda>i. region_endpoints i eps port))"
proof -
  let ?g = "\<lambda>i. region_endpoints i eps port"
  have "lbEndpointsForKubeEndpointsTest eps port =
      Inr (foldl (\<lambda>acc i. append_at i (?g i) acc) (region_table (\<lambda>_. [])) [0..<length regions])"
    using assms
    by (simp add: lbEndpoints_unfold region_table_empty foldM_addresses region_endpoints_def
        del: replicate_Suc replicate.simps)
  then show ?thesis by (simp add: region_table_fold del: upt_three length_regions)
qed

lemma lbEndpoints_cases:
  "lbEndpointsForKubeEndpointsTest eps port = Inr xss \<longleftrightarrow>
     (if all_addresses eps = [] then xss = []
      else (\<forall>a \<in> set (all_addresses eps). ea_NodeName a \<noteq> None) \<and>
           xss = region_table (\<lambda>i. region_endpoints i eps port))"
proof (cases "\<forall>a \<in> set (all_addresses eps). ea_NodeName a \<noteq> None")
  case True
  then show ?thesis using lbEndpoints_nil lbEndpoints_ok [OF _ True] by auto
next
  case False
  then have "lbEndpointsForKubeEndpointsTest eps port = Inl (Panic NilDereference)"
    by (intro lbEndpoints_panic) simp
  moreover have "all_addresses eps \<noteq> []" using False by auto
  ultimately show ?thesis using False by simp
qed

end
