(* ===== verification/Translator_Refine.thy ===== *)
theory Translator_Refine
  imports Translator_Spec
begin

text \<open>
  The translator computes its specification: the loops over splits, paths, rules and TLS
  sections succeed exactly when every object they need is there, and then their result is the
  one specified. The state after a translation holds one SNI match per TLS section and one
  reference per object looked up.
\<close>

section \<open>When a translation succeeds\<close>

definition tracks :: "IngressTranslator \<Rightarrow> Ingress \<Rightarrow> Reference \<Rightarrow> bool" where
  "tracks t ing ref \<longleftrightarrow> tracker t ref (ing_nn ing) = None"

definition needs_socket ::
  "IngressTranslator \<Rightarrow> ctx \<Rightarrow> HTTPIngressPath \<Rightarrow> IngressBackendSplit \<Rightarrow> bool" where
  "needs_socket t ctx httpPath split \<longleftrightarrow>
     (SystemInternalTLSEnabled (cfg_Network (FromContextOrDefaults ctx)) \<or>
      pc_httpsPortUsed (split_port t split)) \<and> hp_RewriteHost httpPath = []"

definition split_ok ::
  "world \<Rightarrow> IngressTranslator \<Rightarrow> ctx \<Rightarrow> Ingress \<Rightarrow> HTTPIngressPath \<Rightarrow> IngressBackendSplit \<Rightarrow> bool" where
  "split_ok w t ctx ing httpPath split \<longleftrightarrow>
     (let ns = bs_ServiceNamespace split; n = bs_ServiceName split in
      tracks t ing (serviceRef ns n) \<and> tracks t ing (endpointsRef ns n) \<and>
      isr (serviceGetter t ns n) \<and> svc_Type (split_service t split) \<noteq> ExternalName \<and>
      isr (endpointsGetter t ns n) \<and> all_addresses (split_kube_endpoints t split) \<noteq> [] \<and>
      (\<forall>a \<in> set (all_addresses (split_kube_endpoints t split)). ea_NodeName a \<noteq> None) \<and>
      (needs_socket t ctx httpPath split \<longrightarrow>
         isr (createUpstreamTransportSocket w t (split_http2 t ing split) ns)))"

definition rule_ok :: "world \<Rightarrow> IngressTranslator \<Rightarrow> ctx \<Rightarrow> Ingress \<Rightarrow> IngressRule \<Rightarrow> bool" where
  "rule_ok w t ctx ing rule \<longleftrightarrow> ir_HTTP rule \<noteq> None \<and>
     (\<forall>p \<in> set (rule_paths rule). \<forall>split \<in> set (hp_Splits p). split_ok w t ctx ing p split)"

definition tls_ok :: "world \<Rightarrow> IngressTranslator \<Rightarrow> Ingress \<Rightarrow> IngressTLS \<Rightarrow> bool" where
  "tls_ok w t ing it \<longleftrightarrow>
     tracks t ing (secretRef (it_SecretNamespace it) (it_SecretName it)) \<and>
     (case secretGetter t (it_SecretNamespace it) (it_SecretName it) of
        Inl _ \<Rightarrow> False
      | Inr secret \<Rightarrow> w_x509 w (gomap_get (sec_Data secret) certFieldInSecret)
                             (gomap_get (sec_Data secret) keyFieldInSecret) = None)"

definition translatable :: "world \<Rightarrow> IngressTranslator \<Rightarrow> ctx \<Rightarrow> Ingress \<Rightarrow> bool" where
  "translatable w t ctx ing \<longleftrightarrow>
     (\<forall>it \<in> set (ing_TLS ing). tls_ok w t ing it) \<and>
     (\<forall>rule \<in> set (ing_Rules ing). rule_ok w t ctx ing rule)"

section \<open>What it returns and leaves behind\<close>

definition split_refs :: "Ingress \<Rightarrow> IngressBackendSplit \<Rightarrow> (Reference \<times> NamespacedName) list" where
  "split_refs ing split =
     [(serviceRef (bs_ServiceNamespace split) (bs_ServiceName split), ing_nn ing),
      (endpointsRef (bs_ServiceNamespace split) (bs_ServiceName split), ing_nn ing)]"

definition path_refs :: "Ingress \<Rightarrow> HTTPIngressPath \<Rightarrow> (Reference \<times> NamespacedName) list" where
  "path_refs ing httpPath = concat (map (split_refs ing) (hp_Splits httpPath))"

definition rule_refs :: "Ingress \<Rightarrow> IngressRule \<Rightarrow> (Reference \<times> NamespacedName) list" where
  "rule_refs ing rule = concat (map (path_refs ing) (rule_paths rule))"

definition tls_ref :: "Ingress \<Rightarrow> IngressTLS \<Rightarrow> Reference \<times> NamespacedName" where
  "tls_ref ing it = (secretRef (it_SecretNamespace it) (it_SecretName it), ing_nn ing)"

definition tls_match :: "IngressTranslator \<Rightarrow> IngressTLS \<Rightarrow> SNIMatch" where
  "tls_match t it =
     (let secret = projr (secretGetter t (it_SecretNamespace it) (it_SecretName it)) in
      \<lparr>sm_Hosts = it_Hosts it,
       sm_CertSource = \<lparr>nn_Namespace = it_SecretNamespace it, nn_Name = it_SecretName it\<rparr>,
       sm_CertificateChain = gomap_get (sec_Data secret) certFieldInSecret,
       sm_PrivateKey = gomap_get (sec_Data secret) keyFieldInSecret\<rparr>)"

definition tracked_more :: "(Reference \<times> NamespacedName) list \<Rightarrow> tr_state \<Rightarrow> tr_state" where
  "tracked_more refs s = s\<lparr>ts_tracked := ts_tracked s @ refs\<rparr>"

definition spec_state :: "IngressTranslator \<Rightarrow> Ingress \<Rightarrow> tr_state \<Rightarrow> tr_state" where
  "spec_state t ing s =
     s\<lparr>ts_heap := ts_heap s @ map (tls_match t) (ing_TLS ing),
       ts_tracked := ts_tracked s @ map (tls_ref ing) (ing_TLS ing) @
         concat (map (rule_refs ing) (ing_Rules ing))\<rparr>"

definition spec_translation ::
  "world \<Rightarrow> IngressTranslator \<Rightarrow> ctx \<Rightarrow> Ingress \<Rightarrow> bool \<Rightarrow> tr_state \<Rightarrow> translatedIngress" where
  "spec_translation w t ctx ing ext s =
     (let nrs = enumerate 0 (ing_Rules ing) in
      \<lparr>ti_name = ing_nn ing,
       ti_sniMatches = [length (ts_heap s)..<length (ts_heap s) + length (ing_TLS ing)],
       ti_clusters = concat (map (rule_clusters w t ctx ing) (ing_Rules ing)),
       ti_externalVirtualHosts = region_table (external_vhosts w ing ext nrs),
       ti_externalTLSVirtualHosts = region_table (\<lambda>_. external_tls_vhosts w ing ext nrs),
       ti_internalVirtualHosts = region_table (internal_vhosts w ing ext nrs)\<rparr>)"

lemma tracked_more_append [simp]: "tracked_more b (tracked_more a s) = tracked_more (a @ b) s"
  by (simp add: tracked_more_def)

lemma tracked_more_Nil [simp]: "tracked_more [] s = s"
  by (simp add: tracked_more_def)

section \<open>One split\<close>

lemma split_regions_eq:
  "split_regions w split (region_table eps) http2 ts ty (cs, region_table f) =
     Inr (cs @ map (\<lambda>i. NewCluster (w_mar w) (split_cluster_name split i) (5 * 10 ^ 9) (eps i)
                          http2 ts ty) [0..<length regions],
          region_table (\<lambda>i. f i @ [split_weight i split]))"
  by (simp add: split_regions_def region_table_eq index_get_def append_at_def split_cluster_name_def
      split_weight_def)

lemma split_regions_nil:
  "split_regions w split [] http2 ts ty (cs, wrs) = Inl (Panic IndexOutOfRange)"
  by (simp add: split_regions_def)

text \<open>The endpoints of a split: an ExternalName service writes to a nil slice.\<close>

lemma split_endpoints_Inr:
  assumes "endpointsGetter t (bs_ServiceNamespace split) (bs_ServiceName split) = Inr e \<or>
    isl (endpointsGetter t (bs_ServiceNamespace split) (bs_ServiceName split))"
  shows "split_endpoints t split service pc s = (Inr (eps, ty), s') \<longleftrightarrow>
    s' = s \<and> ty = STATIC \<and> svc_Type service \<noteq> ExternalName \<and>
    endpointsGetter t (bs_ServiceNamespace split) (bs_ServiceName split) = Inr e \<and>
    lbEndpointsForKubeEndpointsTest e (pc_targetPort pc) = Inr eps"
  using assms
  by (auto simp: split_endpoints_def bindT_Inr bindT_simps split: if_splits sum.splits)

lemma trackService_Inr:
  "trackService t ns n ing s = (Inr u, s') \<longleftrightarrow>
     tracks t ing (serviceRef ns n) \<and> tracks t ing (endpointsRef ns n) \<and>
     s' = tracked_more [(serviceRef ns n, ing_nn ing), (endpointsRef ns n, ing_nn ing)] s"
  by (auto simp: trackService_def bindT_Inr orExit_def TrackReference_def tracks_def tracked_more_def
      split: option.splits prod.splits sum.splits)

lemma split_socket_Inr:
  "(if (SystemInternalTLSEnabled (cfg_Network (FromContextOrDefaults ctx)) \<or> pc_httpsPortUsed (split_port t split)) \<and>
        hp_RewriteHost httpPath = []
      then bindT (liftT (createUpstreamTransportSocket w t (split_http2 t ing split) (bs_ServiceNamespace split))) (\<lambda>ts. retT (Some ts))
      else retT None) s1 = (Inr ts, s2) \<longleftrightarrow>
    s2 = s1 \<and> (needs_socket t ctx httpPath split \<longrightarrow>
      isr (createUpstreamTransportSocket w t (split_http2 t ing split) (bs_ServiceNamespace split))) \<and>
    ts = split_socket w t ctx ing httpPath split"
  by (auto simp: needs_socket_def split_socket_def bindT_Inr)

lemma split_regions_found:
  assumes "split_kube_endpoints t split = e"
  shows "(\<exists>eps. lbEndpointsForKubeEndpointsTest e (pc_targetPort (split_port t split)) = Inr eps \<and>
      split_regions w split eps (split_http2 t ing split) (split_socket w t ctx ing httpPath split) STATIC (cs, region_table f) = Inr r) \<longleftrightarrow>
    all_addresses e \<noteq> [] \<and> (\<forall>a \<in> set (all_addresses e). ea_NodeName a \<noteq> None) \<and>
    r = (cs @ split_clusters w t ctx ing httpPath split, region_table (\<lambda>i. f i @ [split_weight i split]))"
  by (cases "all_addresses e = []")
    (auto simp: lbEndpoints_cases split_regions_nil split_regions_eq split_clusters_def assms
      simp del: not_None_eq length_regions upt_three)

lemma split_step_Inr:
  "split_step w t ctx ing httpPath (cs, region_table f) split s = (Inr r, s') \<longleftrightarrow>
     split_ok w t ctx ing httpPath split \<and>
     r = (cs @ split_clusters w t ctx ing httpPath split,
          region_table (\<lambda>i. f i @ [split_weight i split])) \<and>
     s' = tracked_more (split_refs ing split) s"
proof -
  let ?ns = "bs_ServiceNamespace split" and ?n = "bs_ServiceName split"
  let ?h2 = "split_http2 t ing split" and ?pc = "split_port t split"
  have h2: "(if strings_EqualFold (GetDisableHTTP2 (ing_Annotations ing)) ''true'' then False
      else pc_http2 ?pc) = ?h2"
    by (simp add: split_http2_def)
  show ?thesis
  proof (cases "serviceGetter t ?ns ?n")
    case (Inl e)
    then show ?thesis by (auto simp: split_step_def bindT_Inr split_ok_def Let_def)
  next
    case (Inr service)
    have svc: "split_service t split = service" by (simp add: split_service_def Inr)
    have port: "select_port (bs_ServicePort split) (svc_Ports service) = ?pc"
      by (simp add: split_port_def svc)
    show ?thesis
    proof (cases "endpointsGetter t ?ns ?n")
      case (Inl e)
      then show ?thesis
        by (auto simp: split_step_def bindT_Inr split_ok_def Let_def \<open>serviceGetter t ?ns ?n = Inr service\<close>
            port h2 split_endpoints_Inr)
    next
      case (Inr e)
      have ke: "split_kube_endpoints t split = e" by (simp add: split_kube_endpoints_def Inr)
      have "split_step w t ctx ing httpPath (cs, region_table f) split s = (Inr r, s') \<longleftrightarrow>
          tracks t ing (serviceRef ?ns ?n) \<and> tracks t ing (endpointsRef ?ns ?n) \<and>
          svc_Type service \<noteq> ExternalName \<and>
          (needs_socket t ctx httpPath split \<longrightarrow> isr (createUpstreamTransportSocket w t ?h2 ?ns)) \<and>
          s' = tracked_more (split_refs ing split) s \<and>
          (\<exists>eps. lbEndpointsForKubeEndpointsTest e (pc_targetPort ?pc) = Inr eps \<and>
             split_regions w split eps ?h2 (split_socket w t ctx ing httpPath split) STATIC
               (cs, region_table f) = Inr r)"
        unfolding split_step_def bindT_Inr trackService_Inr \<open>serviceGetter t ?ns ?n = Inr service\<close>
          sum.case Let_def port h2 split_refs_def
        by (auto simp: split_endpoints_Inr [OF disjI1, OF Inr] bindT_Inr split_socket_Inr Inr)
      also note split_regions_found [OF ke]
      finally show ?thesis
        by (auto simp: split_ok_def Let_def Inr svc ke \<open>serviceGetter t ?ns ?n = Inr service\<close>
            simp del: not_None_eq)
    qed
  qed
qed

section \<open>The splits and routes of a path\<close>

lemma splits_loop:
  "forT (split_step w t ctx ing httpPath) (cs, region_table (\<lambda>_. [])) splits s = (Inr r, s') \<longleftrightarrow>
     (\<forall>split \<in> set splits. split_ok w t ctx ing httpPath split) \<and>
     r = (cs @ concat (map (split_clusters w t ctx ing httpPath) splits),
          region_table (\<lambda>i. map (split_weight i) splits)) \<and>
     s' = tracked_more (concat (map (split_refs ing) splits)) s"
proof -
  let ?A = "\<lambda>pre. (cs @ concat (map (split_clusters w t ctx ing httpPath) pre),
      region_table (\<lambda>i. map (split_weight i) pre))"
  let ?S = "\<lambda>pre. tracked_more (concat (map (split_refs ing) pre)) s"
  have "split_step w t ctx ing httpPath (?A pre) x (?S pre) = (Inr b, s') \<longleftrightarrow>
      split_ok w t ctx ing httpPath x \<and> b = ?A (pre @ [x]) \<and> s' = ?S (pre @ [x])" for pre x b s'
    by (simp add: split_step_Inr)
  from forT_exact [of _ ?A ?S, OF this, of "[]"] show ?thesis by simp
qed

lemma add_routes_eq:
  "add_routes w ing ext rule httpPath (path_or_root httpPath) (path_name ruleName httpPath)
     (region_table (\<lambda>i. map (split_weight i) (hp_Splits httpPath))) (region_table f) =
   Inr (region_table (\<lambda>i. f i @ path_routes w ing ext rule ruleName i httpPath))"
  by (auto simp: add_routes_def acme_path_def redirected_def path_routes_def path_route_def
      region_table_eq append_at_def)

lemma path_step_Inr:
  "path_step w t ctx ing ext rule ruleName (cs, region_table f, tls) httpPath s = (Inr r, s') \<longleftrightarrow>
     (\<forall>split \<in> set (hp_Splits httpPath). split_ok w t ctx ing httpPath split) \<and>
     r = (cs @ path_clusters w t ctx ing httpPath,
          region_table (\<lambda>i. f i @ path_routes w ing ext rule ruleName i httpPath),
          tls @ path_tls_routes w ing ruleName httpPath) \<and>
     s' = tracked_more (path_refs ing httpPath) s"
proof -
  have "path_step w t ctx ing ext rule ruleName (cs, region_table f, tls) httpPath =
      bindT (forT (split_step w t ctx ing httpPath) (cs, region_table (\<lambda>_. [])) (hp_Splits httpPath))
        (\<lambda>(clusters, wrs). if length wrs \<noteq> 0
           then bindT (liftT (add_routes w ing ext rule httpPath (path_or_root httpPath)
                   (path_name ruleName httpPath) wrs (region_table f)))
             (\<lambda>routes. retT (clusters, routes, tls @
               (if length (ing_TLS ing) \<noteq> 0 \<or> useHTTPSListenerWithOneCert (w_env w)
                then [NewRoute (path_name ruleName httpPath) (matchHeadersFromHTTPPath httpPath)
                        (path_or_root httpPath) (wrs ! 0) 0 (hp_AppendHeaders httpPath)
                        (hp_RewriteHost httpPath) []] else [])))
           else retT (clusters, region_table f, tls))"
    by (simp only: path_step_def Let_def prod.case path_or_root_def path_name_def region_table_empty)
  then show ?thesis
    by (auto simp: bindT_Inr splits_loop add_routes_eq path_clusters_def path_refs_def
        path_tls_routes_def path_route_def)
qed

lemma paths_loop:
  "forT (path_step w t ctx ing ext rule ruleName) (cs, region_table (\<lambda>_. []), []) paths s = (Inr r, s') \<longleftrightarrow>
     (\<forall>p \<in> set paths. \<forall>split \<in> set (hp_Splits p). split_ok w t ctx ing p split) \<and>
     r = (cs @ concat (map (path_clusters w t ctx ing) paths),
          region_table (\<lambda>i. concat (map (path_routes w ing ext rule ruleName i) paths)),
          concat (map (path_tls_routes w ing ruleName) paths)) \<and>
     s' = tracked_more (concat (map (path_refs ing) paths)) s"
proof -
  let ?A = "\<lambda>pre. (cs @ concat (map (path_clusters w t ctx ing) pre),
      region_table (\<lambda>i. concat (map (path_routes w ing ext rule ruleName i) pre)),
      concat (map (path_tls_routes w ing ruleName) pre))"
  let ?S = "\<lambda>pre. tracked_more (concat (map (path_refs ing) pre)) s"
  have "path_step w t ctx ing ext rule ruleName (?A pre) x (?S pre) = (Inr b, s') \<longleftrightarrow>
      (\<forall>split \<in> set (hp_Splits x). split_ok w t ctx ing x split) \<and>
      b = ?A (pre @ [x]) \<and> s' = ?S (pre @ [x])" for pre x b s'
    by (simp add: path_step_Inr)
  from forT_exact [of _ ?A ?S, OF this, of "[]"] show ?thesis by simp
qed

section \<open>The rules\<close>

text \<open>What the rule loop has built after the numbered rules \<open>nrs\<close>.\<close>

definition rules_acc ::
  "world \<Rightarrow> IngressTranslator \<Rightarrow> ctx \<Rightarrow> Ingress \<Rightarrow> bool \<Rightarrow> (nat \<times> IngressRule) list \<Rightarrow> rule_acc" where
  "rules_acc w t ctx ing ext nrs =
     \<lparr>ra_clusters = concat (map (\<lambda>nr. rule_clusters w t ctx ing (snd nr)) nrs),
      ra_internal = region_table (internal_vhosts w ing ext nrs),
      ra_external = region_table (external_vhosts w ing ext nrs),
      ra_externalTLS = region_table (\<lambda>_. external_tls_vhosts w ing ext nrs)\<rparr>"

lemma rule_vhosts_eq:
  "rule_vhosts w ing ext rule (rule_name ing n)
     (region_table (\<lambda>i. rule_routes w ing ext i (n, rule))) (rule_tls_routes w ing (n, rule)) =
   (map (\<lambda>i. rule_vhost w ing ext i (n, rule)) [0..<length regions] @ [None],
    rule_tls_vhost w ing ext (n, rule))"
  by (simp add: rule_vhosts_def rule_vhost_def rule_tls_vhost_def context_extensions_def Let_def
      region_table_eq numeral_eq_Suc)

lemma add_vhosts_fields:
  "add_vhosts rule vhs tls acc =
     \<lparr>ra_clusters = ra_clusters acc,
      ra_internal = foldl (\<lambda>xs i. append_at i [vhs ! i] xs) (ra_internal acc) [0..<length regions],
      ra_external =
        foldl (\<lambda>xs i. append_at i (if ir_Visibility rule = ExternalIP then [vhs ! i] else []) xs)
          (ra_external acc) [0..<length regions],
      ra_externalTLS =
        foldl (\<lambda>xs i. append_at i (if ir_Visibility rule = ExternalIP \<and> tls \<noteq> None then [tls] else []) xs)
          (ra_externalTLS acc) [0..<length regions]\<rparr>"
  by (cases acc) (simp add: add_vhosts_def Let_def append_at_def)

lemma add_vhosts_eq:
  "add_vhosts rule (map (\<lambda>i. rule_vhost w ing ext i (n, rule)) [0..<length regions] @ [None])
     (rule_tls_vhost w ing ext (n, rule))
     ((rules_acc w t ctx ing ext pre)\<lparr>ra_clusters :=
        ra_clusters (rules_acc w t ctx ing ext pre) @ rule_clusters w t ctx ing rule\<rparr>) =
   rules_acc w t ctx ing ext (pre @ [(n, rule)])"
proof -
  have nth: "(map (\<lambda>i. rule_vhost w ing ext i (n, rule)) [0..<length regions] @ [None]) ! i =
      rule_vhost w ing ext i (n, rule)" if "i < length regions" for i
    using that by (simp add: nth_append del: length_regions upt_three)
  show ?thesis
    unfolding add_vhosts_fields rules_acc_def rule_acc.simps region_table_fold
    by (auto intro!: region_table_cong simp: nth internal_vhosts_def external_vhosts_def
        external_tls_vhosts_def is_external_def simp del: length_regions upt_three)
qed

lemma rule_step_Inr:
  "rule_step w t ctx ing ext (rules_acc w t ctx ing ext pre) (n, rule) s = (Inr r, s') \<longleftrightarrow>
     rule_ok w t ctx ing rule \<and> r = rules_acc w t ctx ing ext (pre @ [(n, rule)]) \<and>
     s' = tracked_more (rule_refs ing rule) s"
proof (cases "ir_HTTP rule")
  case None
  then show ?thesis by (auto simp: rule_step_def bindT_Inr rule_ok_def Let_def)
next
  case (Some paths)
  then have rp: "rule_paths rule = paths" by (simp add: rule_paths_def)
  let ?acc = "rules_acc w t ctx ing ext pre"
  have loop: "forT (path_step w t ctx ing ext rule (rule_name ing n))
      (ra_clusters ?acc, region_table (\<lambda>_. []), []) paths s = (Inr x, s1) \<longleftrightarrow>
      rule_ok w t ctx ing rule \<and>
      x = (ra_clusters ?acc @ rule_clusters w t ctx ing rule,
           region_table (\<lambda>i. rule_routes w ing ext i (n, rule)), rule_tls_routes w ing (n, rule)) \<and>
      s1 = tracked_more (rule_refs ing rule) s" for x s1
    by (simp add: paths_loop rule_ok_def rule_clusters_def rule_routes_def rule_tls_routes_def
        rule_refs_def rp Some)
  show ?thesis
    unfolding rule_step_def Let_def prod.case Some region_table_empty rule_name_def [symmetric]
    by (auto simp: bindT_Inr loop rule_vhosts_eq add_vhosts_eq
        simp del: length_regions upt_three)
qed

lemma rules_loop:
  "forT (rule_step w t ctx ing ext) (rules_acc w t ctx ing ext []) nrs s = (Inr r, s') \<longleftrightarrow>
     (\<forall>nr \<in> set nrs. rule_ok w t ctx ing (snd nr)) \<and> r = rules_acc w t ctx ing ext nrs \<and>
     s' = tracked_more (concat (map (\<lambda>nr. rule_refs ing (snd nr)) nrs)) s"
proof -
  let ?S = "\<lambda>pre. tracked_more (concat (map (\<lambda>nr. rule_refs ing (snd nr)) pre)) s"
  have "rule_step w t ctx ing ext (rules_acc w t ctx ing ext pre) x (?S pre) = (Inr b, s') \<longleftrightarrow>
      rule_ok w t ctx ing (snd x) \<and> b = rules_acc w t ctx ing ext (pre @ [x]) \<and> s' = ?S (pre @ [x])"
    for pre x b s'
    using rule_step_Inr [of w t ctx ing ext pre "fst x" "snd x"] by simp
  from forT_exact [of _ "rules_acc w t ctx ing ext" ?S, OF this, of "[]"] show ?thesis by simp
qed

section \<open>The TLS sections\<close>

text \<open>The state after the TLS sections \<open>its\<close>: one fresh SNI match and one reference each.\<close>

definition tls_state :: "IngressTranslator \<Rightarrow> Ingress \<Rightarrow> IngressTLS list \<Rightarrow> tr_state \<Rightarrow> tr_state" where
  "tls_state t ing its s =
     s\<lparr>ts_heap := ts_heap s @ map (tls_match t) its,
       ts_tracked := ts_tracked s @ map (tls_ref ing) its\<rparr>"

lemma tls_step_Inr:
  "tls_step w t ing ms it s = (Inr r, s') \<longleftrightarrow>
     tls_ok w t ing it \<and> r = ms @ [length (ts_heap s)] \<and> s' = tls_state t ing [it] s"
  by (auto simp: tls_step_def bindT_Inr trackSecret_def orExit_def TrackReference_def tls_ok_def
      tracks_def tls_state_def tls_match_def tls_ref_def Let_def
      split: option.splits prod.splits sum.splits)

lemma tls_loop:
  "forT (tls_step w t ing) [] its s = (Inr r, s') \<longleftrightarrow>
     (\<forall>it \<in> set its. tls_ok w t ing it) \<and>
     r = [length (ts_heap s)..<length (ts_heap s) + length its] \<and> s' = tls_state t ing its s"
proof -
  let ?A = "\<lambda>pre. [length (ts_heap s)..<length (ts_heap s) + length pre]"
  let ?S = "\<lambda>pre. tls_state t ing pre s"
  have "tls_step w t ing (?A pre) x (?S pre) = (Inr b, s') \<longleftrightarrow>
      tls_ok w t ing x \<and> b = ?A (pre @ [x]) \<and> s' = ?S (pre @ [x])" for pre x b s'
    by (simp add: tls_step_Inr) (simp add: tls_state_def)
  from forT_exact [of _ ?A ?S, OF this, of "[]"] show ?thesis
    by (simp add: tls_state_def)
qed

section \<open>The refinement\<close>

lemma map_snd_enumerate: "map (\<lambda>nr. f (snd nr)) (enumerate n xs) = map f xs"
  by (metis map_map map_snd_enumerate comp_apply map_cong)

lemma translate_Inr:
  "translate w t ctx ing ext s = (Inr ti, s') \<longleftrightarrow>
     translatable w t ctx ing \<and> ti = spec_translation w t ctx ing ext s \<and> s' = spec_state t ing s"
proof -
  have acc0: "\<lparr>ra_clusters = [], ra_internal = replicate (length regions + 1) [],
      ra_external = replicate (length regions + 1) [],
      ra_externalTLS = replicate (length regions + 1) []\<rparr> = rules_acc w t ctx ing ext []"
    by (simp only: region_table_empty rules_acc_def internal_vhosts_def [abs_def]
        external_vhosts_def [abs_def] external_tls_vhosts_def list.map filter.simps concat.simps)
  have all: "(\<forall>nr \<in> set (enumerate 0 (ing_Rules ing)). rule_ok w t ctx ing (snd nr)) \<longleftrightarrow>
      (\<forall>rule \<in> set (ing_Rules ing). rule_ok w t ctx ing rule)"
    using map_snd_enumerate [of "\<lambda>r. r" 0 "ing_Rules ing"] by (metis (no_types, lifting) image_iff list.set_map)
  let ?acc = "rules_acc w t ctx ing ext (enumerate 0 (ing_Rules ing))"
  have ti: "\<lparr>ti_name = ing_nn ing,
      ti_sniMatches = [length (ts_heap s)..<length (ts_heap s) + length (ing_TLS ing)],
      ti_clusters = ra_clusters ?acc, ti_externalVirtualHosts = ra_external ?acc,
      ti_externalTLSVirtualHosts = ra_externalTLS ?acc,
      ti_internalVirtualHosts = ra_internal ?acc\<rparr> = spec_translation w t ctx ing ext s"
    by (simp add: spec_translation_def rules_acc_def Let_def map_snd_enumerate)
  have st: "tracked_more (concat (map (\<lambda>nr. rule_refs ing (snd nr)) (enumerate 0 (ing_Rules ing))))
      (tls_state t ing (ing_TLS ing) s) = spec_state t ing s"
    by (simp add: tracked_more_def tls_state_def spec_state_def map_snd_enumerate)
  show ?thesis
    unfolding translate_def acc0
    by (auto simp: bindT_Inr tls_loop rules_loop all translatable_def ti st)
qed

text \<open>A result of \<^verbatim>\<open>translateIngress\<close> is an exit of the body.\<close>

lemma translateIngress_exits:
  "translateIngress w t ctx ing ext s = (Inr (Some ti), s') \<longleftrightarrow> translate w t ctx ing ext s = (Inr ti, s')"
  "translateIngress w t ctx ing ext s = (Inr None, s') \<longleftrightarrow> translate w t ctx ing ext s = (Inl ExitNil, s')"
  "translateIngress w t ctx ing ext s = (Inl (Err e), s') \<longleftrightarrow> translate w t ctx ing ext s = (Inl (ExitErr e), s')"
  "translateIngress w t ctx ing ext s = (Inl (Panic p), s') \<longleftrightarrow> translate w t ctx ing ext s = (Inl (ExitPanic p), s')"
  by (auto simp: translateIngress_def split: prod.splits sum.splits exit.splits)

text \<open>A translatable ingress is translated, in every state.\<close>

lemma translateIngress_translatable:
  "translatable w t ctx ing \<Longrightarrow>
     translateIngress w t ctx ing ext s = (Inr (Some (spec_translation w t ctx ing ext s)), spec_state t ing s)"
  by (simp add: translateIngress_exits translate_Inr)

end
