(* ===== verification/Fixtures.thy ===== *)
theory Fixtures
  imports Translator
begin

text \<open>
  Concrete inputs the witnesses evaluate the model on: a Knative ingress with one external and
  one cluster-local rule, the service and endpoints behind it, and variations of them.
\<close>

definition ex_world :: world where
  "ex_world = \<lparr>w_env = (\<lambda>_. None), w_mar = (\<lambda>_. None), w_x509 = (\<lambda>_ _. None)\<rparr>"

definition ex_service :: Service where
  "ex_service = \<lparr>svc_Type = ClusterIP, svc_ExternalName = [],
     svc_Ports = [\<lparr>sp_Name = ''http'', sp_Port = 80, sp_TargetPort = 8012\<rparr>]\<rparr>"

definition ex_external_service :: Service where
  "ex_external_service = ex_service\<lparr>svc_Type := ExternalName, svc_ExternalName := ''example.org''\<rparr>"

definition ex_endpoints :: Endpoints where
  "ex_endpoints = \<lparr>ep_Subsets = [\<lparr>es_Addresses =
     [\<lparr>ea_IP = ''10.0.0.1'', ea_NodeName = Some ''node1''\<rparr>,
      \<lparr>ea_IP = ''10.0.0.2'', ea_NodeName = Some ''node2''\<rparr>]\<rparr>]\<rparr>"

definition ex_secret :: Secret where
  "ex_secret = \<lparr>sec_Data = [(''tls.crt'', ''CRT''), (''tls.key'', ''KEY'')]\<rparr>"

text \<open>A cluster with the service \<^verbatim>\<open>hello\<close>, the ExternalName service \<^verbatim>\<open>out\<close>, and \<^verbatim>\<open>idle\<close> without pods.\<close>

definition ex_translator :: IngressTranslator where
  "ex_translator = NewIngressTranslator
     (\<lambda>ns n. Inr ex_secret)
     (\<lambda>ns n. if n = ''hello'' then Inr ex_endpoints
             else if n = ''idle'' then Inr \<lparr>ep_Subsets = []\<rparr> else Inl (ErrNotFound n))
     (\<lambda>ns n. if n = ''hello'' \<or> n = ''idle'' then Inr ex_service
             else if n = ''out'' then Inr ex_external_service else Inl (ErrNotFound n))
     (\<lambda>ref nn. None)"

definition ex_split :: "string \<Rightarrow> IngressBackendSplit" where
  "ex_split n = \<lparr>bs_ServiceNamespace = ''default'', bs_ServiceName = n,
     bs_ServicePort = \<lparr>ios_IntVal = 80, ios_StrVal = []\<rparr>, bs_Percent = 100, bs_AppendHeaders = []\<rparr>"

definition ex_path :: "string \<Rightarrow> HTTPIngressPath" where
  "ex_path n = \<lparr>hp_Path = [], hp_RewriteHost = [], hp_Headers = [], hp_Splits = [ex_split n],
     hp_AppendHeaders = []\<rparr>"

definition ex_rule :: "string \<Rightarrow> string \<Rightarrow> IngressVisibility \<Rightarrow> IngressRule" where
  "ex_rule host n v = \<lparr>ir_Hosts = [host], ir_Visibility = v, ir_HTTP = Some [ex_path n]\<rparr>"

definition ex_ingress :: "string \<Rightarrow> Ingress" where
  "ex_ingress n = \<lparr>ing_Namespace = ''default'', ing_Name = ''hello'', ing_Annotations = [],
     ing_Labels = [], ing_TLS = [], ing_Rules = [ex_rule ''h.io'' n ExternalIP],
     ing_HTTPOption = HTTPOptionEnabled\<rparr>"

definition ex_tls_ingress :: Ingress where
  "ex_tls_ingress = (ex_ingress ''hello'')\<lparr>ing_TLS := [\<lparr>it_Hosts = [''h.io''],
     it_SecretName = ''cert'', it_SecretNamespace = ''default''\<rparr>]\<rparr>"

definition ex_state :: tr_state where
  "ex_state = \<lparr>ts_heap = [], ts_tracked = []\<rparr>"

lemmas ex_defs = ex_world_def ex_service_def ex_external_service_def ex_endpoints_def ex_secret_def
  ex_translator_def NewIngressTranslator_def ex_split_def ex_path_def ex_rule_def ex_ingress_def
  ex_tls_ingress_def ex_state_def

end
