(* ===== verification/Translator_Props.thy ===== *)
theory Translator_Props
  imports Translator_Refine Fixtures
begin

text \<open>
  The properties of the translator: the exact condition for a translation and its exact
  result, the reasons for every other outcome, and what a translation promises to the caches
  and to Envoy (its routes refer to its clusters, per region; percentages become weights;
  ready addresses become endpoints of the region of their node).
\<close>

section \<open>Why a translation is left early\<close>

text \<open>The splits of an ingress, each with its path.\<close>

definition ingress_splits :: "Ingress \<Rightarrow> (HTTPIngressPath \<times> IngressBackendSplit) list" where
  "ingress_splits ing =
     concat (map (\<lambda>r. concat (map (\<lambda>p. map (Pair p) (hp_Splits p)) (rule_paths r))) (ing_Rules ing))"

definition split_missing :: "IngressTranslator \<Rightarrow> IngressBackendSplit \<Rightarrow> bool" where
  "split_missing t split \<longleftrightarrow>
     (\<exists>e. IsNotFound e \<and>
        (serviceGetter t (bs_ServiceNamespace split) (bs_ServiceName split) = Inl e \<or>
         endpointsGetter t (bs_ServiceNamespace split) (bs_ServiceName split) = Inl e))"

text \<open>
  What makes the translator panic on a split: an ExternalName service, a service with no ready
  address, a ready address with no node name, or a transport socket to build without a
  namespace configured for the serving certificates.
\<close>

definition split_hazard ::
  "world \<Rightarrow> IngressTranslator \<Rightarrow> ctx \<Rightarrow> HTTPIngressPath \<Rightarrow> IngressBackendSplit \<Rightarrow> bool" where
  "split_hazard w t ctx p split \<longleftrightarrow>
     (isr (serviceGetter t (bs_ServiceNamespace split) (bs_ServiceName split)) \<and>
        svc_Type (split_service t split) = ExternalName) \<or>
     (isr (endpointsGetter t (bs_ServiceNamespace split) (bs_ServiceName split)) \<and>
        (all_addresses (split_kube_endpoints t split) = [] \<or>
         (\<exists>a \<in> set (all_addresses (split_kube_endpoints t split)). ea_NodeName a = None))) \<or>
     (needs_socket t ctx p split \<and> isl (ServingNamespace (w_env w)))"

definition split_exit ::
  "world \<Rightarrow> IngressTranslator \<Rightarrow> ctx \<Rightarrow> Ingress \<Rightarrow> HTTPIngressPath \<Rightarrow> IngressBackendSplit \<Rightarrow>
   exit \<Rightarrow> tr_state \<Rightarrow> bool" where
  "split_exit w t ctx ing p split e s \<longleftrightarrow>
     (case e of
        ExitNil \<Rightarrow> split_missing t split \<and> set (split_refs ing split) \<subseteq> set (ts_tracked s)
      | ExitPanic _ \<Rightarrow> split_hazard w t ctx p split
      | ExitErr _ \<Rightarrow> True)"

lemma orExit_Inl [tr_simps]:
  "orExit wrap m s = (Inl x, s') \<longleftrightarrow> (\<exists>e. m s = (Inl e, s') \<and> x = ExitErr (wrap e))"
  by (auto simp: orExit_def split: prod.splits sum.splits)

lemma trackService_Inl: "trackService t ns n ing s = (Inl x, s') \<Longrightarrow> \<exists>e. x = ExitErr e"
  by (auto simp: trackService_def tr_simps)

lemma createUpstreamTransportSocket_panic:
  "createUpstreamTransportSocket w t h2 ns = Inl (Panic p) \<Longrightarrow> isl (ServingNamespace (w_env w))"
  by (cases "ServingNamespace (w_env w)")
    (auto simp: createUpstreamTransportSocket_def go_simps liftE_def Let_def split: sum.split_asm)

lemma split_regions_panic:
  assumes "split_regions w split eps h2 ts ty acc = Inl x"
  shows "x = Panic IndexOutOfRange \<and> length eps < length regions"
  using assms
  by (cases acc) (auto simp: split_regions_def go_simps index_get_def split: if_splits)

lemma split_endpoints_Inl:
  assumes "split_endpoints t split service pc s = (Inl x, s')"
    and "serviceGetter t (bs_ServiceNamespace split) (bs_ServiceName split) = Inr service"
  shows "s' = s \<and> (case x of ExitNil \<Rightarrow> split_missing t split
    | ExitPanic _ \<Rightarrow> split_hazard w t ctx p split | ExitErr _ \<Rightarrow> True)"
proof (cases "endpointsGetter t (bs_ServiceNamespace split) (bs_ServiceName split)")
  case (Inl e)
  then show ?thesis
    using assms by (auto simp: split_endpoints_def tr_simps split_missing_def split_hazard_def
        split_service_def split: if_splits)
next
  case (Inr e)
  have "\<exists>a \<in> set (all_addresses e). ea_NodeName a = None"
    if "lbEndpointsForKubeEndpointsTest e q = Inl f" for q f
  proof (rule ccontr)
    assume "\<not> (\<exists>a \<in> set (all_addresses e). ea_NodeName a = None)"
    then have "\<forall>a \<in> set (all_addresses e). ea_NodeName a \<noteq> None" by simp
    then show False
      using that lbEndpoints_nil [of e q] lbEndpoints_ok [of e q] by (cases "all_addresses e = []") auto
  qed
  then show ?thesis
    using assms Inr by (auto simp: split_endpoints_def tr_simps split_hazard_def split_service_def
        split_kube_endpoints_def split: if_splits)
qed

text \<open>What follows once the service of a split is tracked and found.\<close>

lemma split_found_Inl:
  assumes "serviceGetter t (bs_ServiceNamespace split) (bs_ServiceName split) = Inr service"
    and refs: "set (split_refs ing split) \<subseteq> set (ts_tracked s1)"
    and body: "bindT (split_endpoints t split service (split_port t split)) (\<lambda>(eps, ty).
      bindT (if (SystemInternalTLSEnabled (cfg_Network (FromContextOrDefaults ctx)) \<or> pc_httpsPortUsed (split_port t split)) \<and>
            hp_RewriteHost p = []
          then bindT (liftT (createUpstreamTransportSocket w t h2c (bs_ServiceNamespace split))) (\<lambda>ts. retT (Some ts))
          else retT None) (\<lambda>ts. liftT (split_regions w split eps h2c ts ty acc))) s1 = (Inl x, s')"
  shows "split_exit w t ctx ing p split x s'"
proof -
  let ?sock = "if (SystemInternalTLSEnabled (cfg_Network (FromContextOrDefaults ctx)) \<or>
      pc_httpsPortUsed (split_port t split)) \<and> hp_RewriteHost p = []
    then bindT (liftT (createUpstreamTransportSocket w t h2c (bs_ServiceNamespace split))) (\<lambda>ts. retT (Some ts))
    else retT None"
  from body consider (eps) "split_endpoints t split service (split_port t split) s1 = (Inl x, s')"
    | (sock) s2 where "?sock s2 = (Inl x, s')"
    | (regions) eps ty s2 ts s3 where
        "split_endpoints t split service (split_port t split) s1 = (Inr (eps, ty), s2)"
        "liftT (split_regions w split eps h2c ts ty acc) s3 = (Inl x, s')"
    unfolding bindT_Inl by (auto simp: bindT_Inl)
  then show ?thesis
  proof cases
    case eps
    with split_endpoints_Inl [OF eps assms(1), of w ctx p] refs show ?thesis
      by (auto simp: split_exit_def split: exit.splits)
  next
    case sock
    then show ?thesis
      by (auto simp: tr_simps split_exit_def split_hazard_def needs_socket_def
          dest: createUpstreamTransportSocket_panic split: if_split_asm)
  next
    case regions
    then have "x = ExitPanic IndexOutOfRange" "length eps < length regions"
      by (auto simp: liftT_Inl dest!: split_regions_panic)
    with regions assms(1) show ?thesis
      by (cases "endpointsGetter t (bs_ServiceNamespace split) (bs_ServiceName split)")
        (auto simp: split_exit_def split_hazard_def split_endpoints_Inr lbEndpoints_cases
          split_kube_endpoints_def split: if_split_asm)
  qed
qed

lemma split_step_Inl:
  assumes "split_step w t ctx ing p acc split s = (Inl x, s')"
  shows "split_exit w t ctx ing p split x s'"
proof -
  let ?ns = "bs_ServiceNamespace split" and ?n = "bs_ServiceName split"
  consider (track) "trackService t ?ns ?n ing s = (Inl x, s')"
    | (tracked) s1 where "trackService t ?ns ?n ing s = (Inr (), s1)"
    using assms by (auto simp: split_step_def tr_simps)
  then show ?thesis
  proof cases
    case track
    then show ?thesis by (auto simp: split_exit_def dest!: trackService_Inl)
  next
    case tracked
    then have refs: "set (split_refs ing split) \<subseteq> set (ts_tracked s1)"
      by (simp add: trackService_Inr split_refs_def tracked_more_def)
    show ?thesis
    proof (cases "serviceGetter t ?ns ?n")
      case (Inl e)
      then show ?thesis
        using assms tracked refs
        by (auto simp: split_step_def tr_simps split_exit_def split_missing_def split: if_splits)
    next
      case (Inr service)
      have port: "select_port (bs_ServicePort split) (svc_Ports service) = split_port t split"
        by (simp add: split_port_def split_service_def Inr)
      show ?thesis
        by (rule split_found_Inl [where h2c = "if strings_EqualFold (GetDisableHTTP2 (ing_Annotations ing)) ''true''
              then False else pc_http2 (split_port t split)" and acc = acc, OF Inr refs])
          (use assms tracked Inr in \<open>auto simp: split_step_def tr_simps port Let_def\<close>)
    qed
  qed
qed

lemma path_step_Inl:
  assumes "path_step w t ctx ing ext rule ruleName acc p s = (Inl x, s')"
  shows "\<exists>split \<in> set (hp_Splits p). split_exit w t ctx ing p split x s'"
proof -
  have "add_routes w ing ext rule p path pathName wrs routes \<noteq> Inl e" for path pathName wrs routes e
    by (simp add: add_routes_def)
  then obtain cs where "forT (split_step w t ctx ing p) (cs, replicate (length regions + 1) [])
      (hp_Splits p) s = (Inl x, s')"
    using assms by (cases acc) (auto simp: path_step_def tr_simps Let_def split: if_split_asm)
  then show ?thesis
    by (rule forT_Inl) (auto dest: split_step_Inl)
qed

lemma rule_step_Inl:
  assumes "rule_step w t ctx ing ext acc (n, rule) s = (Inl x, s')"
  shows "(ir_HTTP rule = None \<and> x = ExitPanic NilDereference) \<or>
    (\<exists>p \<in> set (rule_paths rule). \<exists>split \<in> set (hp_Splits p). split_exit w t ctx ing p split x s')"
proof (cases "ir_HTTP rule")
  case None
  then show ?thesis using assms by (auto simp: rule_step_def tr_simps Let_def)
next
  case (Some paths)
  let ?loop = "forT (path_step w t ctx ing ext rule (rule_name ing n))
      (ra_clusters acc, region_table (\<lambda>_. []), []) paths s"
  consider "?loop = (Inl x, s')"
    | cs routes tls s1 where "?loop = (Inr (cs, routes, tls), s1)" "routes = []"
    using assms unfolding rule_step_def Let_def prod.case Some region_table_empty
      rule_name_def [symmetric]
    by (auto simp: tr_simps rule_name_def split: if_split_asm prod.split_asm)
  then show ?thesis
  proof cases
    case 1
    then obtain p a s1 where "p \<in> set paths"
      "path_step w t ctx ing ext rule (rule_name ing n) a p s1 = (Inl x, s')"
      by (rule forT_Inl)
    then show ?thesis using path_step_Inl by (simp add: rule_paths_def Some) blast
  next
    case 2
    then show ?thesis by (simp add: paths_loop)
  qed
qed

lemma tls_step_Inl: "tls_step w t ing ms it s = (Inl x, s') \<Longrightarrow> \<exists>e. x = ExitErr e"
  by (auto simp: tls_step_def trackSecret_def tr_simps Let_def split: sum.split_asm option.split_asm)

lemma translate_Inl:
  assumes "translate w t ctx ing ext s = (Inl x, s')"
  shows "(\<exists>e. x = ExitErr e) \<or>
    (x = ExitPanic NilDereference \<and> (\<exists>rule \<in> set (ing_Rules ing). ir_HTTP rule = None)) \<or>
    (\<exists>(p, split) \<in> set (ingress_splits ing). split_exit w t ctx ing p split x s')"
proof -
  let ?nrs = "enumerate 0 (ing_Rules ing)"
  consider "forT (tls_step w t ing) [] (ing_TLS ing) s = (Inl x, s')"
    | acc s1 where "forT (rule_step w t ctx ing ext) acc ?nrs s1 = (Inl x, s')"
    using assms by (auto simp: translate_def tr_simps)
  then show ?thesis
  proof cases
    case 1
    then show ?thesis by (rule forT_Inl) (auto dest: tls_step_Inl)
  next
    case 2
    then obtain n rule acc' s2 where nr: "(n, rule) \<in> set ?nrs"
      and step: "rule_step w t ctx ing ext acc' (n, rule) s2 = (Inl x, s')"
      by (rule forT_Inl) auto
    have rule: "rule \<in> set (ing_Rules ing)" using nr by (auto simp: in_set_enumerate_eq)
    from rule_step_Inl [OF step] show ?thesis
      using rule by (fastforce simp: ingress_splits_def)
  qed
qed

section \<open>Routes, clusters and regions\<close>

text \<open>Every route of region \<open>i\<close> sends traffic to clusters of region \<open>i\<close> only.\<close>

lemma path_routes_clusters:
  assumes "r \<in> set (path_routes w ing ext rule ruleName i p)" "c \<in> set (route_clusters r)"
  shows "\<exists>split \<in> set (hp_Splits p). c = split_cluster_name split i"
  using assms
  by (auto simp: path_routes_def path_route_def split_weight_def split: if_split_asm)

lemma path_tls_routes_clusters:
  assumes "r \<in> set (path_tls_routes w ing ruleName p)" "c \<in> set (route_clusters r)"
  shows "\<exists>split \<in> set (hp_Splits p). c = split_cluster_name split 0"
  using assms
  by (auto simp: path_tls_routes_def path_route_def split_weight_def split: if_split_asm)

lemma rule_vhost_clusters:
  assumes "rule_vhost w ing ext i (n, rule) = Some vh" "c \<in> set (vhost_clusters vh)"
  shows "\<exists>p \<in> set (rule_paths rule). \<exists>split \<in> set (hp_Splits p). c = split_cluster_name split i"
proof -
  from assms obtain r where "r \<in> set (rule_routes w ing ext i (n, rule))" "c \<in> set (route_clusters r)"
    by (auto simp: rule_vhost_def Let_def vhost_clusters_def split: if_split_asm)
  then show ?thesis
    unfolding rule_routes_def by (auto dest!: path_routes_clusters)
qed

lemma rule_tls_vhost_clusters:
  assumes "rule_tls_vhost w ing ext (n, rule) = Some vh" "c \<in> set (vhost_clusters vh)"
  shows "\<exists>p \<in> set (rule_paths rule). \<exists>split \<in> set (hp_Splits p). c = split_cluster_name split 0"
proof -
  from assms obtain r where "r \<in> set (rule_tls_routes w ing (n, rule))" "c \<in> set (route_clusters r)"
    by (auto simp: rule_tls_vhost_def Let_def vhost_clusters_def split: if_split_asm)
  then show ?thesis
    unfolding rule_tls_routes_def by (auto dest!: path_tls_routes_clusters)
qed

text \<open>The cluster of a split in region \<open>i\<close> is one of the translation.\<close>

lemma split_cluster_mem:
  assumes "(p, split) \<in> set (ingress_splits ing)" "i < length regions"
  shows "\<exists>cl \<in> set (ti_clusters (spec_translation w t ctx ing ext s)).
    cl_Name cl = split_cluster_name split i \<and>
    cla_Endpoints (cl_LoadAssignment cl) =
      [region_endpoints i (split_kube_endpoints t split) (pc_targetPort (split_port t split))]"
proof -
  from assms(1) obtain rule where rule: "rule \<in> set (ing_Rules ing)"
    "p \<in> set (rule_paths rule)" "split \<in> set (hp_Splits p)"
    by (auto simp: ingress_splits_def)
  let ?cl = "NewCluster (w_mar w) (split_cluster_name split i) (5 * 10 ^ 9)
    (region_endpoints i (split_kube_endpoints t split) (pc_targetPort (split_port t split)))
    (split_http2 t ing split) (split_socket w t ctx ing p split) STATIC"
  have "?cl \<in> set (split_clusters w t ctx ing p split)"
    unfolding split_clusters_def set_map using assms(2) by (intro imageI) (simp del: upt_three length_regions)
  then have "?cl \<in> set (ti_clusters (spec_translation w t ctx ing ext s))"
    using rule by (fastforce simp: spec_translation_def Let_def rule_clusters_def path_clusters_def)
  then show ?thesis by (intro bexI [of _ ?cl]) simp_all
qed

lemma enumerate_rule:
  "nr \<in> set (enumerate 0 rules) \<Longrightarrow> snd nr \<in> set rules"
  using nth_mem by (fastforce simp: in_set_enumerate_eq)

lemma ingress_splits_mem:
  "rule \<in> set (ing_Rules ing) \<Longrightarrow> p \<in> set (rule_paths rule) \<Longrightarrow> split \<in> set (hp_Splits p) \<Longrightarrow>
   (p, split) \<in> set (ingress_splits ing)"
  by (fastforce simp: ingress_splits_def)

lemma spec_vhost_clusters:
  assumes "i < length regions"
    and "Some vh \<in> set (ti_internalVirtualHosts (spec_translation w t ctx ing ext s) ! i) \<union>
                    set (ti_externalVirtualHosts (spec_translation w t ctx ing ext s) ! i)"
    and "c \<in> set (vhost_clusters vh)"
  shows "\<exists>(p, split) \<in> set (ingress_splits ing). c = split_cluster_name split i"
proof -
  obtain n rule where "(n, rule) \<in> set (enumerate 0 (ing_Rules ing))"
    "rule_vhost w ing ext i (n, rule) = Some vh"
    using assms(1,2) by (auto simp: spec_translation_def Let_def internal_vhosts_def
        external_vhosts_def simp del: length_regions)
  then show ?thesis
    using rule_vhost_clusters [OF _ assms(3)] ingress_splits_mem enumerate_rule by fastforce
qed

lemma spec_tls_vhost_clusters:
  assumes "i < length regions"
    and "Some vh \<in> set (ti_externalTLSVirtualHosts (spec_translation w t ctx ing ext s) ! i)"
    and "c \<in> set (vhost_clusters vh)"
  shows "\<exists>(p, split) \<in> set (ingress_splits ing). c = split_cluster_name split 0"
proof -
  obtain n rule where nr: "(n, rule) \<in> set (enumerate 0 (ing_Rules ing))"
    "rule_tls_vhost w ing ext (n, rule) = Some vh"
    using assms(1,2) by (force simp: spec_translation_def Let_def external_tls_vhosts_def
        simp del: length_regions)
  from rule_tls_vhost_clusters [OF nr(2) assms(3)] obtain p split where
    "p \<in> set (rule_paths rule)" "split \<in> set (hp_Splits p)" "c = split_cluster_name split 0" by blast
  then show ?thesis
    using ingress_splits_mem [of rule ing p split] enumerate_rule [OF nr(1)]
    by (intro bexI [of _ "(p, split)"]) simp_all
qed

section \<open>Properties\<close>

text \<open>
  C1: \<^verbatim>\<open>translateIngress\<close> returns a translation exactly when every TLS secret exists and is a valid
  key pair, every rule has HTTP paths, every split's service exists, is not an ExternalName and
  has ready endpoints on named nodes, the tracker accepts the references to them, and the needed transport sockets can be built; the
  translation and the state left behind (SNI matches allocated, references tracked) are then
  exactly the specified ones.
\<close>

theorem translateIngress_exact:
  "translateIngress w t ctx ing ext s = (Inr (Some ti), s') \<longleftrightarrow>
     translatable w t ctx ing \<and> ti = spec_translation w t ctx ing ext s \<and> s' = spec_state t ing s"
  by (simp add: translateIngress_exits translate_Inr)

text \<open>
  When \<^verbatim>\<open>translateIngress\<close> returns nil without an error, some split's service or endpoints do
  not exist yet, and the references to both are tracked for this ingress, so that their creation
  triggers a new reconciliation.
\<close>

lemma translateIngress_nil_tracked:
  assumes "translateIngress w t ctx ing ext s = (Inr None, s')"
  shows "\<exists>(p, split) \<in> set (ingress_splits ing).
    split_missing t split \<and> set (split_refs ing split) \<subseteq> set (ts_tracked s')"
  using translate_Inl [OF assms [unfolded translateIngress_exits]] by (auto simp: split_exit_def)


text \<open>
  C34: \<^verbatim>\<open>translateIngress\<close> panics only on an ingress with a rule without HTTP section, or with a
  split whose service is an ExternalName, has no ready endpoint, has a ready endpoint without a
  node name, or needs a transport socket while no namespace is configured.
\<close>

theorem translateIngress_panic_cause:
  assumes "translateIngress w t ctx ing ext s = (Inl (Panic p), s')"
  shows "(\<exists>rule \<in> set (ing_Rules ing). ir_HTTP rule = None) \<or>
    (\<exists>(path, split) \<in> set (ingress_splits ing). split_hazard w t ctx path split)"
  using translate_Inl [OF assms [unfolded translateIngress_exits]] by (auto simp: split_exit_def)

theorem translateIngress_panic_cause_witness:
  "(\<exists>rule \<in> set (ing_Rules (ex_ingress ''out'')). ir_HTTP rule = None) \<or>
    (\<exists>(path, split) \<in> set (ingress_splits (ex_ingress ''out'')).
       split_hazard ex_world ex_translator None path split)"
proof (rule translateIngress_panic_cause)
  show "translateIngress ex_world ex_translator None (ex_ingress ''out'') False ex_state =
      (Inl (Panic IndexOutOfRange),
       snd (translateIngress ex_world ex_translator None (ex_ingress ''out'') False ex_state))"
    by code_simp
qed

text \<open>
  C23: Region isolation and referential integrity: a cluster that a route of a region's internal or
  external virtual host sends traffic to is named after a split of the ingress and that region,
  and the translation has a cluster of this name whose endpoints are the ready addresses of the
  split's service on the region's node.
\<close>

theorem region_routes_have_clusters:
  assumes "translateIngress w t ctx ing ext s = (Inr (Some ti), s')" "i < length regions"
    and "Some vh \<in> set (ti_internalVirtualHosts ti ! i) \<union> set (ti_externalVirtualHosts ti ! i)"
    and "c \<in> set (vhost_clusters vh)"
  shows "\<exists>(p, split) \<in> set (ingress_splits ing). c = split_cluster_name split i \<and>
    (\<exists>cl \<in> set (ti_clusters ti). cl_Name cl = c \<and>
       cla_Endpoints (cl_LoadAssignment cl) =
         [region_endpoints i (split_kube_endpoints t split) (pc_targetPort (split_port t split))])"
proof -
  have ti: "ti = spec_translation w t ctx ing ext s"
    using assms(1) by (simp add: translateIngress_exits translate_Inr)
  from spec_vhost_clusters [OF assms(2) assms(3) [unfolded ti] assms(4)] obtain p split
    where "(p, split) \<in> set (ingress_splits ing)" "c = split_cluster_name split i" by auto
  then show ?thesis using split_cluster_mem [OF _ assms(2)] ti by blast
qed

definition ex_ti :: translatedIngress where
  "ex_ti = spec_translation ex_world ex_translator None (ex_ingress ''hello'') False ex_state"

theorem region_routes_have_clusters_witness:
  "\<exists>(p, split) \<in> set (ingress_splits (ex_ingress ''hello'')).
    ''default/hello_region2'' = split_cluster_name split 1 \<and>
    (\<exists>cl \<in> set (ti_clusters ex_ti). cl_Name cl = ''default/hello_region2'' \<and>
       cla_Endpoints (cl_LoadAssignment cl) =
         [region_endpoints 1 (split_kube_endpoints ex_translator split)
            (pc_targetPort (split_port ex_translator split))])"
proof (rule region_routes_have_clusters)
  show "translateIngress ex_world ex_translator None (ex_ingress ''hello'') False ex_state =
      (Inr (Some ex_ti), spec_state ex_translator (ex_ingress ''hello'') ex_state)"
    unfolding ex_ti_def by (rule translateIngress_translatable) code_simp
  show "1 < length regions" by simp
  show "Some (the (hd (ti_internalVirtualHosts ex_ti ! 1))) \<in>
      set (ti_internalVirtualHosts ex_ti ! 1) \<union> set (ti_externalVirtualHosts ex_ti ! 1)"
    by code_simp
  show "''default/hello_region2'' \<in> set (vhost_clusters (the (hd (ti_internalVirtualHosts ex_ti ! 1))))"
    by code_simp
qed

text \<open>
  The virtual hosts for TLS traffic are the same in every region, and all their routes send
  traffic to the clusters of the first region only, which the translation has.
\<close>

lemma tls_hosts_use_first_region:
  assumes "translateIngress w t ctx ing ext s = (Inr (Some ti), s')" "i < length regions"
  shows "ti_externalTLSVirtualHosts ti ! i = ti_externalTLSVirtualHosts ti ! 0 \<and>
    (\<forall>vh c. Some vh \<in> set (ti_externalTLSVirtualHosts ti ! i) \<longrightarrow> c \<in> set (vhost_clusters vh) \<longrightarrow>
       (\<exists>(p, split) \<in> set (ingress_splits ing). c = split_cluster_name split 0) \<and>
       c \<in> cl_Name ` set (ti_clusters ti))"
proof -
  have ti: "ti = spec_translation w t ctx ing ext s"
    using assms(1) by (simp add: translateIngress_exits translate_Inr)
  have tab: "ti_externalTLSVirtualHosts ti ! j = external_tls_vhosts w ing ext (enumerate 0 (ing_Rules ing))"
    if "j < length regions" for j
    using that by (simp add: ti spec_translation_def Let_def del: length_regions)
  have "(\<exists>(p, split) \<in> set (ingress_splits ing). c = split_cluster_name split 0) \<and>
      c \<in> cl_Name ` set (ti_clusters ti)"
    if vh: "Some vh \<in> set (ti_externalTLSVirtualHosts ti ! i)" and c: "c \<in> set (vhost_clusters vh)" for vh c
  proof -
    from spec_tls_vhost_clusters [OF assms(2) vh [unfolded ti] c] obtain p split
      where split: "(p, split) \<in> set (ingress_splits ing)" "c = split_cluster_name split 0" by auto
    then obtain cl where "cl \<in> set (ti_clusters ti)" "cl_Name cl = c"
      using split_cluster_mem [of p split ing 0 w t ctx ext s] ti by auto
    then have "c \<in> cl_Name ` set (ti_clusters ti)" by blast
    with split show ?thesis by (intro conjI bexI [of _ "(p, split)"]) simp_all
  qed
  then show ?thesis using tab assms(2) by simp
qed

definition ex_tls_ti :: translatedIngress where
  "ex_tls_ti = spec_translation ex_world ex_translator None ex_tls_ingress False ex_state"

text \<open>
  Without external authorization, every region has one internal virtual host per rule and one
  external virtual host per externally visible rule, in the order of the rules, each with the
  domains of its rule; with it, only the first region has them and the entries of the others
  are nil.
\<close>

lemma vhosts_per_region:
  assumes "translateIngress w t ctx ing ext s = (Inr (Some ti), s')" "i < length regions"
  shows "map (map_option vh_Domains) (ti_internalVirtualHosts ti ! i) =
      map (\<lambda>rule. if ext \<and> i \<noteq> 0 then None else Some (domainsForRule rule)) (ing_Rules ing) \<and>
    map (map_option vh_Domains) (ti_externalVirtualHosts ti ! i) =
      map (\<lambda>rule. if ext \<and> i \<noteq> 0 then None else Some (domainsForRule rule))
        (filter (\<lambda>rule. ir_Visibility rule = ExternalIP) (ing_Rules ing))"
proof -
  have ti: "ti = spec_translation w t ctx ing ext s"
    using assms(1) by (simp add: translateIngress_exits translate_Inr)
  let ?d = "\<lambda>rule. if ext \<and> i \<noteq> 0 then None else Some (domainsForRule rule)"
  have dom: "map_option vh_Domains (rule_vhost w ing ext i nr) = ?d (snd nr)" for nr
    by (simp add: rule_vhost_def Let_def)
  have filt: "map f (map snd (filter is_external nrs)) =
      map f (filter (\<lambda>rule. ir_Visibility rule = ExternalIP) (map snd nrs))" for f nrs
    by (induction nrs) (simp_all add: is_external_def)
  show ?thesis
    using assms(2) filt [of ?d "enumerate 0 (ing_Rules ing)"]
      map_snd_enumerate [of ?d 0 "ing_Rules ing"]
    by (simp add: ti spec_translation_def Let_def internal_vhosts_def external_vhosts_def dom comp_def
        del: length_regions)
qed


lemma endpoints_mset:
  "mset (concat (region_table (\<lambda>i. region_endpoints i eps port))) = image_mset (\<lambda>a. NewLBEndpoint (ea_IP a) port)
    (filter_mset (\<lambda>a. \<exists>i < length regions. ea_NodeName a = Some (region_label i)) (mset (all_addresses eps)))"
proof -
  let ?on = "\<lambda>i a. ea_NodeName a = Some (region_label i)" and ?f = "\<lambda>a. NewLBEndpoint (ea_IP a) port"
  have ex: "(\<exists>i < length regions. ?on i a) \<longleftrightarrow> ?on 0 a \<or> ?on 1 a \<or> ?on 2 a" for a
    by (rule ex_region)
  have "mset (map ?f (filter (?on 0) as)) + (mset (map ?f (filter (?on 1) as)) +
      mset (map ?f (filter (?on 2) as))) =
      image_mset ?f (filter_mset (\<lambda>a. ?on 0 a \<or> ?on 1 a \<or> ?on 2 a) (mset as))" for as
    by (induction as) (auto simp: region_values)
  then show ?thesis unfolding ex by (simp add: region_table_eq region_endpoints_def)
qed

text \<open>
  C24: The endpoints handed to the regions. The list is nil exactly if there is no ready address; otherwise it has an entry
  for each region, which holds the endpoints of the ready addresses on the node of that region, in their order, and one
  empty entry at the end. Different regions have different nodes, so every ready address
  becomes an endpoint of at most one region, and the only ready addresses dropped are those on nodes of no region.
\<close>

theorem endpoints_partitioned:
  assumes "lbEndpointsForKubeEndpointsTest eps port = Inr xss"
  shows "(xss = [] \<longleftrightarrow> all_addresses eps = []) \<and>
    (xss \<noteq> [] \<longrightarrow> length xss = length regions + 1 \<and> last xss = [] \<and>
      (\<forall>i < length regions. xss ! i = map (\<lambda>a. NewLBEndpoint (ea_IP a) port)
        (filter (\<lambda>a. ea_NodeName a = Some (region_label i)) (all_addresses eps)))) \<and>
    (\<forall>i < length regions. \<forall>j < length regions. region_label i = region_label j \<longrightarrow> i = j) \<and>
    mset (concat xss) = image_mset (\<lambda>a. NewLBEndpoint (ea_IP a) port)
      (filter_mset (\<lambda>a. \<exists>i < length regions. ea_NodeName a = Some (region_label i)) (mset (all_addresses eps)))"
proof -
  have labels: "\<forall>i < length regions. \<forall>j < length regions. region_label i = region_label j \<longrightarrow> i = j"
    unfolding all_region by (simp add: region_values)
  show ?thesis
  proof (cases "all_addresses eps = []")
    case True
    then show ?thesis using assms labels by (simp add: lbEndpoints_cases)
  next
    case False
    then have xss: "xss = region_table (\<lambda>i. region_endpoints i eps port)"
      using assms by (simp add: lbEndpoints_cases)
    have "xss \<noteq> []" "length xss = length regions + 1" "last xss = []"
      "\<forall>i < length regions. xss ! i = region_endpoints i eps port"
      unfolding all_region by (simp_all add: xss region_table_eq)
    then show ?thesis using False labels endpoints_mset xss unfolding region_endpoints_def by simp
  qed
qed

theorem endpoints_partitioned_witness:
  "lbEndpointsForKubeEndpointsTest ex_endpoints 8012 = Inr (region_table (\<lambda>i. region_endpoints i ex_endpoints 8012)) \<and>
   region_table (\<lambda>i. region_endpoints i ex_endpoints 8012) ! 1 = map (\<lambda>a. NewLBEndpoint (ea_IP a) 8012)
     (filter (\<lambda>a. ea_NodeName a = Some (region_label 1)) (all_addresses ex_endpoints))"
proof -
  have eps: "lbEndpointsForKubeEndpointsTest ex_endpoints 8012 = Inr (region_table (\<lambda>i. region_endpoints i ex_endpoints 8012))"
    by code_simp
  have "region_table (\<lambda>i. region_endpoints i ex_endpoints 8012) \<noteq> []" by (simp add: region_table_eq)
  then show ?thesis using endpoints_partitioned [OF eps] eps by simp
qed

text \<open>
  C31: The port of a split: the external and the target port are those of the last service port that matches the
  split's port by number or by name (a service port without a name matches every split that gives a number), and 80 when none matches; HTTP/2 is chosen when any port of
  the service is named \<^verbatim>\<open>http2\<close> or \<^verbatim>\<open>h2c\<close>, matching or not; the HTTPS port counts as used when
  a port matching by number is named \<^verbatim>\<open>https\<close>.
\<close>

theorem select_port_spec:
  "pc_externalPort (select_port sp ports) =
     (case filter (\<lambda>p. sp_Port p = ios_IntVal sp \<or> sp_Name p = ios_StrVal sp) ports of
        [] \<Rightarrow> 80 | ps \<Rightarrow> sp_Port (last ps)) \<and>
   pc_targetPort (select_port sp ports) =
     (case filter (\<lambda>p. sp_Port p = ios_IntVal sp \<or> sp_Name p = ios_StrVal sp) ports of
        [] \<Rightarrow> 80 | ps \<Rightarrow> sp_TargetPort (last ps)) \<and>
   (pc_http2 (select_port sp ports) \<longleftrightarrow> (\<exists>p \<in> set ports. sp_Name p = ''http2'' \<or> sp_Name p = ''h2c'')) \<and>
   (pc_httpsPortUsed (select_port sp ports) \<longleftrightarrow>
      (\<exists>p \<in> set ports. sp_Port p = ios_IntVal sp \<and> sp_Name p = ''https''))"
proof (induction ports rule: rev_induct)
  case Nil
  show ?case by (simp add: select_port_def)
next
  case (snoc p ports)
  have "select_port sp (ports @ [p]) = port_step sp (select_port sp ports) p"
    by (simp add: select_port_def)
  with snoc show ?case
    by (auto simp: port_step_def Let_def split: list.splits)
qed

text \<open>
  Traffic splitting: in every region, the weights of a route that is neither a redirect nor an
  authorization-free challenge route are the percentages of the path's splits, in order; when
  they are percentages that add up to 100, the 32-bit weights add up to 100 too.
\<close>

lemma route_weights:
  assumes "i < length regions" "\<not> acme_path ext p" "\<not> redirected w ing rule"
    and "\<forall>split \<in> set (hp_Splits p). 0 \<le> bs_Percent split" "(\<Sum>split \<leftarrow> hp_Splits p. bs_Percent split) = 100"
  shows "\<exists>r ra. path_routes w ing ext rule ruleName i p = [r] \<and> rt_Action r = Route_Route ra \<and>
    map cw_Name (ra_WeightedClusters ra) = map (\<lambda>split. split_cluster_name split i) (hp_Splits p) \<and>
    map (\<lambda>cw. int (unat (cw_Weight cw))) (ra_WeightedClusters ra) = map bs_Percent (hp_Splits p) \<and>
    (\<Sum>cw \<leftarrow> ra_WeightedClusters ra. unat (cw_Weight cw)) = 100"
proof -
  have le: "bs_Percent split \<le> 100" if "split \<in> set (hp_Splits p)" for split
    using member_le_sum_list [of "bs_Percent split" "map bs_Percent (hp_Splits p)"] assms(4,5) that
    by auto
  let ?r = "path_route ruleName i [region_label i] p"
  obtain ra where ra: "rt_Action ?r = Route_Route ra"
    "ra_WeightedClusters ra = map (split_weight i) (hp_Splits p)"
    by (simp add: path_route_def NewRoute_def Let_def)
  have w: "int (unat (cw_Weight (split_weight i split))) = bs_Percent split"
    if "split \<in> set (hp_Splits p)" for split
    using le [OF that] that assms(4) by (simp add: split_weight_def take_bit_int_eq_self unsigned_of_int)
  then have ws: "map (\<lambda>cw. int (unat (cw_Weight cw))) (ra_WeightedClusters ra) = map bs_Percent (hp_Splits p)"
    by (simp add: ra)
  have "int (\<Sum>x \<leftarrow> xs. f x) = (\<Sum>x \<leftarrow> xs. int (f x))" for xs :: "ClusterWeight list" and f
    by (induction xs) simp_all
  then have "int (\<Sum>cw \<leftarrow> ra_WeightedClusters ra. unat (cw_Weight cw)) = 100"
    using assms(5) by (simp only: ws)
  then have "(\<Sum>cw \<leftarrow> ra_WeightedClusters ra. unat (cw_Weight cw)) = 100" by linarith
  moreover have "map cw_Name (ra_WeightedClusters ra) = map (\<lambda>split. split_cluster_name split i) (hp_Splits p)"
    by (simp add: ra split_weight_def)
  ultimately show ?thesis
    using ra(1) ws assms(2,3) by (intro exI [of _ ?r] exI [of _ ra]) (simp add: path_routes_def)
qed

text \<open>
  Without external authorization, a redirect (HTTP option \<^verbatim>\<open>Redirected\<close> on an external rule)
  exists in the first region only: there every path answers with an HTTPS redirect, while the
  virtual hosts of the other regions get no route at all.
\<close>

lemma redirect_first_region_only:
  assumes "redirected w ing rule" "0 < i"
  shows "rule_routes w ing False i (n, rule) = [] \<and>
    map rt_Action (rule_routes w ing False 0 (n, rule)) =
      map (\<lambda>_. Route_Redirect \<lparr>rd_HttpsRedirect = True\<rparr>) (rule_paths rule)"
proof -
  have "path_routes w ing False rule ruleName i p = []"
    "path_routes w ing False rule ruleName 0 p =
      [NewRedirectRoute (path_name ruleName p) (matchHeadersFromHTTPPath p) (path_or_root p)]" for ruleName p
    using assms by (simp_all add: path_routes_def acme_path_def)
  moreover have "concat (map (\<lambda>p. [g p]) ps) = map g ps" for g :: "HTTPIngressPath \<Rightarrow> Route" and ps
    by (induction ps) simp_all
  ultimately show ?thesis
    by (simp add: rule_routes_def NewRedirectRoute_def [abs_def] comp_def cong: map_cong)
qed

section \<open>Ingresses that make the translator panic\<close>

text \<open>The first split visited decides, when there is no TLS section before it.\<close>

lemma first_split_panics:
  assumes "ing_TLS ing = []" "ing_Rules ing = rule # rules" "ir_HTTP rule = Some (p # ps)"
    "hp_Splits p = split # splits"
    and "\<And>acc s. \<exists>s'. split_step w t ctx ing p acc split s = (Inl (ExitPanic e), s')"
  shows "fst (translateIngress w t ctx ing ext s) = Inl (Panic e)"
proof -
  obtain s1 where "split_step w t ctx ing p ([], replicate (length regions + 1) []) split s =
      (Inl (ExitPanic e), s1)"
    using assms(5) by blast
  then show ?thesis
    using assms(1-4)
    by (simp add: translateIngress_def translate_def rule_step_def path_step_def bindT_def retT_def
        Let_def del: replicate_Suc replicate.simps)
qed

lemma split_step_service:
  assumes "tracks t ing (serviceRef (bs_ServiceNamespace split) (bs_ServiceName split))"
    "tracks t ing (endpointsRef (bs_ServiceNamespace split) (bs_ServiceName split))"
    "serviceGetter t (bs_ServiceNamespace split) (bs_ServiceName split) = Inr service"
    and "\<And>s. split_endpoints t split service (select_port (bs_ServicePort split) (svc_Ports service)) s =
      (Inl x, s)"
  shows "\<exists>s'. split_step w t ctx ing p acc split s = (Inl x, s')"
proof -
  have "trackService t (bs_ServiceNamespace split) (bs_ServiceName split) ing s =
      (Inr (), tracked_more (split_refs ing split) s)"
    using assms(1,2) by (simp add: trackService_Inr split_refs_def)
  then show ?thesis
    using assms(3,4) by (simp add: split_step_def bindT_def Let_def)
qed

text \<open>
  A service of type ExternalName makes the translator panic: its endpoint is written to index
  0 of a nil slice (\<^verbatim>\<open>ingress_translator.go\<close>, line 207).
\<close>

lemma external_name_panics:
  assumes "ing_TLS ing = []" "ing_Rules ing = rule # rules" "ir_HTTP rule = Some (p # ps)"
    "hp_Splits p = split # splits"
    and "tracks t ing (serviceRef (bs_ServiceNamespace split) (bs_ServiceName split))"
    "tracks t ing (endpointsRef (bs_ServiceNamespace split) (bs_ServiceName split))"
    "serviceGetter t (bs_ServiceNamespace split) (bs_ServiceName split) = Inr service"
    "svc_Type service = ExternalName"
  shows "fst (translateIngress w t ctx ing ext s) = Inl (Panic IndexOutOfRange)"
  by (rule first_split_panics [OF assms(1-4)], rule split_step_service [OF assms(5-7)])
    (simp add: split_endpoints_def assms(8) bindT_simps exitT_def)

text \<open>
  A service without ready addresses (scaled to zero, or still starting) makes the translator
  panic: the nil result of \<^verbatim>\<open>lbEndpointsForKubeEndpointsTest\<close> is indexed by region.
\<close>

lemma no_ready_address_panics:
  assumes "ing_TLS ing = []" "ing_Rules ing = rule # rules" "ir_HTTP rule = Some (p # ps)"
    "hp_Splits p = split # splits"
    and "tracks t ing (serviceRef (bs_ServiceNamespace split) (bs_ServiceName split))"
    "tracks t ing (endpointsRef (bs_ServiceNamespace split) (bs_ServiceName split))"
    "serviceGetter t (bs_ServiceNamespace split) (bs_ServiceName split) = Inr service"
    "svc_Type service \<noteq> ExternalName"
    "endpointsGetter t (bs_ServiceNamespace split) (bs_ServiceName split) = Inr e"
    "all_addresses e = []" "\<not> needs_socket t ctx p split"
  shows "fst (translateIngress w t ctx ing ext s) = Inl (Panic IndexOutOfRange)"
proof (rule first_split_panics [OF assms(1-4)])
  fix acc :: "Cluster list \<times> ClusterWeight list list" and s
  obtain cs wrs where acc: "acc = (cs, wrs)" by fastforce
  have tr: "trackService t (bs_ServiceNamespace split) (bs_ServiceName split) ing s =
      (Inr (), tracked_more (split_refs ing split) s)"
    using assms(5,6) by (simp add: trackService_Inr split_refs_def)
  have "\<not> ((SystemInternalTLSEnabled (cfg_Network (FromContextOrDefaults ctx)) \<or>
      pc_httpsPortUsed (select_port (bs_ServicePort split) (svc_Ports service))) \<and> hp_RewriteHost p = [])"
    using assms(11) by (simp add: needs_socket_def split_port_def split_service_def assms(7))
  then show "\<exists>s'. split_step w t ctx ing p acc split s = (Inl (ExitPanic IndexOutOfRange), s')"
    using assms(7-10) tr
    by (auto simp: split_step_def bindT_def Let_def split_endpoints_def lbEndpoints_nil bindT_simps
        acc split_regions_nil retT_def exitT_def)
qed

end
