(* ===== verification/Tracker.thy ===== *)
theory Tracker
  imports Translator_Props
begin

text \<open>
  The tracker of \<^verbatim>\<open>knative.dev/pkg/tracker\<close> that the controller and the translator share: which
  ingresses observe which object, each until its lease ends. The translator only sees whether a
  reference is accepted (\<open>tracker\<close> of \<^verbatim>\<open>Translator\<close>); the registrations it makes are the list
  \<open>ts_tracked\<close>, and this theory gives them their effect. References by selector are not used by the
  program and are left out.
\<close>

section \<open>State and operations\<close>

record Tracker =
  tk_exact :: "(Reference \<times> (NamespacedName \<times> int) list) list"
  tk_leaseDuration :: int

definition isExpired :: "int \<Rightarrow> int \<Rightarrow> bool" where
  "isExpired now expiry \<longleftrightarrow> expiry < now"

definition tk_set :: "Tracker \<Rightarrow> Reference \<Rightarrow> (NamespacedName \<times> int) list" where
  "tk_set tk ref = (case map_of (tk_exact tk) ref of None \<Rightarrow> [] | Some l \<Rightarrow> l)"

text \<open>\<^verbatim>\<open>TrackReference\<close> of an accepted reference; the callback runs for an observer that was not covered.\<close>

definition Track :: "int \<Rightarrow> Reference \<Rightarrow> NamespacedName \<Rightarrow> Tracker \<Rightarrow> NamespacedName list \<times> Tracker" where
  "Track now ref k tk =
     (let l = tk_set tk ref;
          keys = (case map_of l k of
                    None \<Rightarrow> [k]
                  | Some expiry \<Rightarrow> if isExpired now expiry then [k] else []);
          l = AList.update k (now + tk_leaseDuration tk) l
      in (keys, tk\<lparr>tk_exact := AList.update ref l (tk_exact tk)\<rparr>))"

definition GetObservers :: "int \<Rightarrow> Reference \<Rightarrow> Tracker \<Rightarrow> NamespacedName list \<times> Tracker" where
  "GetObservers now ref tk =
     (case map_of (tk_exact tk) ref of
        None \<Rightarrow> ([], tk)
      | Some s \<Rightarrow>
          (let s = filter (\<lambda>(k, expiry). \<not> isExpired now expiry) s in
           (map fst s, tk\<lparr>tk_exact := if s = [] then AList.delete ref (tk_exact tk)
                                      else AList.update ref s (tk_exact tk)\<rparr>)))"

definition OnDeletedObserver :: "NamespacedName \<Rightarrow> Tracker \<Rightarrow> Tracker" where
  "OnDeletedObserver k tk =
     tk\<lparr>tk_exact := filter (\<lambda>(ref, l). l \<noteq> []) (map (\<lambda>(ref, l). (ref, AList.delete k l)) (tk_exact tk))\<rparr>"

text \<open>Entering registrations made at the given times.\<close>

definition register_all :: "(int \<times> Reference \<times> NamespacedName) list \<Rightarrow> Tracker \<Rightarrow> Tracker" where
  "register_all es tk = foldl (\<lambda>tk (u, ref, k). snd (Track u ref k tk)) tk es"

text \<open>The time of the last registration of an observer for a reference.\<close>

definition last_registered :: "(int \<times> Reference \<times> NamespacedName) list \<Rightarrow> Reference \<Rightarrow> NamespacedName \<Rightarrow> int option" where
  "last_registered es ref k = map_of (map (\<lambda>(u, ref, k). ((ref, k), u)) (rev es)) (ref, k)"

section \<open>The contract of a registry of observers\<close>

text \<open>
  Who observes what at which time, after a registration, after the observers of an object were
  asked for, and after an observer is gone.
\<close>

locale observer_registry =
  fixes live :: "'s \<Rightarrow> int \<Rightarrow> 'r \<Rightarrow> 'k \<Rightarrow> bool"
    and track :: "int \<Rightarrow> 'r \<Rightarrow> 'k \<Rightarrow> 's \<Rightarrow> 's"
    and observers :: "int \<Rightarrow> 'r \<Rightarrow> 's \<Rightarrow> 'k list"
    and prune :: "int \<Rightarrow> 'r \<Rightarrow> 's \<Rightarrow> 's"
    and forget :: "'k \<Rightarrow> 's \<Rightarrow> 's"
    and lease :: "'s \<Rightarrow> int"
    and inv :: "'s \<Rightarrow> bool"
  assumes inv_track: "inv s \<Longrightarrow> inv (track now r k s)"
    and inv_prune: "inv s \<Longrightarrow> inv (prune now r s)"
    and inv_forget: "inv s \<Longrightarrow> inv (forget k s)"
    and lease_track: "lease (track now r k s) = lease s"
    and live_track: "inv s \<Longrightarrow> live (track now r k s) t r' k' \<longleftrightarrow>
      (if r' = r \<and> k' = k then t \<le> now + lease s else live s t r' k')"
    and observers_live: "inv s \<Longrightarrow> set (observers now r s) = {k. live s now r k}"
    and live_prune: "inv s \<Longrightarrow> now \<le> t \<Longrightarrow> live (prune now r s) t r' k' = live s t r' k'"
    and live_forget: "inv s \<Longrightarrow> live (forget k s) t r k' \<longleftrightarrow> k' \<noteq> k \<and> live s t r k'"
begin

lemma register_all_inv:
  "inv s \<Longrightarrow> inv (foldl (\<lambda>s (u, r, k). track u r k s) s es) \<and> lease (foldl (\<lambda>s (u, r, k). track u r k s) s es) = lease s"
  by (induction es arbitrary: s) (auto simp: inv_track lease_track)

lemma live_register_last:
  assumes "inv s" "map_of (map (\<lambda>(u, r, k). ((r, k), u)) (rev es)) (r, k) = Some u" "t \<le> u + lease s"
  shows "live (foldl (\<lambda>s (u, r, k). track u r k s) s es) t r k"
  using assms(2)
proof (induction es rule: rev_induct)
  case (snoc e es)
  obtain v r' k' where e: "e = (v, r', k')" by (cases e)
  have "inv (foldl (\<lambda>s (u, r, k). track u r k s) s es)" "lease (foldl (\<lambda>s (u, r, k). track u r k s) s es) = lease s"
    using register_all_inv [OF assms(1)] by simp_all
  then show ?case using snoc assms(3) by (auto simp: e live_track split: if_splits)
qed simp

lemma notified_after_registering:
  assumes "inv s" "map_of (map (\<lambda>(u, r, k). ((r, k), u)) (rev es)) (r, k) = Some u" "now \<le> u + lease s"
  shows "k \<in> set (observers now r (foldl (\<lambda>s (u, r, k). track u r k s) s es))"
  using observers_live live_register_last [OF assms] register_all_inv [OF assms(1)] by blast

lemma not_notified_after_forgetting: "inv s \<Longrightarrow> k \<notin> set (observers now r (forget k s))"
  by (simp add: observers_live inv_forget live_forget)

end

section \<open>The tracker keeps the contract\<close>

definition tk_inv :: "Tracker \<Rightarrow> bool" where
  "tk_inv tk \<longleftrightarrow> wf_alist (tk_exact tk) \<and> (\<forall>ref. wf_alist (tk_set tk ref))"

definition tk_live :: "Tracker \<Rightarrow> int \<Rightarrow> Reference \<Rightarrow> NamespacedName \<Rightarrow> bool" where
  "tk_live tk t ref k = (case map_of (tk_set tk ref) k of None \<Rightarrow> False | Some expiry \<Rightarrow> \<not> isExpired t expiry)"

lemma tk_set_simps:
  "tk_set (tk\<lparr>tk_exact := AList.update ref l m\<rparr>) ref' = (if ref' = ref then l else tk_set (tk\<lparr>tk_exact := m\<rparr>) ref')"
  "tk_set (tk\<lparr>tk_exact := AList.delete ref m\<rparr>) ref' = (if ref' = ref then [] else tk_set (tk\<lparr>tk_exact := m\<rparr>) ref')"
  by (simp_all add: tk_set_def al.lookup_update al.lookup_remove)

lemma Track_set:
  "tk_set (snd (Track now ref k tk)) ref' =
     (if ref' = ref then AList.update k (now + tk_leaseDuration tk) (tk_set tk ref) else tk_set tk ref')"
  by (simp add: Track_def Let_def tk_set_simps)

lemma GetObservers_set:
  "tk_set (snd (GetObservers now ref tk)) ref' =
     (if ref' = ref then filter (\<lambda>(k, expiry). \<not> isExpired now expiry) (tk_set tk ref) else tk_set tk ref')"
  "fst (GetObservers now ref tk) = map fst (filter (\<lambda>(k, expiry). \<not> isExpired now expiry) (tk_set tk ref))"
  by (auto simp: GetObservers_def Let_def tk_set_def al.lookup_update al.lookup_remove split: option.split)

lemma map_of_map_filter:
  assumes "wf_alist m"
  shows "map_of (filter (\<lambda>(r, l). l \<noteq> []) (map (\<lambda>(r, l). (r, AList.delete k l)) m)) r =
    (case map_of m r of None \<Rightarrow> None | Some l \<Rightarrow> if AList.delete k l = [] then None else Some (AList.delete k l))"
  using assms
proof (induction m)
  case Nil
  then show ?case by simp
next
  case (Cons x m)
  have "map_of m (fst x) = None" using Cons.prems by (auto simp: wf_alist_def map_of_eq_None_iff)
  then show ?case using Cons by (auto simp: wf_alist_def split: prod.splits)
qed

lemma OnDeletedObserver_set:
  assumes "wf_alist (tk_exact tk)"
  shows "tk_set (OnDeletedObserver k tk) ref = AList.delete k (tk_set tk ref)"
  by (simp add: OnDeletedObserver_def tk_set_def map_of_map_filter [OF assms] split: option.split)

lemma wf_filter: "wf_alist m \<Longrightarrow> wf_alist (filter P m)"
  by (simp add: wf_alist_def distinct_map_filter)

lemma wf_OnDeletedObserver: "wf_alist (tk_exact tk) \<Longrightarrow> wf_alist (tk_exact (OnDeletedObserver k tk))"
  by (auto simp: OnDeletedObserver_def wf_alist_def split_def comp_def intro!: distinct_map_filter)

lemma wf_GetObservers: "wf_alist (tk_exact tk) \<Longrightarrow> wf_alist (tk_exact (snd (GetObservers now ref tk)))"
  by (auto simp: GetObservers_def Let_def al.wf_update al.wf_remove split: option.split)

interpretation tk: observer_registry tk_live "\<lambda>now ref k tk. snd (Track now ref k tk)"
  "\<lambda>now ref tk. fst (GetObservers now ref tk)" "\<lambda>now ref tk. snd (GetObservers now ref tk)"
  OnDeletedObserver tk_leaseDuration tk_inv
proof unfold_locales
  fix s :: Tracker assume I: "tk_inv s"
  then have wf: "wf_alist (tk_exact s)" "wf_alist (tk_set s ref)" for ref by (simp_all add: tk_inv_def)
  show "tk_inv (snd (Track now r k s))" for now r k
    using wf by (simp add: tk_inv_def Track_set al.wf_update) (simp add: Track_def Let_def al.wf_update)
  show "tk_inv (snd (GetObservers now r s))" for now r
    using wf by (simp add: tk_inv_def GetObservers_set wf_GetObservers wf_filter)
  show "tk_inv (OnDeletedObserver k s)" for k
    using wf by (simp add: tk_inv_def OnDeletedObserver_set wf_OnDeletedObserver al.wf_remove)
  show "tk_live (snd (Track now r k s)) t r' k' \<longleftrightarrow>
      (if r' = r \<and> k' = k then t \<le> now + tk_leaseDuration s else tk_live s t r' k')" for now r k t r' k'
    by (auto simp: tk_live_def Track_set al.lookup_update isExpired_def)
  have live: "tk_live s t r k \<longleftrightarrow> (\<exists>expiry. (k, expiry) \<in> set (tk_set s r) \<and> \<not> isExpired t expiry)" for t r k
    using al.entries_lookup [OF wf(2) [of r]] by (auto simp: tk_live_def split: option.split)
  show "set (fst (GetObservers now r s)) = {k. tk_live s now r k}" for now r
    by (force simp: GetObservers_set live)
  show "tk_live (snd (GetObservers now r s)) t r' k' = tk_live s t r' k'" if "now \<le> t" for now t r r' k'
  proof -
    have "map_of (filter (\<lambda>(k, expiry). \<not> isExpired now expiry) (tk_set s r)) k' =
        (case map_of (tk_set s r) k' of None \<Rightarrow> None | Some e \<Rightarrow> if isExpired now e then None else Some e)"
      by (simp add: map_of_filter_value [OF wf(2)] split: option.split)
    then show ?thesis using that by (auto simp: tk_live_def GetObservers_set isExpired_def split: option.splits)
  qed
  show "tk_live (OnDeletedObserver k s) t r k' \<longleftrightarrow> k' \<noteq> k \<and> tk_live s t r k'" for k t r k'
    by (simp add: tk_live_def OnDeletedObserver_set [OF wf(1)] al.lookup_remove)
next
  show "tk_leaseDuration (snd (Track now r k s)) = tk_leaseDuration s" for now r k s
    by (simp add: Track_def Let_def)
qed

section \<open>Registrations made before a translation\<close>

text \<open>
  The translator only appends to the registrations: what it does and registers is the same
  whatever was registered before.
\<close>

definition behind :: "(Reference \<times> NamespacedName) list \<Rightarrow> tr_state \<Rightarrow> tr_state" where
  "behind xs s = s\<lparr>ts_tracked := xs @ ts_tracked s\<rparr>"

definition frames :: "(tr_state \<Rightarrow> 'r \<times> tr_state) \<Rightarrow> bool" where
  "frames m \<longleftrightarrow> (\<forall>xs s. m (behind xs s) = map_prod id (behind xs) (m s))"

named_theorems frames_intros \<open>computations that only append registrations\<close>

lemma frames_basic [frames_intros]: "frames (retT a)" "frames (exitT e)" "frames (liftT r)"
  by (auto simp: frames_def retT_def exitT_def liftT_def split: sum.split fault.split)

lemma frames_bind [frames_intros]: "frames m \<Longrightarrow> (\<And>a. frames (f a)) \<Longrightarrow> frames (bindT m f)"
  by (auto simp: frames_def bindT_def split: prod.split sum.split)

lemma frames_for [frames_intros]: "(\<And>a x. frames (f a x)) \<Longrightarrow> frames (forT f a xs)"
  by (induction xs arbitrary: a) (auto intro: frames_intros)

lemma frames_track [frames_intros]: "frames (orExit wrap (TrackReference t ref ing))"
  by (auto simp: frames_def orExit_def TrackReference_def behind_def split: option.split)

lemma frames_alloc [frames_intros]: "frames (\<lambda>st. (Inr (f (length (ts_heap st))), st\<lparr>ts_heap := ts_heap st @ ms\<rparr>))"
  by (simp add: frames_def behind_def)

lemma frames_if [frames_intros]: "frames a \<Longrightarrow> frames b \<Longrightarrow> frames (if c then a else b)"
  by simp

lemma frames_tls_step: "frames (tls_step w t ing ms it)"
  unfolding tls_step_def trackSecret_def Let_def
  by (auto split: sum.split option.split intro!: frames_intros)

lemma frames_split_step: "frames (split_step w t ctx ing p acc split)"
  unfolding split_step_def trackService_def split_endpoints_def Let_def
  by (auto split: sum.split prod.split intro!: frames_intros)

lemma frames_path_step: "frames (path_step w t ctx ing ext rule ruleName acc p)"
  unfolding path_step_def Let_def
  by (auto split: prod.split intro!: frames_intros frames_split_step)

lemma frames_rule_step: "frames (rule_step w t ctx ing ext acc nr)"
  unfolding rule_step_def Let_def
  by (auto split: prod.split intro!: frames_intros frames_path_step)

lemma frames_translate: "frames (translate w t ctx ing ext)"
  unfolding translate_def by (intro frames_intros frames_tls_step frames_rule_step)

lemma translate_frame:
  assumes "translate w t ctx ing ext s = (r, s')"
  obtains new where "translate w t ctx ing ext (s\<lparr>ts_tracked := []\<rparr>) = (r, s'\<lparr>ts_tracked := new\<rparr>)"
    and "ts_tracked s' = ts_tracked s @ new"
proof -
  obtain r0 s0 where t: "translate w t ctx ing ext (s\<lparr>ts_tracked := []\<rparr>) = (r0, s0)" by fastforce
  have "s = behind (ts_tracked s) (s\<lparr>ts_tracked := []\<rparr>)" by (simp add: behind_def)
  then have "translate w t ctx ing ext s = map_prod id (behind (ts_tracked s)) (r0, s0)"
    using frames_translate t unfolding frames_def by metis
  then have "r = r0" "s' = behind (ts_tracked s) s0" using assms by simp_all
  then show ?thesis using that [of "ts_tracked s0"] t by (simp add: behind_def)
qed

end
