(* ===== verification/Cluster_Cache.thy ===== *)
theory Cluster_Cache
  imports Envoy_Types
begin

text \<open>
  The cache of Envoy clusters, \<^verbatim>\<open>pkg/generator/cluster_cache.go\<close>, on top of the expiring map of
  \<^verbatim>\<open>github.com/patrickmn/go-cache\<close> it stores them in. Times and durations are nanoseconds; an
  operation reads the clock once (\<open>now\<close>). Clusters of a deleted ingress stay in the cache for
  \<open>clusterExpiration\<close> after the deletion, so that Envoy never sees a route whose cluster has
  already gone.
\<close>

section \<open>go-cache\<close>

record 'a Item =
  it_Object :: 'a
  it_Expiration :: int

record 'a gocache =
  gc_defaultExpiration :: int
  gc_items :: "(string \<times> 'a Item) list"

definition NoExpiration :: int where "NoExpiration = -1"
definition DefaultExpiration :: int where "DefaultExpiration = 0"

definition gocache_New :: "int \<Rightarrow> 'a gocache" where
  "gocache_New de = \<lparr>gc_defaultExpiration = (if de = 0 then -1 else de), gc_items = []\<rparr>"

definition gocache_Set :: "int \<Rightarrow> string \<Rightarrow> 'a \<Rightarrow> int \<Rightarrow> 'a gocache \<Rightarrow> 'a gocache" where
  "gocache_Set now k x d c =
     (let d' = (if d = DefaultExpiration then gc_defaultExpiration c else d);
          e = (if d' > 0 then now + d' else 0)
      in c\<lparr>gc_items := AList.update k \<lparr>it_Object = x, it_Expiration = e\<rparr> (gc_items c)\<rparr>)"

definition expired :: "int \<Rightarrow> 'a Item \<Rightarrow> bool" where
  "expired now it \<longleftrightarrow> it_Expiration it > 0 \<and> now > it_Expiration it"

definition gocache_Get :: "int \<Rightarrow> string \<Rightarrow> 'a gocache \<Rightarrow> 'a option" where
  "gocache_Get now k c =
     (case map_of (gc_items c) k of
        None \<Rightarrow> None
      | Some item \<Rightarrow> if expired now item then None else Some (it_Object item))"

definition gocache_Items :: "int \<Rightarrow> 'a gocache \<Rightarrow> (string \<times> 'a Item) list" where
  "gocache_Items now c = filter (\<lambda>(k, v). \<not> expired now v) (gc_items c)"

definition gocache_ItemCount :: "'a gocache \<Rightarrow> nat" where
  "gocache_ItemCount c = length (gc_items c)"

text \<open>
  \<^verbatim>\<open>DeleteExpired\<close>, run by the janitor at every clean-up interval: it removes the expired items
  and then calls the eviction callback on each of them.
\<close>

definition gocache_DeleteExpired :: "int \<Rightarrow> 'a gocache \<Rightarrow> 'a gocache \<times> (string \<times> 'a) list" where
  "gocache_DeleteExpired now c =
     (c\<lparr>gc_items := filter (\<lambda>(k, v). \<not> expired now v) (gc_items c)\<rparr>,
      map (\<lambda>(k, v). (k, it_Object v)) (filter (\<lambda>(k, v). expired now v) (gc_items c)))"

section \<open>ClustersCache\<close>

definition defaultExpiration :: int where "defaultExpiration = 15 * 10 ^ 9"
definition defaultCleanupInterval :: int where "defaultCleanupInterval = 60 * 10 ^ 9"

record ClustersCache =
  cc_clusterExpiration :: int
  cc_clusters :: "Cluster gocache"

definition newClustersCacheWithExpAndCleanupIntervals :: "int \<Rightarrow> int \<Rightarrow> ClustersCache" where
  "newClustersCacheWithExpAndCleanupIntervals expiration cleanupInterval =
     \<lparr>cc_clusterExpiration = expiration, cc_clusters = gocache_New NoExpiration\<rparr>"

definition newClustersCache :: ClustersCache where
  "newClustersCache =
     newClustersCacheWithExpAndCleanupIntervals defaultExpiration defaultCleanupInterval"

definition key :: "string \<Rightarrow> string \<Rightarrow> string \<Rightarrow> string" where
  "key clusterName ingressName ingressNamespace =
     strings_Join [clusterName, ingressName, ingressNamespace] '':''"

definition explodeKey :: "string \<Rightarrow> (string \<times> string \<times> string) res" where
  "explodeKey k =
     (let keyParts = strings_Split k CHR '':'' in
      bindr (index_get keyParts 0) (\<lambda>a.
      bindr (index_get keyParts 1) (\<lambda>b.
      bindr (index_get keyParts 2) (\<lambda>c. Inr (a, b, c)))))"

definition cc_set :: "int \<Rightarrow> Cluster \<Rightarrow> string \<Rightarrow> string \<Rightarrow> ClustersCache \<Rightarrow> ClustersCache" where
  "cc_set now cluster ingressName ingressNamespace cc =
     cc\<lparr>cc_clusters := gocache_Set now (key (cl_Name cluster) ingressName ingressNamespace)
          cluster NoExpiration (cc_clusters cc)\<rparr>"

definition cc_setExpiration :: "int \<Rightarrow> string \<Rightarrow> string \<Rightarrow> string \<Rightarrow> ClustersCache \<Rightarrow> ClustersCache" where
  "cc_setExpiration now clusterName ingressName ingressNamespace cc =
     (let k = key clusterName ingressName ingressNamespace in
      case gocache_Get now k (cc_clusters cc) of
        Some cluster \<Rightarrow>
          cc\<lparr>cc_clusters := gocache_Set now k cluster (cc_clusterExpiration cc) (cc_clusters cc)\<rparr>
      | None \<Rightarrow> cc)"

definition cc_list ::
  "((string \<times> Cluster Item) list \<Rightarrow> (string \<times> Cluster Item) list) \<Rightarrow> int \<Rightarrow> ClustersCache \<Rightarrow> Cluster list" where
  "cc_list ord now cc = map (\<lambda>(k, it). it_Object it) (ord (gocache_Items now (cc_clusters cc)))"

text \<open>One run of the janitor on the underlying cache.\<close>

definition cc_evict :: "int \<Rightarrow> ClustersCache \<Rightarrow> ClustersCache \<times> (string \<times> Cluster) list" where
  "cc_evict now cc =
     (let (c, evicted) = gocache_DeleteExpired now (cc_clusters cc)
      in (cc\<lparr>cc_clusters := c\<rparr>, evicted))"

section \<open>The contract of an expiring store\<close>

text \<open>
  What the caches rely on: \<open>live s t k\<close> is what a listing at time \<open>t\<close> shows under key \<open>k\<close>,
  \<open>put\<close> stores for good, \<open>retire\<close> at time \<open>now\<close> keeps a live entry for the grace period and
  no longer, and \<open>sweep\<close> at time \<open>now\<close> is invisible from then on.
\<close>

locale expiring_store =
  fixes live :: "'s \<Rightarrow> int \<Rightarrow> 'k \<Rightarrow> 'v option"
    and put :: "'k \<Rightarrow> 'v \<Rightarrow> 's \<Rightarrow> 's"
    and retire :: "int \<Rightarrow> 'k \<Rightarrow> 's \<Rightarrow> 's"
    and sweep :: "int \<Rightarrow> 's \<Rightarrow> 's"
    and grace :: "'s \<Rightarrow> int"
    and inv :: "'s \<Rightarrow> bool"
  assumes inv_put: "inv s \<Longrightarrow> inv (put k v s)"
    and inv_retire: "inv s \<Longrightarrow> inv (retire now k s)"
    and inv_sweep: "inv s \<Longrightarrow> inv (sweep now s)"
    and grace_put: "grace (put k v s) = grace s"
    and grace_retire: "grace (retire now k s) = grace s"
    and live_put: "inv s \<Longrightarrow> live (put k v s) t = (live s t)(k \<mapsto> v)"
    and live_retire: "inv s \<Longrightarrow> 0 \<le> now \<Longrightarrow> live (retire now k s) t j =
      (if j \<noteq> k then live s t j
       else case live s now k of
           None \<Rightarrow> live s t k
         | Some v \<Rightarrow> if t \<le> now + grace s then Some v else None)"
    and live_sweep: "inv s \<Longrightarrow> now \<le> t \<Longrightarrow> live (sweep now s) t = live s t"
    and sweep_keeps: "inv s \<Longrightarrow> live s now k = Some v \<Longrightarrow> live (sweep now s) t k = live s t k"
begin

definition put_all :: "('k \<times> 'v) list \<Rightarrow> 's \<Rightarrow> 's" where
  "put_all kvs s = foldl (\<lambda>s (k, v). put k v s) s kvs"

definition retire_all :: "int \<Rightarrow> 'k list \<Rightarrow> 's \<Rightarrow> 's" where
  "retire_all now ks s = foldl (\<lambda>s k. retire now k s) s ks"

lemma inv_put_all: "inv s \<Longrightarrow> inv (put_all kvs s)"
  unfolding put_all_def by (induction kvs arbitrary: s) (auto simp: inv_put)

lemma inv_retire_all: "inv s \<Longrightarrow> inv (retire_all now ks s)"
  unfolding retire_all_def by (induction ks arbitrary: s) (auto simp: inv_retire)

lemma grace_retire_all: "grace (retire_all now ks s) = grace s"
  unfolding retire_all_def by (induction ks arbitrary: s) (auto simp: grace_retire)

text \<open>After storing a list, a key shows its last entry in the list, or what it showed before.\<close>

lemma live_put_all:
  assumes "inv s"
  shows "live (put_all kvs s) t = live s t ++ map_of (rev kvs)"
  using assms
proof (induction kvs arbitrary: s)
  case Nil
  then show ?case by (simp add: put_all_def)
next
  case (Cons p kvs)
  obtain k v where p: "p = (k, v)" by fastforce
  have "live (put_all (p # kvs) s) t = live (put_all kvs (put k v s)) t"
    by (simp add: put_all_def p)
  also have "\<dots> = (live s t)(k \<mapsto> v) ++ map_of (rev kvs)"
    using Cons by (simp add: inv_put live_put fun_upd_def)
  finally show ?case by (simp add: p map_add_assoc)
qed

lemma live_retire_all_other:
  assumes "inv s" "0 \<le> now" "j \<notin> set ks"
  shows "live (retire_all now ks s) t j = live s t j"
  using assms
proof (induction ks arbitrary: s)
  case Nil
  then show ?case by (simp add: retire_all_def)
next
  case (Cons k ks)
  then show ?case
    by (simp add: retire_all_def live_retire inv_retire)
qed

text \<open>A live entry that is retired, once or more, stays for exactly the grace period.\<close>

lemma live_retire_all:
  assumes "inv s" "0 \<le> now" "0 \<le> grace s" "j \<in> set ks" "live s now j = Some v"
  shows "live (retire_all now ks s) t j = (if t \<le> now + grace s then Some v else None)"
  using assms
proof (induction ks arbitrary: s)
  case Nil
  then show ?case by simp
next
  case (Cons k ks)
  let ?s = "retire now k s"
  have step: "retire_all now (k # ks) s = retire_all now ks ?s"
    by (simp add: retire_all_def)
  have inv: "inv ?s" using Cons.prems by (simp add: inv_retire)
  show ?case
  proof (cases "j \<in> set ks")
    case True
    have "live ?s now j = Some v"
      using Cons.prems by (auto simp: live_retire)
    then show ?thesis
      using Cons.IH [OF inv] Cons.prems True by (simp add: step grace_retire)
  next
    case False
    then have "j = k" using Cons.prems by simp
    then show ?thesis
      using Cons.prems False inv by (simp add: step live_retire_all_other live_retire)
  qed
qed

text \<open>
  Replacing a set of entries (retire the old ones, store the new ones): every new entry is
  stored for good, a replaced entry survives for the grace period, the others are untouched.
\<close>

lemma live_replace:
  assumes "inv s" "0 \<le> now" "0 \<le> grace s"
  shows "k \<in> fst ` set kvs \<Longrightarrow>
      live (put_all kvs (retire_all now ks s)) t k = map_of (rev kvs) k"
    and "k \<notin> fst ` set kvs \<Longrightarrow> k \<in> set ks \<Longrightarrow> live s now k = Some v \<Longrightarrow>
      live (put_all kvs (retire_all now ks s)) t k =
        (if t \<le> now + grace s then Some v else None)"
    and "k \<notin> fst ` set kvs \<Longrightarrow> k \<notin> set ks \<Longrightarrow>
      live (put_all kvs (retire_all now ks s)) t k = live s t k"
proof -
  have inv: "inv (retire_all now ks s)" using assms(1) by (rule inv_retire_all)
  note eq = live_put_all [OF inv, of kvs t]
  have none: "map_of (rev kvs) k = None \<longleftrightarrow> k \<notin> fst ` set kvs"
    by (simp add: map_of_eq_None_iff)
  show "k \<in> fst ` set kvs \<Longrightarrow>
      live (put_all kvs (retire_all now ks s)) t k = map_of (rev kvs) k"
    using none by (auto simp: eq map_add_def split: option.splits)
  show "k \<notin> fst ` set kvs \<Longrightarrow> k \<in> set ks \<Longrightarrow> live s now k = Some v \<Longrightarrow>
      live (put_all kvs (retire_all now ks s)) t k =
        (if t \<le> now + grace s then Some v else None)"
    using none live_retire_all [OF assms] by (simp add: eq map_add_def)
  show "k \<notin> fst ` set kvs \<Longrightarrow> k \<notin> set ks \<Longrightarrow>
      live (put_all kvs (retire_all now ks s)) t k = live s t k"
    using none live_retire_all_other [OF assms(1,2)] by (simp add: eq map_add_def)
qed

end

section \<open>ClustersCache keeps the contract\<close>

definition cc_live :: "ClustersCache \<Rightarrow> int \<Rightarrow> string \<Rightarrow> Cluster option" where
  "cc_live cc t k = gocache_Get t k (cc_clusters cc)"

definition cc_inv :: "ClustersCache \<Rightarrow> bool" where
  "cc_inv cc \<longleftrightarrow> wf_alist (gc_items (cc_clusters cc)) \<and> 0 < cc_clusterExpiration cc"

definition cc_put :: "string \<Rightarrow> Cluster \<Rightarrow> ClustersCache \<Rightarrow> ClustersCache" where
  "cc_put k v cc = cc\<lparr>cc_clusters := gocache_Set 0 k v NoExpiration (cc_clusters cc)\<rparr>"

definition cc_retire :: "int \<Rightarrow> string \<Rightarrow> ClustersCache \<Rightarrow> ClustersCache" where
  "cc_retire now k cc =
     (case gocache_Get now k (cc_clusters cc) of
        Some cluster \<Rightarrow>
          cc\<lparr>cc_clusters := gocache_Set now k cluster (cc_clusterExpiration cc) (cc_clusters cc)\<rparr>
      | None \<Rightarrow> cc)"

lemma cc_set_put: "cc_set now c n ns cc = cc_put (key (cl_Name c) n ns) c cc"
  by (simp add: cc_set_def cc_put_def gocache_Set_def NoExpiration_def DefaultExpiration_def)

lemma cc_setExpiration_retire: "cc_setExpiration now c n ns cc = cc_retire now (key c n ns) cc"
  by (simp add: cc_setExpiration_def cc_retire_def Let_def)

lemma gocache_Get_Set:
  "gocache_Get t j (gocache_Set now k x d c) =
     (if j \<noteq> k then gocache_Get t j c
      else let d' = (if d = 0 then gc_defaultExpiration c else d)
           in if 0 < d' \<and> 0 < now + d' \<and> now + d' < t then None else Some x)"
  by (auto simp: gocache_Get_def gocache_Set_def DefaultExpiration_def al.lookup_update
      expired_def Let_def)

lemma gocache_Get_DeleteExpired:
  assumes "wf_alist (gc_items c)" "now \<le> t"
  shows "gocache_Get t k (fst (gocache_DeleteExpired now c)) = gocache_Get t k c"
  using assms(2)
  by (auto simp: gocache_Get_def gocache_DeleteExpired_def map_of_filter_value [OF assms(1)]
      expired_def split: option.splits)

interpretation cs: expiring_store cc_live cc_put cc_retire "\<lambda>now cc. fst (cc_evict now cc)"
  cc_clusterExpiration cc_inv
proof unfold_locales
  fix s :: ClustersCache and k j :: string and v :: Cluster and now t :: int
  show "cc_inv s \<Longrightarrow> cc_inv (cc_put k v s)"
    by (simp add: cc_inv_def cc_put_def gocache_Set_def al.wf_update Let_def)
  show "cc_inv s \<Longrightarrow> cc_inv (cc_retire now k s)"
    by (simp add: cc_inv_def cc_retire_def gocache_Set_def al.wf_update Let_def split: option.splits)
  show "cc_inv s \<Longrightarrow> cc_inv (fst (cc_evict now s))"
    by (simp add: cc_inv_def cc_evict_def gocache_DeleteExpired_def wf_alist_def
        distinct_map_filter)
  show "cc_clusterExpiration (cc_put k v s) = cc_clusterExpiration s"
    by (simp add: cc_put_def)
  show "cc_clusterExpiration (cc_retire now k s) = cc_clusterExpiration s"
    by (simp add: cc_retire_def split: option.splits)
  show "cc_inv s \<Longrightarrow> cc_live (cc_put k v s) t = (cc_live s t)(k \<mapsto> v)"
    by (auto simp: cc_live_def cc_put_def gocache_Get_Set NoExpiration_def fun_eq_iff)
  show "cc_inv s \<Longrightarrow> 0 \<le> now \<Longrightarrow> cc_live (cc_retire now k s) t j =
      (if j \<noteq> k then cc_live s t j
       else case cc_live s now k of
           None \<Rightarrow> cc_live s t k
         | Some v \<Rightarrow> if t \<le> now + cc_clusterExpiration s then Some v else None)"
    by (auto simp: cc_live_def cc_retire_def gocache_Get_Set cc_inv_def Let_def
        split: option.splits)
  show "cc_inv s \<Longrightarrow> now \<le> t \<Longrightarrow> cc_live (fst (cc_evict now s)) t = cc_live s t"
    by (simp add: cc_live_def cc_evict_def cc_inv_def gocache_Get_DeleteExpired fun_eq_iff
        split_beta)
  show "cc_inv s \<Longrightarrow> cc_live s now k = Some v \<Longrightarrow> cc_live (fst (cc_evict now s)) t k = cc_live s t k"
    by (auto simp: cc_live_def cc_evict_def cc_inv_def gocache_Get_def gocache_DeleteExpired_def
        map_of_filter_value split: option.splits if_splits)
qed

lemma cc_inv_new: "cc_inv newClustersCache"
  by (simp add: cc_inv_def newClustersCache_def newClustersCacheWithExpAndCleanupIntervals_def
      gocache_New_def defaultExpiration_def)

text \<open>A listing shows exactly the live entries, whatever order the map is visited in.\<close>

lemma cc_list_set:
  assumes "cc_inv cc" "range_order ord"
  shows "c \<in> set (cc_list ord now cc) \<longleftrightarrow> (\<exists>k. cc_live cc now k = Some c)"
proof -
  have wf: "wf_alist (gc_items (cc_clusters cc))" using assms(1) by (simp add: cc_inv_def)
  have "c \<in> set (cc_list ord now cc) \<longleftrightarrow>
      (\<exists>k it. (k, it) \<in> set (gc_items (cc_clusters cc)) \<and> \<not> expired now it \<and> it_Object it = c)"
    by (force simp: cc_list_def gocache_Items_def range_order_set [OF assms(2)])
  then show ?thesis
    by (auto simp: al.entries_lookup [OF wf] cc_live_def gocache_Get_def split: option.splits)
      blast
qed

section \<open>Properties\<close>

definition ex_cluster :: Cluster where
  "ex_cluster = \<lparr>cl_Name = ''default/hello_region1'', cl_Type = STATIC, cl_ConnectTimeout = None,
     cl_LoadAssignment = \<lparr>cla_ClusterName = ''default/hello_region1'', cla_Endpoints = [[]]\<rparr>,
     cl_TransportSocket = None, cl_TypedExtensionProtocolOptions = []\<rparr>"

definition ex_cache :: ClustersCache where
  "ex_cache = cc_set 0 ex_cluster ''hello'' ''default'' newClustersCache"

lemma ex_cache_inv: "cc_inv ex_cache"
  unfolding ex_cache_def cc_set_put by (rule cs.inv_put [OF cc_inv_new])

text \<open>
  C27: The key of a cluster can be taken apart again: for colon-free parts, \<^verbatim>\<open>explodeKey\<close> returns the
  cluster name, the ingress name and the namespace that \<^verbatim>\<open>key\<close> joined.
\<close>

theorem explodeKey_key:
  assumes "CHR '':'' \<notin> set c" "CHR '':'' \<notin> set n" "CHR '':'' \<notin> set ns"
  shows "explodeKey (key c n ns) = Inr (c, n, ns)"
proof -
  have "strings_Split (strings_Join [c, n, ns] [CHR '':'']) CHR '':'' = [c, n, ns]"
    using assms by (intro strings_Split_Join) auto
  then show ?thesis by (simp add: explodeKey_def key_def)
qed

theorem explodeKey_key_witness:
  "explodeKey (key ''default/hello_region1'' ''hello'' ''default'') =
     Inr (''default/hello_region1'', ''hello'', ''default'')"
  by (rule explodeKey_key) simp_all

text \<open>
  C26: The grace period is exact. After a cluster of a deleted ingress was given its expiration time, a listing at any time
  shows it up to the expiration time after the deletion and no longer, and shows every other entry that is live at that time;
  the same holds for looking up a key.
\<close>

theorem cluster_grace_period:
  assumes "cc_inv cc" "0 \<le> now" "cc_live cc now (key c n ns) = Some v" "range_order ord"
  shows "set (cc_list ord t (cc_setExpiration now c n ns cc)) =
      (if t \<le> now + cc_clusterExpiration cc then {v} else {}) \<union> {x. \<exists>j. j \<noteq> key c n ns \<and> cc_live cc t j = Some x} \<and>
    cc_live (cc_setExpiration now c n ns cc) t j =
      (if j \<noteq> key c n ns then cc_live cc t j
       else if t \<le> now + cc_clusterExpiration cc then Some v else None)"
proof -
  let ?cc = "cc_setExpiration now c n ns cc"
  have live: "cc_live ?cc t j = (if j \<noteq> key c n ns then cc_live cc t j
      else if t \<le> now + cc_clusterExpiration cc then Some v else None)" for j
    using assms(1-3) by (simp add: cc_setExpiration_retire cs.live_retire)
  have "cc_inv ?cc" using assms(1) by (simp add: cc_setExpiration_retire cs.inv_retire)
  then have "x \<in> set (cc_list ord t ?cc) \<longleftrightarrow> (\<exists>j. cc_live ?cc t j = Some x)" for x
    by (rule cc_list_set [OF _ assms(4)])
  then show ?thesis unfolding live by (auto split: if_splits)
qed

theorem cluster_grace_period_witness:
  "ex_cluster \<in> set (cc_list (\<lambda>xs. xs) (7 + 15 * 10 ^ 9) (cc_setExpiration 7 ''default/hello_region1'' ''hello'' ''default'' ex_cache)) \<and>
   cc_live (cc_setExpiration 7 ''default/hello_region1'' ''hello'' ''default'' ex_cache) (8 + 15 * 10 ^ 9)
      (key ''default/hello_region1'' ''hello'' ''default'') = None"
proof -
  have live: "cc_live ex_cache 7 (key ''default/hello_region1'' ''hello'' ''default'') = Some ex_cluster"
    unfolding ex_cache_def cc_set_put using cs.live_put [OF cc_inv_new] by (simp add: ex_cluster_def)
  have exp: "cc_clusterExpiration ex_cache = 15 * 10 ^ 9"
    by (simp add: ex_cache_def cc_set_def newClustersCache_def defaultExpiration_def
        newClustersCacheWithExpAndCleanupIntervals_def)
  have ord: "range_order (\<lambda>xs. xs)" by (simp add: range_order_def)
  show ?thesis
    using cluster_grace_period [OF ex_cache_inv _ live ord, of "7 + 15 * 10 ^ 9"]
      cluster_grace_period [OF ex_cache_inv _ live ord, of "8 + 15 * 10 ^ 9" "key ''default/hello_region1'' ''hello'' ''default''"]
    by (simp add: exp)
qed

text \<open>
  The janitor removes and reports exactly the expired entries, and removing them cannot be
  observed by any later listing.
\<close>

lemma cluster_eviction:
  assumes "cc_inv cc" "now \<le> t"
  shows "cc_live (fst (cc_evict now cc)) t = cc_live cc t \<and>
    ((k, v) \<in> set (snd (cc_evict now cc)) \<longleftrightarrow>
       (\<exists>it. map_of (gc_items (cc_clusters cc)) k = Some it \<and> it_Object it = v \<and> expired now it))"
proof
  show "cc_live (fst (cc_evict now cc)) t = cc_live cc t" by (rule cs.live_sweep [OF assms])
  have wf: "wf_alist (gc_items (cc_clusters cc))" using assms(1) by (simp add: cc_inv_def)
  show "(k, v) \<in> set (snd (cc_evict now cc)) \<longleftrightarrow>
      (\<exists>it. map_of (gc_items (cc_clusters cc)) k = Some it \<and> it_Object it = v \<and> expired now it)"
    unfolding al.entries_lookup [OF wf, symmetric]
    by (force simp: cc_evict_def gocache_DeleteExpired_def)
qed


end
