(* ===== verification/Listener.thy ===== *)
theory Listener
  imports Envoy_Api Regions Sni
begin

text \<open>
  The listener builders, \<^verbatim>\<open>pkg/envoy/api/listener.go\<close>. The region-aware HTTP listener asks the
  Kubernetes API for the nodes and for the Calico IPAM blocks, and builds one filter chain per
  region that matches the source addresses of the region's node; the HTTPS builders wrap
  certificates into TLS contexts.
\<close>

section \<open>The cluster the builder asks\<close>

record IPAMBlock =
  ib_CIDR :: string
  ib_Affinity :: "string option"

text \<open>
  What one call of the builder gets from the API: an error of the in-cluster configuration or
  of the client set, the nodes, and for every attempt to list the IPAM blocks its error, if any,
  and what it leaves in the list. \<open>ke_ParseCIDR\<close> is \<^verbatim>\<open>net.ParseCIDR\<close>: the printed address and the
  number of leading ones of the mask.
\<close>

record kube_env =
  ke_InClusterConfig :: "go_error option"
  ke_NewForConfig :: "go_error option"
  ke_Nodes :: "go_error + Node list"
  ke_Ipam :: "nat \<Rightarrow> go_error option \<times> IPAMBlock list"
  ke_ParseCIDR :: "string \<Rightarrow> go_error + string \<times> nat"

text \<open>\<^verbatim>\<open>DeepCopyObject\<close> copies the items one by one into a new slice.\<close>

definition DeepCopyObject :: "IPAMBlock list \<Rightarrow> IPAMBlock list" where
  "DeepCopyObject items =
     foldl (\<lambda>dst i. dst[i := items ! i])
       (replicate (length items) \<lparr>ib_CIDR = [], ib_Affinity = None\<rparr>) [0..<length items]"

text \<open>
  \<^verbatim>\<open>retry.OnError(retry.DefaultRetry, always, list)\<close>: at most five attempts, up to the first that
  succeeds; the returned error is ignored, so the list is what the last attempt made left in it.
\<close>

fun retry_OnError :: "nat \<Rightarrow> (nat \<Rightarrow> go_error option \<times> 'a) \<Rightarrow> nat \<Rightarrow> 'a \<Rightarrow> 'a" where
  "retry_OnError 0 f k x = x"
| "retry_OnError (Suc n) f k x =
     (case f k of (None, y) \<Rightarrow> y | (Some e, y) \<Rightarrow> retry_OnError n f (Suc k) y)"

definition DefaultRetry_Steps :: nat where "DefaultRetry_Steps = 5"

definition strings_Contains :: "string \<Rightarrow> string \<Rightarrow> bool" where
  "strings_Contains s sub \<longleftrightarrow> list_ex (prefix sub) (suffixes s)"

section \<open>Pieces of a listener\<close>

definition CreateListenerName :: "32 word \<Rightarrow> string" where
  "CreateListenerName port = ''listener_'' @ nat_str (unat port)"

definition createAddress :: "32 word \<Rightarrow> SocketAddress" where
  "createAddress port = \<lparr>sa_Protocol = TCP, sa_Address = ''0.0.0.0'', sa_PortValue = port,
     sa_Ipv4Compat = False\<rparr>"

definition createFilters :: "marshaler \<Rightarrow> HttpConnectionManager \<Rightarrow> Filter list res" where
  "createFilters mar manager =
     bindr (liftE (anypb_New mar M_HttpConnectionManager manager)) (\<lambda>managerAny.
       Inr [\<lparr>fl_Name = ''envoy.filters.network.http_connection_manager'',
             fl_TypedConfig = managerAny\<rparr>])"

definition createProxyProtocolListenerFilter :: "marshaler \<Rightarrow> ListenerFilter res" where
  "createProxyProtocolListenerFilter mar =
     (case mar M_ProxyProtocol of
        Some e \<Rightarrow> Inl (Err e)
      | None \<Rightarrow> Inr \<lparr>lf_Name = ''envoy.filters.listener.proxy_protocol'', lf_Config = LF_ProxyProtocol\<rparr>)"

text \<open>\<^verbatim>\<open>if enableProxyProtocol { ... append(listenerFilter, proxyProtocolListenerFilter) }\<close>.\<close>

definition proxy_filters :: "marshaler \<Rightarrow> bool \<Rightarrow> ListenerFilter list res" where
  "proxy_filters mar enableProxyProtocol =
     (if enableProxyProtocol
      then bindr (createProxyProtocolListenerFilter mar) (\<lambda>f. Inr [f]) else Inr [])"

section \<open>The region-aware HTTP listener\<close>

text \<open>
  The scan of the nodes for a label: how many nodes have it as their name, and the addresses of
  the last of them; \<^verbatim>\<open>nodeip\<close> is declared before the loop over the regions and keeps its value
  when no node matches.
\<close>

definition scan_nodes :: "string \<Rightarrow> NodeAddress list \<Rightarrow> Node list \<Rightarrow> nat \<times> NodeAddress list" where
  "scan_nodes value nodeip nodes =
     foldl (\<lambda>(numberNodes, nodeip) node.
       if nd_Name node = value then (numberNodes + 1, nd_Addresses node)
       else (numberNodes, nodeip)) (0, nodeip) nodes"

definition node_ranges :: "nat \<Rightarrow> NodeAddress list \<Rightarrow> CidrRange list \<Rightarrow> CidrRange list res" where
  "node_ranges numberNodes nodeip ranges =
     foldM (\<lambda>ranges k. bindr (index_get nodeip k) (\<lambda>a.
       Inr (ranges @ [\<lparr>cr_AddressPrefix = na_Address a, cr_PrefixLen = 32\<rparr>])))
     ranges [0..<numberNodes]"

text \<open>
  The blocks whose affinity contains the label. When the CIDR does not parse, the mask of a nil
  network is read before the error is looked at.
\<close>

definition block_ranges ::
  "(string \<Rightarrow> go_error + string \<times> nat) \<Rightarrow> string \<Rightarrow> IPAMBlock list \<Rightarrow> CidrRange list \<Rightarrow> CidrRange list res" where
  "block_ranges parseCIDR value items ranges =
     foldM (\<lambda>ranges item.
       case ib_Affinity item of
         None \<Rightarrow> Inr ranges
       | Some affinity \<Rightarrow>
           if strings_Contains affinity value then
             (case parseCIDR (ib_CIDR item) of
                Inl e \<Rightarrow> Inl (Panic NilDereference)
              | Inr (ip, ones) \<Rightarrow>
                  Inr (ranges @ [\<lparr>cr_AddressPrefix = ip, cr_PrefixLen = of_nat ones\<rparr>]))
           else Inr ranges)
     ranges items"

text \<open>The match of region \<open>i\<close>: the loop variables are the matches built so far and \<^verbatim>\<open>nodeip\<close>.\<close>

definition region_match_step ::
  "kube_env \<Rightarrow> Node list \<Rightarrow> IPAMBlock list \<Rightarrow> FilterChainMatch list \<times> NodeAddress list \<Rightarrow> nat \<Rightarrow>
   (FilterChainMatch list \<times> NodeAddress list) res" where
  "region_match_step kenv nodes blocks acc i =
     (let (matches, nodeip) = acc in
      bindr (for_key ''label'' (\<lambda>(ranges, nodeip) value.
               (let (numberNodes, nodeip) = scan_nodes value nodeip nodes in
                bindr (node_ranges numberNodes nodeip ranges) (\<lambda>ranges.
                bindr (block_ranges (ke_ParseCIDR kenv) value blocks ranges) (\<lambda>ranges.
                  Inr (ranges, nodeip)))))
             ([], nodeip) (regions ! i)) (\<lambda>(ranges, nodeip).
        Inr (matches @ [\<lparr>fcm_SourceType = SOURCE_ANY, fcm_SourcePrefixRanges = ranges,
                         fcm_ServerNames = []\<rparr>], nodeip)))"

definition NewHTTPListenerDual ::
  "marshaler \<Rightarrow> kube_env \<Rightarrow> HttpConnectionManager list \<Rightarrow> 32 word \<Rightarrow> bool \<Rightarrow> Listener res" where
  "NewHTTPListenerDual mar kenv manager port enableProxyProtocol =
     bindr (foldM (\<lambda>filters i. bindr (index_get manager i) (\<lambda>m.
              bindr (createFilters mar m) (\<lambda>fs. Inr (filters @ [fs])))) [] [0..<length regions])
       (\<lambda>filters.
     bindr (proxy_filters mar enableProxyProtocol) (\<lambda>listenerFilter.
       case ke_InClusterConfig kenv of
         Some e \<Rightarrow> Inl (Panic (PanicMsg (error_Error e)))
       | None \<Rightarrow>
      (case ke_NewForConfig kenv of
         Some e \<Rightarrow> Inl (Panic (PanicMsg (error_Error e)))
       | None \<Rightarrow>
      (case ke_Nodes kenv of
         Inl e \<Rightarrow> Inl (Panic (PanicError e))
       | Inr nodes \<Rightarrow>
           (let ipamBlockList = retry_OnError DefaultRetry_Steps (ke_Ipam kenv) 0 [] in
            bindr (foldM (region_match_step kenv nodes ipamBlockList) ([], []) [0..<length regions])
              (\<lambda>(filterChainMatch, nodeip).
            Inr \<lparr>ls_Name = CreateListenerName port, ls_Address = createAddress port,
                 ls_ListenerFilters = listenerFilter,
                 ls_FilterChains = map (\<lambda>i. \<lparr>fc_FilterChainMatch = Some (filterChainMatch ! i),
                     fc_Filters = filters ! i, fc_TransportSocket = None\<rparr>)
                   [0..<length regions]\<rparr>))))))"

section \<open>HTTPS listeners\<close>

definition NewHTTPSListener ::
  "marshaler \<Rightarrow> 32 word \<Rightarrow> FilterChain list \<Rightarrow> bool \<Rightarrow> Listener res" where
  "NewHTTPSListener mar port filterChain enableProxyProtocol =
     bindr (proxy_filters mar enableProxyProtocol) (\<lambda>listenerFilter.
       Inr \<lparr>ls_Name = CreateListenerName port, ls_Address = createAddress port,
            ls_ListenerFilters = listenerFilter, ls_FilterChains = filterChain\<rparr>)"

record Certificate =
  ct_Certificate :: bytes
  ct_PrivateKey :: bytes
  ct_PrivateKeyProvider :: string
  ct_CipherSuites :: "string list"

definition messageToAny :: "marshaler \<Rightarrow> CryptoMbConfig \<Rightarrow> CryptoMbConfig any res" where
  "messageToAny mar msg =
     (case anypb_New mar M_CryptoMb msg of
        Inl e \<Rightarrow> Inl (Err (ErrWrap ''error marshaling message'' e))
      | Inr a \<Rightarrow> Inr a)"

definition createCryptoMbMessaage :: "marshaler \<Rightarrow> Certificate \<Rightarrow> CryptoMbConfig any res" where
  "createCryptoMbMessaage mar c =
     messageToAny mar \<lparr>cmb_PollDelay = 10 * 10 ^ 6, cmb_PrivateKey = ct_PrivateKey c\<rparr>"

definition createTLScertificates :: "marshaler \<Rightarrow> Certificate \<Rightarrow> TlsCertificate res" where
  "createTLScertificates mar c =
     (if ct_PrivateKeyProvider c = [] then
        Inr \<lparr>tc_CertificateChain = ct_Certificate c, tc_PrivateKey = InlineKey (ct_PrivateKey c)\<rparr>
      else if ct_PrivateKeyProvider c = ''cryptomb'' then
        bindr (createCryptoMbMessaage mar c) (\<lambda>msg.
          Inr \<lparr>tc_CertificateChain = ct_Certificate c, tc_PrivateKey = KeyProvider ''cryptomb'' msg\<rparr>)
      else Inl (Err (ErrNew (''Unsupported private key provider: '' @ ct_PrivateKeyProvider c))))"

definition createTLSContext :: "marshaler \<Rightarrow> Certificate \<Rightarrow> DownstreamTlsContext res" where
  "createTLSContext mar c =
     bindr (createTLScertificates mar c) (\<lambda>tlsCertificates.
       Inr \<lparr>dtc_AlpnProtocols = [''h2'', ''http/1.1''], dtc_MinVersion = TLSv1_2,
            dtc_CipherSuites = ct_CipherSuites c, dtc_TlsCertificates = [tlsCertificates]\<rparr>)"

definition tls_socket :: "marshaler \<Rightarrow> DownstreamTlsContext \<Rightarrow> DownstreamTlsContext TransportSocket res" where
  "tls_socket mar tlsContext =
     bindr (liftE (anypb_New mar M_DownstreamTlsContext tlsContext)) (\<lambda>tlsAny.
       Inr \<lparr>ts_Name = ''envoy.transport_sockets.tls'', ts_TypedConfig = tlsAny\<rparr>)"

definition CreateFilterChainFromCertificateAndPrivateKey ::
  "marshaler \<Rightarrow> HttpConnectionManager \<Rightarrow> Certificate \<Rightarrow> FilterChain res" where
  "CreateFilterChainFromCertificateAndPrivateKey mar manager cert =
     bindr (createFilters mar manager) (\<lambda>filters.
     bindr (createTLSContext mar cert) (\<lambda>tlsContext.
     bindr (tls_socket mar tlsContext) (\<lambda>sock.
       Inr \<lparr>fc_FilterChainMatch = None, fc_Filters = filters, fc_TransportSocket = Some sock\<rparr>)))"

definition sni_chain ::
  "marshaler \<Rightarrow> HttpConnectionManager \<Rightarrow> Kourier \<Rightarrow> SNIMatch \<Rightarrow> FilterChain res" where
  "sni_chain mar manager kourierConfig sniMatch =
     bindr (createFilters mar manager) (\<lambda>filters.
     bindr (createTLSContext mar
              \<lparr>ct_Certificate = sm_CertificateChain sniMatch, ct_PrivateKey = sm_PrivateKey sniMatch,
               ct_PrivateKeyProvider = [], ct_CipherSuites = sets_List (CipherSuites kourierConfig)\<rparr>)
       (\<lambda>tlsContext.
     bindr (tls_socket mar tlsContext) (\<lambda>sock.
       Inr \<lparr>fc_FilterChainMatch = Some \<lparr>fcm_SourceType = SOURCE_ANY, fcm_SourcePrefixRanges = [],
              fcm_ServerNames = sm_Hosts sniMatch\<rparr>,
            fc_Filters = filters, fc_TransportSocket = Some sock\<rparr>)))"

definition createFilterChainsForTLS ::
  "marshaler \<Rightarrow> HttpConnectionManager \<Rightarrow> SNIMatch list \<Rightarrow> Kourier \<Rightarrow> FilterChain list res" where
  "createFilterChainsForTLS mar manager sniMatches kourierConfig =
     foldM (\<lambda>res sniMatch. bindr (sni_chain mar manager kourierConfig sniMatch) (\<lambda>fc.
       Inr (res @ [fc]))) [] sniMatches"

definition NewHTTPSListenerWithSNI ::
  "marshaler \<Rightarrow> HttpConnectionManager \<Rightarrow> 32 word \<Rightarrow> SNIMatch list \<Rightarrow> Kourier \<Rightarrow> Listener res" where
  "NewHTTPSListenerWithSNI mar manager port sniMatches kourierConfig =
     bindr (createFilterChainsForTLS mar manager sniMatches kourierConfig) (\<lambda>filterChains.
     bindr (proxy_filters mar (EnableProxyProtocol kourierConfig)) (\<lambda>listenerFilter.
       Inr \<lparr>ls_Name = CreateListenerName port, ls_Address = createAddress port,
            ls_ListenerFilters = listenerFilter @
              [\<lparr>lf_Name = ''envoy.filters.listener.tls_inspector'',
                lf_Config = LF_TypeUrl ''type.googleapis.com/envoy.extensions.filters.listener.tls_inspector.v3.TlsInspector''\<rparr>],
            ls_FilterChains = filterChains\<rparr>))"

section \<open>The filter chains of the regions\<close>

text \<open>The addresses of region \<open>i\<close>: its node's first address and the blocks affine to its label.\<close>

definition affine :: "nat \<Rightarrow> IPAMBlock \<Rightarrow> bool" where
  "affine i b \<longleftrightarrow> (case ib_Affinity b of None \<Rightarrow> False | Some a \<Rightarrow> strings_Contains a (region_label i))"

definition block_range :: "(string \<Rightarrow> go_error + string \<times> nat) \<Rightarrow> IPAMBlock \<Rightarrow> CidrRange" where
  "block_range parseCIDR b =
     (let (ip, ones) = projr (parseCIDR (ib_CIDR b)) in
      \<lparr>cr_AddressPrefix = ip, cr_PrefixLen = of_nat ones\<rparr>)"

definition node_range :: "Node \<Rightarrow> CidrRange" where
  "node_range n = \<lparr>cr_AddressPrefix = na_Address (hd (nd_Addresses n)), cr_PrefixLen = 32\<rparr>"

definition region_ranges ::
  "(string \<Rightarrow> go_error + string \<times> nat) \<Rightarrow> Node list \<Rightarrow> IPAMBlock list \<Rightarrow> nat \<Rightarrow> CidrRange list" where
  "region_ranges parseCIDR nodes blocks i =
     map node_range (filter (\<lambda>n. nd_Name n = region_label i) nodes) @
     map (block_range parseCIDR) (filter (affine i) blocks)"

lemma scan_nodes_absent:
  "v \<notin> nd_Name ` set nodes \<Longrightarrow>
   foldl (\<lambda>(k, ip) node. if nd_Name node = v then (k + 1, nd_Addresses node) else (k, ip)) acc nodes = acc"
  by (induction nodes arbitrary: acc) (auto simp: case_prod_unfold)

text \<open>Node names are unique, so a label is the name of at most one node.\<close>

lemma scan_nodes_unique:
  assumes "distinct (map nd_Name nodes)"
  shows "scan_nodes v ip nodes =
    (case filter (\<lambda>n. nd_Name n = v) nodes of [] \<Rightarrow> (0, ip) | n # _ \<Rightarrow> (1, nd_Addresses n)) \<and>
    length (filter (\<lambda>n. nd_Name n = v) nodes) \<le> 1"
  using assms unfolding scan_nodes_def
proof (induction nodes)
  case Nil
  show ?case by simp
next
  case (Cons n nodes)
  show ?case
  proof (cases "nd_Name n = v")
    case True
    then have "v \<notin> nd_Name ` set nodes" using Cons.prems by auto
    then show ?thesis
      using True scan_nodes_absent [of v nodes] image_iff
      by (fastforce simp: filter_empty_conv)
  next
    case False
    then show ?thesis using Cons by simp
  qed
qed

lemma node_ranges_unique:
  assumes "distinct (map nd_Name nodes)" "\<forall>n \<in> set nodes. nd_Name n = v \<longrightarrow> nd_Addresses n \<noteq> []"
  shows "\<exists>ip'. scan_nodes v ip nodes = (length (filter (\<lambda>n. nd_Name n = v) nodes), ip') \<and>
    node_ranges (length (filter (\<lambda>n. nd_Name n = v) nodes)) ip' ranges =
      Inr (ranges @ map node_range (filter (\<lambda>n. nd_Name n = v) nodes))"
proof (cases "filter (\<lambda>n. nd_Name n = v) nodes")
  case Nil
  then show ?thesis using scan_nodes_unique [OF assms(1), of v ip] by (simp add: node_ranges_def)
next
  case (Cons n ns)
  then have "n \<in> set nodes" "nd_Name n = v" by (auto dest: filter_eq_ConsD)
  then have "nd_Addresses n \<noteq> []" using assms(2) by simp
  with Cons show ?thesis
    using scan_nodes_unique [OF assms(1), of v ip]
    by (simp add: node_ranges_def node_range_def hd_conv_nth)
qed

lemma block_ranges_ok:
  assumes "\<forall>b \<in> set blocks. affine i b \<longrightarrow> isr (parseCIDR (ib_CIDR b))"
  shows "block_ranges parseCIDR (region_label i) blocks ranges =
    Inr (ranges @ map (block_range parseCIDR) (filter (affine i) blocks))"
  using assms
proof (induction blocks arbitrary: ranges)
  case Nil
  show ?case by (simp add: block_ranges_def)
next
  case (Cons b blocks)
  have step: "block_ranges parseCIDR (region_label i) (b # blocks) ranges =
      block_ranges parseCIDR (region_label i) blocks
        (ranges @ (if affine i b then [block_range parseCIDR b] else []))"
    using Cons.prems
    by (cases "parseCIDR (ib_CIDR b)")
      (auto simp: block_ranges_def affine_def block_range_def split: option.split prod.split)
  show ?case using Cons by (simp add: step)
qed

definition region_match ::
  "(string \<Rightarrow> go_error + string \<times> nat) \<Rightarrow> Node list \<Rightarrow> IPAMBlock list \<Rightarrow> nat \<Rightarrow> FilterChainMatch" where
  "region_match parseCIDR nodes blocks i =
     \<lparr>fcm_SourceType = SOURCE_ANY, fcm_SourcePrefixRanges = region_ranges parseCIDR nodes blocks i,
      fcm_ServerNames = []\<rparr>"

lemma region_match_step_ok:
  assumes "distinct (map nd_Name nodes)"
    and "\<forall>n \<in> set nodes. nd_Name n = region_label i \<longrightarrow> nd_Addresses n \<noteq> []"
    and "\<forall>b \<in> set blocks. affine i b \<longrightarrow> isr (ke_ParseCIDR kenv (ib_CIDR b))" and "i < length regions"
  shows "\<exists>ip'. region_match_step kenv nodes blocks (ms, ip) i =
    Inr (ms @ [region_match (ke_ParseCIDR kenv) nodes blocks i], ip')"
proof -
  obtain ip' where "scan_nodes (region_label i) ip nodes =
      (length (filter (\<lambda>n. nd_Name n = region_label i) nodes), ip')"
    "node_ranges (length (filter (\<lambda>n. nd_Name n = region_label i) nodes)) ip' [] =
      Inr (map node_range (filter (\<lambda>n. nd_Name n = region_label i) nodes))"
    using node_ranges_unique [OF assms(1,2), of ip "[]"] by auto
  then show ?thesis
    using assms(4) block_ranges_ok [OF assms(3)]
    by (simp add: region_match_step_def region_match_def region_ranges_def del: length_regions)
qed

section \<open>Properties\<close>

text \<open>What the builder needs from the cluster.\<close>

definition kube_ok :: "kube_env \<Rightarrow> Node list \<Rightarrow> IPAMBlock list \<Rightarrow> bool" where
  "kube_ok kenv nodes blocks \<longleftrightarrow>
     ke_InClusterConfig kenv = None \<and> ke_NewForConfig kenv = None \<and> ke_Nodes kenv = Inr nodes \<and>
     retry_OnError DefaultRetry_Steps (ke_Ipam kenv) 0 [] = blocks \<and>
     distinct (map nd_Name nodes) \<and>
     (\<forall>i < length regions. \<forall>n \<in> set nodes. nd_Name n = region_label i \<longrightarrow> nd_Addresses n \<noteq> []) \<and>
     (\<forall>i < length regions. \<forall>b \<in> set blocks. affine i b \<longrightarrow> isr (ke_ParseCIDR kenv (ib_CIDR b)))"

definition hcm_filters :: "HttpConnectionManager \<Rightarrow> Filter list" where
  "hcm_filters m =
     [\<lparr>fl_Name = ''envoy.filters.network.http_connection_manager'', fl_TypedConfig = AnyNew m\<rparr>]"

definition proxy_listener_filters :: "bool \<Rightarrow> ListenerFilter list" where
  "proxy_listener_filters b =
     (if b then [\<lparr>lf_Name = ''envoy.filters.listener.proxy_protocol'', lf_Config = LF_ProxyProtocol\<rparr>]
      else [])"

lemma proxy_filters_ok: "marshals_all mar \<Longrightarrow> proxy_filters mar b = Inr (proxy_listener_filters b)"
  by (simp add: proxy_filters_def proxy_listener_filters_def createProxyProtocolListenerFilter_def
      marshals_all_def)

lemma createFilters_ok: "marshals_all mar \<Longrightarrow> createFilters mar m = Inr (hcm_filters m)"
  by (simp add: createFilters_def hcm_filters_def)

definition dual_listener ::
  "kube_env \<Rightarrow> Node list \<Rightarrow> IPAMBlock list \<Rightarrow> HttpConnectionManager list \<Rightarrow> 32 word \<Rightarrow> bool \<Rightarrow> Listener" where
  "dual_listener kenv nodes blocks manager port proxy =
     \<lparr>ls_Name = CreateListenerName port, ls_Address = createAddress port,
      ls_ListenerFilters = proxy_listener_filters proxy,
      ls_FilterChains = map (\<lambda>i. \<lparr>fc_FilterChainMatch =
            Some (region_match (ke_ParseCIDR kenv) nodes blocks i),
          fc_Filters = hcm_filters (manager ! i), fc_TransportSocket = None\<rparr>) [0..<length regions]\<rparr>"

lemma NewHTTPListenerDual_ok:
  assumes "marshals_all mar" "kube_ok kenv nodes blocks" "length regions \<le> length manager"
  shows "NewHTTPListenerDual mar kenv manager port proxy =
    Inr (dual_listener kenv nodes blocks manager port proxy)"
proof -
  note K = assms(2) [unfolded kube_ok_def all_region]
  let ?m = "region_match (ke_ParseCIDR kenv) nodes blocks"
  have step: "\<exists>ip'. region_match_step kenv nodes blocks (ms, ip) i = Inr (ms @ [?m i], ip')"
    if "i < length regions" for ms ip i
    using K that by (intro region_match_step_ok) (auto dest!: region_cases simp del: length_regions)
  have "\<exists>ip'. foldM (region_match_step kenv nodes blocks) (ms, ip) js = Inr (ms @ map ?m js, ip')"
    if "\<forall>i \<in> set js. i < length regions" for js ms ip
    using that
  proof (induction js arbitrary: ms ip)
    case Nil
    show ?case by simp
  next
    case (Cons j js)
    obtain ip1 where "region_match_step kenv nodes blocks (ms, ip) j = Inr (ms @ [?m j], ip1)"
      using step [of j ms ip] Cons.prems by auto
    with Cons.IH [of "ms @ [?m j]" ip1] Cons.prems show ?case by simp
  qed
  from this [of "[0..<length regions]" "[]" "[]"]
  obtain ip' where "foldM (region_match_step kenv nodes blocks) ([], []) [0..<length regions] =
      Inr ([?m 0, ?m 1, ?m 2], ip')" by auto
  moreover have "0 < length manager" using assms(3) by (cases manager) simp_all
  ultimately show ?thesis
    using K assms(3) unfolding NewHTTPListenerDual_def
    by (simp add: createFilters_ok [OF assms(1)] proxy_filters_ok [OF assms(1)] Let_def
        dual_listener_def)
qed

text \<open>
  C29: When the cluster answers, node names are unique, the regions' nodes have an address and the
  blocks affine to them parse, the region-aware HTTP listener is built, with one filter chain
  per region in order: the chain of a region is selected by the first address of the region's
  node or an address block affine to its label, and runs the region's connection manager.
\<close>

theorem NewHTTPListenerDual_regions:
  assumes "marshals_all mar" "kube_ok kenv nodes blocks" "length regions \<le> length manager"
  shows "\<exists>l. NewHTTPListenerDual mar kenv manager port proxy = Inr l \<and>
    length (ls_FilterChains l) = length regions \<and>
    (\<forall>i < length regions.
       (\<exists>m. fc_FilterChainMatch (ls_FilterChains l ! i) = Some m \<and>
          fcm_SourcePrefixRanges m = region_ranges (ke_ParseCIDR kenv) nodes blocks i) \<and>
       fc_Filters (ls_FilterChains l ! i) = hcm_filters (manager ! i))"
  by (rule exI [of _ "dual_listener kenv nodes blocks manager port proxy"])
    (simp add: NewHTTPListenerDual_ok [OF assms] dual_listener_def region_match_def
      del: upt_three length_regions)

definition ex_nodes :: "Node list" where
  "ex_nodes = [\<lparr>nd_Name = ''node1'', nd_Addresses = [\<lparr>na_Address = ''192.168.122.50''\<rparr>]\<rparr>,
     \<lparr>nd_Name = ''node2'', nd_Addresses = [\<lparr>na_Address = ''192.168.122.51''\<rparr>]\<rparr>]"

definition ex_blocks :: "IPAMBlock list" where
  "ex_blocks = [\<lparr>ib_CIDR = ''10.0.1.0/26'', ib_Affinity = Some ''host:node1''\<rparr>,
     \<lparr>ib_CIDR = ''10.0.9.0/26'', ib_Affinity = Some ''host:node10''\<rparr>]"

definition ex_kenv :: kube_env where
  "ex_kenv = \<lparr>ke_InClusterConfig = None, ke_NewForConfig = None, ke_Nodes = Inr ex_nodes,
     ke_Ipam = (\<lambda>_. (None, ex_blocks)),
     ke_ParseCIDR = (\<lambda>s. if s = ''10.0.1.0/26'' then Inr (''10.0.1.0'', 26)
       else if s = ''10.0.9.0/26'' then Inr (''10.0.9.0'', 26) else Inl (ErrNew ''invalid CIDR address''))\<rparr>"

lemma ex_kube_ok: "kube_ok ex_kenv ex_nodes ex_blocks"
  unfolding kube_ok_def all_region
  by (simp add: ex_kenv_def ex_nodes_def ex_blocks_def DefaultRetry_Steps_def numeral_eq_Suc)

definition ex_managers :: "HttpConnectionManager list" where
  "ex_managers = map (\<lambda>n. NewHTTPConnectionManager (\<lambda>_. None) ExternalAuthz_default n DefaultConfig)
     [''r1'', ''r2'', ''r3'']"

theorem NewHTTPListenerDual_regions_witness:
  "\<exists>l. NewHTTPListenerDual (\<lambda>_. None) ex_kenv ex_managers 8080 False = Inr l \<and>
    length (ls_FilterChains l) = length regions \<and>
    (\<forall>i < length regions.
       (\<exists>m. fc_FilterChainMatch (ls_FilterChains l ! i) = Some m \<and>
          fcm_SourcePrefixRanges m = region_ranges (ke_ParseCIDR ex_kenv) ex_nodes ex_blocks i) \<and>
       fc_Filters (ls_FilterChains l ! i) = hcm_filters (ex_managers ! i))"
  by (rule NewHTTPListenerDual_regions [OF _ ex_kube_ok]) (simp_all add: ex_managers_def)

text \<open>
  An address block is attributed to a region by substring: a block of the node \<^verbatim>\<open>node10\<close> also
  selects the chain of the region whose node is \<^verbatim>\<open>node1\<close>.
\<close>

lemma affinity_is_substring:
  "affine 0 \<lparr>ib_CIDR = cidr, ib_Affinity = Some ''host:node10''\<rparr> \<and>
   (affine i b \<longleftrightarrow> (\<exists>a pre post. ib_Affinity b = Some a \<and> a = pre @ region_label i @ post))"
proof
  show "affine 0 \<lparr>ib_CIDR = cidr, ib_Affinity = Some ''host:node10''\<rparr>"
    by (simp add: affine_def region_values strings_Contains_def)
  have "strings_Contains a sub \<longleftrightarrow> (\<exists>pre post. a = pre @ sub @ post)" for a sub
  proof
    assume "strings_Contains a sub"
    then obtain ys where ys: "suffix ys a" "prefix sub ys"
      by (auto simp: strings_Contains_def list_ex_iff)
    from ys(1) obtain pre where "a = pre @ ys" by (rule suffixE)
    moreover from ys(2) obtain post where "ys = sub @ post" by (rule prefixE)
    ultimately show "\<exists>pre post. a = pre @ sub @ post" by blast
  next
    assume "\<exists>pre post. a = pre @ sub @ post"
    then obtain pre post where "a = pre @ sub @ post" by blast
    then have "suffix (sub @ post) a" "prefix sub (sub @ post)" by (simp_all add: suffix_def)
    then show "strings_Contains a sub" 
      unfolding strings_Contains_def list_ex_iff by (intro bexI [of _ "sub @ post"]) simp_all
  qed
  then show "affine i b \<longleftrightarrow> (\<exists>a pre post. ib_Affinity b = Some a \<and> a = pre @ region_label i @ post)"
    by (auto simp: affine_def split: option.split)
qed

text \<open>
  A malformed CIDR in a block affine to a region's label crashes the builder with a nil
  dereference, although the code checks the parse error: the mask is read before the check.
\<close>

lemma invalid_cidr_panics:
  assumes "\<forall>b \<in> set pre. affine i b \<longrightarrow> isr (parseCIDR (ib_CIDR b))" "affine i b"
    and "parseCIDR (ib_CIDR b) = Inl e"
  shows "block_ranges parseCIDR (region_label i) (pre @ b # post) ranges = Inl (Panic NilDereference)"
proof -
  have "block_ranges parseCIDR (region_label i) (pre @ b # post) ranges =
      bindr (block_ranges parseCIDR (region_label i) pre ranges)
        (\<lambda>r. block_ranges parseCIDR (region_label i) (b # post) r)"
    by (simp add: block_ranges_def foldM_append)
  also have "\<dots> = block_ranges parseCIDR (region_label i) (b # post)
      (ranges @ map (block_range parseCIDR) (filter (affine i) pre))"
    by (simp add: block_ranges_ok [OF assms(1)])
  also have "\<dots> = Inl (Panic NilDereference)"
    using assms(2,3) by (auto simp: block_ranges_def affine_def split: option.splits)
  finally show ?thesis .
qed

text \<open>
  Listing the address blocks is attempted at most five times: the blocks used are those of the
  first attempt that succeeds, and what the fifth attempt left when all of them fail.
\<close>

lemma retry_first_success:
  "retry_OnError n f k x =
     (case find (\<lambda>j. fst (f j) = None) [k..<k + n] of
        Some j \<Rightarrow> snd (f j)
      | None \<Rightarrow> if n = 0 then x else snd (f (k + n - 1)))"
proof (induction n arbitrary: k x)
  case 0
  show ?case by simp
next
  case (Suc n)
  have upt: "[k..<k + Suc n] = k # [Suc k..<Suc k + n]" by (simp add: upt_conv_Cons del: upt_Suc)
  show ?case
    unfolding upt by (cases "f k"; cases "fst (f k)") (auto simp: Suc.IH split: option.split)
qed

definition tls_chain :: "HttpConnectionManager \<Rightarrow> Kourier \<Rightarrow> SNIMatch \<Rightarrow> FilterChain" where
  "tls_chain manager cfg m =
     \<lparr>fc_FilterChainMatch = Some \<lparr>fcm_SourceType = SOURCE_ANY, fcm_SourcePrefixRanges = [],
        fcm_ServerNames = sm_Hosts m\<rparr>,
      fc_Filters = hcm_filters manager,
      fc_TransportSocket = Some \<lparr>ts_Name = ''envoy.transport_sockets.tls'',
        ts_TypedConfig = AnyNew \<lparr>dtc_AlpnProtocols = [''h2'', ''http/1.1''], dtc_MinVersion = TLSv1_2,
          dtc_CipherSuites = sets_List (CipherSuites cfg),
          dtc_TlsCertificates = [\<lparr>tc_CertificateChain = sm_CertificateChain m,
            tc_PrivateKey = InlineKey (sm_PrivateKey m)\<rparr>]\<rparr>\<rparr>\<rparr>"

lemma sni_chain_ok:
  "marshals_all mar \<Longrightarrow> sni_chain mar manager cfg m = Inr (tls_chain manager cfg m)"
  by (simp add: sni_chain_def createFilters_ok createTLSContext_def createTLScertificates_def
      tls_socket_def tls_chain_def)

lemma createFilterChainsForTLS_ok:
  assumes "marshals_all mar"
  shows "createFilterChainsForTLS mar manager ms cfg = Inr (map (tls_chain manager cfg) ms)"
proof -
  have "foldM (\<lambda>res m. bindr (sni_chain mar manager cfg m) (\<lambda>fc. Inr (res @ [fc]))) acc ms =
      Inr (acc @ map (tls_chain manager cfg) ms)" for acc
    by (induction ms arbitrary: acc) (simp_all add: sni_chain_ok [OF assms])
  then show ?thesis by (simp add: createFilterChainsForTLS_def)
qed

text \<open>
  The HTTPS listener for SNI has one filter chain per match, in order, that is selected by the
  hosts of the match and presents its certificate and key; the proxy-protocol listener filter
  comes before the TLS inspector.
\<close>

lemma sni_listener_chains:
  assumes "marshals_all mar"
  shows "\<exists>l. NewHTTPSListenerWithSNI mar manager port ms cfg = Inr l \<and>
    map lf_Name (ls_ListenerFilters l) =
      (if EnableProxyProtocol cfg then [''envoy.filters.listener.proxy_protocol''] else []) @
      [''envoy.filters.listener.tls_inspector''] \<and>
    map (\<lambda>fc. map_option fcm_ServerNames (fc_FilterChainMatch fc)) (ls_FilterChains l) =
      map (\<lambda>m. Some (sm_Hosts m)) ms \<and>
    map (\<lambda>fc. map_option ts_TypedConfig (fc_TransportSocket fc)) (ls_FilterChains l) =
      map (\<lambda>m. Some (AnyNew \<lparr>dtc_AlpnProtocols = [''h2'', ''http/1.1''], dtc_MinVersion = TLSv1_2,
        dtc_CipherSuites = sets_List (CipherSuites cfg),
        dtc_TlsCertificates = [\<lparr>tc_CertificateChain = sm_CertificateChain m,
          tc_PrivateKey = InlineKey (sm_PrivateKey m)\<rparr>]\<rparr>)) ms"
proof -
  show ?thesis
    by (simp add: NewHTTPSListenerWithSNI_def createFilterChainsForTLS_ok [OF assms]
        proxy_filters_ok [OF assms] proxy_listener_filters_def tls_chain_def comp_def)
qed

definition ex_match :: SNIMatch where
  "ex_match = \<lparr>sm_Hosts = [''h.io''], sm_CertSource = \<lparr>nn_Namespace = ''default'', nn_Name = ''cert''\<rparr>,
     sm_CertificateChain = ''CRT'', sm_PrivateKey = ''KEY''\<rparr>"

lemma CreateListenerName_inj [simp]: "CreateListenerName p = CreateListenerName q \<longleftrightarrow> p = q"
  by (auto simp: CreateListenerName_def dest!: nat_str_inj intro: word_unat_eq_iff [THEN iffD2])

lemma DeepCopyObject_id: "DeepCopyObject items = items"
proof -
  have "foldl (\<lambda>dst i. dst[i := items ! i]) xs [0..<n] = take n items @ drop n xs"
    if "n \<le> length items" "length xs = length items" for n and xs :: "IPAMBlock list"
    using that
  proof (induction n)
    case 0
    then show ?case by simp
  next
    case (Suc n)
    then have "(take n items @ drop n xs)[n := items ! n] = take (Suc n) items @ drop (Suc n) xs"
      by (intro nth_equalityI) (auto simp: nth_list_update nth_append less_Suc_eq)
    with Suc show ?case by simp
  qed
  from this [of "length items" "replicate (length items) \<lparr>ib_CIDR = [], ib_Affinity = None\<rparr>"]
  show ?thesis by (simp add: DeepCopyObject_def)
qed

end
