(* ===== verification/Caches.thy ===== *)
theory Caches
  imports Cluster_Cache Translator Listener
begin

text \<open>
  The caches, \<^verbatim>\<open>pkg/generator/caches.go\<close> (the state part) and \<^verbatim>\<open>status_vhost.go\<close>: the translated
  ingresses, the clusters and the domains in use. Every exported operation holds the mutex from
  its first to its last step, so an operation is one step of the state; \<open>now\<close> is the clock it
  reads.
\<close>

section \<open>The status virtual host\<close>

definition ServiceStatsClusterName :: string where
  "ServiceStatsClusterName = ''service_stats''"

definition readyRoute :: Route where
  "readyRoute =
     (let cluster = NewWeightedCluster ServiceStatsClusterName 100 [];
          wrs = [cluster]
      in NewRoute ''gateway_ready'' [] ''/ready'' wrs (1 * 10 ^ 9) [] [] [])"

definition statusVHost :: "marshaler \<Rightarrow> VirtualHost" where
  "statusVHost mar =
     (NewVirtualHost InternalKourierDomain [InternalKourierDomain] [readyRoute])
       \<lparr>vh_TypedPerFilterConfig :=
          [(wk_HTTPExternalAuthorization, anypb_ptr mar M_ExtAuthzPerRoute (EAPR_Disabled True))]\<rparr>"

section \<open>State and operations\<close>

record Caches =
  ca_translatedIngresses :: "(NamespacedName \<times> translatedIngress) list"
  ca_clusters :: ClustersCache
  ca_domainsInUse :: "string set"
  ca_statusVirtualHost :: VirtualHost

definition NewCaches :: "marshaler \<Rightarrow> ExternalAuthzConfig \<Rightarrow> int \<Rightarrow> bool \<Rightarrow> Caches res" where
  "NewCaches mar authz now extAuthz =
     (let c = \<lparr>ca_translatedIngresses = [], ca_clusters = newClustersCache, ca_domainsInUse = {},
               ca_statusVirtualHost = statusVHost mar\<rparr>
      in if extAuthz
         then bindr (deref (ea_Cluster authz)) (\<lambda>cluster.
                Inr (c\<lparr>ca_clusters := cc_set now cluster ''__extAuthZCluster'' ''_internal'' (ca_clusters c)\<rparr>))
         else Inr c)"

text \<open>\<^verbatim>\<open>domainsInUse.HasAny(domains...)\<close>.\<close>

definition HasAny :: "string set \<Rightarrow> string list \<Rightarrow> bool" where
  "HasAny s items \<longleftrightarrow> list_ex (\<lambda>d. d \<in> s) items"

definition validateIngress :: "Caches \<Rightarrow> translatedIngress \<Rightarrow> unit res" where
  "validateIngress caches ti =
     foldM (\<lambda>_ i. bindr (index_get (ti_internalVirtualHosts ti) i) (\<lambda>vhosts.
       foldM (\<lambda>_ p. bindr (deref p) (\<lambda>vhost.
         if HasAny (ca_domainsInUse caches) (vh_Domains vhost)
         then Inl (Err ErrDomainConflict) else Inr ())) () vhosts))
     () [0..<length regions]"

text \<open>The loop that inserts the domains of all regions' internal virtual hosts.\<close>

definition insert_domains :: "translatedIngress \<Rightarrow> string set \<Rightarrow> string set res" where
  "insert_domains ti ds =
     foldM (\<lambda>ds i. bindr (index_get (ti_internalVirtualHosts ti) i) (\<lambda>vhosts.
       foldM (\<lambda>ds p. bindr (deref p) (\<lambda>vhost. Inr (ds \<union> set (vh_Domains vhost)))) ds vhosts))
     ds [0..<length regions]"

definition set_clusters :: "int \<Rightarrow> translatedIngress \<Rightarrow> ClustersCache \<Rightarrow> ClustersCache" where
  "set_clusters now ti cc =
     foldl (\<lambda>cc cluster. cc_set now cluster (nn_Name (ti_name ti)) (nn_Namespace (ti_name ti)) cc)
       cc (ti_clusters ti)"

definition addTranslatedIngress :: "int \<Rightarrow> Caches \<Rightarrow> translatedIngress \<Rightarrow> Caches res" where
  "addTranslatedIngress now caches ti =
     bindr (validateIngress caches ti) (\<lambda>_.
     bindr (insert_domains ti (ca_domainsInUse caches)) (\<lambda>ds.
       Inr (caches\<lparr>ca_domainsInUse := ds,
              ca_translatedIngresses := AList.update (ti_name ti) ti (ca_translatedIngresses caches),
              ca_clusters := set_clusters now ti (ca_clusters caches)\<rparr>)))"

definition expire_clusters ::
  "int \<Rightarrow> string \<Rightarrow> string \<Rightarrow> translatedIngress \<Rightarrow> ClustersCache \<Rightarrow> ClustersCache" where
  "expire_clusters now ingressName ingressNamespace ti cc =
     foldl (\<lambda>cc cluster. cc_setExpiration now (cl_Name cluster) ingressName ingressNamespace cc)
       cc (ti_clusters ti)"

text \<open>\<^verbatim>\<open>deleteTranslatedIngress\<close> frees the domains of the first region's internal virtual hosts.\<close>

definition deleteTranslatedIngress :: "int \<Rightarrow> Caches \<Rightarrow> string \<Rightarrow> string \<Rightarrow> Caches res" where
  "deleteTranslatedIngress now caches ingressName ingressNamespace =
     (let key = \<lparr>nn_Namespace = ingressNamespace, nn_Name = ingressName\<rparr> in
      case map_of (ca_translatedIngresses caches) key of
        None \<Rightarrow> Inr caches
      | Some translated \<Rightarrow>
          bindr (index_get (ti_internalVirtualHosts translated) 0) (\<lambda>vhosts.
          bindr (foldM (\<lambda>ds p. bindr (deref p) (\<lambda>vhost. Inr (ds - set (vh_Domains vhost))))
                   (ca_domainsInUse caches) vhosts) (\<lambda>ds.
            Inr (caches\<lparr>ca_clusters :=
                     expire_clusters now ingressName ingressNamespace translated (ca_clusters caches),
                   ca_domainsInUse := ds,
                   ca_translatedIngresses := AList.delete key (ca_translatedIngresses caches)\<rparr>))))"

text \<open>
  \<^verbatim>\<open>UpdateIngress\<close> deletes and then adds; when adding fails, the deletion stays. The state after a
  panic is the one before the panicking step.
\<close>

definition UpdateIngress :: "int \<Rightarrow> Caches \<Rightarrow> translatedIngress \<Rightarrow> unit res \<times> Caches" where
  "UpdateIngress now caches ti =
     (case deleteTranslatedIngress now caches (nn_Name (ti_name ti)) (nn_Namespace (ti_name ti)) of
        Inl f \<Rightarrow> (Inl f, caches)
      | Inr caches1 \<Rightarrow>
          (case addTranslatedIngress now caches1 ti of
             Inl f \<Rightarrow> (Inl f, caches1)
           | Inr caches2 \<Rightarrow> (Inr (), caches2)))"

definition DeleteIngressInfo :: "int \<Rightarrow> Caches \<Rightarrow> string \<Rightarrow> string \<Rightarrow> Caches res" where
  "DeleteIngressInfo now caches ingressName ingressNamespace =
     deleteTranslatedIngress now caches ingressName ingressNamespace"

text \<open>
  The janitor of the cluster cache with the callback of \<^verbatim>\<open>SetOnEvicted\<close>: the callback is called
  with the ingress of every evicted cluster.
\<close>

definition evict_clusters :: "int \<Rightarrow> Caches \<Rightarrow> (Caches \<times> (NamespacedName \<times> Cluster) list) res" where
  "evict_clusters now caches =
     (let (cc, evicted) = cc_evict now (ca_clusters caches) in
      bindr (foldM (\<lambda>calls (k, val). bindr (explodeKey k) (\<lambda>(_, name, namespace).
               Inr (calls @ [(\<lparr>nn_Namespace = namespace, nn_Name = name\<rparr>, val)]))) [] evicted)
        (\<lambda>calls. Inr (caches\<lparr>ca_clusters := cc\<rparr>, calls)))"

end
