(* ===== verification/Snapshot.thy ===== *)
theory Snapshot
  imports Caches
begin

text \<open>
  The snapshot handed to Envoy, \<^verbatim>\<open>ToEnvoySnapshot\<close> and the functions it calls in
  \<^verbatim>\<open>pkg/generator/caches.go\<close>, with \<^verbatim>\<open>cache.NewSnapshot\<close> of \<^verbatim>\<open>go-control-plane\<close>.
\<close>

section \<open>Environment\<close>

text \<open>
  What building a snapshot reads: the process environment and the protobuf run time, the package
  variable \<^verbatim>\<open>ExternalAuthz\<close>, the Kubernetes secrets, and what each of the three calls that build a
  region-aware listener gets from the cluster.
\<close>

record snap_env =
  se_world :: world
  se_authz :: ExternalAuthzConfig
  se_secrets :: "string \<Rightarrow> string \<Rightarrow> go_error + Secret"
  se_kube :: "nat \<Rightarrow> kube_env"

text \<open>The orders in which the three maps are visited.\<close>

record snap_orders =
  so_ingresses :: "(NamespacedName \<times> translatedIngress) list \<Rightarrow> (NamespacedName \<times> translatedIngress) list"
  so_snis :: "(NamespacedName \<times> dedupedSNIMatch) list \<Rightarrow> (NamespacedName \<times> dedupedSNIMatch) list"
  so_clusters :: "(string \<times> Cluster Item) list \<Rightarrow> (string \<times> Cluster Item) list"

section \<open>Certificates from secrets\<close>

definition sslCreds :: "snap_env \<Rightarrow> string \<Rightarrow> string \<Rightarrow> (bytes \<times> bytes) res" where
  "sslCreds env secretNamespace secretName =
     (case se_secrets env secretNamespace secretName of
        Inl e \<Rightarrow> Inl (Err e)
      | Inr secret \<Rightarrow> Inr (gomap_get (sec_Data secret) certFieldInSecret,
                          gomap_get (sec_Data secret) keyFieldInSecret))"

definition privateKeyProvider :: "bool \<Rightarrow> string" where
  "privateKeyProvider mbEnabled = (if mbEnabled then ''cryptomb'' else [])"

definition newExternalEnvoyListenerWithOneCertFilterChain ::
  "snap_env \<Rightarrow> HttpConnectionManager \<Rightarrow> Kourier \<Rightarrow> FilterChain res" where
  "newExternalEnvoyListenerWithOneCertFilterChain env manager cfg =
     bindr (sslCreds env (os_Getenv (w_env (se_world env)) envCertsSecretNamespace)
              (os_Getenv (w_env (se_world env)) envCertsSecretName)) (\<lambda>(certificateChain, privateKey).
       CreateFilterChainFromCertificateAndPrivateKey (w_mar (se_world env)) manager
         \<lparr>ct_Certificate = certificateChain, ct_PrivateKey = privateKey,
          ct_PrivateKeyProvider = privateKeyProvider (EnableCryptoMB cfg),
          ct_CipherSuites = sets_List (CipherSuites cfg)\<rparr>)"

definition newExternalEnvoyListenerWithOneCert ::
  "snap_env \<Rightarrow> HttpConnectionManager \<Rightarrow> Kourier \<Rightarrow> Listener res" where
  "newExternalEnvoyListenerWithOneCert env manager cfg =
     bindr (newExternalEnvoyListenerWithOneCertFilterChain env manager cfg) (\<lambda>filterChain.
       NewHTTPSListener (w_mar (se_world env)) HTTPSPortExternal [filterChain] (EnableProxyProtocol cfg))"

definition newInternalEnvoyListenerWithOneCert ::
  "snap_env \<Rightarrow> HttpConnectionManager \<Rightarrow> Kourier \<Rightarrow> Listener res" where
  "newInternalEnvoyListenerWithOneCert env manager cfg =
     bindr (system_Namespace (w_env (se_world env))) (\<lambda>ns.
     bindr (sslCreds env ns (ClusterCertSecret cfg)) (\<lambda>(certificateChain, privateKey).
     bindr (CreateFilterChainFromCertificateAndPrivateKey (w_mar (se_world env)) manager
              \<lparr>ct_Certificate = certificateChain, ct_PrivateKey = privateKey,
               ct_PrivateKeyProvider = privateKeyProvider (EnableCryptoMB cfg),
               ct_CipherSuites = sets_List (CipherSuites cfg)\<rparr>) (\<lambda>filterChain.
       NewHTTPSListener (w_mar (se_world env)) HTTPSPortInternal [filterChain] (EnableProxyProtocol cfg))))"

section \<open>Listeners and route configurations\<close>

definition externalRouteConfigName :: "string list" where
  "externalRouteConfigName =
     [''external_services_region1'', ''external_services_region2'', ''external_services_region3'']"

definition externalTLSRouteConfigName :: "string list" where
  "externalTLSRouteConfigName = [''external_tls_services_region1'',
     ''external_tls_services_region2'', ''external_tls_services_region3'']"

definition internalRouteConfigName :: "string list" where
  "internalRouteConfigName =
     [''internal_services_region1'', ''internal_services_region2'', ''internal_services_region3'']"

definition internalTLSRouteConfigName :: "string list" where
  "internalTLSRouteConfigName = [''internal_tls_services_region1'',
     ''internal_tls_services_region2'', ''internal_tls_services_region3'']"

text \<open>
  \<^verbatim>\<open>xs[i], err = call(...)\<close> followed by the check of \<^verbatim>\<open>err\<close>: the call comes first, then the index is
  checked, also when the call returned an error.
\<close>

definition assign_index :: "'a option list \<Rightarrow> nat \<Rightarrow> 'a res \<Rightarrow> 'a option list res" where
  "assign_index xs i call =
     (case call of
        Inl (Panic p) \<Rightarrow> Inl (Panic p)
      | Inl (Err e) \<Rightarrow> bindr (index_set xs i None) (\<lambda>_. Inl (Err e))
      | Inr v \<Rightarrow> index_set xs i (Some v))"

text \<open>\<^verbatim>\<open>xs[i].FilterChains = append(xs[i].FilterChains, fc)\<close>.\<close>

definition append_chain :: "Listener option list \<Rightarrow> nat \<Rightarrow> FilterChain \<Rightarrow> Listener option list res" where
  "append_chain xs i fc =
     bindr (index_get xs i) (\<lambda>p. bindr (deref p) (\<lambda>l.
       index_set xs i (Some (l\<lparr>ls_FilterChains := ls_FilterChains l @ [fc]\<rparr>))))"

definition get_listener :: "Listener option list \<Rightarrow> nat \<Rightarrow> Listener res" where
  "get_listener xs i = bindr (index_get xs i) deref"

text \<open>
  The branch for ingresses with TLS sections. The three slices are declared and never allocated,
  so they are nil; \<^verbatim>\<open>probeConfig\<close> is the same pointer as the configuration.
\<close>

definition https_with_sni ::
  "snap_env \<Rightarrow> Kourier \<Rightarrow> HttpConnectionManager list \<Rightarrow> HttpConnectionManager list \<Rightarrow>
   RouteConfiguration list \<Rightarrow> SNIMatch list \<Rightarrow> Listener list \<times> RouteConfiguration list \<Rightarrow>
   (Listener list \<times> RouteConfiguration list) res" where
  "https_with_sni env cfg externalManager externalTLSManager externalTLSRouteConfig sniMatches acc =
     bindr (foldM (\<lambda>xs i. assign_index xs i (NewHTTPSListenerWithSNI (w_mar (se_world env))
              (externalTLSManager ! i) HTTPSPortExternal sniMatches cfg)) [] [0..<length regions])
       (\<lambda>externalHTTPSEnvoyListener.
     let cfg = cfg\<lparr>EnableProxyProtocol := False\<rparr> in
     bindr (foldM (\<lambda>xs i. assign_index xs i (NewHTTPSListenerWithSNI (w_mar (se_world env))
              (externalManager ! i) HTTPSPortProb sniMatches cfg)) [] [0..<length regions])
       (\<lambda>probHTTPSListener.
     bindr (if useHTTPSListenerWithOneCert (w_env (se_world env))
            then bindr (foldM (\<lambda>(chains, ext, prob) i.
                     bindr (assign_index chains i (newExternalEnvoyListenerWithOneCertFilterChain env
                              (externalTLSManager ! i) cfg)) (\<lambda>chains.
                     bindr (bindr (index_get chains i) deref) (\<lambda>fc.
                     bindr (append_chain ext i fc) (\<lambda>ext.
                     bindr (append_chain prob i fc) (\<lambda>prob. Inr (chains, ext, prob))))))
                   ([], externalHTTPSEnvoyListener, probHTTPSListener) [0..<length regions])
                   (\<lambda>(chains, ext, prob). Inr (ext, prob))
            else Inr (externalHTTPSEnvoyListener, probHTTPSListener)) (\<lambda>(ext, prob).
     foldM (\<lambda>(listeners, routes) i.
       bindr (get_listener ext i) (\<lambda>l1. bindr (get_listener prob i) (\<lambda>l2.
         Inr (listeners @ [l1, l2], routes @ [externalTLSRouteConfig ! i]))))
       acc [0..<length regions])))"

text \<open>The branch for a single certificate given by the environment.\<close>

definition https_with_one_cert ::
  "snap_env \<Rightarrow> Kourier \<Rightarrow> HttpConnectionManager list \<Rightarrow> RouteConfiguration list \<Rightarrow>
   Listener list \<times> RouteConfiguration list \<Rightarrow> (Listener list \<times> RouteConfiguration list) res" where
  "https_with_one_cert env cfg externalTLSManager externalTLSRouteConfig acc =
     bindr (foldM (\<lambda>(ext, prob, listeners, routes) i.
       bindr (assign_index ext i (newExternalEnvoyListenerWithOneCert env (externalTLSManager ! i) cfg)) (\<lambda>ext.
       bindr (get_listener ext i) (\<lambda>l1.
       bindr (assign_index prob i (NewHTTPSListener (w_mar (se_world env)) HTTPSPortProb
                (ls_FilterChains l1) False)) (\<lambda>prob.
       bindr (get_listener prob i) (\<lambda>l2.
         Inr (ext, prob, listeners @ [l1, l2], routes @ [externalTLSRouteConfig ! i]))))))
       ([], [], acc) [0..<length regions]) (\<lambda>(ext, prob, acc). Inr acc)"

definition jaegerCluster :: "Kourier \<Rightarrow> Cluster" where
  "jaegerCluster cfg =
     \<lparr>cl_Name = ''tracing-collector'', cl_Type = STRICT_DNS, cl_ConnectTimeout = None,
      cl_LoadAssignment = \<lparr>cla_ClusterName = ''tracing-collector'',
        cla_Endpoints = [[\<lparr>lbe_SocketAddress = \<lparr>sa_Protocol = TCP,
          sa_Address = tr_CollectorHost (kTracing cfg),
          sa_PortValue = ucast (tr_CollectorPort (kTracing cfg)), sa_Ipv4Compat = True\<rparr>\<rparr>]]\<rparr>,
      cl_TransportSocket = None, cl_TypedExtensionProtocolOptions = []\<rparr>"

text \<open>
  The internal TLS listener, when a cluster certificate secret is configured.
\<close>

definition internal_tls ::
  "snap_env \<Rightarrow> Kourier \<Rightarrow> VirtualHost option list list \<Rightarrow> Listener list \<times> RouteConfiguration list \<Rightarrow>
   (Listener list \<times> RouteConfiguration list) res" where
  "internal_tls env cfg clusterLocalVirtualHosts acc =
     (if ClusterCertSecret cfg \<noteq> [] then
        (let internalTLSRouteConfig =
               NewRouteConfig (internalTLSRouteConfigName ! 0) (clusterLocalVirtualHosts ! 0);
             internalTLSManager = NewHTTPConnectionManager (w_mar (se_world env)) (se_authz env)
               (rc_Name internalTLSRouteConfig) cfg
         in bindr (newInternalEnvoyListenerWithOneCert env internalTLSManager cfg)
              (\<lambda>l. Inr (fst acc @ [l], snd acc @ [internalTLSRouteConfig])))
      else Inr acc)"

text \<open>
  \<^verbatim>\<open>externalVirtualHosts\<close> is a parameter the function does not use: both the external and the
  external TLS route configuration get the TLS virtual hosts.
\<close>

definition generateListenersAndRouteConfigsAndClusters ::
  "snap_env \<Rightarrow> ctx \<Rightarrow> VirtualHost option list list \<Rightarrow> VirtualHost option list list \<Rightarrow>
   VirtualHost option list list \<Rightarrow> SNIMatch list \<Rightarrow>
   (Listener list \<times> RouteConfiguration list \<times> Cluster list) res" where
  "generateListenersAndRouteConfigsAndClusters env ctx externalVirtualHosts externalTLSVirtualHosts
     clusterLocalVirtualHosts sniMatches =
     (let cfg = cfg_Kourier (FromContextOrDefaults ctx);
          mar = w_mar (se_world env);
          is = [0..<length regions];
          externalRouteConfig =
            map (\<lambda>i. NewRouteConfig (externalRouteConfigName ! i) (externalTLSVirtualHosts ! i)) is;
          externalTLSRouteConfig =
            map (\<lambda>i. NewRouteConfig (externalTLSRouteConfigName ! i) (externalTLSVirtualHosts ! i)) is;
          internalRouteConfig =
            map (\<lambda>i. NewRouteConfig (internalRouteConfigName ! i) (clusterLocalVirtualHosts ! i)) is;
          mgr = (\<lambda>rc. NewHTTPConnectionManager mar (se_authz env) (rc_Name rc) cfg);
          externalManager = map mgr externalRouteConfig;
          externalTLSManager = map mgr externalTLSRouteConfig;
          internalManager = map mgr internalRouteConfig
      in
      bindr (NewHTTPListenerDual mar (se_kube env 0) externalManager HTTPPortExternal
               (EnableProxyProtocol cfg)) (\<lambda>externalHTTPEnvoyListener.
      bindr (NewHTTPListenerDual mar (se_kube env 1) internalManager HTTPPortInternal False)
        (\<lambda>internalEnvoyListener.
      let routes = concat (map (\<lambda>i. [externalRouteConfig ! i, internalRouteConfig ! i]) is) in
      bindr (NewHTTPListenerDual mar (se_kube env 2) externalManager HTTPPortProb False)
        (\<lambda>probHTTPListener.
      bindr (internal_tls env cfg clusterLocalVirtualHosts
               ([externalHTTPEnvoyListener, internalEnvoyListener, probHTTPListener], routes)) (\<lambda>acc.
      bindr (if length sniMatches > 0
             then https_with_sni env cfg externalManager externalTLSManager externalTLSRouteConfig
                    sniMatches acc
             else if useHTTPSListenerWithOneCert (w_env (se_world env))
             then https_with_one_cert env cfg externalTLSManager externalTLSRouteConfig acc
             else Inr acc) (\<lambda>(listeners, routes).
        Inr (listeners, routes,
             if tr_Enabled (kTracing cfg) then [jaegerCluster cfg] else [])))))))"

section \<open>The snapshot\<close>

record Snapshot =
  sn_version :: string
  sn_clusters :: "Cluster gomap"
  sn_routes :: "RouteConfiguration gomap"
  sn_listeners :: "Listener gomap"

text \<open>\<^verbatim>\<open>IndexResourcesByName\<close>: a later resource of the same name replaces an earlier one.\<close>

definition index_by_name :: "('a \<Rightarrow> string) \<Rightarrow> 'a list \<Rightarrow> 'a gomap" where
  "index_by_name name xs = foldl (\<lambda>m x. AList.update (name x) x m) [] xs"

definition NewSnapshot ::
  "string \<Rightarrow> Cluster list \<Rightarrow> RouteConfiguration list \<Rightarrow> Listener list \<Rightarrow> Snapshot" where
  "NewSnapshot version clusters routes listeners =
     \<lparr>sn_version = version, sn_clusters = index_by_name cl_Name clusters,
      sn_routes = index_by_name rc_Name routes, sn_listeners = index_by_name ls_Name listeners\<rparr>"

text \<open>The loop over the translated ingresses: the virtual hosts of every region, then the SNI matches.\<close>

definition collect_step ::
  "(VirtualHost option list list \<times> VirtualHost option list list \<times> VirtualHost option list list) \<times>
   (sni_heap \<times> sniMatches) \<Rightarrow> NamespacedName \<times> translatedIngress \<Rightarrow>
   (VirtualHost option list list \<times> VirtualHost option list list \<times> VirtualHost option list list) \<times>
   (sni_heap \<times> sniMatches)" where
  "collect_step acc k_ti =
     (let ((localVHosts, externalVHosts, externalTLSVHosts), snis) = acc; ti = snd k_ti in
      (foldl (\<lambda>(l, e, x) i.
         (append_at i (ti_internalVirtualHosts ti ! i) l, append_at i (ti_externalVirtualHosts ti ! i) e,
          append_at i (ti_externalTLSVirtualHosts ti ! i) x))
         (localVHosts, externalVHosts, externalTLSVHosts) [0..<length regions],
       consume_all snis (ti_sniMatches ti)))"

definition collect ::
  "sni_heap \<Rightarrow> (NamespacedName \<times> translatedIngress) list \<Rightarrow>
   (VirtualHost option list list \<times> VirtualHost option list list \<times> VirtualHost option list list) \<times>
   (sni_heap \<times> sniMatches)" where
  "collect h tis =
     (let empty = replicate (length regions + 1) [] in
      foldl collect_step ((empty, empty, empty), (h, [])) tis)"

text \<open>
  \<^verbatim>\<open>ToEnvoySnapshot\<close>: reads the caches and the SNI matches, which \<^verbatim>\<open>consume\<close> may extend; the caches
  themselves do not change. \<open>version\<close> is the random version string.
\<close>

definition ToEnvoySnapshot ::
  "snap_env \<Rightarrow> snap_orders \<Rightarrow> ctx \<Rightarrow> int \<Rightarrow> string \<Rightarrow> sni_heap \<Rightarrow> Caches \<Rightarrow> Snapshot res \<times> sni_heap" where
  "ToEnvoySnapshot env ords ctx now version h caches =
     (let ((localVHosts, externalVHosts, externalTLSVHosts), (h', snis)) =
            collect h (so_ingresses ords (ca_translatedIngresses caches));
          localVHosts = foldl (\<lambda>l i. append_at i [Some (ca_statusVirtualHost caches)] l)
            localVHosts [0..<length regions];
          sniMatches = map (\<lambda>p. h' ! p) (sni_list (so_snis ords) snis)
      in (bindr (generateListenersAndRouteConfigsAndClusters env ctx externalVHosts externalTLSVHosts
                   localVHosts sniMatches) (\<lambda>(listeners, routes, clusters).
            Inr (NewSnapshot version (cc_list (so_clusters ords) now (ca_clusters caches) @ clusters)
                   routes listeners)), h'))"

end
