(* ===== verification/Caches_Inv.thy ===== *)
theory Caches_Inv
  imports Caches
begin

text \<open>
  The invariant of the caches and their abstract specification: a finite map from ingresses to
  translations whose domains are pairwise disjoint. \<^verbatim>\<open>domainsInUse\<close> is exactly the union of the
  domains of the stored translations, so the membership test of \<^verbatim>\<open>validateIngress\<close> decides whether
  a new translation clashes with another ingress; and the clusters of every stored translation
  are in the cluster cache without an expiration.
\<close>

section \<open>Domains of a translation\<close>

definition vhosts_domains :: "VirtualHost option list \<Rightarrow> string set" where
  "vhosts_domains vhs = \<Union> (set (map (\<lambda>p. case p of None \<Rightarrow> {} | Some v \<Rightarrow> set (vh_Domains v)) vhs))"

definition ti_domains :: "translatedIngress \<Rightarrow> string set" where
  "ti_domains ti = (\<Union>i < length regions. vhosts_domains (ti_internalVirtualHosts ti ! i))"

text \<open>Names of Kubernetes objects have no colon, so cluster keys of different ingresses differ.\<close>

definition name_ok :: "NamespacedName \<Rightarrow> bool" where
  "name_ok nn \<longleftrightarrow> CHR '':'' \<notin> set (nn_Name nn) \<and> CHR '':'' \<notin> set (nn_Namespace nn)"

text \<open>
  A translation the caches can hold: no region has a nil virtual host, and all regions have the
  domains of the first.
\<close>

definition ti_wf :: "translatedIngress \<Rightarrow> bool" where
  "ti_wf ti \<longleftrightarrow> name_ok (ti_name ti) \<and> length regions \<le> length (ti_internalVirtualHosts ti) \<and>
     (\<forall>i < length regions. None \<notin> set (ti_internalVirtualHosts ti ! i) \<and>
        vhosts_domains (ti_internalVirtualHosts ti ! i) = vhosts_domains (ti_internalVirtualHosts ti ! 0))"

lemma vhosts_domains_simps [simp]:
  "vhosts_domains [] = {}"
  "vhosts_domains (Some v # vhs) = set (vh_Domains v) \<union> vhosts_domains vhs"
  by (simp_all add: vhosts_domains_def)

lemma vhosts_domains_append [simp]: "vhosts_domains (a @ b) = vhosts_domains a \<union> vhosts_domains b"
  by (simp add: vhosts_domains_def)

lemma ti_wf_domains: "ti_wf ti \<Longrightarrow> ti_domains ti = vhosts_domains (ti_internalVirtualHosts ti ! 0)"
  unfolding ti_wf_def ti_domains_def Un_region all_region by simp

lemma foldM_validate:
  assumes "None \<notin> set vhs"
  shows "foldM (\<lambda>_ p. bindr (deref p) (\<lambda>vhost.
      if HasAny D (vh_Domains vhost) then Inl (Err e) else Inr ())) u vhs =
    (if D \<inter> vhosts_domains vhs = {} then Inr () else Inl (Err e))"
  using assms
proof (induction vhs arbitrary: u)
  case Nil
  show ?case by simp
next
  case (Cons p vhs)
  obtain v where p: "p = Some v" using Cons.prems by (cases p) auto
  have "HasAny D (vh_Domains v) \<longleftrightarrow> D \<inter> set (vh_Domains v) \<noteq> {}"
    by (auto simp: HasAny_def list_ex_iff)
  with Cons p show ?case by (auto simp: Int_Un_distrib)
qed

lemma foldM_insert:
  assumes "None \<notin> set vhs"
  shows "foldM (\<lambda>ds p. bindr (deref p) (\<lambda>vhost. Inr (ds \<union> set (vh_Domains vhost)))) ds vhs =
    (Inr (ds \<union> vhosts_domains vhs) :: string set res)"
  using assms
proof (induction vhs arbitrary: ds)
  case Nil
  show ?case by simp
next
  case (Cons p vhs)
  obtain v where "p = Some v" using Cons.prems by (cases p) auto
  with Cons show ?case by (simp add: Un_assoc)
qed

lemma foldM_remove:
  assumes "None \<notin> set vhs"
  shows "foldM (\<lambda>ds p. bindr (deref p) (\<lambda>vhost. Inr (ds - set (vh_Domains vhost)))) ds vhs =
    (Inr (ds - vhosts_domains vhs) :: string set res)"
  using assms
proof (induction vhs arbitrary: ds)
  case Nil
  show ?case by simp
next
  case (Cons p vhs)
  obtain v where "p = Some v" using Cons.prems by (cases p) auto
  with Cons show ?case by (simp add: Diff_Un Diff_eq Int_assoc)
qed

lemma ti_wf_facts:
  assumes "ti_wf ti"
  shows "0 < length (ti_internalVirtualHosts ti)" "Suc 0 < length (ti_internalVirtualHosts ti)"
    "2 < length (ti_internalVirtualHosts ti)"
    "None \<notin> set (ti_internalVirtualHosts ti ! 0)" "None \<notin> set (ti_internalVirtualHosts ti ! Suc 0)"
    "None \<notin> set (ti_internalVirtualHosts ti ! 2)"
    "vhosts_domains (ti_internalVirtualHosts ti ! 0) = ti_domains ti"
    "vhosts_domains (ti_internalVirtualHosts ti ! Suc 0) = ti_domains ti"
    "vhosts_domains (ti_internalVirtualHosts ti ! 2) = ti_domains ti"
    "name_ok (ti_name ti)"
proof -
  have "3 \<le> length (ti_internalVirtualHosts ti)" using assms by (simp add: ti_wf_def)
  then show "0 < length (ti_internalVirtualHosts ti)" "Suc 0 < length (ti_internalVirtualHosts ti)"
    "2 < length (ti_internalVirtualHosts ti)" by linarith+
  note W = assms [unfolded ti_wf_def all_region One_nat_def] and D = ti_wf_domains [OF assms]
  show "None \<notin> set (ti_internalVirtualHosts ti ! 0)" "None \<notin> set (ti_internalVirtualHosts ti ! Suc 0)"
    "None \<notin> set (ti_internalVirtualHosts ti ! 2)" "name_ok (ti_name ti)"
    using W by blast+
  show "vhosts_domains (ti_internalVirtualHosts ti ! 0) = ti_domains ti"
    "vhosts_domains (ti_internalVirtualHosts ti ! Suc 0) = ti_domains ti"
    "vhosts_domains (ti_internalVirtualHosts ti ! 2) = ti_domains ti"
    unfolding D using W by blast+
qed

lemma validateIngress_wf:
  assumes "ti_wf ti"
  shows "validateIngress c ti =
    (if ca_domainsInUse c \<inter> ti_domains ti = {} then Inr () else Inl (Err ErrDomainConflict))"
  unfolding validateIngress_def upto_regions
  by (simp add: foldM_validate index_get_def ti_wf_facts [OF assms] del: length_greater_0_conv)

lemma insert_domains_wf:
  assumes "ti_wf ti"
  shows "insert_domains ti ds = Inr (ds \<union> ti_domains ti)"
  unfolding insert_domains_def upto_regions
  by (simp add: foldM_insert index_get_def ti_wf_facts [OF assms] Un_assoc del: length_greater_0_conv)

section \<open>Clusters of a translation\<close>

definition ti_kvs :: "translatedIngress \<Rightarrow> (string \<times> Cluster) list" where
  "ti_kvs ti = map (\<lambda>cl. (key (cl_Name cl) (nn_Name (ti_name ti)) (nn_Namespace (ti_name ti)), cl))
     (ti_clusters ti)"

lemma set_clusters_put: "set_clusters now ti cc = cs.put_all (ti_kvs ti) cc"
  unfolding set_clusters_def ti_kvs_def cs.put_all_def cc_set_put
  by (induction "ti_clusters ti" arbitrary: cc rule: rev_induct) (simp_all add: foldl_map)

lemma expire_clusters_retire:
  "expire_clusters now (nn_Name (ti_name ti)) (nn_Namespace (ti_name ti)) ti cc =
     cs.retire_all now (map fst (ti_kvs ti)) cc"
  by (simp add: expire_clusters_def ti_kvs_def cs.retire_all_def cc_setExpiration_retire foldl_map comp_def)

text \<open>The two name parts of a key can be read off from the end, so ingresses never share keys.\<close>

lemma key_inj:
  assumes "key c n ns = key c' n' ns'" "CHR '':'' \<notin> set n" "CHR '':'' \<notin> set ns"
    "CHR '':'' \<notin> set n'" "CHR '':'' \<notin> set ns'"
  shows "n = n' \<and> ns = ns'"
proof -
  have split: "a = a' \<and> b = b'" if "a @ CHR '':'' # b = a' @ CHR '':'' # b'"
    "CHR '':'' \<notin> set b" "CHR '':'' \<notin> set b'" for a b a' b' :: string
  proof -
    have "rev b @ CHR '':'' # rev a = rev b' @ CHR '':'' # rev a'"
      using arg_cong [OF that(1), of rev] by simp
    moreover have tw: "takeWhile (\<lambda>c. c \<noteq> CHR '':'') (rev x @ CHR '':'' # y) = rev x"
      if "CHR '':'' \<notin> set x" for x y :: string
      using that by (induction x rule: rev_induct) auto
    ultimately have "rev b = rev b'" using tw [OF that(2)] tw [OF that(3)] by metis
    then show ?thesis using that(1) by simp
  qed
  have "(c @ CHR '':'' # n) @ CHR '':'' # ns = (c' @ CHR '':'' # n') @ CHR '':'' # ns'"
    using assms(1) by (simp add: key_def)
  then have "c @ CHR '':'' # n = c' @ CHR '':'' # n'" "ns = ns'"
    using split assms by blast+
  then show ?thesis using split assms by blast
qed

lemma ti_kvs_disjoint:
  assumes "name_ok (ti_name a)" "name_ok (ti_name b)" "ti_name a \<noteq> ti_name b"
    "j \<in> fst ` set (ti_kvs a)"
  shows "j \<notin> fst ` set (ti_kvs b)"
proof
  assume "j \<in> fst ` set (ti_kvs b)"
  with assms have "nn_Name (ti_name a) = nn_Name (ti_name b)"
    "nn_Namespace (ti_name a) = nn_Namespace (ti_name b)"
    unfolding ti_kvs_def name_ok_def by (auto dest!: key_inj)
  then show False using assms(3) by (metis NamespacedName.equality old.unit.exhaust)
qed

section \<open>The invariant\<close>

text \<open>The abstract state: which translation each ingress has.\<close>

definition caches_abs :: "Caches \<Rightarrow> NamespacedName \<rightharpoonup> translatedIngress" where
  "caches_abs c = map_of (ca_translatedIngresses c)"

definition caches_inv :: "Caches \<Rightarrow> bool" where
  "caches_inv c \<longleftrightarrow>
     wf_alist (ca_translatedIngresses c) \<and> cc_inv (ca_clusters c) \<and>
     (\<forall>k ti. caches_abs c k = Some ti \<longrightarrow> ti_name ti = k \<and> ti_wf ti) \<and>
     ca_domainsInUse c = (\<Union>ti \<in> ran (caches_abs c). ti_domains ti) \<and>
     (\<forall>k ti k' ti'. caches_abs c k = Some ti \<longrightarrow> caches_abs c k' = Some ti' \<longrightarrow> k \<noteq> k' \<longrightarrow>
        ti_domains ti \<inter> ti_domains ti' = {}) \<and>
     (\<forall>k ti j v. caches_abs c k = Some ti \<longrightarrow> map_of (rev (ti_kvs ti)) j = Some v \<longrightarrow>
        (\<forall>t. cc_live (ca_clusters c) t j = Some v))"

lemma caches_invD:
  assumes "caches_inv c"
  shows "wf_alist (ca_translatedIngresses c)" "cc_inv (ca_clusters c)"
    "caches_abs c k = Some ti \<Longrightarrow> ti_name ti = k \<and> ti_wf ti"
    "ca_domainsInUse c = (\<Union>ti \<in> ran (caches_abs c). ti_domains ti)"
    "caches_abs c k = Some ti \<Longrightarrow> caches_abs c k' = Some ti' \<Longrightarrow> k \<noteq> k' \<Longrightarrow>
       ti_domains ti \<inter> ti_domains ti' = {}"
    "caches_abs c k = Some ti \<Longrightarrow> map_of (rev (ti_kvs ti)) j = Some v \<Longrightarrow>
       cc_live (ca_clusters c) t j = Some v"
  using assms unfolding caches_inv_def by blast+

lemma caches_invI:
  assumes "wf_alist (ca_translatedIngresses c)" "cc_inv (ca_clusters c)"
    "\<And>k ti. caches_abs c k = Some ti \<Longrightarrow> ti_name ti = k \<and> ti_wf ti"
    "ca_domainsInUse c = (\<Union>ti \<in> ran (caches_abs c). ti_domains ti)"
    "\<And>k ti k' ti'. caches_abs c k = Some ti \<Longrightarrow> caches_abs c k' = Some ti' \<Longrightarrow> k \<noteq> k' \<Longrightarrow>
       ti_domains ti \<inter> ti_domains ti' = {}"
    "\<And>k ti j v t. caches_abs c k = Some ti \<Longrightarrow> map_of (rev (ti_kvs ti)) j = Some v \<Longrightarrow>
       cc_live (ca_clusters c) t j = Some v"
  shows "caches_inv c"
  unfolding caches_inv_def by (intro conjI allI impI) (use assms in \<open>simp_all\<close>)

section \<open>Deleting\<close>

lemma map_of_kvs: "map_of (rev (ti_kvs ti)) j = Some v \<Longrightarrow> j \<in> fst ` set (ti_kvs ti)"
  using map_of_SomeD [of "rev (ti_kvs ti)" j v] by (force simp: image_iff)

lemma delete_result:
  assumes "caches_inv c" "caches_abs c k = Some old"
  shows "deleteTranslatedIngress now c (nn_Name k) (nn_Namespace k) =
    Inr (c\<lparr>ca_clusters := cs.retire_all now (map fst (ti_kvs old)) (ca_clusters c),
           ca_domainsInUse := ca_domainsInUse c - ti_domains old,
           ca_translatedIngresses := AList.delete k (ca_translatedIngresses c)\<rparr>)"
proof -
  have k: "\<lparr>nn_Namespace = nn_Namespace k, nn_Name = nn_Name k\<rparr> = k" by simp
  note old = caches_invD(3) [OF assms]
  note W = ti_wf_facts [OF conjunct2 [OF old]]
  show ?thesis
    using assms(2) expire_clusters_retire [of now old "ca_clusters c"] conjunct1 [OF old]
    by (simp add: deleteTranslatedIngress_def k caches_abs_def foldM_remove W
        del: length_greater_0_conv)
qed

lemma delete_absent:
  "caches_abs c k = None \<Longrightarrow> deleteTranslatedIngress now c (nn_Name k) (nn_Namespace k) = Inr c"
  by (simp add: deleteTranslatedIngress_def caches_abs_def Let_def)

text \<open>
  Deleting an ingress removes it from the map, keeps the invariant, and lets its clusters live
  for the grace period.
\<close>

lemma delete_step:
  assumes I: "caches_inv c" and now: "0 \<le> now"
  obtains c' where "deleteTranslatedIngress now c (nn_Name k) (nn_Namespace k) = Inr c'"
    "caches_inv c'" "caches_abs c' = (caches_abs c)(k := None)"
proof (cases "caches_abs c k")
  case None
  then show ?thesis using that [OF delete_absent] I by (simp add: fun_upd_idem)
next
  case (Some old)
  note D = caches_invD [OF I]
  let ?c = "c\<lparr>ca_clusters := cs.retire_all now (map fst (ti_kvs old)) (ca_clusters c),
           ca_domainsInUse := ca_domainsInUse c - ti_domains old,
           ca_translatedIngresses := AList.delete k (ca_translatedIngresses c)\<rparr>"
  have abs: "caches_abs ?c = (caches_abs c)(k := None)"
    by (simp add: caches_abs_def al.lookup_remove)
  have "caches_inv ?c"
  proof (rule caches_invI)
    show "wf_alist (ca_translatedIngresses ?c)" by (simp add: al.wf_remove D(1))
    show "cc_inv (ca_clusters ?c)" by (simp add: cs.inv_retire_all D(2))
    have "ti_domains ti \<inter> ti_domains old = {}" if "ti \<in> ran ((caches_abs c)(k := None))" for ti
      using that D(5) [OF _ Some] by (auto simp: ran_def split: if_split_asm)
    moreover have "ran (caches_abs c) = insert old (ran ((caches_abs c)(k := None)))"
      using Some by (auto simp: ran_def) (metis option.inject)
    ultimately show "ca_domainsInUse ?c = (\<Union>ti \<in> ran (caches_abs ?c). ti_domains ti)"
      unfolding abs by (simp add: D(4)) blast
  next
    fix k' ti j v t assume a: "caches_abs ?c k' = Some ti" "map_of (rev (ti_kvs ti)) j = Some v"
    then have ti: "caches_abs c k' = Some ti" "k' \<noteq> k" by (auto simp: abs split: if_split_asm)
    have "j \<notin> fst ` set (ti_kvs old)"
      using ti_kvs_disjoint [of ti old j] D(3) [OF ti(1)] D(3) [OF Some] ti(2) map_of_kvs [OF a(2)]
      by (auto dest: ti_wf_facts)
    then show "cc_live (ca_clusters ?c) t j = Some v"
      using cs.live_retire_all_other [OF D(2) now, of j "map fst (ti_kvs old)" t] D(6) [OF ti(1) a(2)]
      by simp
  qed (use D(3,5) in \<open>auto simp: abs split: if_split_asm\<close>)
  then show ?thesis using that [OF delete_result [OF I Some]] abs by blast
qed

section \<open>Adding and updating\<close>

text \<open>A translation clashes with the ingresses of a map when it shares a domain with one of them.\<close>

definition clashes :: "(NamespacedName \<rightharpoonup> translatedIngress) \<Rightarrow> translatedIngress \<Rightarrow> bool" where
  "clashes m ti \<longleftrightarrow> (\<exists>ti' \<in> ran m. ti_domains ti \<inter> ti_domains ti' \<noteq> {})"

lemma validate_clashes:
  assumes "caches_inv c" "ti_wf ti"
  shows "validateIngress c ti =
    (if clashes (caches_abs c) ti then Inl (Err ErrDomainConflict) else Inr ())"
  using validateIngress_wf [OF assms(2), of c] caches_invD(4) [OF assms(1)]
  by (auto simp: clashes_def)

lemma add_step:
  assumes I: "caches_inv c" and W: "ti_wf ti" and ok: "\<not> clashes (caches_abs c) ti"
    and free: "caches_abs c (ti_name ti) = None"
  obtains c' where "addTranslatedIngress now c ti = Inr c'" "caches_inv c'"
    "caches_abs c' = (caches_abs c)(ti_name ti \<mapsto> ti)"
proof -
  note D = caches_invD [OF I]
  let ?c = "c\<lparr>ca_domainsInUse := ca_domainsInUse c \<union> ti_domains ti,
      ca_translatedIngresses := AList.update (ti_name ti) ti (ca_translatedIngresses c),
      ca_clusters := cs.put_all (ti_kvs ti) (ca_clusters c)\<rparr>"
  have eq: "addTranslatedIngress now c ti = Inr ?c"
    using validate_clashes [OF I W] ok
    by (simp add: addTranslatedIngress_def insert_domains_wf [OF W] set_clusters_put)
  have abs: "caches_abs ?c = (caches_abs c)(ti_name ti \<mapsto> ti)"
    by (simp add: caches_abs_def al.lookup_update)
  have disj: "ti_domains ti \<inter> ti_domains ti' = {}" "ti_domains ti' \<inter> ti_domains ti = {}" if "caches_abs c k = Some ti'" for k ti'
    using ok that by (auto simp: clashes_def ran_def)
  have "caches_inv ?c"
  proof (rule caches_invI)
    show "wf_alist (ca_translatedIngresses ?c)" by (simp add: al.wf_update D(1))
    show "cc_inv (ca_clusters ?c)" by (simp add: cs.inv_put_all D(2))
    show "ca_domainsInUse ?c = (\<Union>ti \<in> ran (caches_abs ?c). ti_domains ti)"
      unfolding abs using ran_map_upd [of "caches_abs c" "ti_name ti" ti] free
      by (simp add: D(4) Un_commute)
  next
    fix k ti' j v t
    assume a: "caches_abs ?c k = Some ti'" "map_of (rev (ti_kvs ti')) j = Some v"
    note live = cs.live_put_all [OF D(2), of "ti_kvs ti" t]
    show "cc_live (ca_clusters ?c) t j = Some v"
    proof (cases "k = ti_name ti")
      case True
      then have "ti' = ti" using a(1) by (simp add: abs)
      then show ?thesis using a(2) by (simp add: live)
    next
      case False
      then have ti': "caches_abs c k = Some ti'" using a(1) by (simp add: abs)
      have "j \<notin> fst ` set (ti_kvs ti)"
        using ti_kvs_disjoint [of ti' ti j] D(3) [OF ti'] W False map_of_kvs [OF a(2)]
        by (auto dest: ti_wf_facts)
      then have "map_of (rev (ti_kvs ti)) j = None" by (simp add: map_of_eq_None_iff)
      then show ?thesis using D(6) [OF ti' a(2)] by (simp add: live map_add_def)
    qed
  qed (use D(3,5) W disj in \<open>auto simp: abs simp del: Int_iff disjoint_iff split: if_split_asm\<close>)
  then show ?thesis using that eq abs by blast
qed

text \<open>
  What \<^verbatim>\<open>UpdateIngress\<close> is specified to do to the map: replace the ingress's translation, or leave
  the ingress out and report the conflict when the new translation clashes with another one.
\<close>

definition spec_update ::
  "translatedIngress \<Rightarrow> (NamespacedName \<rightharpoonup> translatedIngress) \<Rightarrow>
   unit res \<times> (NamespacedName \<rightharpoonup> translatedIngress)" where
  "spec_update ti m =
     (let m' = m(ti_name ti := None) in
      if clashes m' ti then (Inl (Err ErrDomainConflict), m') else (Inr (), m'(ti_name ti \<mapsto> ti)))"

lemma update_step:
  assumes I: "caches_inv c" and W: "ti_wf ti" and now: "0 \<le> now"
  obtains r c' where "UpdateIngress now c ti = (r, c')" "caches_inv c'"
    "(r, caches_abs c') = spec_update ti (caches_abs c)"
proof -
  obtain c1 where c1: "deleteTranslatedIngress now c (nn_Name (ti_name ti)) (nn_Namespace (ti_name ti)) = Inr c1"
    "caches_inv c1" "caches_abs c1 = (caches_abs c)(ti_name ti := None)"
    using delete_step [OF I now] by blast
  show ?thesis
  proof (cases "clashes (caches_abs c1) ti")
    case True
    then have "UpdateIngress now c ti = (Inl (Err ErrDomainConflict), c1)"
      using c1(1) validate_clashes [OF c1(2) W] by (simp add: UpdateIngress_def addTranslatedIngress_def)
    then show ?thesis using that c1 True by (simp add: spec_update_def)
  next
    case False
    obtain c2 where "addTranslatedIngress now c1 ti = Inr c2" "caches_inv c2"
      "caches_abs c2 = (caches_abs c1)(ti_name ti \<mapsto> ti)"
      using add_step [OF c1(2) W False] c1(3) by auto
    then show ?thesis using that [of "Inr ()" c2] c1 False by (simp add: spec_update_def UpdateIngress_def)
  qed
qed

section \<open>Evicting\<close>

lemma evict_inv:
  assumes "caches_inv c" "evict_clusters now c = Inr (c', calls)"
  shows "caches_inv c' \<and> caches_abs c' = caches_abs c"
proof -
  note D = caches_invD [OF assms(1)]
  have c': "c' = c\<lparr>ca_clusters := fst (cc_evict now (ca_clusters c))\<rparr>"
    using assms(2) by (auto simp: evict_clusters_def go_simps split: prod.splits)
  then have abs: "caches_abs c' = caches_abs c" by (simp add: caches_abs_def)
  have "caches_inv c'"
  proof (rule caches_invI)
    fix k ti j v t assume "caches_abs c' k = Some ti" "map_of (rev (ti_kvs ti)) j = Some v"
    then have "cc_live (ca_clusters c) t j = Some v" for t using D(6) abs by simp
    then show "cc_live (ca_clusters c') t j = Some v"
      using cs.sweep_keeps [OF D(2)] by (simp add: c')
  qed (use D cs.inv_sweep [OF D(2)] in \<open>simp_all add: abs [unfolded c'] c'\<close>)
  then show ?thesis using abs by simp
qed

end
