(* ===== verification/Caches_Props.thy ===== *)
theory Caches_Props
  imports Caches_Inv Translator_Props
begin

text \<open>
  The caches fed by the translator: which translations they can hold, the caches as a transition
  system, and their properties.
\<close>

section \<open>Translations in the caches\<close>

definition ing_domains :: "Ingress \<Rightarrow> string set" where
  "ing_domains ing = (\<Union>rule \<in> set (ing_Rules ing). set (domainsForRule rule))"

text \<open>Without external authorization, a translation is one the caches can hold.\<close>

lemma translation_wf:
  assumes "translateIngress w t ctx ing False s = (Inr (Some ti), s')" "name_ok (ing_nn ing)"
  shows "ti_wf ti" "ti_domains ti = ing_domains ing" "ti_name ti = ing_nn ing"
proof -
  have ti: "ti = spec_translation w t ctx ing False s"
    using assms(1) by (simp add: translateIngress_exits translate_Inr)
  have vh: "rule_vhost w ing False i nr \<noteq> None"
    "set (vh_Domains (the (rule_vhost w ing False i nr))) = set (domainsForRule (snd nr))" for i nr
    by (simp_all add: rule_vhost_def Let_def)
  let ?nrs = "enumerate 0 (ing_Rules ing)"
  have doms: "vhosts_domains (internal_vhosts w ing False ?nrs i) = ing_domains ing" for i
  proof -
    have "vhosts_domains (map (rule_vhost w ing False i) nrs) = (\<Union>nr \<in> set nrs. set (domainsForRule (snd nr)))"
      for nrs
      by (induction nrs) (auto simp: vhosts_domains_def rule_vhost_def Let_def)
    then show ?thesis
      using arg_cong [OF map_snd_enumerate [of domainsForRule 0 "ing_Rules ing"], of "\<lambda>xs. \<Union> (set ` set xs)"]
      by (simp add: internal_vhosts_def ing_domains_def image_image)
  qed
  have int: "ti_internalVirtualHosts ti = region_table (internal_vhosts w ing False ?nrs)"
    and name: "ti_name ti = ing_nn ing"
    by (simp_all add: ti spec_translation_def Let_def)
  have "None \<notin> set (internal_vhosts w ing False ?nrs i)" for i
    by (auto simp: internal_vhosts_def rule_vhost_def Let_def)
  then show wf: "ti_wf ti"
    unfolding ti_wf_def all_region using assms(2) by (simp add: int name doms)
  show "ti_domains ti = ing_domains ing" using ti_wf_domains [OF wf] by (simp add: int doms)
  show "ti_name ti = ing_nn ing" by (rule name)
qed

section \<open>The caches as a transition system\<close>

inductive caches_init :: "Caches \<Rightarrow> bool" where
  "NewCaches mar authz now extAuthz = Inr c \<Longrightarrow> caches_init c"

inductive caches_step :: "Caches \<Rightarrow> Caches \<Rightarrow> bool" where
  Update: "0 \<le> now \<Longrightarrow> name_ok (ing_nn ing) \<Longrightarrow>
    translateIngress w t ctx ing False s = (Inr (Some ti), s') \<Longrightarrow>
    UpdateIngress now c ti = (r, c') \<Longrightarrow> caches_step c c'"
| Delete: "0 \<le> now \<Longrightarrow> DeleteIngressInfo now c n ns = Inr c' \<Longrightarrow> caches_step c c'"
| Evict: "evict_clusters now c = Inr (c', calls) \<Longrightarrow> caches_step c c'"

inductive_cases caches_stepE: "caches_step c c'"
inductive_cases caches_initE: "caches_init c"

lemma NewCaches_inv:
  assumes "NewCaches mar authz now extAuthz = Inr c"
  shows "caches_inv c" "caches_abs c = Map.empty"
proof -
  have c: "ca_translatedIngresses c = []" "ca_domainsInUse c = {}" "cc_inv (ca_clusters c)"
    using assms cc_inv_new cs.inv_put
    by (auto simp: NewCaches_def Let_def go_simps deref_def cc_set_put split: if_split_asm option.splits)
  then show "caches_abs c = Map.empty" by (simp add: caches_abs_def)
  then show "caches_inv c" using c by (intro caches_invI) simp_all
qed

interpretation cts: transition_system caches_init caches_step caches_inv
proof unfold_locales
  fix s assume "caches_init s"
  then show "caches_inv s" by (auto elim!: caches_initE intro: NewCaches_inv)
next
  fix c c' assume I: "caches_inv c" and "caches_step c c'"
  from this(2) show "caches_inv c'"
  proof (rule caches_stepE)
    fix now ing w t ctx s ti s' r
    assume a: "0 \<le> now" "name_ok (ing_nn ing)"
      "translateIngress w t ctx ing False s = (Inr (Some ti), s')" "UpdateIngress now c ti = (r, c')"
    show ?thesis
      using update_step [OF I translation_wf(1) [OF a(3,2)] a(1)] a(4) by (metis prod.inject)
  next
    fix now n ns assume a: "0 \<le> now" "DeleteIngressInfo now c n ns = Inr c'"
    then show ?thesis
      using delete_step [OF I a(1), of "\<lparr>nn_Namespace = ns, nn_Name = n\<rparr>"]
      by (auto simp: DeleteIngressInfo_def)
  next
    fix now calls assume "evict_clusters now c = Inr (c', calls)"
    then show ?thesis using evict_inv [OF I] by blast
  qed
qed

section \<open>Example states\<close>

definition ex_caches :: Caches where
  "ex_caches = projr (NewCaches (\<lambda>_. None) ExternalAuthz_default 0 False)"

definition ex_other_ingress :: "string \<Rightarrow> Ingress" where
  "ex_other_ingress host = (ex_ingress ''hello'')\<lparr>ing_Name := ''other'',
     ing_Rules := [ex_rule host ''hello'' ClusterLocal]\<rparr>"

definition ex_other_ti :: "string \<Rightarrow> translatedIngress" where
  "ex_other_ti host = spec_translation ex_world ex_translator None (ex_other_ingress host) False ex_state"

definition ex_caches1 :: Caches where
  "ex_caches1 = snd (UpdateIngress 0 ex_caches ex_ti)"

definition ex_caches2 :: Caches where
  "ex_caches2 = snd (UpdateIngress 1 ex_caches1 (ex_other_ti ''o.io''))"

lemma ex_new: "NewCaches (\<lambda>_. None) ExternalAuthz_default 0 False = Inr ex_caches"
  by (simp add: ex_caches_def NewCaches_def Let_def)

lemma ex_translations:
  "translateIngress ex_world ex_translator None (ex_ingress ''hello'') False ex_state =
     (Inr (Some ex_ti), spec_state ex_translator (ex_ingress ''hello'') ex_state)"
  "translateIngress ex_world ex_translator None (ex_other_ingress ''o.io'') False ex_state =
     (Inr (Some (ex_other_ti ''o.io'')), spec_state ex_translator (ex_other_ingress ''o.io'') ex_state)"
  "translateIngress ex_world ex_translator None (ex_other_ingress ''h.io'') False ex_state =
     (Inr (Some (ex_other_ti ''h.io'')), spec_state ex_translator (ex_other_ingress ''h.io'') ex_state)"
  unfolding ex_ti_def ex_other_ti_def by (rule translateIngress_translatable, code_simp)+

lemma ex_names: "name_ok (ing_nn (ex_ingress ''hello''))" "name_ok (ing_nn (ex_other_ingress host))"
  by (simp_all add: name_ok_def ing_nn_def ex_ingress_def ex_other_ingress_def)

lemma ex_wf: "ti_wf ex_ti" "ti_wf (ex_other_ti ''o.io'')" "ti_wf (ex_other_ti ''h.io'')"
  using translation_wf(1) ex_translations ex_names by blast+

lemma ex_reachable: "caches_init ex_caches" "caches_step ex_caches ex_caches1"
  "caches_step ex_caches1 ex_caches2" "caches_step\<^sup>*\<^sup>* ex_caches ex_caches1" "caches_step\<^sup>*\<^sup>* ex_caches ex_caches2"
proof -
  show i: "caches_init ex_caches" by (rule caches_init.intros [OF ex_new])
  show s1: "caches_step ex_caches ex_caches1"
    by (rule caches_step.Update [OF _ ex_names(1) ex_translations(1), of 0])
      (simp_all add: ex_caches1_def prod_eq_iff)
  show s2: "caches_step ex_caches1 ex_caches2"
    by (rule caches_step.Update [OF _ ex_names(2) ex_translations(2), of 1])
      (simp_all add: ex_caches2_def prod_eq_iff)
  show "caches_step\<^sup>*\<^sup>* ex_caches ex_caches1" using s1 by blast
  show "caches_step\<^sup>*\<^sup>* ex_caches ex_caches2" using s1 s2 by (meson converse_rtranclp_into_rtranclp r_into_rtranclp)
qed

lemma ex_abs:
  "caches_abs ex_caches2 \<lparr>nn_Namespace = ''default'', nn_Name = ''hello''\<rparr> = Some ex_ti"
  "caches_abs ex_caches2 \<lparr>nn_Namespace = ''default'', nn_Name = ''other''\<rparr> = Some (ex_other_ti ''o.io'')"
  by code_simp+

section \<open>Properties\<close>

text \<open>
  C2: \<^verbatim>\<open>UpdateIngress\<close> refines its specification on the map of translations. For every translation of an
  ingress without external authorization, whose name has no colon, it returns without a panic; it
  replaces the translation of the ingress when the new one shares no domain with another
  ingress, and otherwise reports the conflict and leaves the ingress without a translation; and
  it keeps the invariant of the caches. (The translations made with external authorization have nil virtual hosts; they
  are the subject of a property of their own.)
\<close>

theorem UpdateIngress_refines:
  assumes "caches_inv c" "0 \<le> now" "name_ok (ing_nn ing)"
    and "translateIngress w t ctx ing False s = (Inr (Some ti), s')"
  shows "case UpdateIngress now c ti of (r, c') \<Rightarrow>
    caches_inv c' \<and> (r, caches_abs c') = spec_update ti (caches_abs c)"
  by (rule update_step [OF assms(1) translation_wf(1) [OF assms(4,3)] assms(2)]) simp

theorem UpdateIngress_refines_witness:
  "case UpdateIngress 0 ex_caches ex_ti of (r, c') \<Rightarrow>
    caches_inv c' \<and> (r, caches_abs c') = spec_update ex_ti (caches_abs ex_caches)"
  by (rule UpdateIngress_refines [OF NewCaches_inv(1) [OF ex_new] _ ex_names(1) ex_translations(1)]) simp

text \<open>
  \<^verbatim>\<open>DeleteIngressInfo\<close> always returns, removes exactly the given ingress from the map of
  translations, and keeps the invariant.
\<close>

lemma DeleteIngressInfo_refines:
  assumes "caches_inv c" "0 \<le> now"
  shows "\<exists>c'. DeleteIngressInfo now c n ns = Inr c' \<and> caches_inv c' \<and>
    caches_abs c' = (caches_abs c)(\<lparr>nn_Namespace = ns, nn_Name = n\<rparr> := None)"
  using delete_step [OF assms, of "\<lparr>nn_Namespace = ns, nn_Name = n\<rparr>"]
  by (auto simp: DeleteIngressInfo_def)


text \<open>
  In every state the caches can reach by updates with translated ingresses, deletions and
  evictions, no two ingresses share a domain, and \<^verbatim>\<open>domainsInUse\<close> is exactly the set of domains of
  the stored translations.
\<close>

lemma reachable_domains_disjoint:
  assumes "caches_init c0" "caches_step\<^sup>*\<^sup>* c0 c"
    and "caches_abs c k = Some ti" "caches_abs c k' = Some ti'" "k \<noteq> k'"
  shows "ti_domains ti \<inter> ti_domains ti' = {} \<and>
    ca_domainsInUse c = (\<Union>ti \<in> ran (caches_abs c). ti_domains ti)"
proof -
  have I: "caches_inv c" by (rule cts.reachable_inv [OF assms(1,2)])
  show ?thesis by (rule conjI [OF caches_invD(5) [OF I assms(3-5)] caches_invD(4) [OF I]])
qed

text \<open>
  In a reachable state, an update with the translation of an ingress is rejected with
  \<^verbatim>\<open>ErrDomainConflict\<close> exactly when a rule of the ingress has a domain in common with the
  translation of another ingress; otherwise it succeeds.
\<close>

lemma update_conflict_iff:
  assumes "caches_init c0" "caches_step\<^sup>*\<^sup>* c0 c" "0 \<le> now" "name_ok (ing_nn ing)"
    and "translateIngress w t ctx ing False s = (Inr (Some ti), s')"
  shows "fst (UpdateIngress now c ti) =
    (if \<exists>k ti'. k \<noteq> ing_nn ing \<and> caches_abs c k = Some ti' \<and> ing_domains ing \<inter> ti_domains ti' \<noteq> {}
     then Inl (Err ErrDomainConflict) else Inr ())"
proof -
  note T = translation_wf [OF assms(5,4)]
  have "(fst (UpdateIngress now c ti), caches_abs (snd (UpdateIngress now c ti))) =
      spec_update ti (caches_abs c)"
    using update_step [OF cts.reachable_inv [OF assms(1,2)] T(1) assms(3)] by (metis fst_conv snd_conv)
  then have "fst (UpdateIngress now c ti) = fst (spec_update ti (caches_abs c))"
    by (metis fst_conv)
  also have "clashes ((caches_abs c)(ti_name ti := None)) ti \<longleftrightarrow>
      (\<exists>k ti'. k \<noteq> ing_nn ing \<and> caches_abs c k = Some ti' \<and> ing_domains ing \<inter> ti_domains ti' \<noteq> {})"
    unfolding clashes_def T(2,3) ran_def by (auto split: if_split_asm)
  ultimately show ?thesis by (simp add: spec_update_def Let_def)
qed


text \<open>
  C25: Replacing a translation never takes a cluster away abruptly: after a successful update with a translation that has no nil virtual host and
  the same domains in every region, as all have that are made without external authorization, every
  cluster of the new translation is in the cache for good; a cluster of the old translation that
  the new one does not have stays for exactly the grace period; nothing else changes.
\<close>

theorem update_cluster_lifetimes:
  assumes "caches_inv c" "ti_wf ti" "0 \<le> now" "caches_abs c (ti_name ti) = Some old"
    and "UpdateIngress now c ti = (Inr (), c')"
  shows "cc_live (ca_clusters c') u j =
    (if j \<in> fst ` set (ti_kvs ti) then map_of (rev (ti_kvs ti)) j
     else if j \<in> fst ` set (ti_kvs old)
     then (if u \<le> now + cc_clusterExpiration (ca_clusters c) then map_of (rev (ti_kvs old)) j else None)
     else cc_live (ca_clusters c) u j)"
proof -
  note D = caches_invD [OF assms(1)]
  note del = delete_result [OF assms(1,4), of now]
  have c': "ca_clusters c' = cs.put_all (ti_kvs ti) (cs.retire_all now (map fst (ti_kvs old)) (ca_clusters c))"
    using assms(5) del
    by (auto simp: UpdateIngress_def addTranslatedIngress_def go_simps set_clusters_put
        split: sum.split_asm)
  have grace: "0 \<le> cc_clusterExpiration (ca_clusters c)" using D(2) by (simp add: cc_inv_def)
  note R = cs.live_replace [OF D(2) assms(3) grace, of j "ti_kvs ti" "map fst (ti_kvs old)"]
  show ?thesis
  proof (cases "j \<in> fst ` set (ti_kvs old)")
    case True
    then obtain v where v: "map_of (rev (ti_kvs old)) j = Some v"
      by (metis map_of_eq_None_iff not_None_eq set_rev)
    then show ?thesis using R(1,2) D(6) [OF assms(4) v] True by (simp add: c')
  next
    case False
    then show ?thesis using R(1,3) by (simp add: c')
  qed
qed

theorem update_cluster_lifetimes_witness:
  "cc_live (ca_clusters (snd (UpdateIngress 9 ex_caches1 ex_ti))) 100
     (key ''default/hello_region3'' ''hello'' ''default'') =
   map_of (rev (ti_kvs ex_ti)) (key ''default/hello_region3'' ''hello'' ''default'')"
proof -
  have "UpdateIngress 9 ex_caches1 ex_ti = (Inr (), snd (UpdateIngress 9 ex_caches1 ex_ti))"
    "caches_abs ex_caches1 (ti_name ex_ti) = Some ex_ti"
    "key ''default/hello_region3'' ''hello'' ''default'' \<in> fst ` set (ti_kvs ex_ti)"
    by code_simp+
  then show ?thesis
    using update_cluster_lifetimes [OF cts.reachable_inv [OF ex_reachable(1,4)] ex_wf(1), of 9 ex_ti] by simp
qed

text \<open>
  C40: With external authorization enabled no ingress that has a rule can be installed: the virtual
  hosts of the second and third region are nil, and \<^verbatim>\<open>UpdateIngress\<close> either reports a conflict of
  the first region or dereferences a nil pointer.
\<close>

theorem ext_authz_never_installs:
  assumes "caches_inv c" "0 \<le> now" "ing_Rules ing \<noteq> []"
    and "translateIngress w t ctx ing True s = (Inr (Some ti), s')"
  shows "fst (UpdateIngress now c ti) \<in> {Inl (Err ErrDomainConflict), Inl (Panic NilDereference)}"
proof -
  have ti: "ti = spec_translation w t ctx ing True s"
    using assms(4) by (simp add: translateIngress_exits translate_Inr)
  let ?nrs = "enumerate 0 (ing_Rules ing)"
  let ?v = "\<lambda>i. internal_vhosts w ing True ?nrs i"
  have int: "ti_internalVirtualHosts ti = region_table ?v"
    by (simp add: ti spec_translation_def Let_def)
  obtain nr nrs where nrs: "?nrs = nr # nrs" using assms(3) by (cases "ing_Rules ing") auto
  then have v1: "?v 1 = None # map (rule_vhost w ing True 1) nrs"
    by (simp add: internal_vhosts_def rule_vhost_def Let_def)
  have val: "validateIngress c1 ti \<in> {Inl (Err ErrDomainConflict), Inl (Panic NilDereference)}" for c1
  proof -
    have "None \<notin> set (?v 0)" by (auto simp: internal_vhosts_def rule_vhost_def Let_def)
    then show ?thesis
      unfolding validateIngress_def upto_regions using v1
      by (simp add: int foldM_validate region_table_eq index_get_def)
  qed
  obtain c1 where "deleteTranslatedIngress now c (nn_Name (ti_name ti)) (nn_Namespace (ti_name ti)) = Inr c1"
    using delete_step [OF assms(1,2)] by blast
  then show ?thesis
    using val [of c1] by (auto simp: UpdateIngress_def addTranslatedIngress_def)
qed

theorem ext_authz_never_installs_witness:
  "fst (UpdateIngress 0 ex_caches
     (spec_translation ex_world ex_translator None (ex_ingress ''hello'') True ex_state)) \<in>
   {Inl (Err ErrDomainConflict), Inl (Panic NilDereference)}"
proof (rule ext_authz_never_installs [OF NewCaches_inv(1) [OF ex_new]])
  show "translateIngress ex_world ex_translator None (ex_ingress ''hello'') True ex_state =
      (Inr (Some (spec_translation ex_world ex_translator None (ex_ingress ''hello'') True ex_state)),
       spec_state ex_translator (ex_ingress ''hello'') ex_state)"
    by (rule translateIngress_translatable) code_simp
qed (simp_all add: ex_ingress_def)

end
