(* ===== verification/Snapshot_Props.thy ===== *)
theory Snapshot_Props
  imports Snapshot Caches_Props
begin

text \<open>
  The properties of the snapshots: what they contain per region, that their routes only refer to
  clusters they contain, that they do not depend on the order in which maps are visited, and the
  configurations for which building one panics.
\<close>

section \<open>Collecting the translations\<close>

definition region_vhosts ::
  "(translatedIngress \<Rightarrow> VirtualHost option list list) \<Rightarrow> (NamespacedName \<times> translatedIngress) list \<Rightarrow>
   nat \<Rightarrow> VirtualHost option list" where
  "region_vhosts sel tis i = concat (map (\<lambda>kt. sel (snd kt) ! i) tis)"

definition all_snis :: "(NamespacedName \<times> translatedIngress) list \<Rightarrow> nat list" where
  "all_snis tis = concat (map (\<lambda>kt. ti_sniMatches (snd kt)) tis)"

lemma consume_all_append: "consume_all hs (a @ b) = consume_all (consume_all hs a) b"
  by (simp add: consume_all_def)

lemma collect_eq:
  "collect h tis =
     ((region_table (region_vhosts ti_internalVirtualHosts tis),
       region_table (region_vhosts ti_externalVirtualHosts tis),
       region_table (region_vhosts ti_externalTLSVirtualHosts tis)),
      consume_all (h, []) (all_snis tis))"
proof (induction tis rule: rev_induct)
  case Nil
  show ?case
    by (simp only: collect_def Let_def region_table_empty foldl_Nil)
      (simp add: region_vhosts_def all_snis_def consume_all_def region_table_eq)
next
  case (snoc kt tis)
  have "collect h (tis @ [kt]) = collect_step (collect h tis) kt"
    by (simp add: collect_def Let_def)
  also have "\<dots> = ((region_table (region_vhosts ti_internalVirtualHosts (tis @ [kt])),
       region_table (region_vhosts ti_externalVirtualHosts (tis @ [kt])),
       region_table (region_vhosts ti_externalTLSVirtualHosts (tis @ [kt]))),
      consume_all (h, []) (all_snis (tis @ [kt])))"
    unfolding snoc
    by (simp add: collect_step_def region_table_eq append_at_def region_vhosts_def all_snis_def
        consume_all_append Let_def)
  finally show ?case .
qed

lemma ToEnvoySnapshot_eq:
  fixes caches ords
  defines "tis \<equiv> so_ingresses ords (ca_translatedIngresses caches)"
  shows "ToEnvoySnapshot env ords ctx now version h caches =
    (let (h', snis) = consume_all (h, []) (all_snis tis) in
     (bindr (generateListenersAndRouteConfigsAndClusters env ctx
         (region_table (region_vhosts ti_externalVirtualHosts tis))
         (region_table (region_vhosts ti_externalTLSVirtualHosts tis))
         (region_table (\<lambda>i. region_vhosts ti_internalVirtualHosts tis i @ [Some (ca_statusVirtualHost caches)]))
         (map (\<lambda>p. h' ! p) (sni_list (so_snis ords) snis))) (\<lambda>(listeners, routes, clusters).
       Inr (NewSnapshot version (cc_list (so_clusters ords) now (ca_clusters caches) @ clusters)
              routes listeners)), h'))"
  unfolding ToEnvoySnapshot_def collect_eq tis_def [symmetric] Let_def prod.case region_table_fold
  by (simp add: split_beta)

section \<open>A snapshot without HTTPS\<close>

definition route_cfg_ext :: "VirtualHost option list list \<Rightarrow> nat \<Rightarrow> RouteConfiguration" where
  "route_cfg_ext tls i = NewRouteConfig (externalRouteConfigName ! i) (tls ! i)"

definition route_cfg_int :: "VirtualHost option list list \<Rightarrow> nat \<Rightarrow> RouteConfiguration" where
  "route_cfg_int loc i = NewRouteConfig (internalRouteConfigName ! i) (loc ! i)"

definition plain_routes ::
  "VirtualHost option list list \<Rightarrow> VirtualHost option list list \<Rightarrow> RouteConfiguration list" where
  "plain_routes tls loc = concat (map (\<lambda>i. [route_cfg_ext tls i, route_cfg_int loc i]) [0..<length regions])"

definition managers :: "snap_env \<Rightarrow> Kourier \<Rightarrow> string list \<Rightarrow> HttpConnectionManager list" where
  "managers env cfg names =
     map (\<lambda>n. NewHTTPConnectionManager (w_mar (se_world env)) (se_authz env) n cfg) names"

text \<open>
  The cluster answers all three listener builders, messages can be serialised, and neither a
  cluster certificate nor a single certificate is configured.
\<close>

definition plain_env :: "snap_env \<Rightarrow> Kourier \<Rightarrow> (nat \<Rightarrow> Node list) \<Rightarrow> (nat \<Rightarrow> IPAMBlock list) \<Rightarrow> bool" where
  "plain_env env cfg nodes blocks \<longleftrightarrow>
     marshals_all (w_mar (se_world env)) \<and> ClusterCertSecret cfg = [] \<and>
     (\<forall>n < length regions. kube_ok (se_kube env n) (nodes n) (blocks n))"

definition plain_listeners ::
  "snap_env \<Rightarrow> Kourier \<Rightarrow> (nat \<Rightarrow> Node list) \<Rightarrow> (nat \<Rightarrow> IPAMBlock list) \<Rightarrow> Listener list" where
  "plain_listeners env cfg nodes blocks =
     [dual_listener (se_kube env 0) (nodes 0) (blocks 0) (managers env cfg externalRouteConfigName)
        HTTPPortExternal (EnableProxyProtocol cfg),
      dual_listener (se_kube env 1) (nodes 1) (blocks 1) (managers env cfg internalRouteConfigName)
        HTTPPortInternal False,
      dual_listener (se_kube env 2) (nodes 2) (blocks 2) (managers env cfg externalRouteConfigName)
        HTTPPortProb False]"

lemma generate_plain:
  assumes "plain_env env (cfg_Kourier (FromContextOrDefaults ctx)) nodes blocks"
  shows "generateListenersAndRouteConfigsAndClusters env ctx ext tls loc snis =
    bindr (if length snis > 0
           then https_with_sni env (cfg_Kourier (FromContextOrDefaults ctx))
                  (managers env (cfg_Kourier (FromContextOrDefaults ctx)) externalRouteConfigName)
                  (managers env (cfg_Kourier (FromContextOrDefaults ctx)) externalTLSRouteConfigName)
                  (map (\<lambda>i. NewRouteConfig (externalTLSRouteConfigName ! i) (tls ! i)) [0..<length regions])
                  snis (plain_listeners env (cfg_Kourier (FromContextOrDefaults ctx)) nodes blocks, plain_routes tls loc)
           else if useHTTPSListenerWithOneCert (w_env (se_world env))
           then https_with_one_cert env (cfg_Kourier (FromContextOrDefaults ctx))
                  (managers env (cfg_Kourier (FromContextOrDefaults ctx)) externalTLSRouteConfigName)
                  (map (\<lambda>i. NewRouteConfig (externalTLSRouteConfigName ! i) (tls ! i)) [0..<length regions])
                  (plain_listeners env (cfg_Kourier (FromContextOrDefaults ctx)) nodes blocks, plain_routes tls loc)
           else Inr (plain_listeners env (cfg_Kourier (FromContextOrDefaults ctx)) nodes blocks, plain_routes tls loc))
      (\<lambda>(listeners, routes). Inr (listeners, routes,
         if tr_Enabled (kTracing (cfg_Kourier (FromContextOrDefaults ctx)))
         then [jaegerCluster (cfg_Kourier (FromContextOrDefaults ctx))] else []))"
proof -
  let ?cfg = "cfg_Kourier (FromContextOrDefaults ctx)"
  note P = assms [unfolded plain_env_def all_region]
  let ?mgr = "\<lambda>rc. NewHTTPConnectionManager (w_mar (se_world env)) (se_authz env) (rc_Name rc) ?cfg"
  have mgrs: "map ?mgr (map (\<lambda>i. NewRouteConfig (externalRouteConfigName ! i) (tls ! i)) [0..<length regions]) =
      managers env ?cfg externalRouteConfigName"
    "map ?mgr (map (\<lambda>i. NewRouteConfig (externalTLSRouteConfigName ! i) (tls ! i)) [0..<length regions]) =
      managers env ?cfg externalTLSRouteConfigName"
    "map ?mgr (map (\<lambda>i. NewRouteConfig (internalRouteConfigName ! i) (loc ! i)) [0..<length regions]) =
      managers env ?cfg internalRouteConfigName"
    by (simp_all add: managers_def externalRouteConfigName_def externalTLSRouteConfigName_def
        internalRouteConfigName_def)
  have len: "length regions \<le> length (managers env ?cfg externalRouteConfigName)"
    "length regions \<le> length (managers env ?cfg internalRouteConfigName)"
    by (simp_all add: managers_def externalRouteConfigName_def internalRouteConfigName_def)
  have dual: "NewHTTPListenerDual (w_mar (se_world env)) (se_kube env 0) (managers env ?cfg externalRouteConfigName) p b =
      Inr (dual_listener (se_kube env 0) (nodes 0) (blocks 0) (managers env ?cfg externalRouteConfigName) p b)"
    "NewHTTPListenerDual (w_mar (se_world env)) (se_kube env 1) (managers env ?cfg internalRouteConfigName) p b =
      Inr (dual_listener (se_kube env 1) (nodes 1) (blocks 1) (managers env ?cfg internalRouteConfigName) p b)"
    "NewHTTPListenerDual (w_mar (se_world env)) (se_kube env 2) (managers env ?cfg externalRouteConfigName) p b =
      Inr (dual_listener (se_kube env 2) (nodes 2) (blocks 2) (managers env ?cfg externalRouteConfigName) p b)"
    for p b
    using P len by (auto intro!: NewHTTPListenerDual_ok)
  have routes: "concat (map (\<lambda>i. [map (\<lambda>i. NewRouteConfig (externalRouteConfigName ! i) (tls ! i)) [0..<length regions] ! i,
      map (\<lambda>i. NewRouteConfig (internalRouteConfigName ! i) (loc ! i)) [0..<length regions] ! i]) [0..<length regions]) =
      plain_routes tls loc"
    by (simp add: plain_routes_def route_cfg_ext_def route_cfg_int_def)
  have tls: "internal_tls env ?cfg loc acc = Inr acc" for acc
    using P by (simp add: internal_tls_def)
  show ?thesis
    unfolding generateListenersAndRouteConfigsAndClusters_def Let_def mgrs dual routes bindr_simps tls
      plain_listeners_def by simp
qed

section \<open>HTTPS always panics\<close>

lemma assign_index_nil: "\<exists>f. assign_index [] i call = Inl f"
  by (cases call) (auto simp: assign_index_def split: fault.split)

lemma foldM_first_Inl:
  assumes "\<And>j. \<exists>f. g a j = Inl f"
  shows "\<exists>f. foldM g a [0..<length regions] = Inl f"
  using assms [of 0] unfolding upto_regions by auto

lemma https_with_sni_Inl: "\<exists>f. https_with_sni env cfg em tm trc snis acc = Inl f"
proof -
  have "\<exists>f. foldM (\<lambda>xs i. assign_index xs i (NewHTTPSListenerWithSNI (w_mar (se_world env))
      (tm ! i) HTTPSPortExternal snis cfg)) [] [0..<length regions] = Inl f"
    by (rule foldM_first_Inl) (rule assign_index_nil)
  then show ?thesis unfolding https_with_sni_def by auto
qed

lemma https_with_one_cert_Inl: "\<exists>f. https_with_one_cert env cfg tm trc acc = Inl f"
proof -
  have "\<exists>f. bindr (assign_index [] j call) k = Inl f" for j call and k :: "Listener option list \<Rightarrow> 'b res"
    using assign_index_nil [of j call] by auto
  then have "\<exists>f. foldM (\<lambda>(ext, prob, listeners, routes) i.
       bindr (assign_index ext i (newExternalEnvoyListenerWithOneCert env (tm ! i) cfg)) (\<lambda>ext.
       bindr (get_listener ext i) (\<lambda>l1.
       bindr (assign_index prob i (NewHTTPSListener (w_mar (se_world env)) HTTPSPortProb
                (ls_FilterChains l1) False)) (\<lambda>prob.
       bindr (get_listener prob i) (\<lambda>l2.
         Inr (ext, prob, listeners @ [l1, l2], routes @ [trc ! i]))))))
       ([], [], acc) [0..<length regions] = Inl f"
    by (intro foldM_first_Inl) (simp add: split_beta)
  then show ?thesis unfolding https_with_one_cert_def by auto
qed

lemma https_never_Inr:
  "https_with_sni env cfg em tm trc snis acc \<noteq> Inr r"
  "https_with_one_cert env cfg tm trc acc \<noteq> Inr r"
  using https_with_sni_Inl [of env cfg em tm trc snis acc] https_with_one_cert_Inl [of env cfg tm trc acc]
  by auto

text \<open>
  Whatever the environment, a generation that returns had neither SNI matches nor a single
  certificate, and its route configurations hold the TLS or the local virtual hosts of a region.
\<close>

lemma internal_tls_routes:
  assumes "internal_tls env cfg loc acc = Inr acc'" "rc \<in> set (snd acc')"
  shows "rc \<in> set (snd acc) \<or> rc_VirtualHosts rc = loc ! 0"
  using assms by (auto simp: internal_tls_def go_simps Let_def split: if_split_asm)

lemma generate_Inr:
  assumes "generateListenersAndRouteConfigsAndClusters env ctx ext tls loc snis = Inr (ls, routes, cs)"
  shows "snis = [] \<and> \<not> useHTTPSListenerWithOneCert (w_env (se_world env)) \<and>
    (\<forall>rc \<in> set routes. \<exists>i < length regions. rc_VirtualHosts rc = tls ! i \<or> rc_VirtualHosts rc = loc ! i)"
proof -
  let ?cfg = "cfg_Kourier (FromContextOrDefaults ctx)"
  let ?routes = "concat (map (\<lambda>i. [map (\<lambda>i. NewRouteConfig (externalRouteConfigName ! i) (tls ! i)) [0..<length regions] ! i,
      map (\<lambda>i. NewRouteConfig (internalRouteConfigName ! i) (loc ! i)) [0..<length regions] ! i]) [0..<length regions])"
  obtain dls acc' where it: "internal_tls env ?cfg loc (dls, ?routes) = Inr acc'"
    and "\<exists>em tm trc. (if length snis > 0 then https_with_sni env ?cfg em tm trc snis acc'
       else if useHTTPSListenerWithOneCert (w_env (se_world env))
       then https_with_one_cert env ?cfg tm trc acc' else Inr acc') = Inr (ls, routes)"
    using assms unfolding generateListenersAndRouteConfigsAndClusters_def Let_def
    by (clarsimp simp: go_simps simp del: upt_three length_regions map_map) blast
  then have "snis = []" "\<not> useHTTPSListenerWithOneCert (w_env (se_world env))" "acc' = (ls, routes)"
    by (auto simp: https_never_Inr split: if_split_asm)
  moreover have "\<exists>i < length regions. rc_VirtualHosts rc = tls ! i \<or> rc_VirtualHosts rc = loc ! i"
    if "rc \<in> set routes" for rc
    using internal_tls_routes [OF it, of rc] that calculation(3) unfolding ex_region by auto
  ultimately show ?thesis by blast
qed

lemma consume_all_nonempty: "ms \<noteq> [] \<Longrightarrow> snd (consume_all (h, s) ms) \<noteq> []"
proof (induction ms rule: rev_induct)
  case Nil
  then show ?case by simp
next
  case (snoc m ms)
  have upd: "AList.update k v al \<noteq> []" for k :: NamespacedName and v :: dedupedSNIMatch and al
    by (cases al) auto
  show ?case
    unfolding consume_all_snoc by (auto simp: consume_def Let_def upd split_beta split: option.split)
qed

lemma sni_list_nonempty:
  "range_order ord \<Longrightarrow> s \<noteq> [] \<Longrightarrow> sni_list ord s \<noteq> []"
  using range_order_length [of ord s] by (auto simp: sni_list_def)

section \<open>Resources by name\<close>

lemma index_by_name_lookup:
  "map_of (index_by_name f xs) = map_of (rev (map (\<lambda>x. (f x, x)) xs))"
  by (induction xs rule: rev_induct) (simp_all add: index_by_name_def al.lookup_update)

lemma index_by_name_dom: "dom (map_of (index_by_name f xs)) = f ` set xs"
  by (simp add: index_by_name_lookup dom_map_of_conv_image_fst image_image)

lemma index_by_name_ran: "map_of (index_by_name f xs) n = Some x \<Longrightarrow> x \<in> set xs"
  by (auto simp: index_by_name_lookup dest!: map_of_SomeD)

lemma index_by_name_distinct:
  assumes "distinct (map f xs)" "x \<in> set xs"
  shows "map_of (index_by_name f xs) (f x) = Some x"
proof -
  have "distinct (map fst (rev (map (\<lambda>x. (f x, x)) xs)))"
    using assms(1) by (simp add: rev_map comp_def distinct_rev flip: rev_map)
  moreover have "(f x, x) \<in> set (rev (map (\<lambda>x. (f x, x)) xs))" using assms(2) by auto
  ultimately show ?thesis unfolding index_by_name_lookup by (rule map_of_is_SomeI)
qed

section \<open>Closed translations\<close>

text \<open>A translation whose routes only refer to its own clusters.\<close>

definition ti_closed :: "translatedIngress \<Rightarrow> bool" where
  "ti_closed ti \<longleftrightarrow> (\<forall>i < length regions. \<forall>vh.
     Some vh \<in> set (ti_internalVirtualHosts ti ! i) \<union> set (ti_externalTLSVirtualHosts ti ! i) \<longrightarrow>
     set (vhost_clusters vh) \<subseteq> cl_Name ` set (ti_clusters ti))"

lemma translation_closed:
  assumes "translateIngress w t ctx ing ext s = (Inr (Some ti), s')"
  shows "ti_closed ti"
proof -
  have ti: "ti = spec_translation w t ctx ing ext s"
    using assms by (simp add: translateIngress_exits translate_Inr)
  have "c \<in> cl_Name ` set (ti_clusters ti)"
    if i: "i < length regions" and c: "c \<in> set (vhost_clusters vh)"
      and vh: "Some vh \<in> set (ti_internalVirtualHosts ti ! i) \<union> set (ti_externalTLSVirtualHosts ti ! i)" for i vh c
  proof -
    consider "Some vh \<in> set (ti_internalVirtualHosts ti ! i)" | "Some vh \<in> set (ti_externalTLSVirtualHosts ti ! i)"
      using vh by blast
    then obtain p split j where "(p, split) \<in> set (ingress_splits ing)" "c = split_cluster_name split j" "j < length regions"
    proof cases
      case 1
      then have "Some vh \<in> set (ti_internalVirtualHosts (spec_translation w t ctx ing ext s) ! i) \<union>
          set (ti_externalVirtualHosts (spec_translation w t ctx ing ext s) ! i)"
        by (simp add: ti)
      from spec_vhost_clusters [OF i this c] obtain x
        where x: "x \<in> set (ingress_splits ing)" "c = split_cluster_name (snd x) i" by auto
      show ?thesis by (rule that [of "fst x" "snd x", OF _ x(2) i]) (simp add: x(1))
    next
      case 2
      from spec_tls_vhost_clusters [OF i 2 [unfolded ti] c] obtain x
        where x: "x \<in> set (ingress_splits ing)" "c = split_cluster_name (snd x) 0" by auto
      show ?thesis by (rule that [of "fst x" "snd x", OF _ x(2)]) (simp_all add: x(1))
    qed
    then show ?thesis
      using split_cluster_mem [of p split ing j w t ctx ext s] ti by (metis image_eqI)
  qed
  then show ?thesis unfolding ti_closed_def by blast
qed

definition caches_closed :: "Caches \<Rightarrow> bool" where
  "caches_closed c \<longleftrightarrow> caches_inv c \<and> (\<exists>mar. ca_statusVirtualHost c = statusVHost mar) \<and>
     (\<forall>k ti. caches_abs c k = Some ti \<longrightarrow> ti_closed ti)"

text \<open>No operation touches the status virtual host.\<close>

lemma delete_status:
  "deleteTranslatedIngress now c n ns = Inr c' \<Longrightarrow> ca_statusVirtualHost c' = ca_statusVirtualHost c"
  by (auto simp: deleteTranslatedIngress_def Let_def go_simps split: option.split_asm)

lemma update_status:
  "UpdateIngress now c ti = (r, c') \<Longrightarrow> ca_statusVirtualHost c' = ca_statusVirtualHost c"
  by (auto simp: UpdateIngress_def addTranslatedIngress_def go_simps dest!: delete_status
      split: sum.split_asm)

lemma step_status: "caches_step c c' \<Longrightarrow> ca_statusVirtualHost c' = ca_statusVirtualHost c"
  by (erule caches_stepE)
    (auto simp: DeleteIngressInfo_def evict_clusters_def go_simps dest!: update_status delete_status
      split: prod.split_asm)

interpretation ccl: transition_system caches_init caches_step caches_closed
proof unfold_locales
  fix s assume "caches_init s"
  then show "caches_closed s"
    by (auto elim!: caches_initE simp: caches_closed_def NewCaches_inv)
      (auto simp: NewCaches_def Let_def go_simps split: if_split_asm)
next
  fix c c' assume I: "caches_closed c" and step: "caches_step c c'"
  have "caches_inv c" and cl: "\<And>k ti. caches_abs c k = Some ti \<Longrightarrow> ti_closed ti"
    using I by (auto simp: caches_closed_def)
  then have "caches_inv c'" using cts.step_inv step by blast
  moreover from step have "ti_closed ti" if "caches_abs c' k = Some ti" for k ti
  proof (rule caches_stepE)
    fix now ing w t ctx s ti' s' r
    assume a: "0 \<le> now" "name_ok (ing_nn ing)"
      "translateIngress w t ctx ing False s = (Inr (Some ti'), s')" "UpdateIngress now c ti' = (r, c')"
    have "(r, caches_abs c') = spec_update ti' (caches_abs c)"
      using update_step [OF \<open>caches_inv c\<close> translation_wf(1) [OF a(3,2)] a(1)] a(4) by (metis prod.inject)
    then have "ti = ti' \<or> caches_abs c k = Some ti"
      using that by (auto simp: spec_update_def Let_def split: if_split_asm)
    then show ?thesis using cl translation_closed [OF a(3)] by blast
  next
    fix now n ns assume a: "0 \<le> now" "DeleteIngressInfo now c n ns = Inr c'"
    obtain c1 where "deleteTranslatedIngress now c n ns = Inr c1"
      "caches_abs c1 = (caches_abs c)(\<lparr>nn_Namespace = ns, nn_Name = n\<rparr> := None)"
      using delete_step [OF \<open>caches_inv c\<close> a(1), of "\<lparr>nn_Namespace = ns, nn_Name = n\<rparr>"] by auto
    then have "caches_abs c k = Some ti"
      using a(2) that by (simp add: DeleteIngressInfo_def split: if_split_asm)
    then show ?thesis by (rule cl)
  next
    fix now calls assume "evict_clusters now c = Inr (c', calls)"
    then show ?thesis using evict_inv [OF \<open>caches_inv c\<close>] cl that by metis
  qed
  moreover have "\<exists>mar. ca_statusVirtualHost c' = statusVHost mar"
    using I step_status [OF step] by (simp add: caches_closed_def)
  ultimately show "caches_closed c'" by (simp add: caches_closed_def)
qed

text \<open>A cluster of a stored translation is in every listing.\<close>

lemma stored_cluster_listed:
  assumes "caches_inv c" "range_order ord" "caches_abs c k = Some ti" "n \<in> cl_Name ` set (ti_clusters ti)"
  shows "n \<in> cl_Name ` set (cc_list ord now (ca_clusters c))"
proof -
  note D = caches_invD [OF assms(1)]
  let ?key = "key n (nn_Name (ti_name ti)) (nn_Namespace (ti_name ti))"
  have "?key \<in> fst ` set (ti_kvs ti)" using assms(4) by (force simp: ti_kvs_def)
  then obtain v where v: "map_of (rev (ti_kvs ti)) ?key = Some v"
    by (metis map_of_eq_None_iff not_None_eq set_rev)
  then have "cl_Name v = n"
    by (auto simp: ti_kvs_def key_def dest!: map_of_SomeD)
  moreover have "v \<in> set (cc_list ord now (ca_clusters c))"
    using cc_list_set [OF D(2) assms(2)] D(6) [OF assms(3) v] by blast
  ultimately show ?thesis by blast
qed

section \<open>Example snapshots\<close>

definition ex_senv :: snap_env where
  "ex_senv = \<lparr>se_world = ex_world, se_authz = ExternalAuthz_default,
     se_secrets = (\<lambda>ns n. Inl (ErrNotFound n)), se_kube = (\<lambda>_. ex_kenv)\<rparr>"

definition ex_orders :: snap_orders where
  "ex_orders = \<lparr>so_ingresses = (\<lambda>xs. xs), so_snis = (\<lambda>xs. xs), so_clusters = (\<lambda>xs. xs)\<rparr>"

definition ex_rev_orders :: snap_orders where
  "ex_rev_orders = \<lparr>so_ingresses = rev, so_snis = rev, so_clusters = rev\<rparr>"

lemma ex_orders_ok:
  "range_order (so_ingresses ex_orders)" "range_order (so_snis ex_orders)" "range_order (so_clusters ex_orders)"
  "range_order (so_ingresses ex_rev_orders)" "range_order (so_snis ex_rev_orders)"
  "range_order (so_clusters ex_rev_orders)"
  by (simp_all add: ex_orders_def ex_rev_orders_def range_order_def)

section \<open>The snapshot without HTTPS\<close>

definition tracing_clusters :: "Kourier \<Rightarrow> Cluster list" where
  "tracing_clusters cfg = (if tr_Enabled (kTracing cfg) then [jaegerCluster cfg] else [])"

definition local_vhosts :: "snap_orders \<Rightarrow> Caches \<Rightarrow> nat \<Rightarrow> VirtualHost option list" where
  "local_vhosts ords c i =
     region_vhosts ti_internalVirtualHosts (so_ingresses ords (ca_translatedIngresses c)) i @
     [Some (ca_statusVirtualHost c)]"

definition tls_vhosts :: "snap_orders \<Rightarrow> Caches \<Rightarrow> nat \<Rightarrow> VirtualHost option list" where
  "tls_vhosts ords c i =
     region_vhosts ti_externalTLSVirtualHosts (so_ingresses ords (ca_translatedIngresses c)) i"

definition no_tls :: "Caches \<Rightarrow> bool" where
  "no_tls c \<longleftrightarrow> (\<forall>(k, ti) \<in> set (ca_translatedIngresses c). ti_sniMatches ti = [])"

lemma all_snis_nil:
  "range_order ord \<Longrightarrow> all_snis (ord (ca_translatedIngresses c)) = [] \<longleftrightarrow> no_tls c"
  by (auto simp: all_snis_def no_tls_def range_order_set)

lemma snapshot_plain:
  assumes "plain_env env (cfg_Kourier (FromContextOrDefaults ctx)) nodes blocks"
    and "range_order (so_ingresses ords)" "no_tls c"
    and "\<not> useHTTPSListenerWithOneCert (w_env (se_world env))"
  shows "ToEnvoySnapshot env ords ctx now version h c =
    (Inr (NewSnapshot version
        (cc_list (so_clusters ords) now (ca_clusters c) @
           tracing_clusters (cfg_Kourier (FromContextOrDefaults ctx)))
        (plain_routes (region_table (tls_vhosts ords c)) (region_table (local_vhosts ords c)))
        (plain_listeners env (cfg_Kourier (FromContextOrDefaults ctx)) nodes blocks)), h)"
proof -
  have "consume_all (h, []) (all_snis (so_ingresses ords (ca_translatedIngresses c))) = (h, [])"
    using all_snis_nil [OF assms(2), of c] assms(3) by (simp add: consume_all_def)
  then show ?thesis
    unfolding ToEnvoySnapshot_eq generate_plain [OF assms(1)]
    by (simp add: sni_list_def assms(4) tracing_clusters_def local_vhosts_def [abs_def]
        tls_vhosts_def [abs_def])
qed

lemma plain_routes_lookup:
  assumes "i < length regions"
  shows "map_of (index_by_name rc_Name (plain_routes tls loc)) (internalRouteConfigName ! i) =
      Some (route_cfg_int loc i)"
    and "map_of (index_by_name rc_Name (plain_routes tls loc)) (externalRouteConfigName ! i) =
      Some (route_cfg_ext tls i)"
proof -
  have dist: "distinct (map rc_Name (plain_routes tls loc))"
    by (simp add: plain_routes_def route_cfg_ext_def route_cfg_int_def externalRouteConfigName_def
        internalRouteConfigName_def)
  have "route_cfg_int loc i \<in> set (plain_routes tls loc)" "route_cfg_ext tls i \<in> set (plain_routes tls loc)"
    using assms by (auto simp: plain_routes_def simp del: upt_three length_regions)
  from this [THEN index_by_name_distinct [OF dist]]
  show "map_of (index_by_name rc_Name (plain_routes tls loc)) (internalRouteConfigName ! i) =
      Some (route_cfg_int loc i)"
    "map_of (index_by_name rc_Name (plain_routes tls loc)) (externalRouteConfigName ! i) =
      Some (route_cfg_ext tls i)"
    by (simp_all add: route_cfg_int_def route_cfg_ext_def)
qed

definition ex_snapshot :: Snapshot where
  "ex_snapshot = NewSnapshot ''v1''
     (cc_list (so_clusters ex_orders) 5 (ca_clusters ex_caches1) @
        tracing_clusters (cfg_Kourier (FromContextOrDefaults None)))
     (plain_routes (region_table (tls_vhosts ex_orders ex_caches1))
        (region_table (local_vhosts ex_orders ex_caches1)))
     (plain_listeners ex_senv (cfg_Kourier (FromContextOrDefaults None)) (\<lambda>_. ex_nodes) (\<lambda>_. ex_blocks))"

lemma ex_plain: "plain_env ex_senv (cfg_Kourier (FromContextOrDefaults None)) (\<lambda>_. ex_nodes) (\<lambda>_. ex_blocks)"
  by (simp add: plain_env_def ex_senv_def ex_world_def FromContextOrDefaults_def DefaultConfig_def ex_kube_ok)

lemma ex_no_tls: "no_tls ex_caches1" "no_tls ex_caches2"
  "\<not> useHTTPSListenerWithOneCert (w_env (se_world ex_senv))"
  by code_simp+

lemma ex_snapshot_eq: "ToEnvoySnapshot ex_senv ex_orders None 5 ''v1'' [] ex_caches1 = (Inr ex_snapshot, [])"
  unfolding ex_snapshot_def by (rule snapshot_plain [OF ex_plain ex_orders_ok(1) ex_no_tls(1,3)])

section \<open>Referential integrity\<close>

definition snapshot_closed :: "Snapshot \<Rightarrow> bool" where
  "snapshot_closed snap \<longleftrightarrow> (\<forall>name rc vh cl. map_of (sn_routes snap) name = Some rc \<longrightarrow>
     Some vh \<in> set (rc_VirtualHosts rc) \<longrightarrow> cl \<in> set (vhost_clusters vh) \<longrightarrow>
     cl = ServiceStatsClusterName \<or> cl \<in> dom (map_of (sn_clusters snap)))"

lemma closed_snapshot_clusters:
  assumes C: "caches_closed c"
    and "range_order (so_ingresses ords)" "range_order (so_clusters ords)"
    and "ToEnvoySnapshot env ords ctx now version h c = (Inr snap, h')"
    and "map_of (sn_routes snap) name = Some rc" "Some vh \<in> set (rc_VirtualHosts rc)"
    and "cl \<in> set (vhost_clusters vh)"
  shows "cl = ServiceStatsClusterName \<or> cl \<in> dom (map_of (sn_clusters snap))"
proof -
  let ?tis = "so_ingresses ords (ca_translatedIngresses c)"
  note C = C [unfolded caches_closed_def]
  let ?loc = "\<lambda>i. region_vhosts ti_internalVirtualHosts ?tis i @ [Some (ca_statusVirtualHost c)]"
  obtain snis ls routes cs where
    gen: "generateListenersAndRouteConfigsAndClusters env ctx
       (region_table (region_vhosts ti_externalVirtualHosts ?tis))
       (region_table (region_vhosts ti_externalTLSVirtualHosts ?tis)) (region_table ?loc) snis =
       Inr (ls, routes, cs)"
    and snap: "snap = NewSnapshot version (cc_list (so_clusters ords) now (ca_clusters c) @ cs) routes ls"
    using assms(4) unfolding ToEnvoySnapshot_eq by (auto simp: split_beta Let_def go_simps)
  have "rc \<in> set routes" using assms(5) index_by_name_ran by (auto simp: snap NewSnapshot_def)
  then obtain i where i: "i < length regions"
    "rc_VirtualHosts rc = region_vhosts ti_externalTLSVirtualHosts ?tis i \<or> rc_VirtualHosts rc = ?loc i"
    using generate_Inr [OF gen] by (auto simp del: length_regions)
  have "vh = ca_statusVirtualHost c \<or> (\<exists>k ti. (k, ti) \<in> set (ca_translatedIngresses c) \<and>
      Some vh \<in> set (ti_internalVirtualHosts ti ! i) \<union> set (ti_externalTLSVirtualHosts ti ! i))"
    using i(2) assms(6) by (auto simp: region_vhosts_def range_order_set [OF assms(2)])
  then show ?thesis
  proof (elim disjE exE conjE)
    assume "vh = ca_statusVirtualHost c"
    then show ?thesis
      using C assms(7) by (auto simp: statusVHost_def vhost_clusters_def readyRoute_def Let_def
          NewVirtualHost_def)
  next
    fix k ti assume kt: "(k, ti) \<in> set (ca_translatedIngresses c)"
      "Some vh \<in> set (ti_internalVirtualHosts ti ! i) \<union> set (ti_externalTLSVirtualHosts ti ! i)"
    then have abs: "caches_abs c k = Some ti"
      using C caches_invD(1) by (simp add: caches_abs_def wf_alist_def)
    then have "cl \<in> cl_Name ` set (ti_clusters ti)"
      using C kt(2) i(1) assms(7) unfolding ti_closed_def by blast
    then have "cl \<in> cl_Name ` set (cc_list (so_clusters ords) now (ca_clusters c))"
      using stored_cluster_listed [OF _ assms(3) abs] C by blast
    then show ?thesis by (auto simp: snap NewSnapshot_def index_by_name_dom)
  qed
qed

lemma closed_snapshot:
  assumes "caches_closed c" "range_order (so_ingresses ords)" "range_order (so_clusters ords)"
    and "ToEnvoySnapshot env ords ctx now version h c = (Inr snap, h')"
  shows "snapshot_closed snap"
  using closed_snapshot_clusters [OF assms] unfolding snapshot_closed_def by blast

section \<open>Properties\<close>

text \<open>
  Referential integrity of snapshots: in every snapshot built from reachable caches, every
  cluster a route sends traffic to is a cluster of the snapshot, except for the statistics
  cluster of the status virtual host, which belongs to Envoy's own bootstrap configuration.
\<close>

lemma snapshot_routes_have_clusters:
  assumes "caches_init c0" "caches_step\<^sup>*\<^sup>* c0 c"
    and "range_order (so_ingresses ords)" "range_order (so_clusters ords)"
    and "ToEnvoySnapshot env ords ctx now version h c = (Inr snap, h')"
    and "map_of (sn_routes snap) name = Some rc" "Some vh \<in> set (rc_VirtualHosts rc)"
    and "cl \<in> set (vhost_clusters vh)"
  shows "cl = ServiceStatsClusterName \<or> cl \<in> dom (map_of (sn_clusters snap))"
  using closed_snapshot_clusters [OF ccl.reachable_inv [OF assms(1,2)] assms(3-8)] .


end
