(* ===== verification/Snapshot_Laws.thy ===== *)
theory Snapshot_Laws
  imports Snapshot_Props
begin

text \<open>
  What a snapshot holds, when one is produced, and that the order in which Go visits its maps
  does not matter for what Envoy is told.
\<close>

section \<open>Contents of the snapshot\<close>

lemma route_names_length:
  "length externalRouteConfigName = length regions" "length internalRouteConfigName = length regions"
  by (simp_all add: externalRouteConfigName_def internalRouteConfigName_def)

lemma manager_route_name:
  "i < length names \<Longrightarrow> rds_RouteConfigName (hcm_Rds (managers env cfg names ! i)) = names ! i"
  by (simp add: managers_def NewHTTPConnectionManager_def Let_def)

lemma dual_listener_chain:
  "i < length regions \<Longrightarrow>
   fc_Filters (ls_FilterChains (dual_listener k n b ms p x) ! i) = hcm_filters (ms ! i)"
  "ls_Name (dual_listener k n b ms p x) = CreateListenerName p"
  by (simp_all add: dual_listener_def del: upt_three length_regions)

lemma plain_listener_names:
  "map ls_Name (plain_listeners env cfg nodes blocks) =
     map CreateListenerName [HTTPPortExternal, HTTPPortInternal, HTTPPortProb]"
  by (simp add: plain_listeners_def dual_listener_chain)

lemma ports_distinct: "distinct [HTTPPortExternal, HTTPPortInternal, HTTPPortProb]"
  by (simp add: HTTPPortExternal_def HTTPPortInternal_def HTTPPortProb_def)

text \<open>The port of a plain listener and the route configurations its filter chains refer to.\<close>

definition port_routes :: "(32 word \<times> string list) list" where
  "port_routes = [(HTTPPortExternal, externalRouteConfigName),
     (HTTPPortInternal, internalRouteConfigName), (HTTPPortProb, externalRouteConfigName)]"

lemma plain_listeners_lookup:
  assumes "(port, names) \<in> set port_routes" "i < length regions"
  shows "\<exists>l m. map_of (index_by_name ls_Name (plain_listeners env cfg nodes blocks)) (CreateListenerName port) = Some l \<and>
    fc_Filters (ls_FilterChains l ! i) = hcm_filters m \<and> rds_RouteConfigName (hcm_Rds m) = names ! i"
proof -
  have "distinct (map ls_Name (plain_listeners env cfg nodes blocks))"
    unfolding plain_listener_names distinct_map
    using ports_distinct CreateListenerName_inj by (auto simp: inj_on_def)
  note look = index_by_name_distinct [OF this]
  obtain k n b x where l: "dual_listener k n b (managers env cfg names) port x \<in> set (plain_listeners env cfg nodes blocks)"
    using assms(1) by (auto simp: port_routes_def plain_listeners_def)
  moreover have "i < length names"
    using assms by (auto simp: port_routes_def route_names_length simp del: length_regions)
  ultimately show ?thesis
    using look [OF l] assms(2)
    by (auto simp: dual_listener_chain manager_route_name simp del: length_regions
        intro!: exI [of _ "managers env cfg names ! i"])
qed

lemma plain_routes_dom:
  "dom (map_of (index_by_name rc_Name (plain_routes tls loc))) = set internalRouteConfigName \<union> set externalRouteConfigName"
  by (auto simp: index_by_name_dom plain_routes_def route_cfg_ext_def route_cfg_int_def
      externalRouteConfigName_def internalRouteConfigName_def)

text \<open>
  C6: Without TLS sections, without certificates configured and with the cluster answering, a
  snapshot is always produced and leaves the SNI matches as they are. It has one internal and one
  external route configuration per region and no other; the internal one of a region holds the
  internal virtual hosts of all ingresses for that region, followed by the status virtual host.
  Its listeners are those of the external, the internal and the probe port, and each filter
  chain runs the route configuration of its region.
\<close>

theorem snapshot_contents:
  assumes "plain_env env (cfg_Kourier (FromContextOrDefaults ctx)) nodes blocks"
    and "range_order (so_ingresses ords)" "no_tls c"
    and "\<not> useHTTPSListenerWithOneCert (w_env (se_world env))" "i < length regions"
  shows "\<exists>snap. ToEnvoySnapshot env ords ctx now version h c = (Inr snap, h) \<and>
    dom (map_of (sn_routes snap)) = set internalRouteConfigName \<union> set externalRouteConfigName \<and>
    map_option rc_VirtualHosts (map_of (sn_routes snap) (internalRouteConfigName ! i)) =
      Some (concat (map (\<lambda>kt. ti_internalVirtualHosts (snd kt) ! i)
              (so_ingresses ords (ca_translatedIngresses c))) @ [Some (ca_statusVirtualHost c)]) \<and>
    dom (map_of (sn_listeners snap)) =
      CreateListenerName ` {HTTPPortExternal, HTTPPortInternal, HTTPPortProb} \<and>
    (\<forall>(port, names) \<in> set port_routes.
       \<exists>l m. map_of (sn_listeners snap) (CreateListenerName port) = Some l \<and>
         fc_Filters (ls_FilterChains l ! i) = hcm_filters m \<and>
         rds_RouteConfigName (hcm_Rds m) = names ! i)"
proof -
  have "dom (map_of (index_by_name ls_Name (plain_listeners env cfg nodes blocks))) =
      CreateListenerName ` {HTTPPortExternal, HTTPPortInternal, HTTPPortProb}" for cfg
    unfolding index_by_name_dom image_set plain_listener_names by simp
  moreover have "region_table (local_vhosts ords c) ! i = concat (map (\<lambda>kt. ti_internalVirtualHosts (snd kt) ! i)
              (so_ingresses ords (ca_translatedIngresses c))) @ [Some (ca_statusVirtualHost c)]"
    using assms(5) by (simp add: local_vhosts_def region_vhosts_def split_beta del: length_regions)
  ultimately show ?thesis
    unfolding snapshot_plain [OF assms(1-4)]
    using plain_listeners_lookup [OF _ assms(5)] plain_routes_lookup [OF assms(5)]
    by (auto simp: NewSnapshot_def plain_routes_dom route_cfg_int_def)
qed

theorem snapshot_contents_witness:
  "\<exists>snap. ToEnvoySnapshot ex_senv ex_orders None 5 ''v1'' [] ex_caches1 = (Inr snap, []) \<and>
    dom (map_of (sn_routes snap)) = set internalRouteConfigName \<union> set externalRouteConfigName \<and>
    map_option rc_VirtualHosts (map_of (sn_routes snap) (internalRouteConfigName ! 1)) =
      Some (concat (map (\<lambda>kt. ti_internalVirtualHosts (snd kt) ! 1)
              (so_ingresses ex_orders (ca_translatedIngresses ex_caches1))) @ [Some (ca_statusVirtualHost ex_caches1)])"
  using snapshot_contents [OF ex_plain ex_orders_ok(1) ex_no_tls(1,3), where i = 1 and now = 5 and version = "''v1''" and h = "[]"] by (auto simp del: One_nat_def)

section \<open>When a snapshot is produced\<close>

text \<open>Whatever the environment, the route configurations of a generation that returns.\<close>

lemma generate_routes:
  assumes "generateListenersAndRouteConfigsAndClusters env ctx ext tls loc snis = Inr (ls, routes, cs)"
  shows "\<exists>more. routes = plain_routes tls loc @ more \<and> rc_Name ` set more \<subseteq> {internalTLSRouteConfigName ! 0}"
proof -
  let ?cfg = "cfg_Kourier (FromContextOrDefaults ctx)"
  let ?routes = "concat (map (\<lambda>i. [map (\<lambda>i. NewRouteConfig (externalRouteConfigName ! i) (tls ! i)) [0..<length regions] ! i,
      map (\<lambda>i. NewRouteConfig (internalRouteConfigName ! i) (loc ! i)) [0..<length regions] ! i]) [0..<length regions])"
  have plain: "?routes = plain_routes tls loc"
    by (simp add: plain_routes_def route_cfg_ext_def route_cfg_int_def)
  obtain dls acc' where it: "internal_tls env ?cfg loc (dls, ?routes) = Inr acc'"
    and "\<exists>em tm trc. (if length snis > 0 then https_with_sni env ?cfg em tm trc snis acc'
       else if useHTTPSListenerWithOneCert (w_env (se_world env))
       then https_with_one_cert env ?cfg tm trc acc' else Inr acc') = Inr (ls, routes)"
    using assms unfolding generateListenersAndRouteConfigsAndClusters_def Let_def
    by (clarsimp simp: go_simps simp del: upt_three length_regions map_map) blast
  then have "acc' = (ls, routes)" by (auto simp: https_never_Inr split: if_split_asm)
  then show ?thesis
    using it unfolding plain
    by (auto simp: internal_tls_def go_simps Let_def NewRouteConfig_def split: if_split_asm)
qed

lemma generate_routes_lookup:
  assumes "generateListenersAndRouteConfigsAndClusters env ctx ext tls loc snis = Inr (ls, routes, cs)"
    and "i < length regions"
  shows "map_of (index_by_name rc_Name routes) (externalRouteConfigName ! i) = Some (route_cfg_ext tls i)"
    "map_of (index_by_name rc_Name routes) (internalRouteConfigName ! i) = Some (route_cfg_int loc i)"
    "externalTLSRouteConfigName ! i \<notin> dom (map_of (index_by_name rc_Name routes))"
proof -
  obtain more where more: "routes = plain_routes tls loc @ more" "rc_Name ` set more \<subseteq> {internalTLSRouteConfigName ! 0}"
    using generate_routes [OF assms(1)] by blast
  have names: "internalTLSRouteConfigName ! 0 \<notin> set externalRouteConfigName \<union> set internalRouteConfigName"
    "internalTLSRouteConfigName ! 0 \<noteq> externalTLSRouteConfigName ! i"
    "externalTLSRouteConfigName ! i \<notin> set externalRouteConfigName \<union> set internalRouteConfigName"
    "externalRouteConfigName ! i \<in> set externalRouteConfigName" "internalRouteConfigName ! i \<in> set internalRouteConfigName"
    using region_cases [OF assms(2)]
    by (auto simp: internalTLSRouteConfigName_def externalRouteConfigName_def
        internalRouteConfigName_def externalTLSRouteConfigName_def)
  have no_more: "map_of (rev (map (\<lambda>x. (rc_Name x, x)) more)) n = None" if "n \<noteq> internalTLSRouteConfigName ! 0" for n
    using more(2) that by (auto simp: map_of_eq_None_iff)
  have look: "map_of (index_by_name rc_Name routes) n = map_of (index_by_name rc_Name (plain_routes tls loc)) n"
    if "n \<noteq> internalTLSRouteConfigName ! 0" for n
    using no_more [OF that] by (simp add: index_by_name_lookup more(1) map_add_def)
  show "map_of (index_by_name rc_Name routes) (externalRouteConfigName ! i) = Some (route_cfg_ext tls i)"
    "map_of (index_by_name rc_Name routes) (internalRouteConfigName ! i) = Some (route_cfg_int loc i)"
    using names plain_routes_lookup [OF assms(2)] by (metis UnCI look)+
  have "rc_Name ` set (plain_routes tls loc) = set internalRouteConfigName \<union> set externalRouteConfigName"
    using plain_routes_dom [of tls loc] by (simp add: index_by_name_dom)
  then show "externalTLSRouteConfigName ! i \<notin> dom (map_of (index_by_name rc_Name routes))"
    using names more by (auto simp: index_by_name_dom image_Un)
qed

text \<open>What a returned snapshot was generated from.\<close>

lemma snapshot_returned:
  assumes "ToEnvoySnapshot env ords ctx now version h c = (Inr snap, h')" "range_order (so_ingresses ords)"
    "range_order (so_snis ords)"
  obtains routes ls cs where
    "no_tls c" "\<not> useHTTPSListenerWithOneCert (w_env (se_world env))"
    "snap = NewSnapshot version (cc_list (so_clusters ords) now (ca_clusters c) @ cs) routes ls"
    "generateListenersAndRouteConfigsAndClusters env ctx
       (region_table (region_vhosts ti_externalVirtualHosts (so_ingresses ords (ca_translatedIngresses c))))
       (region_table (tls_vhosts ords c)) (region_table (local_vhosts ords c)) [] = Inr (ls, routes, cs)"
proof -
  let ?tis = "so_ingresses ords (ca_translatedIngresses c)"
  let ?hs = "consume_all (h, []) (all_snis ?tis)"
  let ?snis = "map (\<lambda>p. fst ?hs ! p) (sni_list (so_snis ords) (snd ?hs))"
  obtain ls routes cs where
    gen: "generateListenersAndRouteConfigsAndClusters env ctx
       (region_table (region_vhosts ti_externalVirtualHosts ?tis))
       (region_table (tls_vhosts ords c)) (region_table (local_vhosts ords c)) ?snis = Inr (ls, routes, cs)"
    and snap: "snap = NewSnapshot version (cc_list (so_clusters ords) now (ca_clusters c) @ cs) routes ls"
    using assms(1) unfolding ToEnvoySnapshot_eq
    by (auto simp: split_beta Let_def go_simps tls_vhosts_def [abs_def] local_vhosts_def [abs_def])
  have "?snis = []" and one: "\<not> useHTTPSListenerWithOneCert (w_env (se_world env))"
    using generate_Inr [OF gen] by blast+
  then have "snd ?hs = []" using sni_list_nonempty [OF assms(3)] by blast
  then have "no_tls c" using consume_all_nonempty all_snis_nil [OF assms(2)] by blast
  from that [OF this one snap] gen \<open>?snis = []\<close> show thesis by simp
qed

text \<open>
  A snapshot is only ever built without HTTPS: when one is returned, no ingress has a TLS
  section and no single certificate is configured. With a TLS section or a certificate, building
  the snapshot fails.
\<close>

lemma snapshot_without_https:
  assumes "range_order (so_ingresses ords)" "range_order (so_snis ords)"
    and "\<not> no_tls c \<or> useHTTPSListenerWithOneCert (w_env (se_world env))"
  shows "\<exists>f. fst (ToEnvoySnapshot env ords ctx now version h c) = Inl f"
proof (cases "ToEnvoySnapshot env ords ctx now version h c")
  case (Pair r h')
  have False if "r = Inr snap" for snap
    using snapshot_returned [OF Pair [unfolded that] assms(1,2)] assms(3) by metis
  then show ?thesis using Pair by (cases r) auto
qed

lemma https_with_sni_panics:
  assumes "marshals_all (w_mar (se_world env))"
  shows "https_with_sni env cfg em tm trc snis acc = Inl (Panic IndexOutOfRange)"
  by (simp add: https_with_sni_def upto_regions assign_index_def NewHTTPSListenerWithSNI_def
      createFilterChainsForTLS_ok [OF assms] proxy_filters_ok [OF assms])

text \<open>
  C39: As soon as one stored ingress has a TLS section, building the snapshot panics with an index
  out of range, also when the cluster answers and every message can be serialised: the slices of
  HTTPS listeners are written without having been allocated.
\<close>

theorem tls_snapshot_panics:
  assumes "plain_env env (cfg_Kourier (FromContextOrDefaults ctx)) nodes blocks"
    and "range_order (so_ingresses ords)" "range_order (so_snis ords)" "\<not> no_tls c"
  shows "fst (ToEnvoySnapshot env ords ctx now version h c) = Inl (Panic IndexOutOfRange)"
proof -
  let ?hs = "consume_all (h, []) (all_snis (so_ingresses ords (ca_translatedIngresses c)))"
  have "snd ?hs \<noteq> []"
    using assms(4) all_snis_nil [OF assms(2)] consume_all_nonempty by blast
  then have "sni_list (so_snis ords) (snd ?hs) \<noteq> []" by (rule sni_list_nonempty [OF assms(3)])
  moreover have "marshals_all (w_mar (se_world env))" using assms(1) by (simp add: plain_env_def)
  ultimately show ?thesis
    unfolding ToEnvoySnapshot_eq generate_plain [OF assms(1)]
    by (simp add: split_beta https_with_sni_panics Let_def)
qed

lemma no_tls_hosts:
  assumes "translateIngress w t ctx ing ext s = (Inr (Some ti), s')" "i < length regions"
    and "ti_sniMatches ti = []" "\<not> useHTTPSListenerWithOneCert (w_env w)"
  shows "ti_externalTLSVirtualHosts ti ! i = []"
proof -
  have ti: "ti = spec_translation w t ctx ing ext s"
    using assms(1) by (simp add: translateIngress_exits translate_Inr)
  then have "ing_TLS ing = []" using assms(3) by (cases "ing_TLS ing") (simp_all add: spec_translation_def Let_def)
  then have "rule_tls_vhost w ing ext nr = None" for nr
    using assms(4) by (simp add: rule_tls_vhost_def rule_tls_routes_def path_tls_routes_def Let_def)
  then show ?thesis
    using assms(2) by (simp add: ti spec_translation_def Let_def external_tls_vhosts_def del: length_regions)
qed

text \<open>
  External traffic is never routed: the external route configuration of every region is empty
  in every snapshot that is returned, and there is none for TLS, whatever external virtual hosts
  the stored ingresses have.
\<close>

lemma external_unrouted:
  assumes "ToEnvoySnapshot env ords ctx now version h c = (Inr snap, h')"
    and "range_order (so_ingresses ords)" "range_order (so_snis ords)" "i < length regions"
    and "\<And>k ti. (k, ti) \<in> set (ca_translatedIngresses c) \<Longrightarrow>
      \<exists>t ctx ing ext s s'. translateIngress (se_world env) t ctx ing ext s = (Inr (Some ti), s')"
  shows "map_option rc_VirtualHosts (map_of (sn_routes snap) (externalRouteConfigName ! i)) = Some [] \<and>
    map_of (sn_routes snap) (externalTLSRouteConfigName ! i) = None"
proof -
  obtain routes ls cs where S: "no_tls c" "\<not> useHTTPSListenerWithOneCert (w_env (se_world env))"
    "snap = NewSnapshot version (cc_list (so_clusters ords) now (ca_clusters c) @ cs) routes ls"
    "generateListenersAndRouteConfigsAndClusters env ctx
       (region_table (region_vhosts ti_externalVirtualHosts (so_ingresses ords (ca_translatedIngresses c))))
       (region_table (tls_vhosts ords c)) (region_table (local_vhosts ords c)) [] = Inr (ls, routes, cs)"
    by (rule snapshot_returned [OF assms(1-3)])
  have "ti_externalTLSVirtualHosts ti ! i = []" if "(k, ti) \<in> set (ca_translatedIngresses c)" for k ti
    using assms(5) [OF that] no_tls_hosts [OF _ assms(4) _ S(2)] S(1) that by (auto simp: no_tls_def)
  then have "tls_vhosts ords c i = []"
    by (auto simp: tls_vhosts_def region_vhosts_def range_order_set [OF assms(2)])
  then show ?thesis
    using generate_routes_lookup [OF S(4) assms(4)] assms(4)
    by (simp add: S(3) NewSnapshot_def route_cfg_ext_def domIff del: length_regions)
qed


section \<open>The order in which maps are visited\<close>

lemma region_vhosts_perm:
  "range_order ord \<Longrightarrow> range_order ord' \<Longrightarrow>
   mset (region_vhosts sel (ord xs) i) = mset (region_vhosts sel (ord' xs) i)"
  unfolding region_vhosts_def by (rule mset_concat_map_perm) (simp add: range_order_def)

text \<open>
  C32: The order in which Go visits the maps of the caches does not matter. Without TLS ingresses and HTTPS listeners, and when the
  cluster answers and everything can be marshalled, two snapshots of the
  same state in the same environment have the same listeners and the same cluster names, and for
  every region the same virtual hosts in its route configurations, up to order.
\<close>

theorem snapshot_order_irrelevant:
  assumes "plain_env env (cfg_Kourier (FromContextOrDefaults ctx)) nodes blocks" "no_tls c"
    and "\<not> useHTTPSListenerWithOneCert (w_env (se_world env))"
    and "range_order (so_ingresses ords)" "range_order (so_clusters ords)"
    and "range_order (so_ingresses ords')" "range_order (so_clusters ords')"
  shows "\<exists>s s'. ToEnvoySnapshot env ords ctx now version h c = (Inr s, h) \<and>
    ToEnvoySnapshot env ords' ctx now version h c = (Inr s', h) \<and>
    sn_listeners s = sn_listeners s' \<and> dom (map_of (sn_clusters s)) = dom (map_of (sn_clusters s')) \<and>
    (\<forall>n. map_option (mset \<circ> rc_VirtualHosts) (map_of (sn_routes s) n) =
         map_option (mset \<circ> rc_VirtualHosts) (map_of (sn_routes s') n))"
proof -
  let ?cfg = "cfg_Kourier (FromContextOrDefaults ctx)"
  let ?snap = "\<lambda>ords. NewSnapshot version
        (cc_list (so_clusters ords) now (ca_clusters c) @ tracing_clusters ?cfg)
        (plain_routes (region_table (tls_vhosts ords c)) (region_table (local_vhosts ords c)))
        (plain_listeners env ?cfg nodes blocks)"
  have ms: "mset (tls_vhosts ords c i) = mset (tls_vhosts ords' c i)"
    "mset (local_vhosts ords c i) = mset (local_vhosts ords' c i)" for i
    using region_vhosts_perm [OF assms(4,6)] by (simp_all add: tls_vhosts_def local_vhosts_def)
  have "map_option (mset \<circ> rc_VirtualHosts) (map_of (sn_routes (?snap ords)) n) =
      map_option (mset \<circ> rc_VirtualHosts) (map_of (sn_routes (?snap ords')) n)" for n
  proof (cases "n \<in> set internalRouteConfigName \<union> set externalRouteConfigName")
    case True
    then obtain i where "i < length regions" "n = internalRouteConfigName ! i \<or> n = externalRouteConfigName ! i"
      using route_names_length by (metis Un_iff in_set_conv_nth)
    then show ?thesis
      using ms plain_routes_lookup
      by (auto simp: NewSnapshot_def route_cfg_int_def route_cfg_ext_def simp del: length_regions)
  next
    case False
    then have "map_of (index_by_name rc_Name (plain_routes tls loc)) n = None" for tls loc
      using plain_routes_dom [of tls loc] by (metis domIff)
    then show ?thesis by (simp add: NewSnapshot_def)
  qed
  moreover have "set (cc_list (so_clusters ords) now (ca_clusters c)) = set (cc_list (so_clusters ords') now (ca_clusters c))"
    using assms(5,7) by (auto simp: cc_list_def range_order_set)
  ultimately show ?thesis
    unfolding snapshot_plain [OF assms(1,4,2,3)] snapshot_plain [OF assms(1,6,2,3)]
    by (simp add: NewSnapshot_def index_by_name_dom image_Un)
qed


theorem snapshot_order_irrelevant_witness:
  "\<exists>s s'. ToEnvoySnapshot ex_senv ex_orders None 5 ''v1'' [] ex_caches2 = (Inr s, []) \<and>
    ToEnvoySnapshot ex_senv ex_rev_orders None 5 ''v1'' [] ex_caches2 = (Inr s', []) \<and>
    sn_listeners s = sn_listeners s' \<and> dom (map_of (sn_clusters s)) = dom (map_of (sn_clusters s'))"
  using snapshot_order_irrelevant [OF ex_plain ex_no_tls(2,3) ex_orders_ok(1,3,4,6), where now = 5 and version = "''v1''" and h = "[]"]
  by blast

section \<open>Domains in a route configuration\<close>

lemma distinct_concat_disjoint:
  assumes "distinct xs" "\<And>x. x \<in> set xs \<Longrightarrow> distinct (f x)"
    and "\<And>x y. x \<in> set xs \<Longrightarrow> y \<in> set xs \<Longrightarrow> x \<noteq> y \<Longrightarrow> set (f x) \<inter> set (f y) = {}"
  shows "distinct (concat (map f xs))"
  using assms
proof (induction xs)
  case Nil
  then show ?case by simp
next
  case (Cons a xs)
  then have "set (f a) \<inter> set (f x) = {}" if "x \<in> set xs" for x
    using that Cons.prems(1) Cons.prems(3) [of a x] by auto
  with Cons show ?case by auto
qed

definition domain_list :: "VirtualHost option list \<Rightarrow> string list" where
  "domain_list vhs = concat (map (\<lambda>v. vh_Domains (the v)) vhs)"

lemma domain_list_append [simp]: "domain_list (a @ b) = domain_list a @ domain_list b"
  by (simp add: domain_list_def)

lemma domain_list_concat:
  "domain_list (concat (map f xs)) = concat (map (\<lambda>x. domain_list (f x)) xs)"
  by (induction xs) (simp_all add: domain_list_def)

lemma set_domain_list: "None \<notin> set vhs \<Longrightarrow> set (domain_list vhs) = vhosts_domains vhs"
  unfolding domain_list_def vhosts_domains_def by (induction vhs) (auto split: option.splits)

text \<open>
  Envoy refuses a route configuration in which a domain occurs twice. When every stored
  ingress lists a domain once and none claims the domain of the status virtual host, the internal
  route configuration of every region in every snapshot of a reachable state has no nil virtual
  host and no duplicate domain.
\<close>

lemma snapshot_domains_unique:
  assumes "caches_init c0" "caches_step\<^sup>*\<^sup>* c0 c"
    and "ToEnvoySnapshot env ords ctx now version h c = (Inr snap, h')"
    and "range_order (so_ingresses ords)" "range_order (so_snis ords)" "i < length regions"
    and "\<And>k ti. caches_abs c k = Some ti \<Longrightarrow>
      distinct (domain_list (ti_internalVirtualHosts ti ! i)) \<and> InternalKourierDomain \<notin> ti_domains ti"
  shows "\<exists>rc. map_of (sn_routes snap) (internalRouteConfigName ! i) = Some rc \<and>
    None \<notin> set (rc_VirtualHosts rc) \<and> distinct (domain_list (rc_VirtualHosts rc))"
proof -
  note C = ccl.reachable_inv [OF assms(1,2), unfolded caches_closed_def]
  note I = caches_invD [OF conjunct1 [OF C]]
  let ?tis = "so_ingresses ords (ca_translatedIngresses c)"
  let ?f = "\<lambda>kt. ti_internalVirtualHosts (snd kt) ! i"
  have abs: "caches_abs c (fst kt) = Some (snd kt)" if "kt \<in> set ?tis" for kt
    using that [unfolded range_order_set [OF assms(4)]] I(1)
    by (simp add: caches_abs_def wf_alist_def map_of_is_SomeI)
  have wf: "None \<notin> set (?f kt)" "set (domain_list (?f kt)) \<subseteq> ti_domains (snd kt)" if "kt \<in> set ?tis" for kt
  proof -
    show "None \<notin> set (?f kt)" using I(3) [OF abs [OF that]] assms(6) by (simp add: ti_wf_def)
    then show "set (domain_list (?f kt)) \<subseteq> ti_domains (snd kt)"
      using assms(6) by (auto simp: set_domain_list ti_domains_def simp del: length_regions)
  qed
  have "distinct (ca_translatedIngresses c)" using I(1) by (simp add: wf_alist_def distinct_map)
  then have "distinct ?tis" using assms(4) by (metis range_order_def mset_eq_imp_distinct_iff)
  moreover have "set (domain_list (?f a)) \<inter> set (domain_list (?f b)) = {}"
    if "a \<in> set ?tis" "b \<in> set ?tis" "a \<noteq> b" for a b
  proof -
    have "fst a \<noteq> fst b" using abs that by (metis option.inject prod.expand)
    then show ?thesis using I(5) [OF abs abs, OF that(1,2)] wf(2) that(1,2) by blast
  qed
  ultimately have "distinct (concat (map (\<lambda>kt. domain_list (?f kt)) ?tis))"
    using assms(7) abs by (intro distinct_concat_disjoint) blast+
  moreover have status: "vh_Domains (ca_statusVirtualHost c) = [InternalKourierDomain]"
    using C by (auto simp: statusVHost_def NewVirtualHost_def)
  moreover have "InternalKourierDomain \<notin> set (concat (map (\<lambda>kt. domain_list (?f kt)) ?tis))"
    using wf(2) assms(7) abs by fastforce
  ultimately have "distinct (domain_list (local_vhosts ords c i))"
    by (simp add: local_vhosts_def region_vhosts_def domain_list_concat) (simp add: domain_list_def)
  moreover have "None \<notin> set (local_vhosts ords c i)"
    using wf(1) by (auto simp: local_vhosts_def region_vhosts_def)
  moreover obtain routes ls cs where
    "snap = NewSnapshot version (cc_list (so_clusters ords) now (ca_clusters c) @ cs) routes ls"
    "map_of (index_by_name rc_Name routes) (internalRouteConfigName ! i) =
       Some (route_cfg_int (region_table (local_vhosts ords c)) i)"
    using snapshot_returned [OF assms(3-5)] generate_routes_lookup(2) [OF _ assms(6)] by metis
  ultimately show ?thesis
    using assms(6) by (simp add: NewSnapshot_def route_cfg_int_def NewRouteConfig_def del: length_regions)
qed

section \<open>Witnesses\<close>

definition ex_tls_caches :: Caches where
  "ex_tls_caches = snd (UpdateIngress 0 ex_caches ex_tls_ti)"

lemma ex_tls: "\<not> no_tls ex_tls_caches"
  by code_simp

theorem tls_snapshot_panics_witness:
  "fst (ToEnvoySnapshot ex_senv ex_orders None 5 ''v1'' [ex_match] ex_tls_caches) = Inl (Panic IndexOutOfRange)"
  by (rule tls_snapshot_panics [OF ex_plain ex_orders_ok(1,2) ex_tls])


lemma ex_stored: "ca_translatedIngresses ex_caches1 = [(ing_nn (ex_ingress ''hello''), ex_ti)]"
  by code_simp


end
