(* ===== verification/Generator.thy ===== *)
theory Generator
  imports Caches_Props
begin

text \<open>
  \<^verbatim>\<open>UpdateInfoForIngress\<close> of \<^verbatim>\<open>pkg/generator/generator.go\<close>, with \<^verbatim>\<open>InsertProbe\<close> of
  \<^verbatim>\<open>knative.dev/networking/pkg/ingress\<close>, which it calls first. \<open>computeHash\<close> stands for the JSON
  serialisation and the SHA-256 of the ingress, as the hexadecimal string.
\<close>

section \<open>The probe header\<close>

definition HashKey :: string where "HashKey = ''K-Network-Hash''"
definition HashValueOverride :: string where "HashValueOverride = ''override''"

text \<open>The copy of a path that answers probes: it matches the override header and adds the hash.\<close>

definition probe_path :: "string \<Rightarrow> HTTPIngressPath \<Rightarrow> HTTPIngressPath" where
  "probe_path hash elt =
     elt\<lparr>hp_Headers := AList.update HashKey HashValueOverride (hp_Headers elt),
         hp_AppendHeaders := AList.update HashKey hash (hp_AppendHeaders elt)\<rparr>"

text \<open>
  The loop over the rules. The paths of a rule are behind a pointer, so the rules before one
  without HTTP block keep their new paths when the loop returns the error.
\<close>

fun probe_rules :: "string \<Rightarrow> IngressRule list \<Rightarrow> go_error option \<times> IngressRule list" where
  "probe_rules hash [] = (None, [])"
| "probe_rules hash (rule # rules) =
     (case ir_HTTP rule of
        None \<Rightarrow> (Some (ErrNew ''rule is missing HTTP block''), rule # rules)
      | Some paths \<Rightarrow>
          (let (err, rules') = probe_rules hash rules in
           (err, rule\<lparr>ir_HTTP := Some (map (probe_path hash) paths @ paths)\<rparr> # rules')))"

definition InsertProbe :: "(Ingress \<Rightarrow> go_error + string) \<Rightarrow> Ingress \<Rightarrow> (go_error + string) \<times> Ingress" where
  "InsertProbe computeHash ing =
     (case computeHash ing of
        Inl e \<Rightarrow> (Inl (ErrWrap ''failed to compute the hash of the Ingress'' e), ing)
      | Inr hash \<Rightarrow>
          (let (err, rules) = probe_rules hash (ing_Rules ing); ing' = ing\<lparr>ing_Rules := rules\<rparr> in
           case err of Some e \<Rightarrow> (Inl e, ing') | None \<Rightarrow> (Inr hash, ing')))"

section \<open>Updating the caches for an ingress\<close>

definition UpdateInfoForIngress ::
  "(Ingress \<Rightarrow> go_error + string) \<Rightarrow> world \<Rightarrow> IngressTranslator \<Rightarrow> ctx \<Rightarrow> bool \<Rightarrow> int \<Rightarrow>
   Caches \<Rightarrow> tr_state \<Rightarrow> Ingress \<Rightarrow> unit res \<times> Caches \<times> tr_state \<times> Ingress" where
  "UpdateInfoForIngress computeHash w translator ctx extAuthzEnabled now caches st ing =
     (case InsertProbe computeHash ing of
        (Inl e, ing) \<Rightarrow>
          (Inl (Err (ErrWrap ''failed to add knative probe header'' e)), caches, st, ing)
      | (Inr hash, ing) \<Rightarrow>
          (case translateIngress w translator ctx ing extAuthzEnabled st of
             (Inl (Err e), st) \<Rightarrow> (Inl (Err (ErrWrap ''failed to translate ingress'' e)), caches, st, ing)
           | (Inl (Panic p), st) \<Rightarrow> (Inl (Panic p), caches, st, ing)
           | (Inr None, st) \<Rightarrow> (Inr (), caches, st, ing)
           | (Inr (Some ti), st) \<Rightarrow>
               (case UpdateIngress now caches ti of (r, caches) \<Rightarrow> (r, caches, st, ing))))"

section \<open>What the probe insertion does\<close>

definition probe_rule :: "string \<Rightarrow> IngressRule \<Rightarrow> IngressRule" where
  "probe_rule hash rule = rule\<lparr>ir_HTTP := Some (map (probe_path hash) (rule_paths rule) @ rule_paths rule)\<rparr>"

lemma probe_rules_eq:
  "if \<forall>rule \<in> set rules. ir_HTTP rule \<noteq> None then probe_rules hash rules = (None, map (probe_rule hash) rules)
   else fst (probe_rules hash rules) \<noteq> None"
  by (induction rules) (auto simp: probe_rule_def rule_paths_def Let_def split: option.splits prod.splits if_split_asm)

lemma InsertProbe_Inr:
  "InsertProbe computeHash ing = (Inr hash, ing') \<longleftrightarrow>
     computeHash ing = Inr hash \<and> (\<forall>rule \<in> set (ing_Rules ing). ir_HTTP rule \<noteq> None) \<and>
     ing' = ing\<lparr>ing_Rules := map (probe_rule hash) (ing_Rules ing)\<rparr>"
  using probe_rules_eq [of "ing_Rules ing" hash]
  by (auto simp: InsertProbe_def Let_def split: sum.splits prod.splits option.splits if_split_asm)

lemma InsertProbe_nn: "InsertProbe computeHash ing = (r, ing') \<Longrightarrow> ing_nn ing' = ing_nn ing"
  by (auto simp: InsertProbe_def Let_def ing_nn_def split: sum.splits prod.splits option.splits)

text \<open>The probe twin of a route: same name, path and action, for requests that carry the override header.\<close>

definition probe_route_of :: "string \<Rightarrow> Route \<Rightarrow> Route \<Rightarrow> bool" where
  "probe_route_of hash p r \<longleftrightarrow>
     rt_Name p = rt_Name r \<and> rm_Prefix (rt_Match p) = rm_Prefix (rt_Match r) \<and> rt_Action p = rt_Action r \<and>
     \<lparr>hm_Name = HashKey, hm_StringMatch_Exact = Some HashValueOverride\<rparr> \<in> set (rm_Headers (rt_Match p)) \<and>
     \<lparr>hvo_Header = \<lparr>hv_Key = HashKey, hv_Value = hash\<rparr>, hvo_AppendAction = OVERWRITE_IF_EXISTS_OR_ADD\<rparr>
       \<in> set (rt_RequestHeadersToAdd p)"

lemma update_mem: "(k, v) \<in> set (AList.update k v m)"
  by (induction m) auto

lemma probe_path_route:
  "probe_route_of hash (path_route ruleName i rg (probe_path hash p)) (path_route ruleName i rg p)"
proof -
  have "AList.update HashKey hash m \<noteq> []" for m :: "string gomap" using update_mem [of HashKey hash m] by auto
  then show ?thesis
    using update_mem [of HashKey HashValueOverride "hp_Headers p"] update_mem [of HashKey hash "hp_AppendHeaders p"]
    by (force simp: probe_route_of_def path_route_def NewRoute_def path_name_def path_or_root_def probe_path_def
        matchHeadersFromHTTPPath_def headersToAdd_def HashValueOverride_def Let_def)
qed

lemma plain_rule_routes:
  "\<not> redirected w ing rule \<Longrightarrow> rule_routes w ing False i (n, rule) =
     map (path_route (rule_name ing n) i [region_label i]) (rule_paths rule)"
  by (simp add: rule_routes_def path_routes_def [abs_def] acme_path_def)

text \<open>
  C30: The gateway answers probes for every rule: without external authorization (with it, only the first region has
  virtual hosts), in the translation of an ingress with inserted probes, the virtual host of a rule that is not redirected has, in every region, first one probe
  route per path and then the routes of the paths themselves. The probe route of a path has the
  same prefix and the same weighted clusters, matches the override header and adds the hash of the
  ingress.
\<close>

theorem probe_routes_first:
  assumes "InsertProbe computeHash ing = (Inr hash, ing')"
    and "translateIngress w t ctx ing' False s = (Inr (Some ti), s')"
    and "i < length regions" "n < length (ing_Rules ing)" "\<not> redirected w ing (ing_Rules ing ! n)"
  shows "\<exists>vh probes routes. ti_internalVirtualHosts ti ! i ! n = Some vh \<and>
    vh_Domains vh = domainsForRule (ing_Rules ing ! n) \<and> vh_Routes vh = probes @ routes \<and>
    routes = map (path_route (rule_name ing n) i [region_label i]) (rule_paths (ing_Rules ing ! n)) \<and>
    list_all2 (probe_route_of hash) probes routes"
proof -
  let ?rule = "ing_Rules ing ! n"
  have ing': "ing' = ing\<lparr>ing_Rules := map (probe_rule hash) (ing_Rules ing)\<rparr>"
    using assms(1) by (simp add: InsertProbe_Inr)
  have ti: "ti = spec_translation w t ctx ing' False s"
    using assms(2) by (simp add: translateIngress_exits translate_Inr)
  have red: "\<not> redirected w ing' (probe_rule hash ?rule)"
    using assms(5) by (simp add: redirected_def ing' probe_rule_def)
  have name: "rule_name ing' n = rule_name ing n" by (simp add: rule_name_def ing')
  have "ti_internalVirtualHosts ti ! i ! n = rule_vhost w ing' False i (n, probe_rule hash ?rule)"
    using assms(3,4)
    by (simp add: ti spec_translation_def Let_def internal_vhosts_def ing' nth_enumerate_eq del: length_regions)
  moreover have "rule_paths (probe_rule hash ?rule) = map (probe_path hash) (rule_paths ?rule) @ rule_paths ?rule"
    by (simp add: probe_rule_def rule_paths_def)
  moreover have "list_all2 (probe_route_of hash)
      (map (path_route (rule_name ing n) i [region_label i]) (map (probe_path hash) (rule_paths ?rule)))
      (map (path_route (rule_name ing n) i [region_label i]) (rule_paths ?rule))"
    by (simp add: list_all2_conv_all_nth probe_path_route)
  ultimately show ?thesis
    using plain_rule_routes [OF red, of i n]
    by (simp add: rule_vhost_def Let_def name probe_rule_def domainsForRule_def)
qed

definition ex_hash :: "Ingress \<Rightarrow> go_error + string" where
  "ex_hash ing = Inr (''hash-of-'' @ ing_Name ing)"

definition ex_probed :: Ingress where
  "ex_probed = snd (InsertProbe ex_hash (ex_ingress ''hello''))"

lemma ex_probed: "InsertProbe ex_hash (ex_ingress ''hello'') = (Inr ''hash-of-hello'', ex_probed)"
  by code_simp

definition ex_probed_ti :: translatedIngress where
  "ex_probed_ti = spec_translation ex_world ex_translator None ex_probed False ex_state"

lemma ex_probed_translation:
  "translateIngress ex_world ex_translator None ex_probed False ex_state =
     (Inr (Some ex_probed_ti), spec_state ex_translator ex_probed ex_state)"
  unfolding ex_probed_ti_def by (rule translateIngress_translatable) code_simp

theorem probe_routes_first_witness:
  "\<exists>vh probes routes. ti_internalVirtualHosts ex_probed_ti ! 1 ! 0 = Some vh \<and>
    vh_Domains vh = [''h.io'', ''h.io:*''] \<and> vh_Routes vh = probes @ routes \<and>
    list_all2 (probe_route_of ''hash-of-hello'') probes routes \<and> length routes = 1"
proof -
  have "\<not> redirected ex_world (ex_ingress ''hello'') (ing_Rules (ex_ingress ''hello'') ! 0)"
    by (simp add: redirected_def ex_ingress_def)
  from probe_routes_first [OF ex_probed ex_probed_translation _ _ this, of 1]
  obtain vh probes routes where "ti_internalVirtualHosts ex_probed_ti ! 1 ! 0 = Some vh"
    "vh_Domains vh = domainsForRule (ing_Rules (ex_ingress ''hello'') ! 0)" "vh_Routes vh = probes @ routes"
    "length routes = length (rule_paths (ing_Rules (ex_ingress ''hello'') ! 0))"
    "list_all2 (probe_route_of ''hash-of-hello'') probes routes"
    by (auto simp: ex_ingress_def simp del: One_nat_def)
  then show ?thesis
    by (intro exI [of _ vh] exI [of _ probes] exI [of _ routes])
      (simp add: ex_ingress_def ex_rule_def domainsForRule_def rule_paths_def)
qed

end
