(* ===== verification/Ingress_Status.thy ===== *)
theory Ingress_Status
  imports Kourier_Config Kube_Types
begin

text \<open>
  The status of an ingress: the conditions of \<^verbatim>\<open>knative.dev/pkg/apis/condition_set.go\<close> with the
  condition set of \<^verbatim>\<open>ingress_lifecycle.go\<close>, which the reconciler marks. \<open>now\<close> is the time a
  changed condition is stamped with, \<open>sprintf\<close> is \<^verbatim>\<open>fmt.Sprintf\<close> of a message without arguments.
  The lists that are sorted have fewer than 13 elements, for which \<^verbatim>\<open>sort.Slice\<close> is stable.
\<close>

datatype ConditionStatus = ConditionTrue | ConditionFalse | ConditionUnknown

datatype ConditionSeverity = SeverityError | SeverityWarning | SeverityInfo

record Condition =
  cn_Type :: string
  cn_Status :: ConditionStatus
  cn_Severity :: ConditionSeverity
  cn_Time :: int
  cn_Reason :: string
  cn_Message :: string

definition IngressConditionReady :: string where "IngressConditionReady = ''Ready''"
definition IngressConditionNetworkConfigured :: string where
  "IngressConditionNetworkConfigured = ''NetworkConfigured''"
definition IngressConditionLoadBalancerReady :: string where
  "IngressConditionLoadBalancerReady = ''LoadBalancerReady''"

lemmas condition_types = IngressConditionReady_def IngressConditionNetworkConfigured_def
  IngressConditionLoadBalancerReady_def

definition cond_dependents :: "string list" where
  "cond_dependents = [IngressConditionNetworkConfigured, IngressConditionLoadBalancerReady]"

section \<open>The condition manager\<close>

text \<open>Nil-safe observers of a condition.\<close>

definition IsTrue :: "Condition option \<Rightarrow> bool" where
  "IsTrue c = (case c of None \<Rightarrow> False | Some c \<Rightarrow> cn_Status c = ConditionTrue)"

definition IsFalse :: "Condition option \<Rightarrow> bool" where
  "IsFalse c = (case c of None \<Rightarrow> False | Some c \<Rightarrow> cn_Status c = ConditionFalse)"

definition GetReason :: "Condition option \<Rightarrow> string" where
  "GetReason c = (case c of None \<Rightarrow> [] | Some c \<Rightarrow> cn_Reason c)"

definition GetCondition :: "Condition list \<Rightarrow> string \<Rightarrow> Condition option" where
  "GetCondition cs t = find (\<lambda>c. cn_Type c = t) cs"

text \<open>A condition that would only change its time stamp is left alone.\<close>

definition SetCondition :: "int \<Rightarrow> Condition \<Rightarrow> Condition list \<Rightarrow> Condition list" where
  "SetCondition now cond cs =
     (if list_ex (\<lambda>c. cn_Type c = cn_Type cond \<and> cond\<lparr>cn_Time := cn_Time c\<rparr> = c) cs then cs
      else sort_key cn_Type (filter (\<lambda>c. cn_Type c \<noteq> cn_Type cond) cs @ [cond\<lparr>cn_Time := now\<rparr>]))"

definition isTerminal :: "string \<Rightarrow> bool" where
  "isTerminal t \<longleftrightarrow> t \<in> set cond_dependents \<or> t = IngressConditionReady"

definition severity :: "string \<Rightarrow> ConditionSeverity" where
  "severity t = (if isTerminal t then SeverityError else SeverityInfo)"

definition new_cond :: "string \<Rightarrow> ConditionStatus \<Rightarrow> string \<Rightarrow> string \<Rightarrow> Condition" where
  "new_cond t st reason msg = \<lparr>cn_Type = t, cn_Status = st, cn_Severity = severity t, cn_Time = 0,
     cn_Reason = reason, cn_Message = msg\<rparr>"

definition findUnhappyDependent :: "Condition list \<Rightarrow> Condition option" where
  "findUnhappyDependent cs =
     (let conditions = sort_key (\<lambda>c. - cn_Time c)
            (filter (\<lambda>c. cn_Severity c = SeverityError \<and> cn_Type c \<noteq> IngressConditionReady) cs)
      in case find (\<lambda>c. cn_Status c = ConditionFalse) conditions of
           Some c \<Rightarrow> Some c
         | None \<Rightarrow>
             (case find (\<lambda>c. cn_Status c = ConditionUnknown) conditions of
                Some c \<Rightarrow> Some c
              | None \<Rightarrow>
                  if length cond_dependents > length conditions
                  then Some (new_cond [] ConditionUnknown [] []) else None))"

definition recomputeHappiness :: "int \<Rightarrow> string \<Rightarrow> Condition list \<Rightarrow> Condition list" where
  "recomputeHappiness now t cs =
     (case findUnhappyDependent cs of
        Some c \<Rightarrow> SetCondition now
          (new_cond IngressConditionReady (cn_Status c) (cn_Reason c) (cn_Message c)) cs
      | None \<Rightarrow>
          if t \<noteq> IngressConditionReady
          then SetCondition now (new_cond IngressConditionReady ConditionTrue [] []) cs else cs)"

definition MarkTrue :: "int \<Rightarrow> string \<Rightarrow> Condition list \<Rightarrow> Condition list" where
  "MarkTrue now t cs = recomputeHappiness now t (SetCondition now (new_cond t ConditionTrue [] []) cs)"

definition MarkFalse ::
  "(string \<Rightarrow> string) \<Rightarrow> int \<Rightarrow> string \<Rightarrow> string \<Rightarrow> string \<Rightarrow> Condition list \<Rightarrow> Condition list" where
  "MarkFalse sprintf now t reason msg cs =
     foldl (\<lambda>cs t. SetCondition now (new_cond t ConditionFalse reason (sprintf msg)) cs) cs
       (t # (if t \<in> set cond_dependents then [IngressConditionReady] else []))"

definition MarkUnknown ::
  "(string \<Rightarrow> string) \<Rightarrow> int \<Rightarrow> string \<Rightarrow> string \<Rightarrow> string \<Rightarrow> Condition list \<Rightarrow> Condition list" where
  "MarkUnknown sprintf now t reason msg cs =
     (let cs = SetCondition now (new_cond t ConditionUnknown reason (sprintf msg)) cs in
      if list_ex (\<lambda>d. IsFalse (GetCondition cs d)) cond_dependents
      then (if \<not> IsFalse (GetCondition cs IngressConditionReady)
            then MarkFalse sprintf now IngressConditionReady reason msg cs else cs)
      else if t \<in> set cond_dependents
      then SetCondition now (new_cond IngressConditionReady ConditionUnknown reason (sprintf msg)) cs
      else cs)"

section \<open>The status of an ingress\<close>

record LoadBalancerIngressStatus =
  lbi_IP :: string
  lbi_Domain :: string
  lbi_DomainInternal :: string
  lbi_MeshOnly :: bool

record IngressStatus =
  is_ObservedGeneration :: int
  is_Conditions :: "Condition list"
  is_PublicLoadBalancer :: "LoadBalancerIngressStatus list option"
  is_PrivateLoadBalancer :: "LoadBalancerIngressStatus list option"

text \<open>An ingress as the reconciler gets it: the part the translator reads, and its status.\<close>

record IngressObject =
  io_Ingress :: Ingress
  io_Generation :: int
  io_DeletionTimestamp :: "int option"
  io_Status :: IngressStatus

definition MarkNetworkConfigured :: "int \<Rightarrow> IngressStatus \<Rightarrow> IngressStatus" where
  "MarkNetworkConfigured now st =
     st\<lparr>is_Conditions := MarkTrue now IngressConditionNetworkConfigured (is_Conditions st)\<rparr>"

definition MarkLoadBalancerReady ::
  "int \<Rightarrow> LoadBalancerIngressStatus list \<Rightarrow> LoadBalancerIngressStatus list \<Rightarrow> IngressStatus \<Rightarrow> IngressStatus" where
  "MarkLoadBalancerReady now publicLbs privateLbs st =
     st\<lparr>is_PublicLoadBalancer := Some publicLbs, is_PrivateLoadBalancer := Some privateLbs,
        is_Conditions := MarkTrue now IngressConditionLoadBalancerReady (is_Conditions st)\<rparr>"

definition MarkLoadBalancerNotReady :: "(string \<Rightarrow> string) \<Rightarrow> int \<Rightarrow> IngressStatus \<Rightarrow> IngressStatus" where
  "MarkLoadBalancerNotReady sprintf now st =
     st\<lparr>is_Conditions := MarkUnknown sprintf now IngressConditionLoadBalancerReady ''Uninitialized''
          ''Waiting for load balancer to be ready'' (is_Conditions st)\<rparr>"

definition MarkLoadBalancerFailed ::
  "(string \<Rightarrow> string) \<Rightarrow> int \<Rightarrow> string \<Rightarrow> string \<Rightarrow> IngressStatus \<Rightarrow> IngressStatus" where
  "MarkLoadBalancerFailed sprintf now reason message st =
     st\<lparr>is_Conditions := MarkFalse sprintf now IngressConditionLoadBalancerReady reason message
          (is_Conditions st)\<rparr>"

definition MarkIngressNotReady ::
  "(string \<Rightarrow> string) \<Rightarrow> int \<Rightarrow> string \<Rightarrow> string \<Rightarrow> IngressStatus \<Rightarrow> IngressStatus" where
  "MarkIngressNotReady sprintf now reason message st =
     st\<lparr>is_Conditions := MarkUnknown sprintf now IngressConditionReady reason message (is_Conditions st)\<rparr>"

definition IsReady :: "IngressObject \<Rightarrow> bool" where
  "IsReady i \<longleftrightarrow> is_ObservedGeneration (io_Status i) = io_Generation i \<and>
     IsTrue (GetCondition (is_Conditions (io_Status i)) IngressConditionReady)"

section \<open>Reading after writing\<close>

text \<open>
  Conditions as the controller keeps them: at most one of each type, and none but the top-level
  one and its dependents, with the severity of a terminal condition.
\<close>

definition conds_wf :: "Condition list \<Rightarrow> bool" where
  "conds_wf cs \<longleftrightarrow> distinct (map cn_Type cs) \<and> (\<forall>c \<in> set cs. isTerminal (cn_Type c) \<and> cn_Severity c = SeverityError)"

text \<open>What a reader sees of a condition.\<close>

definition cond_view :: "Condition list \<Rightarrow> string \<Rightarrow> (ConditionStatus \<times> string \<times> string) option" where
  "cond_view cs t = map_option (\<lambda>c. (cn_Status c, cn_Reason c, cn_Message c)) (GetCondition cs t)"

lemma GetCondition_iff:
  "distinct (map cn_Type cs) \<Longrightarrow> GetCondition cs t = Some c \<longleftrightarrow> c \<in> set cs \<and> cn_Type c = t"
  unfolding GetCondition_def by (induction cs) auto

lemma GetCondition_None: "GetCondition cs t = None \<longleftrightarrow> t \<notin> cn_Type ` set cs"
  by (auto simp: GetCondition_def find_None_iff)

lemma GetCondition_type: "GetCondition cs t = Some c \<Longrightarrow> c \<in> set cs \<and> cn_Type c = t"
  by (auto simp: GetCondition_def find_Some_iff)

lemma conds_wf_distinct: "conds_wf cs \<Longrightarrow> distinct (map cn_Type cs)"
  by (simp add: conds_wf_def)

lemma conds_wf_Set:
  assumes "conds_wf cs" "isTerminal t"
  shows "conds_wf (SetCondition now (new_cond t st r m) cs)"
  using assms by (auto simp: conds_wf_def SetCondition_def distinct_map inj_on_def new_cond_def severity_def)

text \<open>A condition that is set is read back, and no other condition changes.\<close>

lemma GetCondition_Set_other:
  assumes "conds_wf cs" "t \<noteq> cn_Type cond"
  shows "GetCondition (SetCondition now cond cs) t = GetCondition cs t"
proof -
  have "distinct (map cn_Type (SetCondition now cond cs))"
    using conds_wf_distinct [OF assms(1)] by (auto simp: SetCondition_def distinct_map inj_on_def)
  then have "GetCondition (SetCondition now cond cs) t = Some c \<longleftrightarrow> GetCondition cs t = Some c" for c
    using assms conds_wf_distinct [OF assms(1)] by (auto simp: GetCondition_iff SetCondition_def)
  then show ?thesis by (metis not_None_eq)
qed

lemma cond_view_Set:
  assumes "conds_wf cs"
  shows "cond_view (SetCondition now (new_cond t st r m) cs) t' =
    (if t' = t then Some (st, r, m) else cond_view cs t')"
proof (cases "t' = t")
  case False
  then show ?thesis using GetCondition_Set_other [OF assms] by (simp add: cond_view_def new_cond_def)
next
  case True
  let ?cond = "new_cond t st r m"
  have d: "distinct (map cn_Type (SetCondition now ?cond cs))" "distinct (map cn_Type cs)"
    using conds_wf_distinct [OF assms] by (auto simp: SetCondition_def distinct_map inj_on_def)
  have "\<exists>tm. ?cond\<lparr>cn_Time := tm\<rparr> \<in> set (SetCondition now ?cond cs)"
    by (auto simp: SetCondition_def list_ex_iff) metis
  then obtain tm where "GetCondition (SetCondition now ?cond cs) t = Some (?cond\<lparr>cn_Time := tm\<rparr>)"
    using d by (auto simp: GetCondition_iff new_cond_def)
  then show ?thesis using True by (simp add: cond_view_def new_cond_def)
qed

definition cond_status :: "Condition list \<Rightarrow> string \<Rightarrow> ConditionStatus option" where
  "cond_status cs t = map_option fst (cond_view cs t)"

lemma cond_status_eq: "cond_status cs t = map_option cn_Status (GetCondition cs t)"
  by (simp add: cond_status_def cond_view_def option.map_comp comp_def)

lemma IsTrue_status: "IsTrue (GetCondition cs t) \<longleftrightarrow> cond_status cs t = Some ConditionTrue"
  "IsFalse (GetCondition cs t) \<longleftrightarrow> cond_status cs t = Some ConditionFalse"
  by (auto simp: IsTrue_def IsFalse_def cond_status_eq split: option.split)

lemma condition_types_distinct [simp]:
  "IngressConditionNetworkConfigured \<noteq> IngressConditionLoadBalancerReady"
  "IngressConditionLoadBalancerReady \<noteq> IngressConditionNetworkConfigured"
  "IngressConditionReady \<noteq> IngressConditionNetworkConfigured"
  "IngressConditionReady \<noteq> IngressConditionLoadBalancerReady"
  "IngressConditionNetworkConfigured \<noteq> IngressConditionReady"
  "IngressConditionLoadBalancerReady \<noteq> IngressConditionReady"
  by (simp_all add: condition_types)

lemma terminal_dependent: "t \<in> set cond_dependents \<Longrightarrow> isTerminal t" "isTerminal IngressConditionReady"
  "t \<in> set cond_dependents \<Longrightarrow> t \<noteq> IngressConditionReady"
  by (auto simp: isTerminal_def cond_dependents_def)

section \<open>The dependents decide the top-level condition\<close>

text \<open>The conditions \<^verbatim>\<open>findUnhappyDependent\<close> looks at are those of the dependents.\<close>

definition terminals :: "Condition list \<Rightarrow> Condition list" where
  "terminals cs = sort_key (\<lambda>c. - cn_Time c)
     (filter (\<lambda>c. cn_Severity c = SeverityError \<and> cn_Type c \<noteq> IngressConditionReady) cs)"

lemma terminals_iff:
  assumes "conds_wf cs"
  shows "c \<in> set (terminals cs) \<longleftrightarrow> (\<exists>d \<in> set cond_dependents. GetCondition cs d = Some c)"
proof -
  have "c \<in> set cs \<Longrightarrow> cn_Severity c = SeverityError \<and>
      (cn_Type c \<in> set cond_dependents \<longleftrightarrow> cn_Type c \<noteq> IngressConditionReady)"
    using assms terminal_dependent(3) by (auto simp: conds_wf_def isTerminal_def)
  then show ?thesis
    by (auto simp: terminals_def GetCondition_iff [OF conds_wf_distinct [OF assms]])
qed

lemma terminals_status:
  assumes "conds_wf cs"
  shows "(\<exists>c \<in> set (terminals cs). cn_Status c = st) \<longleftrightarrow> (\<exists>d \<in> set cond_dependents. cond_status cs d = Some st)"
proof
  assume "\<exists>c \<in> set (terminals cs). cn_Status c = st"
  then show "\<exists>d \<in> set cond_dependents. cond_status cs d = Some st"
    by (auto simp: terminals_iff [OF assms] cond_status_eq) blast
next
  assume "\<exists>d \<in> set cond_dependents. cond_status cs d = Some st"
  then obtain d c where "d \<in> set cond_dependents" "GetCondition cs d = Some c" "cn_Status c = st"
    by (auto simp: cond_status_eq)
  then show "\<exists>c \<in> set (terminals cs). cn_Status c = st" using terminals_iff [OF assms] by blast
qed

lemma terminals_length:
  assumes "conds_wf cs"
  shows "length (terminals cs) < length cond_dependents \<longleftrightarrow> (\<exists>d \<in> set cond_dependents. cond_status cs d = None)"
proof -
  have "distinct (map cn_Type (terminals cs))"
    using conds_wf_distinct [OF assms] by (auto simp: terminals_def distinct_map inj_on_def)
  then have "length (terminals cs) = card (cn_Type ` set (terminals cs))"
    by (metis distinct_card length_map list.set_map)
  also have "cn_Type ` set (terminals cs) = {d \<in> set cond_dependents. GetCondition cs d \<noteq> None}"
  proof (intro equalityI subsetI)
    fix d assume "d \<in> cn_Type ` set (terminals cs)"
    then obtain c d' where "d = cn_Type c" "d' \<in> set cond_dependents" "GetCondition cs d' = Some c"
      using terminals_iff [OF assms] by blast
    then show "d \<in> {d \<in> set cond_dependents. GetCondition cs d \<noteq> None}"
      using GetCondition_type [of cs d' c] by simp
  next
    fix d assume "d \<in> {d \<in> set cond_dependents. GetCondition cs d \<noteq> None}"
    then obtain c where "d \<in> set cond_dependents" "GetCondition cs d = Some c" by auto
    then show "d \<in> cn_Type ` set (terminals cs)"
      using terminals_iff [OF assms, of c] GetCondition_type by blast
  qed
  finally have "length (terminals cs) = card {d \<in> set cond_dependents. GetCondition cs d \<noteq> None}" .
  moreover have "card {d \<in> set cond_dependents. P d} < 2 \<longleftrightarrow> (\<exists>d \<in> set cond_dependents. \<not> P d)" for P
  proof -
    have eq: "{d \<in> set cond_dependents. P d} =
        (if P IngressConditionNetworkConfigured then {IngressConditionNetworkConfigured} else {}) \<union>
        (if P IngressConditionLoadBalancerReady then {IngressConditionLoadBalancerReady} else {})"
      by (auto simp: cond_dependents_def)
    show ?thesis
      unfolding eq
      by (cases "P IngressConditionNetworkConfigured"; cases "P IngressConditionLoadBalancerReady")
        (simp_all add: cond_dependents_def)
  qed
  moreover have "length cond_dependents = 2" by (simp add: cond_dependents_def)
  ultimately show ?thesis by (simp add: cond_status_eq)
qed

lemma unhappy_eq:
  "findUnhappyDependent cs =
     (case find (\<lambda>c. cn_Status c = ConditionFalse) (terminals cs) of Some c \<Rightarrow> Some c
      | None \<Rightarrow> (case find (\<lambda>c. cn_Status c = ConditionUnknown) (terminals cs) of Some c \<Rightarrow> Some c
        | None \<Rightarrow> if length (terminals cs) < length cond_dependents
                  then Some (new_cond [] ConditionUnknown [] []) else None))"
  unfolding findUnhappyDependent_def terminals_def [symmetric] Let_def ..

text \<open>The status the dependents give: false if one is false, true if all are true, else unknown.\<close>

definition happiness :: "Condition list \<Rightarrow> ConditionStatus" where
  "happiness cs =
     (if \<exists>d \<in> set cond_dependents. cond_status cs d = Some ConditionFalse then ConditionFalse
      else if \<forall>d \<in> set cond_dependents. cond_status cs d = Some ConditionTrue then ConditionTrue
      else ConditionUnknown)"

lemma not_ConditionTrue: "s \<noteq> Some ConditionTrue \<longleftrightarrow> s = None \<or> s = Some ConditionFalse \<or> s = Some ConditionUnknown"
  by (cases s) (use ConditionStatus.exhaust in blast)+

lemma findUnhappyDependent_status:
  assumes "conds_wf cs"
  shows "(case findUnhappyDependent cs of Some c \<Rightarrow> cn_Status c | None \<Rightarrow> ConditionTrue) = happiness cs"
proof -
  have F: "find (\<lambda>c. cn_Status c = st) (terminals cs) = None \<longleftrightarrow> \<not> (\<exists>d \<in> set cond_dependents. cond_status cs d = Some st)" for st
    using terminals_status [OF assms, of st] by (auto simp: find_None_iff)
  have S: "find (\<lambda>c. cn_Status c = st) (terminals cs) = Some c \<Longrightarrow> cn_Status c = st" for st c
    by (auto simp: find_Some_iff)
  let ?has = "\<lambda>st. \<exists>d \<in> set cond_dependents. cond_status cs d = Some st"
  consider "?has ConditionFalse" | "\<not> ?has ConditionFalse" "?has ConditionUnknown"
    | "\<not> ?has ConditionFalse" "\<not> ?has ConditionUnknown" by blast
  then show ?thesis
  proof cases
    case 1
    then obtain c where c: "find (\<lambda>c. cn_Status c = ConditionFalse) (terminals cs) = Some c"
      using F [of ConditionFalse] by blast
    with 1 S [OF c] show ?thesis by (simp add: unhappy_eq happiness_def)
  next
    case 2
    then obtain c where c: "find (\<lambda>c. cn_Status c = ConditionUnknown) (terminals cs) = Some c"
      using F [of ConditionUnknown] by blast
    have "find (\<lambda>c. cn_Status c = ConditionFalse) (terminals cs) = None" using 2(1) F by blast
    moreover have "\<not> (\<forall>d \<in> set cond_dependents. cond_status cs d = Some ConditionTrue)" using 2(2) by force
    ultimately show ?thesis using 2(1) c S [OF c] by (simp add: unhappy_eq happiness_def)
  next
    case 3
    have none: "find (\<lambda>c. cn_Status c = ConditionFalse) (terminals cs) = None"
      "find (\<lambda>c. cn_Status c = ConditionUnknown) (terminals cs) = None" using 3 F by blast+
    have all: "(\<forall>d \<in> set cond_dependents. cond_status cs d = Some ConditionTrue) \<longleftrightarrow>
        \<not> (\<exists>d \<in> set cond_dependents. cond_status cs d = None)"
      using 3 not_ConditionTrue by (metis option.distinct(1))
    show ?thesis
      using 3(1) terminals_length [OF assms] unfolding unhappy_eq happiness_def none all
      by (simp add: new_cond_def)
  qed
qed

lemma MarkTrue_view:
  assumes "conds_wf cs" "t \<in> set cond_dependents"
  shows "conds_wf (MarkTrue now t cs)"
    and "cond_view (MarkTrue now t cs) t = Some (ConditionTrue, [], [])"
    and "d \<in> set cond_dependents \<Longrightarrow> d \<noteq> t \<Longrightarrow> cond_view (MarkTrue now t cs) d = cond_view cs d"
    and "cond_status (MarkTrue now t cs) IngressConditionReady = Some (happiness (MarkTrue now t cs))"
proof -
  let ?cs = "SetCondition now (new_cond t ConditionTrue [] []) cs"
  have wf: "conds_wf ?cs" using assms by (simp add: conds_wf_Set terminal_dependent)
  define st where "st = (case findUnhappyDependent ?cs of Some c \<Rightarrow> cn_Status c | None \<Rightarrow> ConditionTrue)"
  obtain r m where eq: "MarkTrue now t cs = SetCondition now (new_cond IngressConditionReady st r m) ?cs"
    using terminal_dependent(3) [OF assms(2)] that
    by (cases "findUnhappyDependent ?cs") (simp_all add: MarkTrue_def recomputeHappiness_def st_def)
  show "conds_wf (MarkTrue now t cs)" unfolding eq by (rule conds_wf_Set [OF wf terminal_dependent(2)])
  have dep: "cond_view (MarkTrue now t cs) d = cond_view ?cs d" if "d \<in> set cond_dependents" for d
    using that terminal_dependent(3) unfolding eq by (simp add: cond_view_Set [OF wf])
  show "cond_view (MarkTrue now t cs) t = Some (ConditionTrue, [], [])"
    using dep [OF assms(2)] by (simp add: cond_view_Set [OF assms(1)])
  show "cond_view (MarkTrue now t cs) d = cond_view cs d" if "d \<in> set cond_dependents" "d \<noteq> t"
    using dep [OF that(1)] that(2) by (simp add: cond_view_Set [OF assms(1)])
  have "happiness (MarkTrue now t cs) = happiness ?cs"
    using dep by (simp add: happiness_def cond_status_def)
  then show "cond_status (MarkTrue now t cs) IngressConditionReady = Some (happiness (MarkTrue now t cs))"
    unfolding eq using findUnhappyDependent_status [OF wf] by (simp add: cond_status_def cond_view_Set [OF wf] st_def)
qed

lemma MarkFalse_view:
  assumes "conds_wf cs" "t \<in> set cond_dependents"
  shows "conds_wf (MarkFalse sp now t r m cs)"
    and "cond_view (MarkFalse sp now t r m cs) t' =
      (if t' = t \<or> t' = IngressConditionReady then Some (ConditionFalse, r, sp m) else cond_view cs t')"
  using assms terminal_dependent conds_wf_Set by (auto simp: MarkFalse_def cond_view_Set)

end
