(* ===== verification/Reconciler.thy ===== *)
theory Reconciler
  imports Snapshot_Laws Generator Ingress_Status
begin

text \<open>
  The reconciler of \<^verbatim>\<open>pkg/reconciler/ingress/ingress.go\<close>: it updates the caches for an ingress, hands
  a new snapshot to the xDS server and marks the status of the ingress. Each handler is a function
  from the state of the process to a result and the next state.
\<close>

section \<open>Environment and state\<close>

text \<open>
  What the handlers get from outside: the environment of the snapshots and the translator, the
  hash of an ingress, the orders of map iterations, the random version, the error of answering the
  open watches of the snapshot cache, the answer of the status prober, the cluster's domain name
  and the formatting of a message; \<open>re_extAuthz\<close> is the field of the reconciler.
\<close>

record rec_env =
  re_snap :: snap_env
  re_translator :: IngressTranslator
  re_hash :: "Ingress \<Rightarrow> go_error + string"
  re_orders :: snap_orders
  re_version :: string
  re_watchError :: "Snapshot \<Rightarrow> go_error option"
  re_probe :: "IngressObject \<Rightarrow> go_error + bool"
  re_clusterDomain :: string
  re_sprintf :: "string \<Rightarrow> string"
  re_extAuthz :: bool

text \<open>
  The state the reconciler works on: the caches, the allocated SNI matches and tracked references,
  the snapshot per node of the xDS server, the ingresses whose probing was cancelled, and how often
  the ingresses in conflict were enqueued again.
\<close>

record rec_state =
  rs_caches :: Caches
  rs_tr :: tr_state
  rs_snapshots :: "(string \<times> Snapshot) list"
  rs_cancelled :: "NamespacedName list"
  rs_resyncs :: nat

definition conflictReason :: string where "conflictReason = ''DomainConflict''"
definition notReconciledReason :: string where "notReconciledReason = ''ReconcileIngressFailed''"
definition nodeID :: string where "nodeID = ''3scale-kourier-gateway''"

section \<open>Defaults of an ingress\<close>

definition default_path :: "HTTPIngressPath \<Rightarrow> HTTPIngressPath" where
  "default_path h =
     (case hp_Splits h of
        [s] \<Rightarrow> if bs_Percent s = 0 then h\<lparr>hp_Splits := [s\<lparr>bs_Percent := 100\<rparr>]\<rparr> else h
      | _ \<Rightarrow> h)"

definition default_rule :: "IngressRule \<Rightarrow> IngressRule res" where
  "default_rule r =
     (let r = (if visibility_str (ir_Visibility r) = [] then r\<lparr>ir_Visibility := ExternalIP\<rparr> else r) in
      bindr (deref (ir_HTTP r)) (\<lambda>paths. Inr (r\<lparr>ir_HTTP := Some (map default_path paths)\<rparr>)))"

definition SetDefaults :: "Ingress \<Rightarrow> Ingress res" where
  "SetDefaults ing =
     bindr (foldM (\<lambda>rules r. bindr (default_rule r) (\<lambda>r. Inr (rules @ [r]))) [] (ing_Rules ing))
       (\<lambda>rules. Inr (ing\<lparr>ing_Rules := rules\<rparr>))"

section \<open>Handlers\<close>

text \<open>\<^verbatim>\<open>SetSnapshot\<close> stores the snapshot of the node and then answers the open watches.\<close>

definition SetSnapshot ::
  "(Snapshot \<Rightarrow> go_error option) \<Rightarrow> string \<Rightarrow> Snapshot \<Rightarrow> (string \<times> Snapshot) list \<Rightarrow>
   unit res \<times> (string \<times> Snapshot) list" where
  "SetSnapshot watchError node snapshot snapshots =
     (case watchError snapshot of Some e \<Rightarrow> Inl (Err e) | None \<Rightarrow> Inr (),
      AList.update node snapshot snapshots)"

definition updateEnvoyConfig :: "rec_env \<Rightarrow> ctx \<Rightarrow> int \<Rightarrow> rec_state \<Rightarrow> unit res \<times> rec_state" where
  "updateEnvoyConfig env ctx now s =
     (case ToEnvoySnapshot (re_snap env) (re_orders env) ctx now (re_version env)
             (ts_heap (rs_tr s)) (rs_caches s) of
        (Inl f, h) \<Rightarrow> (Inl f, s\<lparr>rs_tr := (rs_tr s)\<lparr>ts_heap := h\<rparr>\<rparr>)
      | (Inr newSnapshot, h) \<Rightarrow>
          (let (r, snapshots) = SetSnapshot (re_watchError env) nodeID newSnapshot (rs_snapshots s)
           in (r, s\<lparr>rs_tr := (rs_tr s)\<lparr>ts_heap := h\<rparr>, rs_snapshots := snapshots\<rparr>)))"

definition updateIngress ::
  "rec_env \<Rightarrow> ctx \<Rightarrow> int \<Rightarrow> Ingress \<Rightarrow> rec_state \<Rightarrow> unit res \<times> Ingress \<times> rec_state" where
  "updateIngress env ctx now ing s =
     (case UpdateInfoForIngress (re_hash env) (se_world (re_snap env)) (re_translator env) ctx
             (re_extAuthz env) now (rs_caches s) (rs_tr s) ing of
        (r, caches, tr, ing) \<Rightarrow>
          (let s = s\<lparr>rs_caches := caches, rs_tr := tr\<rparr> in
           case r of
             Inl f \<Rightarrow> (Inl f, ing, s)
           | Inr _ \<Rightarrow> (case updateEnvoyConfig env ctx now s of (r, s) \<Rightarrow> (r, ing, s))))"

definition isExpectedLoadBalancer :: "rec_env \<Rightarrow> IngressObject \<Rightarrow> bool res" where
  "isExpectedLoadBalancer env i =
     bindr (ServiceHostnames (w_env (se_world (re_snap env))) (re_clusterDomain env)) (\<lambda>(external, internal).
       let bad = (\<lambda>lb host. case lb of None \<Rightarrow> True | Some [] \<Rightarrow> True | Some (x # _) \<Rightarrow> lbi_DomainInternal x \<noteq> host)
       in if bad (is_PublicLoadBalancer (io_Status i)) external then Inr False
          else if bad (is_PrivateLoadBalancer (io_Status i)) internal then Inr False
          else Inr True)"

definition lb_domain :: "string \<Rightarrow> LoadBalancerIngressStatus list" where
  "lb_domain host = [\<lparr>lbi_IP = [], lbi_Domain = [], lbi_DomainInternal = host, lbi_MeshOnly = False\<rparr>]"

text \<open>The second half of \<^verbatim>\<open>ReconcileKind\<close>: the status of an ingress whose configuration was installed.\<close>

definition mark_ready ::
  "rec_env \<Rightarrow> int \<Rightarrow> IngressObject \<Rightarrow> IngressObject \<Rightarrow> unit res \<times> IngressObject" where
  "mark_ready env now before i =
     (let i = i\<lparr>io_Status := MarkNetworkConfigured now (io_Status i)\<rparr> in
      case (if \<not> IsReady i then Inr True
            else bindr (isExpectedLoadBalancer env i) (\<lambda>b. Inr (\<not> b))) of
        Inl f \<Rightarrow> (Inl f, i)
      | Inr False \<Rightarrow> (Inr (), i)
      | Inr True \<Rightarrow>
          (case re_probe env before of
             Inl e \<Rightarrow> (Inl (Err (ErrWrap ''failed to probe Ingress'' e)), i)
           | Inr ready \<Rightarrow>
               if ready then
                 (case ServiceHostnames (w_env (se_world (re_snap env))) (re_clusterDomain env) of
                    Inl f \<Rightarrow> (Inl f, i)
                  | Inr (external, internal) \<Rightarrow>
                      (Inr (), i\<lparr>io_Status := MarkLoadBalancerReady now (lb_domain external)
                                   (lb_domain internal) (io_Status i)\<rparr>))
               else (Inr (), i\<lparr>io_Status := MarkLoadBalancerNotReady (re_sprintf env) now (io_Status i)\<rparr>)))"

definition ReconcileKind ::
  "rec_env \<Rightarrow> ctx \<Rightarrow> int \<Rightarrow> IngressObject \<Rightarrow> rec_state \<Rightarrow> unit res \<times> IngressObject \<times> rec_state" where
  "ReconcileKind env ctx now i s =
     (case SetDefaults (io_Ingress i) of
        Inl f \<Rightarrow> (Inl f, i, s)
      | Inr ing \<Rightarrow>
          (let before = i\<lparr>io_Ingress := ing\<rparr> in
           case updateIngress env ctx now ing s of (r, ing, s) \<Rightarrow>
             (let i = i\<lparr>io_Ingress := ing\<rparr> in
              case r of
                Inl (Panic p) \<Rightarrow> (Inl (Panic p), i, s)
              | Inl (Err e) \<Rightarrow>
                  if errors_Is_conflict e
                  then (Inr (), i\<lparr>io_Status := MarkLoadBalancerFailed (re_sprintf env) now conflictReason
                                    (''Ingress rejected: '' @ error_Error e) (io_Status i)\<rparr>, s)
                  else (Inl (Err (ErrWrap ''failed to update ingress'' e)),
                        i\<lparr>io_Status := MarkIngressNotReady (re_sprintf env) now notReconciledReason
                                         (error_Error e) (io_Status i)\<rparr>, s)
              | Inr _ \<Rightarrow> (case mark_ready env now before i of (r, i) \<Rightarrow> (r, i, s)))))"

text \<open>The handler of a replica that is not the leader: the same update, without the status.\<close>

definition ObserveKind ::
  "rec_env \<Rightarrow> ctx \<Rightarrow> int \<Rightarrow> IngressObject \<Rightarrow> rec_state \<Rightarrow> unit res \<times> IngressObject \<times> rec_state" where
  "ObserveKind env ctx now i s =
     (case SetDefaults (io_Ingress i) of
        Inl f \<Rightarrow> (Inl f, i, s)
      | Inr ing \<Rightarrow>
          (case updateIngress env ctx now ing s of (r, ing, s) \<Rightarrow>
             (let i = i\<lparr>io_Ingress := ing\<rparr> in
              case r of
                Inl (Panic p) \<Rightarrow> (Inl (Panic p), i, s)
              | Inl (Err e) \<Rightarrow>
                  if errors_Is_conflict e then (Inr (), i, s)
                  else (Inl (Err (ErrWrap ''failed to update ingress'' e)), i, s)
              | Inr _ \<Rightarrow> (Inr (), i, s))))"

definition ObserveDeletion ::
  "rec_env \<Rightarrow> ctx \<Rightarrow> int \<Rightarrow> NamespacedName \<Rightarrow> rec_state \<Rightarrow> unit res \<times> rec_state" where
  "ObserveDeletion env ctx now nn s =
     (let s = s\<lparr>rs_cancelled := rs_cancelled s @ [nn]\<rparr> in
      case DeleteIngressInfo now (rs_caches s) (nn_Name nn) (nn_Namespace nn) of
        Inl f \<Rightarrow> (Inl f, s)
      | Inr caches \<Rightarrow>
          (case updateEnvoyConfig env ctx now (s\<lparr>rs_caches := caches\<rparr>) of
             (Inl (Err e), s) \<Rightarrow> (Inl (Err (ErrWrap ''failed updating envoy config'' e)), s)
           | (Inl (Panic p), s) \<Rightarrow> (Inl (Panic p), s)
           | (Inr _, s) \<Rightarrow> (Inr (), s\<lparr>rs_resyncs := rs_resyncs s + 1\<rparr>)))"

definition FinalizeKind :: "IngressObject \<Rightarrow> unit res" where
  "FinalizeKind ing = Inr ()"

end
