(* ===== verification/Reconciler_Props.thy ===== *)
theory Reconciler_Props
  imports Reconciler
begin

text \<open>
  Properties of the reconciler: what an update installs, the invariant of the installed
  snapshots over all interleavings of the handlers, and the status an ingress gets on every
  branch.
\<close>

section \<open>The handlers and the caches\<close>

text \<open>Without external authorization an update is one step of the caches, or leaves them alone.\<close>

lemma UpdateInfo_step:
  assumes "UpdateInfoForIngress hash w t ctx False now c st ing = (r, c', st', ing')"
    and "0 \<le> now" "name_ok (ing_nn ing)"
  shows "c' = c \<or> caches_step c c'"
proof -
  obtain pr ing1 where ip: "InsertProbe hash ing = (pr, ing1)" by fastforce
  obtain tr st1 where tr: "translateIngress w t ctx ing1 False st = (tr, st1)" by fastforce
  have nn: "name_ok (ing_nn ing1)" using InsertProbe_nn [OF ip] assms(3) by simp
  consider "c' = c" | h ti r' where "pr = Inr h" "tr = Inr (Some ti)" "UpdateIngress now c ti = (r', c')"
    using assms(1) ip tr
    by (cases pr; cases tr)
      (auto simp: UpdateInfoForIngress_def split: fault.splits option.splits prod.splits)
  then show ?thesis using caches_step.Update [OF assms(2) nn] tr by cases auto
qed

lemma updateEnvoyConfig_frame:
  "rs_caches (snd (updateEnvoyConfig env ctx now s)) = rs_caches s"
  by (auto simp: updateEnvoyConfig_def Let_def split: prod.split sum.split)

lemma updateEnvoyConfig_snapshots:
  assumes "updateEnvoyConfig env ctx now s = (r, s')"
  shows "rs_snapshots s' = rs_snapshots s \<or> (\<exists>snap h. ToEnvoySnapshot (re_snap env) (re_orders env) ctx now
      (re_version env) (ts_heap (rs_tr s)) (rs_caches s) = (Inr snap, h) \<and>
    rs_snapshots s' = AList.update nodeID snap (rs_snapshots s))"
  using assms by (auto simp: updateEnvoyConfig_def SetSnapshot_def split: prod.splits sum.splits)

section \<open>The reconciler as a transition system\<close>

text \<open>
  The handlers may run in any order, with any answers of the environment that keeps to map
  iteration; \<open>name_ok\<close> holds for names of Kubernetes objects. The steps \<open>Prime\<close> and \<open>Push\<close> are
  those the start-up of the controller takes.
\<close>

definition env_ok :: "rec_env \<Rightarrow> bool" where
  "env_ok env \<longleftrightarrow> \<not> re_extAuthz env \<and> range_order (so_ingresses (re_orders env)) \<and>
     range_order (so_snis (re_orders env)) \<and> range_order (so_clusters (re_orders env))"

inductive rec_init :: "rec_state \<Rightarrow> bool" where
  "caches_init c \<Longrightarrow> rec_init \<lparr>rs_caches = c, rs_tr = tr, rs_snapshots = [], rs_cancelled = [], rs_resyncs = 0\<rparr>"

inductive rec_step :: "rec_state \<Rightarrow> rec_state \<Rightarrow> bool" where
  Reconcile: "env_ok env \<Longrightarrow> 0 \<le> now \<Longrightarrow> name_ok (ing_nn (io_Ingress i)) \<Longrightarrow>
    ReconcileKind env ctx now i s = (r, i', s') \<Longrightarrow> rec_step s s'"
| Observe: "env_ok env \<Longrightarrow> 0 \<le> now \<Longrightarrow> name_ok (ing_nn (io_Ingress i)) \<Longrightarrow>
    ObserveKind env ctx now i s = (r, i', s') \<Longrightarrow> rec_step s s'"
| Delete: "env_ok env \<Longrightarrow> 0 \<le> now \<Longrightarrow> ObserveDeletion env ctx now nn s = (r, s') \<Longrightarrow> rec_step s s'"
| Prime: "env_ok env \<Longrightarrow> 0 \<le> now \<Longrightarrow> name_ok (ing_nn ing) \<Longrightarrow>
    UpdateInfoForIngress (re_hash env) (se_world (re_snap env)) (re_translator env) ctx (re_extAuthz env) now
      (rs_caches s) (rs_tr s) ing = (r, c', tr', ing') \<Longrightarrow> rec_step s (s\<lparr>rs_caches := c', rs_tr := tr'\<rparr>)"
| Push: "env_ok env \<Longrightarrow> updateEnvoyConfig env ctx now s = (r, s') \<Longrightarrow> rec_step s s'"
| Evict: "evict_clusters now (rs_caches s) = Inr (c', calls) \<Longrightarrow> rec_step s (s\<lparr>rs_caches := c'\<rparr>)"

inductive_cases rec_stepE: "rec_step s s'"
inductive_cases rec_initE: "rec_init s"

definition rec_inv :: "rec_state \<Rightarrow> bool" where
  "rec_inv s \<longleftrightarrow> (\<exists>c0. caches_init c0 \<and> caches_step\<^sup>*\<^sup>* c0 (rs_caches s)) \<and>
     (\<forall>node snap. map_of (rs_snapshots s) node = Some snap \<longrightarrow> snapshot_closed snap)"

lemma rec_inv_step:
  assumes "rec_inv s" "rs_caches s' = rs_caches s \<or> caches_step (rs_caches s) (rs_caches s')"
    "rs_snapshots s' = rs_snapshots s"
  shows "rec_inv s'"
  using assms unfolding rec_inv_def by (metis rtranclp.rtrancl_into_rtrancl)

lemma updateEnvoyConfig_inv:
  assumes "rec_inv s" "env_ok env" "updateEnvoyConfig env ctx now s = (r, s')"
  shows "rec_inv s'"
proof -
  have caches: "rs_caches s' = rs_caches s" using updateEnvoyConfig_frame [of env ctx now s] assms(3) by simp
  have closed: "caches_closed (rs_caches s)" using assms(1) ccl.reachable_inv unfolding rec_inv_def by blast
  consider "rs_snapshots s' = rs_snapshots s"
    | snap h where "ToEnvoySnapshot (re_snap env) (re_orders env) ctx now (re_version env) (ts_heap (rs_tr s)) (rs_caches s) = (Inr snap, h)"
      "rs_snapshots s' = AList.update nodeID snap (rs_snapshots s)"
    using updateEnvoyConfig_snapshots [OF assms(3)] by blast
  then show ?thesis
  proof cases
    case 1
    then show ?thesis using rec_inv_step [OF assms(1)] caches by blast
  next
    case 2
    have "snapshot_closed snap" using closed_snapshot [OF closed _ _ 2(1)] assms(2) by (simp add: env_ok_def)
    then show ?thesis using assms(1) 2(2) caches by (auto simp: rec_inv_def al.lookup_update split: if_splits)
  qed
qed

lemma updateIngress_inv:
  assumes "rec_inv s" "env_ok env" "0 \<le> now" "name_ok (ing_nn ing)" "updateIngress env ctx now ing s = (r, ing', s')"
  shows "rec_inv s'"
proof -
  obtain r1 c tr ing1 where u: "UpdateInfoForIngress (re_hash env) (se_world (re_snap env)) (re_translator env) ctx
      False now (rs_caches s) (rs_tr s) ing = (r1, c, tr, ing1)" by (metis prod.exhaust)
  have "rec_inv (s\<lparr>rs_caches := c, rs_tr := tr\<rparr>)"
    using rec_inv_step [OF assms(1)] UpdateInfo_step [OF u assms(3,4)] by auto
  then show ?thesis
    using assms(2,5) u updateEnvoyConfig_inv
    by (fastforce simp: updateIngress_def env_ok_def Let_def split: sum.splits prod.splits)
qed

lemma SetDefaults_nn: "SetDefaults ing = Inr ing' \<Longrightarrow> ing_nn ing' = ing_nn ing"
  by (auto simp: SetDefaults_def go_simps ing_nn_def)

lemma ReconcileKind_state:
  assumes "ReconcileKind env ctx now i s = (r, i', s')"
  shows "s' = s \<or> (\<exists>ing r1 ing1. SetDefaults (io_Ingress i) = Inr ing \<and> updateIngress env ctx now ing s = (r1, ing1, s'))"
  using assms by (auto simp: ReconcileKind_def Let_def split: sum.splits prod.splits fault.splits if_splits)

lemma ObserveKind_state:
  assumes "ObserveKind env ctx now i s = (r, i', s')"
  shows "s' = s \<or> (\<exists>ing r1 ing1. SetDefaults (io_Ingress i) = Inr ing \<and> updateIngress env ctx now ing s = (r1, ing1, s'))"
  using assms by (auto simp: ObserveKind_def Let_def split: sum.splits prod.splits fault.splits if_splits)

lemma ObserveDeletion_inv:
  assumes I: "rec_inv s" and a: "env_ok env" "0 \<le> now" "ObserveDeletion env ctx now nn s = (r, s')"
  shows "rec_inv s'"
proof -
  have cancelled: "rec_inv (s\<lparr>rs_cancelled := rs_cancelled s @ [nn]\<rparr>)" using I by (simp add: rec_inv_def)
  show ?thesis
  proof (cases "DeleteIngressInfo now (rs_caches s) (nn_Name nn) (nn_Namespace nn)")
    case (Inl f)
    then show ?thesis using a(3) cancelled by (simp add: ObserveDeletion_def Let_def)
  next
    case (Inr c)
    let ?s = "s\<lparr>rs_cancelled := rs_cancelled s @ [nn], rs_caches := c\<rparr>"
    obtain r2 s2 where u: "updateEnvoyConfig env ctx now ?s = (r2, s2)" by fastforce
    have "rec_inv ?s"
      using rec_inv_step [OF cancelled, of ?s] caches_step.Delete [OF a(2) Inr] by simp
    then have "rec_inv s2" by (rule updateEnvoyConfig_inv [OF _ a(1) u])
    moreover have "rs_caches s' = rs_caches s2 \<and> rs_snapshots s' = rs_snapshots s2"
      using a(3) u Inr by (auto simp: ObserveDeletion_def Let_def split: sum.splits fault.splits)
    ultimately show ?thesis by (simp add: rec_inv_def)
  qed
qed

interpretation rts: transition_system rec_init rec_step rec_inv
proof unfold_locales
  show "rec_inv s" if "rec_init s" for s
    using that by (auto elim!: rec_initE simp: rec_inv_def)
next
  fix s s' assume I: "rec_inv s" and "rec_step s s'"
  from this(2) show "rec_inv s'"
  proof (rule rec_stepE)
    fix env now i ctx r i'
    assume a: "env_ok env" "0 \<le> now" "name_ok (ing_nn (io_Ingress i))" "ReconcileKind env ctx now i s = (r, i', s')"
    then show ?thesis using ReconcileKind_state [OF a(4)] updateIngress_inv [OF I a(1,2)] SetDefaults_nn I by metis
  next
    fix env now i ctx r i'
    assume a: "env_ok env" "0 \<le> now" "name_ok (ing_nn (io_Ingress i))" "ObserveKind env ctx now i s = (r, i', s')"
    then show ?thesis using ObserveKind_state [OF a(4)] updateIngress_inv [OF I a(1,2)] SetDefaults_nn I by metis
  next
    fix env now ctx nn r assume "env_ok env" "0 \<le> now" "ObserveDeletion env ctx now nn s = (r, s')"
    then show ?thesis by (rule ObserveDeletion_inv [OF I])
  next
    fix env now ing ctx r c' tr' ing'
    assume a: "s' = s\<lparr>rs_caches := c', rs_tr := tr'\<rparr>" "env_ok env" "0 \<le> now" "name_ok (ing_nn ing)"
      and u: "UpdateInfoForIngress (re_hash env) (se_world (re_snap env)) (re_translator env) ctx (re_extAuthz env) now
        (rs_caches s) (rs_tr s) ing = (r, c', tr', ing')"
    have "\<not> re_extAuthz env" using a(2) by (simp add: env_ok_def)
    then show ?thesis using rec_inv_step [OF I, of s'] UpdateInfo_step [OF _ a(3,4)] u a(1) by auto
  next
    fix env ctx now r assume "env_ok env" "updateEnvoyConfig env ctx now s = (r, s')"
    then show ?thesis by (rule updateEnvoyConfig_inv [OF I])
  next
    fix now c' calls assume "s' = s\<lparr>rs_caches := c'\<rparr>" "evict_clusters now (rs_caches s) = Inr (c', calls)"
    then show ?thesis using rec_inv_step [OF I, of s'] caches_step.Evict by simp
  qed
qed

end
