(* ===== verification/Reconciler_Laws.thy ===== *)
theory Reconciler_Laws
  imports Reconciler_Props
begin

text \<open>
  What one run of a handler does, end to end: from the ingress to the installed snapshot and the
  status.
\<close>

section \<open>Unknown conditions\<close>

lemma list_ex_dependents:
  "list_ex P cond_dependents \<longleftrightarrow> (\<exists>d \<in> set cond_dependents. P d)"
  by (simp add: list_ex_iff)

lemma MarkUnknown_Ready:
  assumes "conds_wf cs"
  shows "conds_wf (MarkUnknown sp now IngressConditionReady r m cs)"
    and "cond_status (MarkUnknown sp now IngressConditionReady r m cs) IngressConditionReady =
      Some (if \<exists>d \<in> set cond_dependents. cond_status cs d = Some ConditionFalse then ConditionFalse else ConditionUnknown)"
proof -
  let ?cs = "SetCondition now (new_cond IngressConditionReady ConditionUnknown r (sp m)) cs"
  have wf: "conds_wf ?cs" by (rule conds_wf_Set [OF assms terminal_dependent(2)])
  have deps: "cond_status ?cs d = cond_status cs d" if "d \<in> set cond_dependents" for d
    using terminal_dependent(3) [OF that] by (simp add: cond_status_def cond_view_Set [OF assms])
  have ready: "cond_status ?cs IngressConditionReady = Some ConditionUnknown"
    by (simp add: cond_status_def cond_view_Set [OF assms])
  have nd: "IngressConditionReady \<notin> set cond_dependents" using terminal_dependent(3) by blast
  have eq: "MarkUnknown sp now IngressConditionReady r m cs =
      (if \<exists>d \<in> set cond_dependents. cond_status cs d = Some ConditionFalse
       then SetCondition now (new_cond IngressConditionReady ConditionFalse r (sp m)) ?cs else ?cs)"
    using deps ready nd
    by (auto simp: MarkUnknown_def Let_def list_ex_dependents IsTrue_status MarkFalse_def)
  show "conds_wf (MarkUnknown sp now IngressConditionReady r m cs)"
    unfolding eq using wf conds_wf_Set [OF wf terminal_dependent(2)] by simp
  show "cond_status (MarkUnknown sp now IngressConditionReady r m cs) IngressConditionReady =
      Some (if \<exists>d \<in> set cond_dependents. cond_status cs d = Some ConditionFalse then ConditionFalse else ConditionUnknown)"
    unfolding eq using ready by (simp add: cond_status_def cond_view_Set [OF wf])
qed

lemma MarkUnknown_LB:
  assumes "conds_wf cs" "cond_status cs IngressConditionNetworkConfigured = Some ConditionTrue"
  shows "conds_wf (MarkUnknown sp now IngressConditionLoadBalancerReady r m cs)"
    and "cond_status (MarkUnknown sp now IngressConditionLoadBalancerReady r m cs) IngressConditionLoadBalancerReady = Some ConditionUnknown"
    and "cond_status (MarkUnknown sp now IngressConditionLoadBalancerReady r m cs) IngressConditionNetworkConfigured = Some ConditionTrue"
    and "cond_status (MarkUnknown sp now IngressConditionLoadBalancerReady r m cs) IngressConditionReady = Some ConditionUnknown"
proof -
  let ?t = IngressConditionLoadBalancerReady
  let ?cs = "SetCondition now (new_cond ?t ConditionUnknown r (sp m)) cs"
  have t: "?t \<in> set cond_dependents" by (simp add: cond_dependents_def)
  have wf: "conds_wf ?cs" by (rule conds_wf_Set [OF assms(1) terminal_dependent(1) [OF t]])
  have v: "cond_status ?cs ?t = Some ConditionUnknown"
    "cond_status ?cs IngressConditionNetworkConfigured = Some ConditionTrue"
    using assms(2) by (simp_all add: cond_status_def cond_view_Set [OF assms(1)])
  have eq: "MarkUnknown sp now ?t r m cs =
      SetCondition now (new_cond IngressConditionReady ConditionUnknown r (sp m)) ?cs"
    using v t by (simp add: MarkUnknown_def Let_def IsTrue_status) (simp add: cond_dependents_def)
  show "conds_wf (MarkUnknown sp now ?t r m cs)" unfolding eq by (rule conds_wf_Set [OF wf terminal_dependent(2)])
  show "cond_status (MarkUnknown sp now ?t r m cs) ?t = Some ConditionUnknown"
    "cond_status (MarkUnknown sp now ?t r m cs) IngressConditionNetworkConfigured = Some ConditionTrue"
    "cond_status (MarkUnknown sp now ?t r m cs) IngressConditionReady = Some ConditionUnknown"
    unfolding eq using v by (simp_all add: cond_status_def cond_view_Set [OF wf])
qed

section \<open>Marking an ingress ready\<close>

lemma isExpected_after_mark:
  assumes "ServiceHostnames (w_env (se_world (re_snap env))) (re_clusterDomain env) = Inr (external, internal)"
  shows "isExpectedLoadBalancer env (i\<lparr>io_Status := MarkLoadBalancerReady now (lb_domain external) (lb_domain internal) st\<rparr>) = Inr True"
  using assms by (simp add: isExpectedLoadBalancer_def MarkLoadBalancerReady_def lb_domain_def Let_def)

lemma dependents: "IngressConditionNetworkConfigured \<in> set cond_dependents"
  "IngressConditionLoadBalancerReady \<in> set cond_dependents"
  by (simp_all add: cond_dependents_def)

text \<open>
  The ingress is settled: its generation was observed, the load balancer is ready and the load balancers of
  the status are those of the configuration. Only then the prober is not asked.
\<close>

definition settled_status :: "rec_env \<Rightarrow> IngressObject \<Rightarrow> bool" where
  "settled_status env i \<longleftrightarrow> is_ObservedGeneration (io_Status i) = io_Generation i \<and>
     cond_status (is_Conditions (io_Status i)) IngressConditionLoadBalancerReady = Some ConditionTrue \<and>
     isExpectedLoadBalancer env i = Inr True"

lemma isExpected_MarkNetworkConfigured [simp]:
  "isExpectedLoadBalancer env (i\<lparr>io_Status := MarkNetworkConfigured now st\<rparr>) = isExpectedLoadBalancer env (i\<lparr>io_Status := st\<rparr>)"
  by (simp add: isExpectedLoadBalancer_def MarkNetworkConfigured_def Let_def cong: if_cong)

lemma isExpected_ServiceHostnames:
  "(\<exists>b. isExpectedLoadBalancer env i = Inr b) \<longleftrightarrow> (\<exists>hosts. ServiceHostnames (w_env (se_world (re_snap env))) (re_clusterDomain env) = Inr hosts)"
  by (cases "ServiceHostnames (w_env (se_world (re_snap env))) (re_clusterDomain env)") (auto simp: isExpectedLoadBalancer_def Let_def go_simps)

text \<open>The network is configured after \<^verbatim>\<open>MarkNetworkConfigured\<close>, and the load balancer decides readiness.\<close>

lemma network_configured:
  assumes "conds_wf (is_Conditions (io_Status i))" "cs = is_Conditions (MarkNetworkConfigured now (io_Status i))"
  shows "conds_wf cs" "cond_status cs IngressConditionNetworkConfigured = Some ConditionTrue"
    "cond_status cs IngressConditionReady = Some ConditionTrue \<longleftrightarrow>
      cond_status (is_Conditions (io_Status i)) IngressConditionLoadBalancerReady = Some ConditionTrue"
proof -
  note M = MarkTrue_view [OF assms(1) dependents(1), where now = now]
  have cs: "cs = MarkTrue now IngressConditionNetworkConfigured (is_Conditions (io_Status i))"
    by (simp add: assms(2) MarkNetworkConfigured_def)
  show "conds_wf cs" and nc: "cond_status cs IngressConditionNetworkConfigured = Some ConditionTrue"
    unfolding cs using M(1,2) by (simp_all add: cond_status_def)
  have lb: "cond_status cs IngressConditionLoadBalancerReady = cond_status (is_Conditions (io_Status i)) IngressConditionLoadBalancerReady"
    unfolding cs using M(3) [OF dependents(2)] by (simp add: cond_status_def)
  have "cond_status cs IngressConditionReady = Some (happiness cs)" unfolding cs by (rule M(4))
  then show "cond_status cs IngressConditionReady = Some ConditionTrue \<longleftrightarrow>
      cond_status (is_Conditions (io_Status i)) IngressConditionLoadBalancerReady = Some ConditionTrue"
    using nc lb by (simp add: happiness_def cond_dependents_def)
qed

lemma mark_ready_cases:
  assumes "mark_ready env now before i = (r, i')" "conds_wf (is_Conditions (io_Status i))"
    and "i1 = i\<lparr>io_Status := MarkNetworkConfigured now (io_Status i)\<rparr>"
  obtains (settled) "settled_status env i" "r = Inr ()" "i' = i1"
  | (panic) f where "\<not> settled_status env i" "ServiceHostnames (w_env (se_world (re_snap env))) (re_clusterDomain env) = Inl f"
      "r \<noteq> Inr ()" "i' = i1"
  | (probe_error) e where "\<not> settled_status env i" "re_probe env before = Inl e"
      "r = Inl (Err (ErrWrap ''failed to probe Ingress'' e))" "i' = i1"
  | (ready) external internal where "\<not> settled_status env i" "re_probe env before = Inr True" "r = Inr ()"
      "ServiceHostnames (w_env (se_world (re_snap env))) (re_clusterDomain env) = Inr (external, internal)"
      "i' = i1\<lparr>io_Status := MarkLoadBalancerReady now (lb_domain external) (lb_domain internal) (io_Status i1)\<rparr>"
  | (not_ready) "\<not> settled_status env i" "re_probe env before = Inr False" "r = Inr ()"
      "i' = i1\<lparr>io_Status := MarkLoadBalancerNotReady (re_sprintf env) now (io_Status i1)\<rparr>"
proof -
  have expected: "isExpectedLoadBalancer env i1 = isExpectedLoadBalancer env i" by (simp add: assms(3))
  have is_ready: "IsReady i1 \<longleftrightarrow> is_ObservedGeneration (io_Status i) = io_Generation i \<and>
      cond_status (is_Conditions (io_Status i)) IngressConditionLoadBalancerReady = Some ConditionTrue"
    using network_configured(3) [OF assms(2) refl, of now] by (simp add: IsReady_def IsTrue_status assms(3) MarkNetworkConfigured_def)
  note eq = assms(1) [unfolded mark_ready_def Let_def, folded assms(3), unfolded expected is_ready]
  show ?thesis
  proof (cases "settled_status env i")
    case True
    then show ?thesis using eq by (intro settled) (auto simp: settled_status_def go_simps)
  next
    case ns: False
    show ?thesis
    proof (cases "ServiceHostnames (w_env (se_world (re_snap env))) (re_clusterDomain env)")
      case (Inl f)
      then have "\<exists>f. isExpectedLoadBalancer env i = Inl f" by (simp add: isExpectedLoadBalancer_def)
      then show ?thesis
        using eq ns Inl panic [OF ns Inl] probe_error [OF ns] not_ready [OF ns]
        by (auto simp: settled_status_def split: if_splits sum.splits bool.splits prod.splits)
    next
      case (Inr hosts)
      obtain b where b: "isExpectedLoadBalancer env i = Inr b" using isExpected_ServiceHostnames Inr by blast
      show ?thesis
        using eq ns b Inr probe_error [OF ns] ready [OF ns] not_ready [OF ns]
        by (auto simp: settled_status_def go_simps split: if_splits sum.splits bool.splits prod.splits)
    qed
  qed
qed

text \<open>The status after a successful update, for every answer of the prober.\<close>

lemma mark_ready_status:
  assumes "mark_ready env now before i = (r, i')" "conds_wf (is_Conditions (io_Status i))"
  shows "cond_status (is_Conditions (io_Status i')) IngressConditionNetworkConfigured = Some ConditionTrue"
    "r = Inr () \<Longrightarrow>
      if settled_status env i \<or> re_probe env before = Inr True
      then cond_status (is_Conditions (io_Status i')) IngressConditionReady = Some ConditionTrue \<and> isExpectedLoadBalancer env i' = Inr True
      else re_probe env before = Inr False \<and>
        (\<forall>t \<in> {IngressConditionLoadBalancerReady, IngressConditionReady}. cond_status (is_Conditions (io_Status i')) t = Some ConditionUnknown)"
    "settled_status env i \<or> (\<exists>hosts. ServiceHostnames (w_env (se_world (re_snap env))) (re_clusterDomain env) = Inr hosts) \<Longrightarrow>
      r = (if settled_status env i then Inr () else
        case re_probe env before of Inl e \<Rightarrow> Inl (Err (ErrWrap ''failed to probe Ingress'' e)) | Inr _ \<Rightarrow> Inr ())"
proof -
  let ?i = "i\<lparr>io_Status := MarkNetworkConfigured now (io_Status i)\<rparr>"
  let ?cs = "is_Conditions (io_Status ?i)"
  note N = network_configured [OF assms(2) refl, of now]
  have marked: "cond_status ?cs IngressConditionNetworkConfigured = Some ConditionTrue" using N(2) by simp
  have "cond_status (is_Conditions (io_Status i')) IngressConditionNetworkConfigured = Some ConditionTrue \<and>
    (r = Inr () \<longrightarrow>
      (if settled_status env i \<or> re_probe env before = Inr True
       then cond_status (is_Conditions (io_Status i')) IngressConditionReady = Some ConditionTrue \<and> isExpectedLoadBalancer env i' = Inr True
       else re_probe env before = Inr False \<and>
         (\<forall>t \<in> {IngressConditionLoadBalancerReady, IngressConditionReady}. cond_status (is_Conditions (io_Status i')) t = Some ConditionUnknown))) \<and>
    (settled_status env i \<or> (\<exists>hosts. ServiceHostnames (w_env (se_world (re_snap env))) (re_clusterDomain env) = Inr hosts) \<longrightarrow>
      r = (if settled_status env i then Inr () else
        case re_probe env before of Inl e \<Rightarrow> Inl (Err (ErrWrap ''failed to probe Ingress'' e)) | Inr _ \<Rightarrow> Inr ()))"
    using assms refl
  proof (cases rule: mark_ready_cases)
    case settled
    then show ?thesis using marked N(3) by (simp add: settled_status_def)
  next
    case (ready external internal)
    note L = MarkTrue_view [OF N(1) dependents(2), where now = now]
    have c': "is_Conditions (io_Status i') = MarkTrue now IngressConditionLoadBalancerReady ?cs"
      by (simp add: ready(5) MarkLoadBalancerReady_def)
    have nc: "cond_status (MarkTrue now IngressConditionLoadBalancerReady ?cs) IngressConditionNetworkConfigured = Some ConditionTrue"
      using L(3) [OF dependents(1)] marked by (simp add: cond_status_def)
    then have "happiness (MarkTrue now IngressConditionLoadBalancerReady ?cs) = ConditionTrue"
      using L(2) by (auto simp: happiness_def cond_dependents_def cond_status_def)
    then show ?thesis unfolding c' using ready nc L(4) isExpected_after_mark [OF ready(4)] by simp
  next
    case not_ready
    have "is_Conditions (io_Status i') = MarkUnknown (re_sprintf env) now IngressConditionLoadBalancerReady
        ''Uninitialized'' ''Waiting for load balancer to be ready'' ?cs"
      by (simp add: not_ready(4) MarkLoadBalancerNotReady_def)
    then show ?thesis using MarkUnknown_LB [OF N(1,2)] not_ready(1-3) by simp
  qed (use marked in simp_all)
  then show "cond_status (is_Conditions (io_Status i')) IngressConditionNetworkConfigured = Some ConditionTrue"
    "r = Inr () \<Longrightarrow>
      if settled_status env i \<or> re_probe env before = Inr True
      then cond_status (is_Conditions (io_Status i')) IngressConditionReady = Some ConditionTrue \<and> isExpectedLoadBalancer env i' = Inr True
      else re_probe env before = Inr False \<and>
        (\<forall>t \<in> {IngressConditionLoadBalancerReady, IngressConditionReady}. cond_status (is_Conditions (io_Status i')) t = Some ConditionUnknown)"
    "settled_status env i \<or> (\<exists>hosts. ServiceHostnames (w_env (se_world (re_snap env))) (re_clusterDomain env) = Inr hosts) \<Longrightarrow>
      r = (if settled_status env i then Inr () else
        case re_probe env before of Inl e \<Rightarrow> Inl (Err (ErrWrap ''failed to probe Ingress'' e)) | Inr _ \<Rightarrow> Inr ())"
    by blast+
qed

section \<open>From the ingress to the snapshot\<close>

lemma rec_inv_caches: "rec_inv s \<Longrightarrow> caches_inv (rs_caches s)"
  using cts.reachable_inv unfolding rec_inv_def by blast

lemma updateEnvoyConfig_installs:
  assumes "updateEnvoyConfig env ctx now s = (Inr (), s')" "env_ok env" "j < length regions"
  shows "\<exists>snap rc. map_of (rs_snapshots s') nodeID = Some snap \<and>
    map_of (sn_routes snap) (internalRouteConfigName ! j) = Some rc \<and>
    rc_VirtualHosts rc = local_vhosts (re_orders env) (rs_caches s) j"
proof -
  obtain snap h where snap: "ToEnvoySnapshot (re_snap env) (re_orders env) ctx now (re_version env)
      (ts_heap (rs_tr s)) (rs_caches s) = (Inr snap, h)"
    "rs_snapshots s' = AList.update nodeID snap (rs_snapshots s)"
    using assms(1) by (auto simp: updateEnvoyConfig_def SetSnapshot_def split: prod.splits sum.splits option.splits)
  obtain routes ls cs where g: "snap = NewSnapshot (re_version env)
      (cc_list (so_clusters (re_orders env)) now (ca_clusters (rs_caches s)) @ cs) routes ls"
    "generateListenersAndRouteConfigsAndClusters (re_snap env) ctx
       (region_table (region_vhosts ti_externalVirtualHosts (so_ingresses (re_orders env) (ca_translatedIngresses (rs_caches s)))))
       (region_table (tls_vhosts (re_orders env) (rs_caches s))) (region_table (local_vhosts (re_orders env) (rs_caches s))) [] = Inr (ls, routes, cs)"
    using snapshot_returned [OF snap(1)] assms(2) unfolding env_ok_def by metis
  show ?thesis
    using generate_routes_lookup(2) [OF g(2) assms(3)] assms(3) snap(2) g(1)
    by (simp add: al.lookup_update NewSnapshot_def route_cfg_int_def del: length_regions)
qed

text \<open>
  C5: An update end to end, for a process that runs without external authorization (with it, no ingress
  that has a rule is ever installed): in a reachable state, when an ingress whose name has no colon translates, \<^verbatim>\<open>updateIngress\<close> either
  finds a domain conflict, reports it, drops the ingress's old translation and leaves the
  installed snapshot alone; or it stores the translation, and when it succeeds the snapshot
  installed for the gateway has, in every region, the virtual hosts of the translation in the
  region's internal route configuration.
\<close>

theorem update_installs:
  assumes "rec_init s0" "rec_step\<^sup>*\<^sup>* s0 s" "env_ok env" "0 \<le> now" "name_ok (ing_nn ing)"
    and "InsertProbe (re_hash env) ing = (Inr hash, ing')"
    and "translateIngress (se_world (re_snap env)) (re_translator env) ctx ing' False (rs_tr s) = (Inr (Some ti), tr')"
    and "updateIngress env ctx now ing s = (r, ing2, s')" "j < length regions"
  shows "let m = (caches_abs (rs_caches s))(ti_name ti := None) in
    if clashes m ti
    then r = Inl (Err ErrDomainConflict) \<and> caches_abs (rs_caches s') = m \<and> rs_snapshots s' = rs_snapshots s
    else caches_abs (rs_caches s') = m(ti_name ti \<mapsto> ti) \<and>
      (r = Inr () \<longrightarrow> (\<exists>snap rc. map_of (rs_snapshots s') nodeID = Some snap \<and>
         map_of (sn_routes snap) (internalRouteConfigName ! j) = Some rc \<and>
         set (ti_internalVirtualHosts ti ! j) \<subseteq> set (rc_VirtualHosts rc)))"
proof -
  have ext: "\<not> re_extAuthz env" using assms(3) by (simp add: env_ok_def)
  have I: "caches_inv (rs_caches s)" by (rule rec_inv_caches [OF rts.reachable_inv [OF assms(1,2)]])
  have wf: "ti_wf ti" using translation_wf(1) [OF assms(7)] InsertProbe_nn [OF assms(6)] assms(5) by simp
  obtain r1 c where u: "UpdateIngress now (rs_caches s) ti = (r1, c)"
    "(r1, caches_abs c) = spec_update ti (caches_abs (rs_caches s))"
    by (rule update_step [OF I wf assms(4)])
  let ?s = "s\<lparr>rs_caches := c, rs_tr := tr'\<rparr>"
  have up: "updateIngress env ctx now ing s =
      (case r1 of Inl f \<Rightarrow> (Inl f, ing', ?s) | Inr _ \<Rightarrow> (case updateEnvoyConfig env ctx now ?s of (r, s) \<Rightarrow> (r, ing', s)))"
    using assms(6,7) u(1) ext by (simp add: updateIngress_def UpdateInfoForIngress_def Let_def)
  show ?thesis
  proof (cases "clashes ((caches_abs (rs_caches s))(ti_name ti := None)) ti")
    case True
    then show ?thesis using u(2) up assms(8) by (auto simp: spec_update_def Let_def)
  next
    case False
    then have r1: "r1 = Inr ()" "caches_abs c = (caches_abs (rs_caches s))(ti_name ti := None, ti_name ti \<mapsto> ti)"
      using u(2) by (simp_all add: spec_update_def Let_def)
    then have e: "updateEnvoyConfig env ctx now ?s = (r, s')"
      using up assms(8) by (simp split: prod.splits)
    have caches: "rs_caches s' = c" using updateEnvoyConfig_frame [of env ctx now ?s] e by simp
    have "caches_abs c (ti_name ti) = Some ti" by (simp add: r1(2))
    then have "(ti_name ti, ti) \<in> set (ca_translatedIngresses c)"
      by (auto simp: caches_abs_def dest: map_of_SomeD)
    then have "set (ti_internalVirtualHosts ti ! j) \<subseteq> set (local_vhosts (re_orders env) c j)"
      using assms(3) by (force simp: local_vhosts_def region_vhosts_def env_ok_def range_order_set)
    then show ?thesis
      using False r1(2) caches updateEnvoyConfig_installs [OF _ assms(3,9), of ctx now ?s s'] e by (auto simp: Let_def)
  qed
qed

section \<open>The status\<close>

lemma settled_status_ingress [simp]: "settled_status env (i\<lparr>io_Ingress := ing\<rparr>) \<longleftrightarrow> settled_status env i"
  by (simp add: settled_status_def isExpectedLoadBalancer_def Let_def cong: if_cong)

lemma mark_ready_ingress: "mark_ready env now before i = (r, i') \<Longrightarrow> io_Ingress i' = io_Ingress i"
  by (auto simp: mark_ready_def Let_def split: if_splits sum.splits bool.splits prod.splits)

text \<open>
  C11: The status on every branch of \<^verbatim>\<open>ReconcileKind\<close>. A domain conflict is no error for the work queue
  and marks the load balancer and the ingress as failed with reason \<^verbatim>\<open>DomainConflict\<close>; any other
  error is returned and leaves the ingress not ready. After a successful update the network is
  configured; when the handler then returns without error, the ingress is ready with the expected load balancers exactly if
  its status was settled before (generation observed, load balancer ready and as expected) or the prober says so, and
  otherwise the prober says it is not and the load balancer and the ingress are unknown. Its result is the
  error of the prober, if it was asked and failed, as long as the gateway namespace is configured.
\<close>

theorem reconcile_status:
  assumes "SetDefaults (io_Ingress i) = Inr ing" "updateIngress env ctx now ing s = (r, ing2, s2)"
    and "ReconcileKind env ctx now i s = (ev, i', s')" "conds_wf (is_Conditions (io_Status i))"
  shows "s' = s2 \<and> io_Ingress i' = ing2 \<and>
    (case r of
       Inl (Panic p) \<Rightarrow> ev = Inl (Panic p)
     | Inl (Err e) \<Rightarrow>
         if errors_Is_conflict e
         then ev = Inr () \<and> (\<forall>t \<in> {IngressConditionLoadBalancerReady, IngressConditionReady}.
            cond_view (is_Conditions (io_Status i')) t =
              Some (ConditionFalse, conflictReason, re_sprintf env (''Ingress rejected: '' @ error_Error e)))
         else ev = Inl (Err (ErrWrap ''failed to update ingress'' e)) \<and>
            cond_status (is_Conditions (io_Status i')) IngressConditionReady \<noteq> Some ConditionTrue
     | Inr _ \<Rightarrow>
         (let settled = (is_ObservedGeneration (io_Status i) = io_Generation i \<and>
                cond_status (is_Conditions (io_Status i)) IngressConditionLoadBalancerReady = Some ConditionTrue \<and>
                isExpectedLoadBalancer env i = Inr True);
              probed = re_probe env (i\<lparr>io_Ingress := ing\<rparr>);
              status = cond_status (is_Conditions (io_Status i'))
          in status IngressConditionNetworkConfigured = Some ConditionTrue \<and>
            (ev = Inr () \<longrightarrow>
              (if settled \<or> probed = Inr True
               then status IngressConditionReady = Some ConditionTrue \<and> isExpectedLoadBalancer env i' = Inr True
               else probed = Inr False \<and> status IngressConditionLoadBalancerReady = Some ConditionUnknown \<and>
                 status IngressConditionReady = Some ConditionUnknown)) \<and>
            (settled \<or> (\<exists>hosts. ServiceHostnames (w_env (se_world (re_snap env))) (re_clusterDomain env) = Inr hosts) \<longrightarrow>
              ev = (if settled then Inr () else
                case probed of Inl e \<Rightarrow> Inl (Err (ErrWrap ''failed to probe Ingress'' e)) | Inr _ \<Rightarrow> Inr ()))))"
proof (cases r)
  case (Inr u)
  let ?before = "i\<lparr>io_Ingress := ing\<rparr>"
  obtain ev1 i1 where m: "mark_ready env now ?before (i\<lparr>io_Ingress := ing2\<rparr>) = (ev1, i1)" by fastforce
  then have eq: "ev = ev1" "i' = i1" "s' = s2"
    using assms(1-3) Inr by (auto simp: ReconcileKind_def Let_def)
  have "conds_wf (is_Conditions (io_Status (i\<lparr>io_Ingress := ing2\<rparr>)))" using assms(4) by simp
  note st = mark_ready_status [OF m this, folded eq, unfolded settled_status_ingress, unfolded settled_status_def]
  have "io_Ingress i' = ing2" using mark_ready_ingress [OF m] eq by simp
  then show ?thesis
    unfolding Inr sum.case Let_def using eq(3) st by simp
next
  case (Inl f)
  show ?thesis
  proof (cases f)
    case (Panic p)
    then show ?thesis using Inl assms(1-3) by (auto simp: ReconcileKind_def Let_def)
  next
    case (Err e)
    have "cond_status (MarkUnknown sp now IngressConditionReady r m (is_Conditions (io_Status i)))
        IngressConditionReady \<noteq> Some ConditionTrue" for sp r m
      using MarkUnknown_Ready(2) [OF assms(4)] by simp
    then show ?thesis
      using Err Inl assms(1-3) MarkFalse_view(2) [OF assms(4) dependents(2)]
      by (auto simp: ReconcileKind_def Let_def MarkLoadBalancerFailed_def MarkIngressNotReady_def)
  qed
qed

section \<open>Deletion\<close>

text \<open>
  C17: In a reachable state without external authorization, a deletion always takes the ingress out of the caches and nothing else, stops its probing,
  and enqueues the ingresses in conflict once exactly when the new snapshot was installed; the
  installed snapshot then has no virtual host but those of the remaining ingresses and the status
  virtual host in the internal route configuration of a region.
\<close>

theorem deletion_outcome:
  assumes "rec_init s0" "rec_step\<^sup>*\<^sup>* s0 s" "env_ok env" "0 \<le> now"
    and "ObserveDeletion env ctx now nn s = (r, s')" "j < length regions"
  shows "caches_abs (rs_caches s') = (caches_abs (rs_caches s))(nn := None) \<and>
    rs_cancelled s' = rs_cancelled s @ [nn] \<and>
    rs_resyncs s' = rs_resyncs s + (if r = Inr () then 1 else 0) \<and>
    (r = Inr () \<longrightarrow> (\<exists>snap rc. map_of (rs_snapshots s') nodeID = Some snap \<and>
       map_of (sn_routes snap) (internalRouteConfigName ! j) = Some rc \<and>
       set (rc_VirtualHosts rc) = {Some (ca_statusVirtualHost (rs_caches s'))} \<union>
         (\<Union>ti \<in> ran (caches_abs (rs_caches s')). set (ti_internalVirtualHosts ti ! j))))"
proof -
  have I: "caches_inv (rs_caches s)" by (rule rec_inv_caches [OF rts.reachable_inv [OF assms(1,2)]])
  obtain c where c: "DeleteIngressInfo now (rs_caches s) (nn_Name nn) (nn_Namespace nn) = Inr c"
    "caches_inv c" "caches_abs c = (caches_abs (rs_caches s))(nn := None)"
    using delete_step [OF I assms(4), of nn] by (auto simp: DeleteIngressInfo_def)
  let ?s = "s\<lparr>rs_cancelled := rs_cancelled s @ [nn], rs_caches := c\<rparr>"
  obtain r1 s1 where e: "updateEnvoyConfig env ctx now ?s = (r1, s1)" by fastforce
  have frame: "rs_caches s1 = c" "rs_cancelled s1 = rs_cancelled ?s" "rs_resyncs s1 = rs_resyncs s"
    using e by (auto simp: updateEnvoyConfig_def Let_def split: prod.splits sum.splits)
  have s': "r = Inr () \<longleftrightarrow> r1 = Inr ()" "s' = (if r1 = Inr () then s1\<lparr>rs_resyncs := rs_resyncs s1 + 1\<rparr> else s1)"
    using assms(5) c(1) e by (auto simp: ObserveDeletion_def Let_def split: sum.splits fault.splits)
  have "set (local_vhosts (re_orders env) c j) = {Some (ca_statusVirtualHost c)} \<union>
      (\<Union>ti \<in> ran (caches_abs c). set (ti_internalVirtualHosts ti ! j))"
    using assms(3) caches_invD(1) [OF c(2)]
    by (auto simp: local_vhosts_def region_vhosts_def env_ok_def range_order_set caches_abs_def wf_alist_def ran_def
        dest: map_of_SomeD intro: map_of_is_SomeI)
  then show ?thesis
    using s' frame c(3) updateEnvoyConfig_installs [OF _ assms(3,6), of ctx now ?s s1] e by auto
qed

section \<open>All runs\<close>

text \<open>
  Whatever the order in which ingresses are reconciled, observed and deleted and clusters are
  evicted, every snapshot installed in the xDS server is closed: a route only sends traffic to
  clusters of the same snapshot, or to the statistics cluster of the gateway itself.
\<close>

lemma installed_snapshots_closed:
  assumes "rec_init s0" "rec_step\<^sup>*\<^sup>* s0 s" "map_of (rs_snapshots s) node = Some snap"
    and "map_of (sn_routes snap) name = Some rc" "Some vh \<in> set (rc_VirtualHosts rc)" "cl \<in> set (vhost_clusters vh)"
  shows "cl = ServiceStatsClusterName \<or> cl \<in> dom (map_of (sn_clusters snap))"
  using rts.reachable_inv [OF assms(1,2)] assms(3-6) unfolding rec_inv_def snapshot_closed_def by blast

section \<open>Witnesses\<close>

lemma updateEnvoyConfig_plain:
  assumes "plain_env (re_snap env) (cfg_Kourier (FromContextOrDefaults ctx)) nodes blocks"
    and "range_order (so_ingresses (re_orders env))" "no_tls (rs_caches s)"
    and "\<not> useHTTPSListenerWithOneCert (w_env (se_world (re_snap env)))" "\<And>snap. re_watchError env snap = None"
  shows "fst (updateEnvoyConfig env ctx now s) = Inr ()"
  by (simp add: updateEnvoyConfig_def snapshot_plain [OF assms(1-4)] SetSnapshot_def assms(5))

definition ex_rworld :: world where
  "ex_rworld = ex_world\<lparr>w_env := (\<lambda>k. if k = GatewayNamespaceEnv then Some ''kourier-system'' else None)\<rparr>"

definition ex_renv :: rec_env where
  "ex_renv = \<lparr>re_snap = ex_senv\<lparr>se_world := ex_rworld\<rparr>, re_translator = ex_translator, re_hash = ex_hash,
     re_orders = ex_orders, re_version = ''v1'', re_watchError = (\<lambda>_. None), re_probe = (\<lambda>_. Inr True),
     re_clusterDomain = ''cluster.local'', re_sprintf = (\<lambda>s. s), re_extAuthz = False\<rparr>"

definition ex_object :: IngressObject where
  "ex_object = \<lparr>io_Ingress = ex_ingress ''hello'', io_Generation = 1, io_DeletionTimestamp = None,
     io_Status = \<lparr>is_ObservedGeneration = 1, is_Conditions = [], is_PublicLoadBalancer = None,
       is_PrivateLoadBalancer = None\<rparr>\<rparr>"

definition ex_rec0 :: rec_state where
  "ex_rec0 = \<lparr>rs_caches = ex_caches, rs_tr = ex_state, rs_snapshots = [], rs_cancelled = [], rs_resyncs = 0\<rparr>"

definition ex_rti :: translatedIngress where
  "ex_rti = spec_translation ex_rworld ex_translator None ex_probed False ex_state"

definition ex_rcaches :: Caches where
  "ex_rcaches = snd (UpdateIngress 0 ex_caches ex_rti)"

lemma ex_rti: "translateIngress ex_rworld ex_translator None ex_probed False ex_state =
    (Inr (Some ex_rti), spec_state ex_translator ex_probed ex_state)"
  unfolding ex_rti_def by (rule translateIngress_translatable) code_simp

lemma ex_rupdate: "UpdateIngress 0 ex_caches ex_rti = (Inr (), ex_rcaches)"
proof -
  have "fst (UpdateIngress 0 ex_caches ex_rti) = Inr ()" by code_simp
  then show ?thesis by (simp add: ex_rcaches_def prod_eq_iff)
qed

lemma ex_renv_ok: "env_ok ex_renv" "re_snap ex_renv = ex_senv\<lparr>se_world := ex_rworld\<rparr>"
  "re_translator ex_renv = ex_translator" "re_hash ex_renv = ex_hash" "re_extAuthz ex_renv = False"
  "re_watchError ex_renv snap = None" "re_orders ex_renv = ex_orders"
  using ex_orders_ok by (simp_all add: env_ok_def ex_renv_def)

lemma ex_rplain:
  "plain_env (re_snap ex_renv) (cfg_Kourier (FromContextOrDefaults None)) (\<lambda>_. ex_nodes) (\<lambda>_. ex_blocks)"
  "\<not> useHTTPSListenerWithOneCert (w_env (se_world (re_snap ex_renv)))"
  "no_tls ex_rcaches"
proof -
  show "plain_env (re_snap ex_renv) (cfg_Kourier (FromContextOrDefaults None)) (\<lambda>_. ex_nodes) (\<lambda>_. ex_blocks)"
    using ex_plain by (simp add: ex_renv_def plain_env_def ex_senv_def ex_world_def ex_rworld_def)
  show "\<not> useHTTPSListenerWithOneCert (w_env (se_world (re_snap ex_renv)))" by code_simp
  show "no_tls ex_rcaches" by code_simp
qed

definition ex_rec1 :: rec_state where
  "ex_rec1 = snd (snd (updateIngress ex_renv None 0 (ex_ingress ''hello'') ex_rec0))"

lemma ex_updateIngress: "updateIngress ex_renv None 0 (ex_ingress ''hello'') ex_rec0 = (Inr (), ex_probed, ex_rec1)"
proof -
  let ?s = "ex_rec0\<lparr>rs_caches := ex_rcaches, rs_tr := spec_state ex_translator ex_probed ex_state\<rparr>"
  have "fst (updateEnvoyConfig ex_renv None 0 ?s) = Inr ()"
    by (rule updateEnvoyConfig_plain [OF ex_rplain(1) _ _ ex_rplain(2)]) (simp_all add: ex_renv_ok ex_orders_ok ex_rplain(3))
  then have "fst (updateIngress ex_renv None 0 (ex_ingress ''hello'') ex_rec0) = Inr () \<and>
      fst (snd (updateIngress ex_renv None 0 (ex_ingress ''hello'') ex_rec0)) = ex_probed"
    using ex_probed ex_rti ex_rupdate
    by (simp add: updateIngress_def UpdateInfoForIngress_def ex_renv_ok ex_rec0_def Let_def split_beta)
  then show ?thesis by (simp add: ex_rec1_def prod_eq_iff)
qed

lemma ex_defaults: "SetDefaults (io_Ingress ex_object) = Inr (ex_ingress ''hello'')"
  by code_simp

lemma ex_rec_reachable: "rec_init ex_rec0" "rec_step\<^sup>*\<^sup>* ex_rec0 ex_rec1"
proof -
  show "rec_init ex_rec0" unfolding ex_rec0_def by (rule rec_init.intros [OF ex_reachable(1)])
  obtain r i where "ReconcileKind ex_renv None 0 ex_object ex_rec0 = (r, i, ex_rec1)"
    using ex_updateIngress by (simp add: ReconcileKind_def ex_defaults Let_def split_beta)
  then have "rec_step ex_rec0 ex_rec1"
    by (intro rec_step.Reconcile [OF ex_renv_ok(1), of 0 ex_object None]) (simp_all add: ex_object_def ex_names)
  then show "rec_step\<^sup>*\<^sup>* ex_rec0 ex_rec1" by (rule r_into_rtranclp [of rec_step])
qed

lemma ex_rmember: "map_of (ca_translatedIngresses ex_rcaches) (ti_name ex_rti) = Some ex_rti"
  by code_simp

lemma ex_no_clash: "\<not> clashes ((caches_abs ex_caches)(ti_name ex_rti := None)) ex_rti"
proof -
  have "caches_abs ex_caches = Map.empty" by (rule NewCaches_inv(2) [OF ex_new])
  then show ?thesis by (simp add: clashes_def)
qed

theorem update_installs_witness:
  "caches_abs (rs_caches ex_rec1) = (caches_abs ex_caches)(ti_name ex_rti := None, ti_name ex_rti \<mapsto> ex_rti) \<and>
   (\<exists>snap rc. map_of (rs_snapshots ex_rec1) nodeID = Some snap \<and>
      map_of (sn_routes snap) (internalRouteConfigName ! 1) = Some rc \<and>
      set (ti_internalVirtualHosts ex_rti ! 1) \<subseteq> set (rc_VirtualHosts rc))"
  using update_installs [OF ex_rec_reachable(1) rtranclp.rtrancl_refl ex_renv_ok(1) _ ex_names(1) _ _ ex_updateIngress,
      where j = 1, of "''hash-of-hello''" ex_probed ex_rti "spec_state ex_translator ex_probed ex_state"]
    ex_no_clash ex_probed ex_rti
  by (simp add: ex_renv_ok ex_rec0_def Let_def del: One_nat_def)

theorem reconcile_status_witness:
  "fst (ReconcileKind ex_renv None 0 ex_object ex_rec0) = Inr () \<and>
   cond_status (is_Conditions (io_Status (fst (snd (ReconcileKind ex_renv None 0 ex_object ex_rec0))))) IngressConditionReady =
     Some ConditionTrue \<and>
   isExpectedLoadBalancer ex_renv (fst (snd (ReconcileKind ex_renv None 0 ex_object ex_rec0))) = Inr True"
proof -
  let ?r = "ReconcileKind ex_renv None 0 ex_object ex_rec0"
  have eq: "?r = (fst ?r, fst (snd ?r), snd (snd ?r))" by simp
  have hosts: "\<exists>hosts. ServiceHostnames (w_env (se_world (re_snap ex_renv))) (re_clusterDomain ex_renv) = Inr hosts"
    by (rule exI) code_simp
  have probed: "re_probe ex_renv (ex_object\<lparr>io_Ingress := ex_ingress ''hello''\<rparr>) = Inr True" by (simp add: ex_renv_def)
  have "conds_wf (is_Conditions (io_Status ex_object))" by (simp add: ex_object_def conds_wf_def)
  from reconcile_status [OF ex_defaults ex_updateIngress eq this] show ?thesis
    using hosts probed by (simp add: Let_def split: if_splits)
qed

theorem deletion_outcome_witness:
  "caches_abs (rs_caches (snd (ObserveDeletion ex_renv None 7 (ti_name ex_rti) ex_rec1))) =
     (caches_abs (rs_caches ex_rec1))(ti_name ex_rti := None)"
  using deletion_outcome [OF ex_rec_reachable(1) ex_rec_reachable(2) ex_renv_ok(1) _ surjective_pairing,
      of 7 0] by auto


end
