(* ===== verification/Controller.thy ===== *)
theory Controller
  imports Reconciler_Laws
begin

text \<open>
  The controller of \<^verbatim>\<open>pkg/reconciler/ingress/controller.go\<close>: which ingresses it looks at, what it
  does when the gateway rejects a snapshot, when a change of endpoints is looked at, and its
  start-up, which primes the caches with the ingresses that were configured before.
\<close>

section \<open>Constants and filters\<close>

definition gatewayLabelKey :: string where "gatewayLabelKey = ''app''"
definition gatewayLabelValue :: string where "gatewayLabelValue = ''3scale-kourier-gateway''"
definition managementPort :: nat where "managementPort = 18000"
definition unknownWeightedClusterPrefix :: string where
  "unknownWeightedClusterPrefix = ''route: unknown weighted cluster '' @ [CHR 0x27]"
definition ClassAnnotationKey :: string where
  "ClassAnnotationKey = ''networking.knative.dev/ingress.class''"

text \<open>\<^verbatim>\<open>AnnotationFilterFunc\<close> and \<^verbatim>\<open>LabelFilterFunc\<close> with \<^verbatim>\<open>allowUnset\<close> false: an unset key does not match.\<close>

definition mapHasOrDefault :: "string gomap \<Rightarrow> string \<Rightarrow> string \<Rightarrow> bool \<Rightarrow> bool" where
  "mapHasOrDefault m k val unset = (case map_of m k of None \<Rightarrow> unset | Some v \<Rightarrow> v = val)"

definition isKourierIngress :: "Ingress \<Rightarrow> bool" where
  "isKourierIngress ing = mapHasOrDefault (ing_Annotations ing) ClassAnnotationKey KourierIngressClassName False"

definition isGatewayPod :: "string gomap \<Rightarrow> bool" where
  "isGatewayPod labels = mapHasOrDefault labels gatewayLabelKey gatewayLabelValue False"

text \<open>\<^verbatim>\<open>FilteredGlobalResync\<close>: the names of the ingresses of the informer's store that are enqueued.\<close>

definition FilteredGlobalResync :: "(IngressObject \<Rightarrow> bool) \<Rightarrow> IngressObject list \<Rightarrow> NamespacedName list" where
  "FilteredGlobalResync f store = map (\<lambda>i. ing_nn (io_Ingress i)) (filter f store)"

definition resyncConflicts :: "IngressObject list \<Rightarrow> NamespacedName list" where
  "resyncConflicts store = FilteredGlobalResync (\<lambda>obj.
     let lbReady = GetReason (GetCondition (is_Conditions (io_Status obj)) IngressConditionLoadBalancerReady)
     in isKourierIngress (io_Ingress obj) \<and> (lbReady = [] \<or> lbReady = conflictReason)) store"

section \<open>A snapshot the gateway rejects\<close>

record ErrorDetail =
  ed_Code :: int
  ed_Message :: string

text \<open>The parts of the Go library the callback uses.\<close>

definition strings_TrimPrefix :: "string \<Rightarrow> string \<Rightarrow> string" where
  "strings_TrimPrefix s p = (if prefix p s then drop (length p) s else s)"

definition strings_TrimSuffix :: "string \<Rightarrow> string \<Rightarrow> string" where
  "strings_TrimSuffix s p = (if suffix p s then take (length s - length p) s else s)"

definition SplitMetaNamespaceKey :: "string \<Rightarrow> go_error + string \<times> string" where
  "SplitMetaNamespaceKey k =
     (case strings_Split k CHR ''/'' of
        [name] \<Rightarrow> Inr ([], name)
      | [namespace, name] \<Rightarrow> Inr (namespace, name)
      | _ \<Rightarrow> Inl (ErrNew (''unexpected key format: '' @ k)))"

text \<open>What the callback does: nothing, tell the tracker that an object changed, or enqueue ingresses.\<close>

datatype stream_effect = NoEffect | OnChanged Reference | Resync "NamespacedName list"

definition StreamRequestFunc :: "IngressObject list \<Rightarrow> ErrorDetail option \<Rightarrow> stream_effect" where
  "StreamRequestFunc store errorDetail =
     (case errorDetail of
        None \<Rightarrow> NoEffect
      | Some d \<Rightarrow>
          if strings_HasPrefix (ed_Message d) unknownWeightedClusterPrefix then
            (let svc = strings_TrimPrefix (strings_TrimSuffix (ed_Message d) [CHR 0x27]) unknownWeightedClusterPrefix in
             case SplitMetaNamespaceKey svc of
               Inl e \<Rightarrow> NoEffect
             | Inr (ns, name) \<Rightarrow>
                 OnChanged \<lparr>ref_Kind = ''Service'', ref_APIVersion = ''v1'', ref_Namespace = ns, ref_Name = name\<rparr>)
          else Resync (FilteredGlobalResync (\<lambda>obj. isKourierIngress (io_Ingress obj) \<and> \<not> IsReady obj) store))"

section \<open>Changes of endpoints\<close>

text \<open>\<^verbatim>\<open>readyAddresses\<close>: the set of the IPs, \<^verbatim>\<open>nil\<close> when there is no address.\<close>

definition readyAddresses :: "Endpoints \<Rightarrow> string set option" where
  "readyAddresses eps =
     (let count = foldl (\<lambda>count subset. count + length (es_Addresses subset)) 0 (ep_Subsets eps) in
      if count = 0 then None
      else Some (foldl (\<lambda>ready subset. foldl (\<lambda>ready address. insert (ea_IP address) ready) ready
                   (es_Addresses subset)) {} (ep_Subsets eps)))"

text \<open>\<^verbatim>\<open>Equal\<close> of \<^verbatim>\<open>sets.String\<close>: a \<^verbatim>\<open>nil\<close> set is an empty one.\<close>

definition sets_Equal :: "string set option \<Rightarrow> string set option \<Rightarrow> bool" where
  "sets_Equal a b \<longleftrightarrow> (case a of None \<Rightarrow> {} | Some s \<Rightarrow> s) = (case b of None \<Rightarrow> {} | Some s \<Rightarrow> s)"

text \<open>\<open>endpoints_UpdateFunc\<close> tells whether the new endpoints are handed to the tracker.\<close>

definition endpoints_UpdateFunc :: "Endpoints \<Rightarrow> Endpoints \<Rightarrow> bool" where
  "endpoints_UpdateFunc old new =
     (let before = readyAddresses old; after = readyAddresses new in \<not> sets_Equal before after)"

section \<open>Start-up\<close>

definition getReadyIngresses :: "go_error + IngressObject list \<Rightarrow> go_error + IngressObject list" where
  "getReadyIngresses ingresses =
     (case ingresses of
        Inl e \<Rightarrow> Inl e
      | Inr items \<Rightarrow> Inr (filter (\<lambda>ingress.
          isKourierIngress (io_Ingress ingress) \<and> io_DeletionTimestamp ingress = None \<and>
          IsTrue (GetCondition (is_Conditions (io_Status ingress)) IngressConditionNetworkConfigured)) items))"

text \<open>A call whose error ends the process: \<^verbatim>\<open>logger.Fatalw\<close> with the message and the error.\<close>

definition fatal :: "string \<Rightarrow> 'a res \<Rightarrow> 'a res" where
  "fatal msg r = (case r of Inl (Err e) \<Rightarrow> Inl (Err (ErrWrap msg e)) | _ \<Rightarrow> r)"

text \<open>
  The loop that primes the caches. Every operation of the start-up has its own environment and
  time: number 0 is the first snapshot, then come the updates, and the last snapshot.
\<close>

definition prime_step ::
  "(nat \<Rightarrow> rec_env) \<Rightarrow> ctx \<Rightarrow> (nat \<Rightarrow> int) \<Rightarrow> rec_state \<Rightarrow> nat \<times> IngressObject \<Rightarrow> rec_state res" where
  "prime_step envs ctx now s k_ingress =
     (let (k, ingress) = k_ingress; env = envs k in
      case UpdateInfoForIngress (re_hash env) (se_world (re_snap env)) (re_translator env) ctx
             (re_extAuthz env) (now k) (rs_caches s) (rs_tr s) (io_Ingress ingress) of
        (r, caches, tr, _) \<Rightarrow>
          bindr (fatal ''Failed prewarm ingress'' r) (\<lambda>_. Inr (s\<lparr>rs_caches := caches, rs_tr := tr\<rparr>)))"

text \<open>
  The part of \<^verbatim>\<open>NewController\<close> that changes state: the new caches, the first snapshot, the ingresses
  to prime with, and their snapshot; \<open>ingresses\<close> is the answer to listing all ingresses.
\<close>

definition NewController ::
  "(nat \<Rightarrow> rec_env) \<Rightarrow> ctx \<Rightarrow> (nat \<Rightarrow> int) \<Rightarrow> go_error + IngressObject list \<Rightarrow> rec_state res" where
  "NewController envs ctx now ingresses =
     (let env = envs 0 in
      bindr (fatal ''Failed create new caches''
        (NewCaches (w_mar (se_world (re_snap env))) (se_authz (re_snap env)) (now 0) (re_extAuthz env))) (\<lambda>caches.
      let s = \<lparr>rs_caches = caches, rs_tr = \<lparr>ts_heap = [], ts_tracked = []\<rparr>, rs_snapshots = [],
               rs_cancelled = [], rs_resyncs = 0\<rparr>;
          (r, h) = ToEnvoySnapshot (re_snap env) (re_orders env) ctx (now 0) (re_version env)
                     (ts_heap (rs_tr s)) (rs_caches s)
      in
      bindr (fatal ''Failed to create snapshot'' r) (\<lambda>snapshot.
      let (r, snapshots) = SetSnapshot (re_watchError env) nodeID snapshot (rs_snapshots s) in
      bindr (fatal ''Failed to set snapshot'' r) (\<lambda>_.
      let s = s\<lparr>rs_tr := (rs_tr s)\<lparr>ts_heap := h\<rparr>, rs_snapshots := snapshots\<rparr> in
      bindr (fatal ''Failed to fetch ready ingresses'' (liftE (getReadyIngresses ingresses))) (\<lambda>ingressesToSync.
      bindr (foldM (prime_step envs ctx now) s (enumerate 1 ingressesToSync)) (\<lambda>s.
      let k = length ingressesToSync + 1; (r, s) = updateEnvoyConfig (envs k) ctx (now k) s in
      bindr (fatal ''Failed to set initial envoy config'' r) (\<lambda>_. Inr s)))))))"

end
