(* ===== verification/Controller_Props.thy ===== *)
theory Controller_Props
  imports Controller
begin

text \<open>
  Properties of the controller: what the start-up leaves behind, and what the reactions to the
  gateway and to the cluster do.
\<close>

section \<open>Priming the caches\<close>

lemma fatal_Inr [simp]: "fatal msg r = Inr a \<longleftrightarrow> r = Inr a"
  by (auto simp: fatal_def split: sum.splits fault.splits)

lemma prime_stepE:
  assumes "prime_step envs ctx now s (k, i) = Inr s'" "caches_inv (rs_caches s)" "env_ok (envs k)"
    and "0 \<le> now k" "name_ok (ing_nn (io_Ingress i))"
  obtains hash ing' r where "InsertProbe (re_hash (envs k)) (io_Ingress i) = (Inr hash, ing')"
    and "translateIngress (se_world (re_snap (envs k))) (re_translator (envs k)) ctx ing' False (rs_tr s) = (Inr r, rs_tr s')"
    and "caches_inv (rs_caches s')" "rec_step s s'"
    and "caches_abs (rs_caches s') = (case r of None \<Rightarrow> caches_abs (rs_caches s)
           | Some ti \<Rightarrow> (caches_abs (rs_caches s))(ing_nn (io_Ingress i) \<mapsto> ti))"
proof -
  let ?env = "envs k" and ?ing = "io_Ingress i"
  have ext: "\<not> re_extAuthz ?env" using assms(3) by (simp add: env_ok_def)
  obtain caches tr ing2 where u: "UpdateInfoForIngress (re_hash ?env) (se_world (re_snap ?env)) (re_translator ?env) ctx
      (re_extAuthz ?env) (now k) (rs_caches s) (rs_tr s) ?ing = (Inr (), caches, tr, ing2)"
    and s': "s' = s\<lparr>rs_caches := caches, rs_tr := tr\<rparr>"
    using assms(1) by (auto simp: prime_step_def Let_def go_simps split: prod.splits)
  have step: "rec_step s s'" unfolding s' by (rule rec_step.Prime [OF assms(3-5) u])
  obtain hash ing' where ip: "InsertProbe (re_hash ?env) ?ing = (Inr hash, ing')"
    and "case translateIngress (se_world (re_snap ?env)) (re_translator ?env) ctx ing' False (rs_tr s) of
      (Inr None, st) \<Rightarrow> caches = rs_caches s \<and> tr = st
    | (Inr (Some ti), st) \<Rightarrow> UpdateIngress (now k) (rs_caches s) ti = (Inr (), caches) \<and> tr = st
    | _ \<Rightarrow> False"
    using u ext by (auto simp: UpdateInfoForIngress_def split: prod.splits sum.splits fault.splits option.splits)
  then consider (nil) "translateIngress (se_world (re_snap ?env)) (re_translator ?env) ctx ing' False (rs_tr s) = (Inr None, tr)"
      "caches = rs_caches s"
    | (ti) ti where "translateIngress (se_world (re_snap ?env)) (re_translator ?env) ctx ing' False (rs_tr s) = (Inr (Some ti), tr)"
      "UpdateIngress (now k) (rs_caches s) ti = (Inr (), caches)"
    by (auto split: prod.splits sum.splits option.splits)
  then show ?thesis
  proof cases
    case nil
    then show ?thesis using that [OF ip, of None] step s' assms(2) by simp
  next
    case ti
    have nn: "ing_nn ing' = ing_nn ?ing" by (rule InsertProbe_nn [OF ip])
    then have "name_ok (ing_nn ing')" using assms(5) by simp
    from translation_wf [OF ti(1) this] have w: "ti_wf ti" "ti_name ti = ing_nn ?ing" using nn by simp_all
    obtain r c' where "UpdateIngress (now k) (rs_caches s) ti = (r, c')" "caches_inv c'"
      "(r, caches_abs c') = spec_update ti (caches_abs (rs_caches s))"
      by (rule update_step [OF assms(2) w(1) assms(4)])
    then have "caches_inv caches" "caches_abs caches = (caches_abs (rs_caches s))(ing_nn ?ing \<mapsto> ti)"
      using ti(2) w(2) by (auto simp: spec_update_def Let_def split: if_splits)
    then show ?thesis using that [OF ip, of "Some ti"] step s' ti(1) by simp
  qed
qed

text \<open>The ingress was translated, and the caches hold its translation unless an object was missing.\<close>

definition primed :: "rec_env \<Rightarrow> ctx \<Rightarrow> (NamespacedName \<rightharpoonup> translatedIngress) \<Rightarrow> Ingress \<Rightarrow> bool" where
  "primed env ctx m ing \<longleftrightarrow> (\<exists>hash ing' r st st'.
     InsertProbe (re_hash env) ing = (Inr hash, ing') \<and>
     translateIngress (se_world (re_snap env)) (re_translator env) ctx ing' False st = (Inr r, st') \<and>
     (r = None \<or> m (ing_nn ing) = r))"

lemma primed_translatable:
  assumes "primed env ctx m ing" "name_ok (ing_nn ing)"
    and "translatable (se_world (re_snap env)) (re_translator env) ctx (snd (InsertProbe (re_hash env) ing))"
  obtains ti st st' where "translateIngress (se_world (re_snap env)) (re_translator env) ctx
      (snd (InsertProbe (re_hash env) ing)) False st = (Inr (Some ti), st')"
    and "m (ing_nn ing) = Some ti" "ti_domains ti = ing_domains ing"
proof -
  obtain hash ing' r st st' where p: "InsertProbe (re_hash env) ing = (Inr hash, ing')"
    "translateIngress (se_world (re_snap env)) (re_translator env) ctx ing' False st = (Inr r, st')"
    "r = None \<or> m (ing_nn ing) = r"
    using assms(1) unfolding primed_def by blast
  have "translatable (se_world (re_snap env)) (re_translator env) ctx ing'" using assms(3) p(1) by simp
  then have "translateIngress (se_world (re_snap env)) (re_translator env) ctx ing' False st =
      (Inr (Some (spec_translation (se_world (re_snap env)) (re_translator env) ctx ing' False st)), spec_state (re_translator env) ing' st)"
    by (simp add: translateIngress_exits translate_Inr)
  then obtain ti where ti: "r = Some ti" using p(2) by auto
  have "name_ok (ing_nn ing')" using assms(2) InsertProbe_nn [OF p(1)] by simp
  moreover have "ing_domains ing' = ing_domains ing"
    using p(1) by (auto simp: InsertProbe_Inr ing_domains_def probe_rule_def domainsForRule_def)
  ultimately have "ti_domains ti = ing_domains ing" using translation_wf(2) p(2) ti by metis
  then show ?thesis using that p ti by simp
qed

lemma prime_loop:
  assumes "foldM (prime_step envs ctx now) s (enumerate n is) = Inr s'" "caches_inv (rs_caches s)"
    and "\<And>k. env_ok (envs k)" "\<And>k. 0 \<le> now k" "\<And>i. i \<in> set is \<Longrightarrow> name_ok (ing_nn (io_Ingress i))"
    and "distinct (map (\<lambda>i. ing_nn (io_Ingress i)) is)"
  shows "rec_step\<^sup>*\<^sup>* s s' \<and> caches_inv (rs_caches s') \<and>
    (\<forall>nn. nn \<notin> (\<lambda>i. ing_nn (io_Ingress i)) ` set is \<longrightarrow> caches_abs (rs_caches s') nn = caches_abs (rs_caches s) nn) \<and>
    (\<forall>j < length is. primed (envs (n + j)) ctx (caches_abs (rs_caches s')) (io_Ingress (is ! j)))"
  using assms
proof (induction "is" arbitrary: s n)
  case Nil
  then show ?case by simp
next
  case (Cons i "is")
  obtain s1 where s1: "prime_step envs ctx now s (n, i) = Inr s1"
    "foldM (prime_step envs ctx now) s1 (enumerate (Suc n) is) = Inr s'"
    using Cons.prems(1) by (auto simp: go_simps)
  obtain hash ing' r where st: "InsertProbe (re_hash (envs n)) (io_Ingress i) = (Inr hash, ing')"
    "translateIngress (se_world (re_snap (envs n))) (re_translator (envs n)) ctx ing' False (rs_tr s) = (Inr r, rs_tr s1)"
    "caches_inv (rs_caches s1)" "rec_step s s1"
    "caches_abs (rs_caches s1) = (case r of None \<Rightarrow> caches_abs (rs_caches s)
       | Some ti \<Rightarrow> (caches_abs (rs_caches s))(ing_nn (io_Ingress i) \<mapsto> ti))"
    by (rule prime_stepE [OF s1(1) Cons.prems(2,3,4)]) (use Cons.prems(5) in auto)
  have IH: "rec_step\<^sup>*\<^sup>* s1 s' \<and> caches_inv (rs_caches s') \<and>
    (\<forall>nn. nn \<notin> (\<lambda>i. ing_nn (io_Ingress i)) ` set is \<longrightarrow> caches_abs (rs_caches s') nn = caches_abs (rs_caches s1) nn) \<and>
    (\<forall>j < length is. primed (envs (Suc n + j)) ctx (caches_abs (rs_caches s')) (io_Ingress (is ! j)))"
    by (rule Cons.IH [OF s1(2) st(3) Cons.prems(3,4)]) (use Cons.prems(5,6) in auto)
  have "ing_nn (io_Ingress i) \<notin> (\<lambda>i. ing_nn (io_Ingress i)) ` set is" using Cons.prems(6) by auto
  then have "caches_abs (rs_caches s') (ing_nn (io_Ingress i)) = caches_abs (rs_caches s1) (ing_nn (io_Ingress i))"
    using IH by blast
  then have head: "primed (envs n) ctx (caches_abs (rs_caches s')) (io_Ingress i)"
    unfolding primed_def
    by (intro exI [of _ hash] exI [of _ ing'] exI [of _ r] exI [of _ "rs_tr s"] exI [of _ "rs_tr s1"])
      (use st in \<open>auto split: option.splits\<close>)
  have "primed (envs (n + j)) ctx (caches_abs (rs_caches s')) (io_Ingress ((i # is) ! j))" if "j < length (i # is)" for j
    using head IH that by (cases j) auto
  then show ?case using IH st(4,5) by (auto split: option.splits intro: converse_rtranclp_into_rtranclp)
qed

section \<open>The start-up\<close>

definition fresh_state :: "Caches \<Rightarrow> rec_state" where
  "fresh_state caches = \<lparr>rs_caches = caches, rs_tr = \<lparr>ts_heap = [], ts_tracked = []\<rparr>, rs_snapshots = [],
     rs_cancelled = [], rs_resyncs = 0\<rparr>"

text \<open>The first snapshot is taken the way \<^verbatim>\<open>updateEnvoyConfig\<close> takes one.\<close>

lemma NewController_Inr:
  "NewController envs ctx now ingresses = Inr s \<longleftrightarrow>
     (\<exists>caches s1 ready s2.
        NewCaches (w_mar (se_world (re_snap (envs 0)))) (se_authz (re_snap (envs 0))) (now 0) (re_extAuthz (envs 0)) = Inr caches \<and>
        updateEnvoyConfig (envs 0) ctx (now 0) (fresh_state caches) = (Inr (), s1) \<and>
        getReadyIngresses ingresses = Inr ready \<and>
        foldM (prime_step envs ctx now) s1 (enumerate 1 ready) = Inr s2 \<and>
        updateEnvoyConfig (envs (length ready + 1)) ctx (now (length ready + 1)) s2 = (Inr (), s))"
proof -
  have snap: "updateEnvoyConfig (envs 0) ctx (now 0) (fresh_state caches) = (Inr (), s1) \<longleftrightarrow>
    (\<exists>snapshot h snapshots.
      ToEnvoySnapshot (re_snap (envs 0)) (re_orders (envs 0)) ctx (now 0) (re_version (envs 0)) [] caches = (Inr snapshot, h) \<and>
      SetSnapshot (re_watchError (envs 0)) nodeID snapshot [] = (Inr (), snapshots) \<and>
      s1 = (fresh_state caches)\<lparr>rs_tr := \<lparr>ts_heap = h, ts_tracked = []\<rparr>, rs_snapshots := snapshots\<rparr>)" for caches s1
    by (auto simp: updateEnvoyConfig_def fresh_state_def split: prod.splits sum.splits)
  have ready: "liftE (getReadyIngresses ingresses) = Inr r \<longleftrightarrow> getReadyIngresses ingresses = Inr r" for r
    by (cases "getReadyIngresses ingresses") simp_all
  have new: "NewController envs ctx now ingresses = Inr s \<longleftrightarrow>
    (\<exists>caches snapshot h snapshots ready s2.
      NewCaches (w_mar (se_world (re_snap (envs 0)))) (se_authz (re_snap (envs 0))) (now 0) (re_extAuthz (envs 0)) = Inr caches \<and>
      ToEnvoySnapshot (re_snap (envs 0)) (re_orders (envs 0)) ctx (now 0) (re_version (envs 0)) [] caches = (Inr snapshot, h) \<and>
      SetSnapshot (re_watchError (envs 0)) nodeID snapshot [] = (Inr (), snapshots) \<and>
      getReadyIngresses ingresses = Inr ready \<and>
      foldM (prime_step envs ctx now)
        ((fresh_state caches)\<lparr>rs_tr := \<lparr>ts_heap = h, ts_tracked = []\<rparr>, rs_snapshots := snapshots\<rparr>) (enumerate 1 ready) = Inr s2 \<and>
      updateEnvoyConfig (envs (length ready + 1)) ctx (now (length ready + 1)) s2 = (Inr (), s))"
    by (simp add: NewController_def Let_def go_simps ready fresh_state_def split_beta prod_eq_iff)
  show ?thesis unfolding new snap by blast
qed

lemma startup_state:
  assumes "NewController envs ctx now ingresses = Inr s" "getReadyIngresses ingresses = Inr ready"
    and "\<And>k. env_ok (envs k)" "\<And>k. 0 \<le> now k" "\<And>i. i \<in> set ready \<Longrightarrow> name_ok (ing_nn (io_Ingress i))"
    and "distinct (map (\<lambda>i. ing_nn (io_Ingress i)) ready)"
  obtains s0 s2 where "rec_init s0" "rec_step\<^sup>*\<^sup>* s0 s2" "rec_step s2 s" "caches_inv (rs_caches s2)" "rs_caches s = rs_caches s2"
    and "\<forall>j < length ready. primed (envs (j + 1)) ctx (caches_abs (rs_caches s2)) (io_Ingress (ready ! j))"
    and "updateEnvoyConfig (envs (length ready + 1)) ctx (now (length ready + 1)) s2 = (Inr (), s)"
proof -
  obtain caches s1 s2 where n: "NewCaches (w_mar (se_world (re_snap (envs 0)))) (se_authz (re_snap (envs 0))) (now 0) (re_extAuthz (envs 0)) = Inr caches"
    "updateEnvoyConfig (envs 0) ctx (now 0) (fresh_state caches) = (Inr (), s1)"
    "foldM (prime_step envs ctx now) s1 (enumerate 1 ready) = Inr s2"
    and last: "updateEnvoyConfig (envs (length ready + 1)) ctx (now (length ready + 1)) s2 = (Inr (), s)"
    using assms(1,2) by (auto simp: NewController_Inr)
  have init: "rec_init (fresh_state caches)"
    unfolding fresh_state_def by (rule rec_init.intros [OF caches_init.intros [OF n(1)]])
  have first: "rec_step (fresh_state caches) s1" by (rule rec_step.Push [OF assms(3) n(2)])
  have "caches_inv (rs_caches s1)"
    using NewCaches_inv(1) [OF n(1)] updateEnvoyConfig_frame [of "envs 0" ctx "now 0" "fresh_state caches"] n(2)
    by (simp add: fresh_state_def)
  note L = prime_loop [OF n(3) this assms(3-6), unfolded add.commute [of 1], simplified]
  have "rec_step\<^sup>*\<^sup>* s1 s2" using L by (elim conjE)
  moreover have "caches_inv (rs_caches s2)" using L by (elim conjE)
  moreover have "\<forall>j < length ready. primed (envs (j + 1)) ctx (caches_abs (rs_caches s2)) (io_Ingress (ready ! j))"
    using L by simp
  moreover have "rs_caches s = rs_caches s2"
    using updateEnvoyConfig_frame [of "envs (length ready + 1)" ctx "now (length ready + 1)" s2] last by simp
  ultimately show ?thesis
    using that [OF init converse_rtranclp_into_rtranclp [of rec_step, OF first] rec_step.Push [OF assms(3) last]] last by simp
qed

lemma startup_installs:
  assumes "NewController envs ctx now ingresses = Inr s" "getReadyIngresses ingresses = Inr ready"
    and "\<And>k. env_ok (envs k)" "\<And>k. 0 \<le> now k" "\<And>i. i \<in> set ready \<Longrightarrow> name_ok (ing_nn (io_Ingress i))"
    and "distinct (map (\<lambda>i. ing_nn (io_Ingress i)) ready)" "n < length ready" "j < length regions"
    and "env = envs (n + 1)" "ing = io_Ingress (ready ! n)" "probed = snd (InsertProbe (re_hash env) ing)"
    and "translatable (se_world (re_snap env)) (re_translator env) ctx probed"
  obtains ti st st' snap rc where
    "translateIngress (se_world (re_snap env)) (re_translator env) ctx probed False st = (Inr (Some ti), st')"
    and "caches_abs (rs_caches s) (ing_nn ing) = Some ti" "map_of (rs_snapshots s) nodeID = Some snap"
    and "map_of (sn_routes snap) (internalRouteConfigName ! j) = Some rc"
    and "set (ti_internalVirtualHosts ti ! j) \<subseteq> set (rc_VirtualHosts rc)"
proof -
  let ?env = "envs (length ready + 1)"
  obtain s0 s2 where "rec_init s0" "rec_step\<^sup>*\<^sup>* s0 s2" "rec_step s2 s" and caches: "rs_caches s = rs_caches s2"
    and primed:
    "\<forall>j < length ready. primed (envs (j + 1)) ctx (caches_abs (rs_caches s2)) (io_Ingress (ready ! j))"
    and last: "updateEnvoyConfig ?env ctx (now (length ready + 1)) s2 = (Inr (), s)"
    by (rule startup_state [OF assms(1-6)])
  have p: "primed env ctx (caches_abs (rs_caches s2)) ing" "name_ok (ing_nn ing)"
    using primed assms(5,7,9,10) by auto
  obtain ti t t' where ti: "translateIngress (se_world (re_snap env)) (re_translator env) ctx probed False t = (Inr (Some ti), t')"
    "caches_abs (rs_caches s2) (ing_nn ing) = Some ti"
    using primed_translatable [OF p] assms(11,12) by metis
  obtain snap rc where snap: "map_of (rs_snapshots s) nodeID = Some snap"
    "map_of (sn_routes snap) (internalRouteConfigName ! j) = Some rc"
    "rc_VirtualHosts rc = local_vhosts (re_orders ?env) (rs_caches s2) j"
    using updateEnvoyConfig_installs [OF last assms(3,8)] by blast
  have "(ing_nn ing, ti) \<in> set (ca_translatedIngresses (rs_caches s2))"
    using ti(2) by (auto simp: caches_abs_def dest: map_of_SomeD)
  then have "set (ti_internalVirtualHosts ti ! j) \<subseteq> set (rc_VirtualHosts rc)"
    unfolding snap(3) using assms(3) [of "length ready + 1"]
    by (force simp: local_vhosts_def region_vhosts_def env_ok_def range_order_set)
  then show ?thesis using that ti snap(1,2) caches by simp
qed

text \<open>An ingress that was configured before the start: of this class, not being deleted, its network configured.\<close>

definition was_configured :: "IngressObject \<Rightarrow> bool" where
  "was_configured i \<longleftrightarrow> map_of (ing_Annotations (io_Ingress i)) ClassAnnotationKey = Some KourierIngressClassName \<and>
     io_DeletionTimestamp i = None \<and> cond_status (is_Conditions (io_Status i)) IngressConditionNetworkConfigured = Some ConditionTrue"

lemma isKourierIngress_iff: "isKourierIngress ing \<longleftrightarrow> map_of (ing_Annotations ing) ClassAnnotationKey = Some KourierIngressClassName"
  by (simp add: isKourierIngress_def mapHasOrDefault_def split: option.split)

lemma getReadyIngresses_configured: "getReadyIngresses (Inr items) = Inr (filter was_configured items)"
  by (simp add: getReadyIngresses_def was_configured_def [abs_def] isKourierIngress_iff IsTrue_status)

lemma startup_only:
  assumes "NewController envs ctx now ingresses = Inr s" "getReadyIngresses ingresses = Inr ready"
    and "\<And>k. env_ok (envs k)" "\<And>k. 0 \<le> now k" "\<And>i. i \<in> set ready \<Longrightarrow> name_ok (ing_nn (io_Ingress i))"
    and "distinct (map (\<lambda>i. ing_nn (io_Ingress i)) ready)" "caches_abs (rs_caches s) nn = Some ti"
  shows "nn \<in> (\<lambda>i. ing_nn (io_Ingress i)) ` set ready"
proof (rule ccontr)
  assume nn: "nn \<notin> (\<lambda>i. ing_nn (io_Ingress i)) ` set ready"
  obtain caches s1 s2 where n: "NewCaches (w_mar (se_world (re_snap (envs 0)))) (se_authz (re_snap (envs 0))) (now 0) (re_extAuthz (envs 0)) = Inr caches"
    "updateEnvoyConfig (envs 0) ctx (now 0) (fresh_state caches) = (Inr (), s1)"
    "foldM (prime_step envs ctx now) s1 (enumerate 1 ready) = Inr s2"
    and last: "updateEnvoyConfig (envs (length ready + 1)) ctx (now (length ready + 1)) s2 = (Inr (), s)"
    using assms(1,2) by (auto simp: NewController_Inr)
  have s1: "rs_caches s1 = caches"
    using updateEnvoyConfig_frame [of "envs 0" ctx "now 0" "fresh_state caches"] n(2) by (simp add: fresh_state_def)
  have "caches_inv (rs_caches s1)" unfolding s1 by (rule NewCaches_inv(1) [OF n(1)])
  note L = prime_loop [OF n(3) this assms(3-6)]
  have "caches_abs (rs_caches s2) nn = caches_abs (rs_caches s1) nn" using L nn by blast
  then have "caches_abs (rs_caches s2) nn = None" unfolding s1 NewCaches_inv(2) [OF n(1)] by simp
  moreover have "rs_caches s = rs_caches s2"
    using updateEnvoyConfig_frame [of "envs (length ready + 1)" ctx "now (length ready + 1)" s2] last by simp
  ultimately show False using assms(7) by simp
qed

text \<open>
  C16: A start-up that succeeds without external authorization serves every ingress that was configured before. Of the ingresses
  the API server lists, with different names without colons, those count that have the class of this controller, are not being deleted and have the
  condition that their network is configured. The start-up ends in a
  reachable state; the caches hold translations of such ingresses only; and for each of them that can be translated when its turn comes (its
  services, endpoints and secrets are found, and the tracker accepts them) the caches hold its translation and the
  snapshot installed for the gateway has its virtual hosts in every region.
\<close>

theorem startup_primes:
  assumes "NewController envs ctx now (Inr items) = Inr s" "\<And>k. env_ok (envs k)" "\<And>k. 0 \<le> now k"
    and "\<And>i. i \<in> set items \<Longrightarrow> name_ok (ing_nn (io_Ingress i))" "distinct (map (\<lambda>i. ing_nn (io_Ingress i)) items)"
    and "configured = (\<lambda>i. map_of (ing_Annotations (io_Ingress i)) ClassAnnotationKey = Some KourierIngressClassName \<and>
      io_DeletionTimestamp i = None \<and> cond_status (is_Conditions (io_Status i)) IngressConditionNetworkConfigured = Some ConditionTrue)"
  shows "(\<exists>s0. rec_init s0 \<and> rec_step\<^sup>*\<^sup>* s0 s) \<and>
    (\<forall>nn ti. caches_abs (rs_caches s) nn = Some ti \<longrightarrow> (\<exists>i \<in> set items. configured i \<and> ing_nn (io_Ingress i) = nn)) \<and>
    (\<forall>before i after env probed j. items = before @ i # after \<longrightarrow> configured i \<longrightarrow>
      env = envs (length (filter configured before) + 1) \<longrightarrow> probed = snd (InsertProbe (re_hash env) (io_Ingress i)) \<longrightarrow>
      translatable (se_world (re_snap env)) (re_translator env) ctx probed \<longrightarrow> j < length regions \<longrightarrow>
      (\<exists>ti st st' snap rc.
        translateIngress (se_world (re_snap env)) (re_translator env) ctx probed False st = (Inr (Some ti), st') \<and>
        caches_abs (rs_caches s) (ing_nn (io_Ingress i)) = Some ti \<and> map_of (rs_snapshots s) nodeID = Some snap \<and>
        map_of (sn_routes snap) (internalRouteConfigName ! j) = Some rc \<and>
        set (ti_internalVirtualHosts ti ! j) \<subseteq> set (rc_VirtualHosts rc)))"
proof -
  have configured: "configured = was_configured" using assms(6) by (simp add: was_configured_def [abs_def])
  let ?ready = "filter was_configured items"
  have names: "i \<in> set ?ready \<Longrightarrow> name_ok (ing_nn (io_Ingress i))" for i using assms(4) by simp
  have dist: "distinct (map (\<lambda>i. ing_nn (io_Ingress i)) ?ready)" by (rule distinct_map_filter [OF assms(5)])
  note A = assms(1) getReadyIngresses_configured assms(2,3) names dist
  obtain s0 s2 where "rec_init s0" "rec_step\<^sup>*\<^sup>* s0 s2" "rec_step s2 s" using startup_state [OF A] by metis
  then have "\<exists>s0. rec_init s0 \<and> rec_step\<^sup>*\<^sup>* s0 s" by (meson rtranclp.rtrancl_into_rtrancl)
  moreover have "\<exists>i \<in> set items. was_configured i \<and> ing_nn (io_Ingress i) = nn" if "caches_abs (rs_caches s) nn = Some ti" for nn ti
    using startup_only [OF A that] by auto
  moreover have "\<exists>ti st st' snap rc.
        translateIngress (se_world (re_snap env)) (re_translator env) ctx probed False st = (Inr (Some ti), st') \<and>
        caches_abs (rs_caches s) (ing_nn (io_Ingress i)) = Some ti \<and> map_of (rs_snapshots s) nodeID = Some snap \<and>
        map_of (sn_routes snap) (internalRouteConfigName ! j) = Some rc \<and>
        set (ti_internalVirtualHosts ti ! j) \<subseteq> set (rc_VirtualHosts rc)"
    if "items = before @ i # after" "was_configured i" and env: "env = envs (length (filter was_configured before) + 1)"
      and probed: "probed = snd (InsertProbe (re_hash env) (io_Ingress i))"
      and tr: "translatable (se_world (re_snap env)) (re_translator env) ctx probed" and j: "j < length regions" for before i after env probed j
  proof -
    have "length (filter was_configured before) < length ?ready" "io_Ingress i = io_Ingress (?ready ! length (filter was_configured before))"
      using that(1,2) by (simp_all add: nth_append)
    then show ?thesis using startup_installs [OF A _ j env _ probed tr] by metis
  qed
  ultimately show ?thesis unfolding configured by blast
qed

text \<open>
  C38: A domain conflict ends the process at start-up. Without external authorization, when two ingresses that were configured before
  have a domain in common and both can be translated, \<^verbatim>\<open>NewController\<close> never returns a controller:
  the second one is refused, and its error is fatal, where the reconciler would mark the ingress
  as failed and go on.
\<close>

theorem startup_conflict_fatal:
  assumes "getReadyIngresses ingresses = Inr ready"
    and "\<And>k. env_ok (envs k)" "\<And>k. 0 \<le> now k" "\<And>i. i \<in> set ready \<Longrightarrow> name_ok (ing_nn (io_Ingress i))"
    and "distinct (map (\<lambda>i. ing_nn (io_Ingress i)) ready)" "m < n" "n < length ready"
    and "d \<in> ing_domains (io_Ingress (ready ! m))" "d \<in> ing_domains (io_Ingress (ready ! n))"
    and "\<And>k. k = m \<or> k = n \<Longrightarrow> translatable (se_world (re_snap (envs (k + 1)))) (re_translator (envs (k + 1))) ctx
      (snd (InsertProbe (re_hash (envs (k + 1))) (io_Ingress (ready ! k))))"
  shows "\<exists>f. NewController envs ctx now ingresses = Inl f"
proof (rule ccontr)
  assume "\<nexists>f. NewController envs ctx now ingresses = Inl f"
  then obtain s where s: "NewController envs ctx now ingresses = Inr s" by (cases "NewController envs ctx now ingresses") auto
  obtain s0 s2 where "rec_init s0" "rec_step\<^sup>*\<^sup>* s0 s2" "rec_step s2 s" and st: "caches_inv (rs_caches s2)"
    and "rs_caches s = rs_caches s2" and st2:
    "\<forall>j < length ready. primed (envs (j + 1)) ctx (caches_abs (rs_caches s2)) (io_Ingress (ready ! j))"
    by (rule startup_state [OF s assms(1-5)])
  have stored: "\<exists>ti. caches_abs (rs_caches s2) (ing_nn (io_Ingress (ready ! k))) = Some ti \<and> ti_domains ti = ing_domains (io_Ingress (ready ! k))"
    if "k = m \<or> k = n" for k
    using primed_translatable [of "envs (k + 1)" ctx "caches_abs (rs_caches s2)" "io_Ingress (ready ! k)"]
      st2 assms(4,6,7) assms(10) [OF that] that by (metis less_trans nth_mem)
  have "ing_nn (io_Ingress (ready ! m)) \<noteq> ing_nn (io_Ingress (ready ! n))"
    using assms(5-7) by (auto simp: distinct_conv_nth)
  then show False
    using stored [of m] stored [of n] caches_invD(5) [OF st] assms(8,9) by blast
qed


section \<open>A cluster the gateway does not know\<close>

lemma stream_unknown_cluster:
  assumes "CHR ''/'' \<notin> set ns" "CHR ''/'' \<notin> set name"
  shows "StreamRequestFunc store (Some \<lparr>ed_Code = code,
      ed_Message = unknownWeightedClusterPrefix @ ns @ ''/'' @ name @ [CHR 0x27]\<rparr>) = OnChanged (serviceRef ns name)"
proof -
  have "strings_Split (ns @ CHR ''/'' # name) CHR ''/'' = [ns, name]"
    using assms by (simp add: strings_Split_append strings_Split_no_sep)
  moreover have "strings_TrimSuffix (unknownWeightedClusterPrefix @ ns @ ''/'' @ name @ [CHR 0x27]) [CHR 0x27] =
      unknownWeightedClusterPrefix @ ns @ CHR ''/'' # name"
    by (simp add: strings_TrimSuffix_def suffix_def)
  ultimately show ?thesis
    by (simp add: StreamRequestFunc_def strings_TrimPrefix_def SplitMetaNamespaceKey_def serviceRef_def Let_def)
qed

text \<open>The references a translation tracks are those of its TLS sections and splits, which the tracker accepted.\<close>

lemma translation_tracked:
  assumes "translateIngress w t ctx ing ext s = (Inr (Some ti), s')" "(ref, nn) \<in> set (ts_tracked s')"
  shows "(ref, nn) \<in> set (ts_tracked s) \<or> tracker t ref nn = None"
proof -
  have "translatable w t ctx ing" "s' = spec_state t ing s"
    using assms(1) by (simp_all add: translateIngress_exits translate_Inr)
  then show ?thesis
    using assms(2)
    by (auto simp: spec_state_def translatable_def tls_ok_def tls_ref_def rule_ok_def split_ok_def tracks_def
        rule_refs_def path_refs_def split_refs_def Let_def)
qed

lemma translation_cluster:
  assumes "translateIngress w t ctx ing ext s = (Inr (Some ti), s')" "cl \<in> set (ti_clusters ti)"
  obtains split i where "cl_Name cl = split_cluster_name split i" "i < length regions"
    and "(serviceRef (bs_ServiceNamespace split) (bs_ServiceName split), ing_nn ing) \<in> set (ts_tracked s')"
    and "tracks t ing (serviceRef (bs_ServiceNamespace split) (bs_ServiceName split))"
proof -
  have T: "translatable w t ctx ing" "s' = spec_state t ing s" "ti = spec_translation w t ctx ing ext s"
    using assms(1) by (simp_all add: translateIngress_exits translate_Inr)
  obtain rule p split i where x: "rule \<in> set (ing_Rules ing)" "p \<in> set (rule_paths rule)" "split \<in> set (hp_Splits p)"
    "i < length regions" "cl_Name cl = split_cluster_name split i"
    using assms(2) unfolding T(3)
    by (auto simp: spec_translation_def Let_def rule_clusters_def path_clusters_def split_clusters_def simp del: length_regions)
  then have "tracks t ing (serviceRef (bs_ServiceNamespace split) (bs_ServiceName split))"
    using T(1) by (auto simp: translatable_def rule_ok_def split_ok_def Let_def)
  moreover have "(serviceRef (bs_ServiceNamespace split) (bs_ServiceName split), ing_nn ing) \<in> set (ts_tracked s')"
    unfolding T(2) using x(1-3) by (force simp: spec_state_def rule_refs_def path_refs_def split_refs_def)
  ultimately show ?thesis using that x(4,5) by blast
qed

text \<open>
  C37: The targeted reaction to an unknown cluster reaches no ingress. When the gateway rejects a
  snapshot because of a weighted cluster of a translation, the callback reports a change of the
  service named by the cluster; the cluster's name carries the region, so that is not the service
  the ingress tracks but one that no ingress can track, because its name is not a DNS name.
\<close>

theorem unknown_cluster_reaches_nobody:
  assumes "translateIngress w t ctx ing ext s = (Inr (Some ti), s')" "cl \<in> set (ti_clusters ti)"
    and "\<And>ref nn. tracker t ref nn = None \<Longrightarrow> CHR ''_'' \<notin> set (ref_Name ref) \<and>
      CHR ''/'' \<notin> set (ref_Name ref) \<and> CHR ''/'' \<notin> set (ref_Namespace ref)"
    and "\<And>ref nn. (ref, nn) \<in> set (ts_tracked s) \<Longrightarrow> CHR ''_'' \<notin> set (ref_Name ref)"
  shows "\<exists>ns svc i. i < length regions \<and> (serviceRef ns svc, ing_nn ing) \<in> set (ts_tracked s') \<and>
    StreamRequestFunc store (Some \<lparr>ed_Code = code,
      ed_Message = unknownWeightedClusterPrefix @ cl_Name cl @ [CHR 0x27]\<rparr>) =
      OnChanged (serviceRef ns (svc @ ''_'' @ region_name i)) \<and>
    (\<nexists>nn. (serviceRef ns (svc @ ''_'' @ region_name i), nn) \<in> set (ts_tracked s'))"
proof -
  obtain split i where c: "cl_Name cl = split_cluster_name split i" "i < length regions"
    "(serviceRef (bs_ServiceNamespace split) (bs_ServiceName split), ing_nn ing) \<in> set (ts_tracked s')"
    "tracks t ing (serviceRef (bs_ServiceNamespace split) (bs_ServiceName split))"
    by (rule translation_cluster [OF assms(1,2)])
  let ?ns = "bs_ServiceNamespace split" and ?n = "bs_ServiceName split @ ''_'' @ region_name i"
  have slash: "CHR ''/'' \<notin> set ?ns" "CHR ''/'' \<notin> set (bs_ServiceName split)"
    using c(4) assms(3) [of "serviceRef ?ns (bs_ServiceName split)"] by (auto simp: tracks_def serviceRef_def)
  moreover have "CHR ''/'' \<notin> set (region_name i)"
    using region_cases [OF c(2)] by (auto simp: region_values)
  ultimately have "StreamRequestFunc store (Some \<lparr>ed_Code = code,
      ed_Message = unknownWeightedClusterPrefix @ cl_Name cl @ [CHR 0x27]\<rparr>) = OnChanged (serviceRef ?ns ?n)"
    using stream_unknown_cluster [of ?ns ?n] by (simp add: c(1) split_cluster_name_def)
  moreover have "(serviceRef ?ns ?n, nn) \<notin> set (ts_tracked s')" for nn
  proof
    assume "(serviceRef ?ns ?n, nn) \<in> set (ts_tracked s')"
    then have "CHR ''_'' \<notin> set (ref_Name (serviceRef ?ns ?n))"
      using translation_tracked [OF assms(1)] assms(3,4) by blast
    then show False by (simp add: serviceRef_def)
  qed
  ultimately show ?thesis using c(2,3) by blast
qed

section \<open>Changes of endpoints\<close>

lemma readyAddresses_set:
  "(case readyAddresses eps of None \<Rightarrow> {} | Some s \<Rightarrow> s) = ea_IP ` set (all_addresses eps)"
proof -
  have ins: "foldl (\<lambda>ready a. insert (ea_IP a) ready) R as = R \<union> ea_IP ` set as" for R as
    by (induction as arbitrary: R) auto
  have ips: "foldl (\<lambda>ready subset. foldl (\<lambda>ready a. insert (ea_IP a) ready) ready (es_Addresses subset)) R ss =
      R \<union> ea_IP ` set (concat (map es_Addresses ss))" for R and ss :: "EndpointSubset list"
    by (induction ss arbitrary: R) (auto simp: ins)
  have count: "foldl (\<lambda>count subset. count + length (es_Addresses subset)) n ss = n + length (concat (map es_Addresses ss))"
    for n and ss :: "EndpointSubset list"
    by (induction ss arbitrary: n) auto
  show ?thesis
    unfolding readyAddresses_def all_addresses_def Let_def count ips by auto
qed

text \<open>
  An update of endpoints is looked at exactly when the set of ready IPs changed.
\<close>

lemma endpoints_update_iff:
  "endpoints_UpdateFunc old new \<longleftrightarrow> ea_IP ` set (all_addresses old) \<noteq> ea_IP ` set (all_addresses new)"
  by (simp add: endpoints_UpdateFunc_def sets_Equal_def Let_def readyAddresses_set)


section \<open>Witnesses\<close>

definition ex_ready :: "string \<Rightarrow> IngressObject" where
  "ex_ready n = \<lparr>io_Ingress = (ex_ingress ''hello'')\<lparr>ing_Name := n,
       ing_Annotations := [(ClassAnnotationKey, KourierIngressClassName)]\<rparr>,
     io_Generation = 1, io_DeletionTimestamp = None,
     io_Status = \<lparr>is_ObservedGeneration = 1,
       is_Conditions = [new_cond IngressConditionNetworkConfigured ConditionTrue [] []],
       is_PublicLoadBalancer = None, is_PrivateLoadBalancer = None\<rparr>\<rparr>"

lemma ex_ready_list: "getReadyIngresses (Inr [ex_ready ''a'', ex_ready ''b'']) = Inr [ex_ready ''a'', ex_ready ''b'']"
  "getReadyIngresses (Inr [ex_ready ''a'', ex_object]) = Inr [ex_ready ''a'']"
  by code_simp+

definition ex_primed :: "string \<Rightarrow> Ingress" where
  "ex_primed n = snd (InsertProbe ex_hash (io_Ingress (ex_ready n)))"

lemma ex_primed_translatable:
  "translatable ex_rworld ex_translator None (ex_primed ''a'')"
  "translatable ex_rworld ex_translator None (ex_primed ''b'')"
  by code_simp+

lemma ex_ready_name: "name_ok (ing_nn (io_Ingress (ex_ready ''a'')))" "name_ok (ing_nn (io_Ingress (ex_ready ''b'')))"
  by code_simp+

theorem startup_conflict_fatal_witness:
  "\<exists>f. NewController (\<lambda>_. ex_renv) None (\<lambda>_. 0) (Inr [ex_ready ''a'', ex_ready ''b'']) = Inl f"
proof (rule startup_conflict_fatal [OF ex_ready_list(1) ex_renv_ok(1)])
  show "''h.io'' \<in> ing_domains (io_Ingress ([ex_ready ''a'', ex_ready ''b''] ! 0))"
    "''h.io'' \<in> ing_domains (io_Ingress ([ex_ready ''a'', ex_ready ''b''] ! 1))"
    by (simp_all add: ex_ready_def ex_ingress_def ex_rule_def ing_domains_def domainsForRule_def)
  show "translatable (se_world (re_snap ex_renv)) (re_translator ex_renv) None
      (snd (InsertProbe (re_hash ex_renv) (io_Ingress ([ex_ready ''a'', ex_ready ''b''] ! k))))" if "k = 0 \<or> k = 1" for k
    using that ex_primed_translatable by (auto simp: ex_renv_ok ex_primed_def)
qed (auto simp: ex_ready_name, auto simp: ex_ready_def ing_nn_def)

definition ex_pti :: translatedIngress where
  "ex_pti = spec_translation ex_rworld ex_translator None (ex_primed ''a'') False ex_state"

lemma ex_pti: "translateIngress ex_rworld ex_translator None (ex_primed ''a'') False st =
    (Inr (Some ex_pti), spec_state ex_translator (ex_primed ''a'') st)"
proof -
  have "ing_TLS (ex_primed ''a'') = []" by code_simp
  then have "spec_translation ex_rworld ex_translator None (ex_primed ''a'') False st = ex_pti"
    by (simp add: ex_pti_def spec_translation_def Let_def)
  then show ?thesis using ex_primed_translatable(1) by (simp add: translateIngress_exits translate_Inr)
qed

lemma ex_prime:
  assumes "rs_caches s = ex_caches"
  shows "\<exists>s'. prime_step (\<lambda>_. ex_renv) None (\<lambda>_. 0) s (1, ex_ready ''a'') = Inr s' \<and> no_tls (rs_caches s')"
proof -
  have "fst (UpdateIngress 0 ex_caches ex_pti) = Inr ()" "no_tls (snd (UpdateIngress 0 ex_caches ex_pti))" by code_simp+
  moreover have "InsertProbe ex_hash (io_Ingress (ex_ready ''a'')) = (Inr ''hash-of-a'', ex_primed ''a'')" by code_simp
  ultimately show ?thesis
    using ex_pti assms
    by (simp add: prime_step_def UpdateInfoForIngress_def ex_renv_ok Let_def split_beta fatal_def)
qed

lemma ex_push: "no_tls (rs_caches s) \<Longrightarrow> fst (updateEnvoyConfig ex_renv None 0 s) = Inr ()"
  by (rule updateEnvoyConfig_plain [OF ex_rplain(1) _ _ ex_rplain(2)]) (simp_all add: ex_renv_ok ex_orders_ok)

lemma ex_startup: "\<exists>s. NewController (\<lambda>_. ex_renv) None (\<lambda>_. 0) (Inr [ex_ready ''a'', ex_object]) = Inr s"
proof -
  let ?s1 = "snd (updateEnvoyConfig ex_renv None 0 (fresh_state ex_caches))"
  have "fst (updateEnvoyConfig ex_renv None 0 (fresh_state ex_caches)) = Inr ()"
    by (rule ex_push) (simp add: fresh_state_def no_tls_def ex_caches_def NewCaches_def Let_def)
  then have u: "updateEnvoyConfig ex_renv None 0 (fresh_state ex_caches) = (Inr (), ?s1)" by (simp add: prod_eq_iff)
  have "rs_caches ?s1 = ex_caches" by (simp add: updateEnvoyConfig_frame fresh_state_def)
  from ex_prime [OF this] obtain s2 where s2: "prime_step (\<lambda>_. ex_renv) None (\<lambda>_. 0) ?s1 (1, ex_ready ''a'') = Inr s2"
    "no_tls (rs_caches s2)" by blast
  have "NewCaches (w_mar (se_world (re_snap ex_renv))) (se_authz (re_snap ex_renv)) 0 (re_extAuthz ex_renv) = Inr ex_caches"
    using ex_new by (simp add: ex_renv_ok ex_senv_def ex_rworld_def ex_world_def)
  then show ?thesis
    using u s2 ex_push [OF s2(2)] ex_ready_list(2)
    by (auto simp: NewController_Inr prod_eq_iff)
qed

theorem startup_primes_witness:
  "\<exists>s ti snap rc. NewController (\<lambda>_. ex_renv) None (\<lambda>_. 0) (Inr [ex_ready ''a'', ex_object]) = Inr s \<and>
    caches_abs (rs_caches s) (ing_nn (io_Ingress (ex_ready ''a''))) = Some ti \<and> map_of (rs_snapshots s) nodeID = Some snap \<and>
    map_of (sn_routes snap) (internalRouteConfigName ! 2) = Some rc \<and>
    set (ti_internalVirtualHosts ti ! 2) \<subseteq> set (rc_VirtualHosts rc)"
proof -
  obtain s where s: "NewController (\<lambda>_. ex_renv) None (\<lambda>_. 0) (Inr [ex_ready ''a'', ex_object]) = Inr s"
    using ex_startup by blast
  have tr: "translatable (se_world (re_snap ex_renv)) (re_translator ex_renv) None (snd (InsertProbe (re_hash ex_renv) (io_Ingress (ex_ready ''a''))))"
    using ex_primed_translatable(1) by (simp add: ex_renv_ok ex_primed_def)
  have names: "name_ok (ing_nn (io_Ingress i))" if "i \<in> set [ex_ready ''a'', ex_object]" for i
    using that ex_ready_name(1) ex_names(1) by (auto simp: ex_object_def)
  have dist: "distinct (map (\<lambda>i. ing_nn (io_Ingress i)) [ex_ready ''a'', ex_object])" by code_simp
  have a: "map_of (ing_Annotations (io_Ingress (ex_ready ''a''))) ClassAnnotationKey = Some KourierIngressClassName \<and>
      io_DeletionTimestamp (ex_ready ''a'') = None \<and>
      cond_status (is_Conditions (io_Status (ex_ready ''a''))) IngressConditionNetworkConfigured = Some ConditionTrue" by code_simp
  have items: "[ex_ready ''a'', ex_object] = [] @ ex_ready ''a'' # [ex_object]" by simp
  have bounds: "0 \<le> (0::int)" "(2::nat) < length regions" by simp_all
  note P = startup_primes [OF s ex_renv_ok(1) bounds(1) names dist refl, THEN conjunct2, THEN conjunct2, rule_format,
      OF _ items a refl refl tr bounds(2)]
  show ?thesis using P s by blast
qed

definition ex_dns_translator :: IngressTranslator where
  "ex_dns_translator = ex_translator\<lparr>tracker := (\<lambda>ref nn.
     if CHR ''_'' \<in> set (ref_Name ref) \<or> CHR ''/'' \<in> set (ref_Name ref) \<or> CHR ''/'' \<in> set (ref_Namespace ref)
     then Some (ErrNew ''invalid Reference'') else None)\<rparr>"

definition ex_dns_ti :: translatedIngress where
  "ex_dns_ti = spec_translation ex_world ex_dns_translator None (ex_ingress ''hello'') False ex_state"

lemma ex_dns: "translateIngress ex_world ex_dns_translator None (ex_ingress ''hello'') False ex_state =
    (Inr (Some ex_dns_ti), spec_state ex_dns_translator (ex_ingress ''hello'') ex_state)"
  unfolding ex_dns_ti_def by (rule translateIngress_translatable) code_simp

theorem unknown_cluster_reaches_nobody_witness:
  "\<exists>ns svc i. i < length regions \<and>
    (serviceRef ns svc, ing_nn (ex_ingress ''hello'')) \<in> set (ts_tracked (spec_state ex_dns_translator (ex_ingress ''hello'') ex_state)) \<and>
    StreamRequestFunc [] (Some \<lparr>ed_Code = 13,
      ed_Message = unknownWeightedClusterPrefix @ cl_Name (hd (ti_clusters ex_dns_ti)) @ [CHR 0x27]\<rparr>) =
      OnChanged (serviceRef ns (svc @ ''_'' @ region_name i)) \<and>
    (\<nexists>nn. (serviceRef ns (svc @ ''_'' @ region_name i), nn) \<in> set (ts_tracked (spec_state ex_dns_translator (ex_ingress ''hello'') ex_state)))"
proof (rule unknown_cluster_reaches_nobody [OF ex_dns])
  have "(ex_path ''hello'', ex_split ''hello'') \<in> set (ingress_splits (ex_ingress ''hello''))"
    by (simp add: ingress_splits_def ex_ingress_def ex_rule_def ex_path_def rule_paths_def)
  from split_cluster_mem [OF this, where i = 0 and w = ex_world and t = ex_dns_translator and ctx = None and ext = False and s = ex_state]
  have "ti_clusters ex_dns_ti \<noteq> []" by (auto simp: ex_dns_ti_def)
  then show "hd (ti_clusters ex_dns_ti) \<in> set (ti_clusters ex_dns_ti)" by simp
qed (auto simp: ex_dns_translator_def ex_state_def split: if_split_asm)

end
