(* ===== verification/Events.thy ===== *)
theory Events
  imports Tracker Controller_Props
begin

text \<open>
  What drives the reconciler: the event handlers \<^verbatim>\<open>NewController\<close> registers with the informers, which
  put the names of ingresses into the work queue, and the generated \<^verbatim>\<open>Reconcile\<close> of
  \<^verbatim>\<open>knative.dev/networking\<close>, which takes a name from the queue and calls a handler of the reconciler.
\<close>

section \<open>Informer events\<close>

datatype 'a informer_event = OnAdd 'a | OnUpdate 'a 'a | OnDelete 'a

text \<open>\<^verbatim>\<open>FilteringResourceEventHandler\<close>: an object that starts to match is added, one that stops to is deleted.\<close>

fun filtering :: "('a \<Rightarrow> bool) \<Rightarrow> 'a informer_event \<Rightarrow> 'a informer_event option" where
  "filtering f (OnAdd obj) = (if f obj then Some (OnAdd obj) else None)"
| "filtering f (OnUpdate oldObj newObj) =
     (let newer = f newObj; older = f oldObj in
      if newer \<and> older then Some (OnUpdate oldObj newObj)
      else if newer \<and> \<not> older then Some (OnAdd newObj)
      else if \<not> newer \<and> older then Some (OnDelete oldObj)
      else None)"
| "filtering f (OnDelete obj) = (if f obj then Some (OnDelete obj) else None)"

text \<open>\<^verbatim>\<open>HandleAll\<close> calls its function with the object, with the new one for an update.\<close>

fun handle_all :: "'a informer_event \<Rightarrow> 'a" where
  "handle_all (OnAdd obj) = obj"
| "handle_all (OnUpdate oldObj newObj) = newObj"
| "handle_all (OnDelete obj) = obj"

record 'a kube_object =
  ko_Name :: NamespacedName
  ko_Labels :: "string gomap"
  ko_Object :: 'a

datatype cluster_event =
    IngressEvent "IngressObject informer_event"
  | ServiceEvent "Service kube_object informer_event"
  | EndpointsEvent "Endpoints kube_object informer_event"
  | SecretEvent "Secret kube_object informer_event"
  | PodEvent "unit kube_object informer_event"

text \<open>What a handler does besides changing the tracker: names it enqueues, pods whose probing it cancels.\<close>

record effects =
  ef_Enqueued :: "NamespacedName list"
  ef_CancelledPods :: "NamespacedName list"

definition no_effect :: effects where
  "no_effect = \<lparr>ef_Enqueued = [], ef_CancelledPods = []\<rparr>"

definition enqueue :: "NamespacedName list \<Rightarrow> effects" where
  "enqueue nns = no_effect\<lparr>ef_Enqueued := nns\<rparr>"

text \<open>\<^verbatim>\<open>OnChanged\<close> of the tracker: its callback enqueues every observer.\<close>

definition tracker_OnChanged :: "int \<Rightarrow> Reference \<Rightarrow> Tracker \<Rightarrow> effects \<times> Tracker" where
  "tracker_OnChanged now ref tk = (case GetObservers now ref tk of (keys, tk) \<Rightarrow> (enqueue keys, tk))"

definition object_ref :: "(string \<Rightarrow> string \<Rightarrow> Reference) \<Rightarrow> 'a kube_object \<Rightarrow> Reference" where
  "object_ref mk obj = mk (nn_Namespace (ko_Name obj)) (nn_Name (ko_Name obj))"

text \<open>The two handlers of ingresses: one enqueues, one removes a deleted observer from the tracker.\<close>

definition on_ingress :: "IngressObject informer_event \<Rightarrow> Tracker \<Rightarrow> effects \<times> Tracker" where
  "on_ingress e tk =
     (case filtering (\<lambda>i. isKourierIngress (io_Ingress i)) e of
        None \<Rightarrow> (no_effect, tk)
      | Some e \<Rightarrow> (enqueue [ing_nn (io_Ingress (handle_all e))],
          case e of OnDelete obj \<Rightarrow> OnDeletedObserver (ing_nn (io_Ingress obj)) tk | _ \<Rightarrow> tk))"

definition on_endpoints :: "int \<Rightarrow> Endpoints kube_object informer_event \<Rightarrow> Tracker \<Rightarrow> effects \<times> Tracker" where
  "on_endpoints now e tk =
     (let viaTracker = (\<lambda>obj. tracker_OnChanged now (object_ref endpointsRef obj) tk) in
      case e of
        OnAdd obj \<Rightarrow> viaTracker obj
      | OnDelete obj \<Rightarrow> viaTracker obj
      | OnUpdate old new \<Rightarrow>
          if endpoints_UpdateFunc (ko_Object old) (ko_Object new) then viaTracker new else (no_effect, tk))"

definition on_pod :: "unit kube_object informer_event \<Rightarrow> effects" where
  "on_pod e =
     (case filtering (\<lambda>pod. isGatewayPod (ko_Labels pod)) e of
        Some (OnDelete pod) \<Rightarrow> no_effect\<lparr>ef_CancelledPods := [ko_Name pod]\<rparr>
      | _ \<Rightarrow> no_effect)"

fun handle_event :: "int \<Rightarrow> cluster_event \<Rightarrow> Tracker \<Rightarrow> effects \<times> Tracker" where
  "handle_event now (IngressEvent e) tk = on_ingress e tk"
| "handle_event now (ServiceEvent e) tk = tracker_OnChanged now (object_ref serviceRef (handle_all e)) tk"
| "handle_event now (EndpointsEvent e) tk = on_endpoints now e tk"
| "handle_event now (SecretEvent e) tk = tracker_OnChanged now (object_ref secretRef (handle_all e)) tk"
| "handle_event now (PodEvent e) tk = (on_pod e, tk)"

section \<open>The work queue\<close>

text \<open>
  The generated \<^verbatim>\<open>Reconcile\<close>. \<open>prepare\<close> stands for setting the finalizer and preprocessing the status,
  which may fail with the API server; writing the status back does not touch this process. \<^verbatim>\<open>Api_Writes\<close> has the
  function with all it sends to the API server.
\<close>

definition Reconcile ::
  "rec_env \<Rightarrow> ctx \<Rightarrow> int \<Rightarrow> bool \<Rightarrow> (IngressObject \<Rightarrow> go_error + IngressObject) \<Rightarrow>
   (string \<Rightarrow> string \<Rightarrow> go_error + IngressObject) \<Rightarrow> string \<Rightarrow> rec_state \<Rightarrow> unit res \<times> rec_state" where
  "Reconcile env ctx now isLeader prepare lister k s =
     (case SplitMetaNamespaceKey k of
        Inl e \<Rightarrow> (Inr (), s)
      | Inr (namespace, name) \<Rightarrow>
          (case lister namespace name of
             Inl e \<Rightarrow>
               if IsNotFound e
               then ObserveDeletion env ctx now \<lparr>nn_Namespace = namespace, nn_Name = name\<rparr> s
               else (Inl (Err e), s)
           | Inr original \<Rightarrow>
               if map_of (ing_Annotations (io_Ingress original)) ClassAnnotationKey \<noteq> Some KourierIngressClassName
               then (Inr (), s)
               else if io_DeletionTimestamp original = None then
                 (if isLeader then
                    (case prepare original of
                       Inl e \<Rightarrow> (Inl (Err (ErrWrap ''failed to set finalizers'' e)), s)
                     | Inr resource \<Rightarrow> (case ReconcileKind env ctx now resource s of (r, _, s) \<Rightarrow> (r, s)))
                  else (case ObserveKind env ctx now original s of (r, _, s) \<Rightarrow> (r, s)))
               else if isLeader then (FinalizeKind original, s)
               else (Inr (), s)))"

section \<open>Every run of the queue is a step of the reconciler\<close>

definition lister_ok :: "(string \<Rightarrow> string \<Rightarrow> go_error + IngressObject) \<Rightarrow> bool" where
  "lister_ok lister \<longleftrightarrow> (\<forall>ns n i. lister ns n = Inr i \<longrightarrow> name_ok (ing_nn (io_Ingress i)))"

lemma Reconcile_step:
  assumes "env_ok env" "0 \<le> now" "lister_ok lister"
    and "\<And>i i'. prepare i = Inr i' \<Longrightarrow> ing_nn (io_Ingress i') = ing_nn (io_Ingress i)"
    and "Reconcile env ctx now isLeader prepare lister k s = (r, s')"
  shows "s' = s \<or> rec_step s s'"
proof -
  consider "s' = s" | nn where "ObserveDeletion env ctx now nn s = (r, s')"
    | i i' where "name_ok (ing_nn (io_Ingress i))" "ReconcileKind env ctx now i s = (r, i', s')"
    | i i' where "name_ok (ing_nn (io_Ingress i))" "ObserveKind env ctx now i s = (r, i', s')"
    using assms(3-5) unfolding Reconcile_def lister_ok_def
    by (auto split: sum.split_asm prod.split_asm if_split_asm) metis+
  then show ?thesis using assms(1,2) by cases (auto intro: rec_step.intros)
qed

text \<open>The routes of an ingress whose class changes are kept: nothing removes it from the caches.\<close>

lemma Reconcile_other_class:
  assumes "lister ns n = Inr i" "\<not> isKourierIngress (io_Ingress i)" "CHR ''/'' \<notin> set ns" "CHR ''/'' \<notin> set n"
  shows "Reconcile env ctx now isLeader prepare lister (ns @ ''/'' @ n) s = (Inr (), s)"
  using assms
  by (auto simp: Reconcile_def SplitMetaNamespaceKey_def strings_Split_append strings_Split_no_sep
      isKourierIngress_def mapHasOrDefault_def split: option.splits)

section \<open>A missing object wakes the ingress\<close>

lemma OnChanged_enqueues:
  "set (ef_Enqueued (fst (tracker_OnChanged now ref tk))) = set (fst (GetObservers now ref tk))"
  by (simp add: tracker_OnChanged_def enqueue_def no_effect_def split: prod.split)

lemma nil_new_refs:
  assumes "translateIngress w t ctx ing ext s = (Inr None, s')"
  shows "\<exists>(p, split) \<in> set (ingress_splits ing). split_missing t split \<and>
    set (split_refs ing split) \<subseteq> set (drop (length (ts_tracked s)) (ts_tracked s'))"
proof -
  obtain new where n: "translate w t ctx ing ext (s\<lparr>ts_tracked := []\<rparr>) = (Inl ExitNil, s'\<lparr>ts_tracked := new\<rparr>)"
    "ts_tracked s' = ts_tracked s @ new"
    using translate_frame assms [unfolded translateIngress_exits] by metis
  show ?thesis using translateIngress_nil_tracked [unfolded translateIngress_exits, OF n(1)] n(2) by simp
qed

lemma registered_last: "(ref, k) \<in> snd ` set es \<Longrightarrow> \<exists>u. last_registered es ref k = Some u"
proof -
  assume "(ref, k) \<in> snd ` set es"
  then have "(ref, k) \<in> dom (map_of (map (\<lambda>(u, ref, k). ((ref, k), u)) (rev es)))"
    unfolding dom_map_of_conv_image_fst by force
  then show ?thesis unfolding last_registered_def by blast
qed

text \<open>
  C33: An ingress that waits for a service is woken up. When a translation returns nil, a service or
  the endpoints of one of its splits do not exist, and the translation registered the ingress for both; if its registrations are
  entered into the tracker, then until the lease of the last registration for the service ends, any event of that service, and until the
  lease of the last one for the endpoints ends, the appearance of these endpoints put the ingress into the work queue again,
  whatever the tracker held before.
\<close>

theorem missing_object_wakes:
  assumes "translateIngress w t ctx ing ext s = (Inr None, s')"
    and "map snd es = drop (length (ts_tracked s)) (ts_tracked s')" "tk_inv tk"
  shows "\<exists>(p, split) \<in> set (ingress_splits ing). split_missing t split \<and>
    (\<exists>u. last_registered es (serviceRef (bs_ServiceNamespace split) (bs_ServiceName split)) (ing_nn ing) = Some u \<and>
      (\<forall>e now. ko_Name (handle_all e) = \<lparr>nn_Namespace = bs_ServiceNamespace split, nn_Name = bs_ServiceName split\<rparr> \<longrightarrow>
        now \<le> u + tk_leaseDuration tk \<longrightarrow>
        ing_nn ing \<in> set (ef_Enqueued (fst (handle_event now (ServiceEvent e) (register_all es tk)))))) \<and>
    (\<exists>u. last_registered es (endpointsRef (bs_ServiceNamespace split) (bs_ServiceName split)) (ing_nn ing) = Some u \<and>
      (\<forall>obj now. ko_Name obj = \<lparr>nn_Namespace = bs_ServiceNamespace split, nn_Name = bs_ServiceName split\<rparr> \<longrightarrow>
        now \<le> u + tk_leaseDuration tk \<longrightarrow>
        ing_nn ing \<in> set (ef_Enqueued (fst (handle_event now (EndpointsEvent (OnAdd obj)) (register_all es tk))))))"
proof -
  obtain p split where sp: "(p, split) \<in> set (ingress_splits ing)" "split_missing t split"
    "set (split_refs ing split) \<subseteq> snd ` set es"
    using nil_new_refs [OF assms(1)] unfolding assms(2) [symmetric] by auto
  have seen: "\<exists>u. last_registered es ref (ing_nn ing) = Some u \<and>
      (\<forall>now. now \<le> u + tk_leaseDuration tk \<longrightarrow> ing_nn ing \<in> set (fst (GetObservers now ref (register_all es tk))))"
    if ref: "(ref, ing_nn ing) \<in> set (split_refs ing split)" for ref
  proof -
    have "(ref, ing_nn ing) \<in> snd ` set es" using ref sp(3) by blast
    then obtain u where u: "last_registered es ref (ing_nn ing) = Some u" using registered_last by blast
    then show ?thesis
      using tk.notified_after_registering [OF assms(3) u [unfolded last_registered_def]] unfolding register_all_def by blast
  qed
  have "serviceRef (bs_ServiceNamespace split) (bs_ServiceName split) \<in> fst ` set (split_refs ing split)"
    "endpointsRef (bs_ServiceNamespace split) (bs_ServiceName split) \<in> fst ` set (split_refs ing split)"
    by (simp_all add: split_refs_def)
  then show ?thesis
    using sp(1,2) seen [of "serviceRef (bs_ServiceNamespace split) (bs_ServiceName split)"]
      seen [of "endpointsRef (bs_ServiceNamespace split) (bs_ServiceName split)"]
    by (intro bexI [of _ "(p, split)"])
      (auto simp: OnChanged_enqueues on_endpoints_def object_ref_def split_refs_def Let_def)
qed

definition ex_gone_run :: "translatedIngress option res \<times> tr_state" where
  "ex_gone_run = translateIngress ex_world ex_translator None (ex_ingress ''gone'') False ex_state"

definition ex_registrations :: "(int \<times> Reference \<times> NamespacedName) list" where
  "ex_registrations = map (Pair 0) (ts_tracked (snd ex_gone_run))"

definition ex_gone_service :: "Service kube_object" where
  "ex_gone_service = \<lparr>ko_Name = \<lparr>nn_Namespace = ''default'', nn_Name = ''gone''\<rparr>, ko_Labels = [], ko_Object = ex_service\<rparr>"

theorem missing_object_wakes_witness:
  "ing_nn (ex_ingress ''gone'') \<in> set (ef_Enqueued (fst (handle_event 5 (ServiceEvent (OnAdd ex_gone_service))
     (register_all ex_registrations \<lparr>tk_exact = [], tk_leaseDuration = 10\<rparr>))))"
proof -
  have "fst ex_gone_run = Inr None" by code_simp
  then have run: "translateIngress ex_world ex_translator None (ex_ingress ''gone'') False ex_state = (Inr None, snd ex_gone_run)"
    by (simp add: ex_gone_run_def prod_eq_iff)
  have regs: "map snd ex_registrations = drop (length (ts_tracked ex_state)) (ts_tracked (snd ex_gone_run))"
    by (simp add: ex_registrations_def ex_state_def comp_def)
  have inv: "tk_inv \<lparr>tk_exact = [], tk_leaseDuration = 10\<rparr>" by (simp add: tk_inv_def tk_set_def)
  have splits: "set (ingress_splits (ex_ingress ''gone'')) = {(ex_path ''gone'', ex_split ''gone'')}"
    by (simp add: ingress_splits_def ex_ingress_def ex_rule_def ex_path_def rule_paths_def)
  have "ko_Name (handle_all (OnAdd ex_gone_service)) =
      \<lparr>nn_Namespace = bs_ServiceNamespace (ex_split ''gone''), nn_Name = bs_ServiceName (ex_split ''gone'')\<rparr>"
    by (simp add: ex_gone_service_def ex_split_def)
  moreover from missing_object_wakes [OF run regs inv] obtain u where
    u: "last_registered ex_registrations (serviceRef ''default'' ''gone'') (ing_nn (ex_ingress ''gone'')) = Some u"
    and "\<forall>e now. ko_Name (handle_all e) = \<lparr>nn_Namespace = bs_ServiceNamespace (ex_split ''gone''), nn_Name = bs_ServiceName (ex_split ''gone'')\<rparr> \<longrightarrow>
      now \<le> u + 10 \<longrightarrow> ing_nn (ex_ingress ''gone'') \<in> set (ef_Enqueued (fst (handle_event now (ServiceEvent e)
        (register_all ex_registrations \<lparr>tk_exact = [], tk_leaseDuration = 10\<rparr>))))"
    unfolding splits by (auto simp: ex_split_def)
  moreover have "5 \<le> u + 10" using map_of_SomeD [OF u [unfolded last_registered_def]] by (auto simp: ex_registrations_def)
  ultimately show ?thesis by metis
qed

end
