(* ===== verification/Work_Queue.thy ===== *)
theory Work_Queue
  imports Prelude
begin

text \<open>
  The work queue between the event handlers and the workers of the controller: the queue of
  \<^verbatim>\<open>k8s.io/client-go/util/workqueue\<close>, which never gives an item to two workers at a time, and the two
  lanes \<^verbatim>\<open>knative.dev/pkg/controller\<close> builds from three of them. Every method of the queue holds its
  mutex, so it is one step; the goroutines of the lanes are steps of a relation.
\<close>

section \<open>The contract of a work queue\<close>

text \<open>
  What the controller relies on, for a queue with one or several lanes: an accepted item stays pending until a worker takes it, no item is
  taken while it is active, and what the queue does on its own changes neither.
\<close>

locale work_queue =
  fixes add :: "'l \<Rightarrow> 'k \<Rightarrow> 'q \<Rightarrow> 'q" and get :: "'q \<Rightarrow> ('k \<times> 'q) option" and finish :: "'k \<Rightarrow> 'q \<Rightarrow> 'q"
    and move :: "'q \<Rightarrow> 'q \<Rightarrow> bool" and accepting :: "'l \<Rightarrow> 'q \<Rightarrow> bool"
    and pending :: "'q \<Rightarrow> 'k set" and active :: "'q \<Rightarrow> 'k set" and inv :: "'q \<Rightarrow> bool"
  assumes add: "inv q \<Longrightarrow> inv (add l k q) \<and> active (add l k q) = active q \<and>
      pending (add l k q) = (if accepting l q then insert k (pending q) else pending q)"
    and get: "inv q \<Longrightarrow> get q = Some (k, q') \<Longrightarrow>
      inv q' \<and> k \<in> pending q \<and> k \<notin> active q \<and> active q' = insert k (active q) \<and> pending q - {k} \<subseteq> pending q'"
    and finish: "inv q \<Longrightarrow> k \<in> active q \<Longrightarrow>
      inv (finish k q) \<and> pending (finish k q) = pending q \<and> active (finish k q) = active q - {k}"
    and move: "inv q \<Longrightarrow> move q q' \<Longrightarrow> inv q' \<and> pending q' = pending q \<and> active q' = active q"

text \<open>What happens to a queue, with the events that concern its clients.\<close>

datatype 'k qevent = Added 'k | Taken 'k | Finished 'k

inductive queue_run ::
  "('l \<Rightarrow> 'k \<Rightarrow> 'q \<Rightarrow> 'q) \<Rightarrow> ('q \<Rightarrow> ('k \<times> 'q) option) \<Rightarrow> ('k \<Rightarrow> 'q \<Rightarrow> 'q) \<Rightarrow> ('q \<Rightarrow> 'q \<Rightarrow> bool) \<Rightarrow> ('l \<Rightarrow> 'q \<Rightarrow> bool) \<Rightarrow>
   ('q \<Rightarrow> 'k set) \<Rightarrow> 'q \<Rightarrow> 'k qevent list \<Rightarrow> 'q \<Rightarrow> bool"
  for add get finish move accepting active q where
  Start: "queue_run add get finish move accepting active q [] q"
| Add: "queue_run add get finish move accepting active q es r \<Longrightarrow> accepting l r \<Longrightarrow>
    queue_run add get finish move accepting active q (es @ [Added k]) (add l k r)"
| Refused: "queue_run add get finish move accepting active q es r \<Longrightarrow> \<not> accepting l r \<Longrightarrow>
    queue_run add get finish move accepting active q es (add l k r)"
| Get: "queue_run add get finish move accepting active q es r \<Longrightarrow> get r = Some (k, r') \<Longrightarrow>
    queue_run add get finish move accepting active q (es @ [Taken k]) r'"
| Finish: "queue_run add get finish move accepting active q es r \<Longrightarrow> k \<in> active r \<Longrightarrow>
    queue_run add get finish move accepting active q (es @ [Finished k]) (finish k r)"
| Move: "queue_run add get finish move accepting active q es r \<Longrightarrow> move r r' \<Longrightarrow>
    queue_run add get finish move accepting active q es r'"

text \<open>The keys that were added and not taken since, and those that were taken and not finished since.\<close>

definition owed :: "'k qevent list \<Rightarrow> 'k set" where
  "owed es = foldl (\<lambda>S e. case e of Added k \<Rightarrow> insert k S | Taken k \<Rightarrow> S - {k} | Finished k \<Rightarrow> S) {} es"

definition busy :: "'k qevent list \<Rightarrow> 'k set" where
  "busy es = foldl (\<lambda>S e. case e of Added k \<Rightarrow> S | Taken k \<Rightarrow> insert k S | Finished k \<Rightarrow> S - {k}) {} es"

lemma owed_snoc [simp]: "owed [] = {}" "owed (es @ [Added k]) = insert k (owed es)" "owed (es @ [Taken k]) = owed es - {k}"
  "owed (es @ [Finished k]) = owed es"
  by (simp_all add: owed_def)

lemma busy_snoc [simp]: "busy [] = {}" "busy (es @ [Added k]) = busy es" "busy (es @ [Taken k]) = insert k (busy es)"
  "busy (es @ [Finished k]) = busy es - {k}"
  by (simp_all add: busy_def)

context work_queue
begin

lemma run_keeps:
  assumes "queue_run add get finish move accepting active q es r" "inv q"
  shows "inv r \<and> owed es \<subseteq> pending r \<and> busy es \<subseteq> active r"
  using assms(1)
proof (induction rule: queue_run.induct)
  case (Add es r l k)
  then show ?case using add [of r l k] by auto
next
  case (Refused es r l k)
  then show ?case using add [of r l k] by auto
next
  case (Get es r k r')
  then show ?case using get [of r k r'] by auto
next
  case (Finish es r k)
  then show ?case using finish [of r k] by auto
next
  case (Move es r r')
  then show ?case using move [of r r'] by auto
qed (use assms(2) in simp)

end

section \<open>The queue of client-go\<close>

record 'k wq =
  wq_queue :: "'k list"
  wq_dirty :: "'k set"
  wq_processing :: "'k set"
  wq_shuttingDown :: bool

definition newQueue :: "'k wq" where
  "newQueue = \<lparr>wq_queue = [], wq_dirty = {}, wq_processing = {}, wq_shuttingDown = False\<rparr>"

definition wq_Add :: "'k \<Rightarrow> 'k wq \<Rightarrow> 'k wq" where
  "wq_Add item q =
     (if wq_shuttingDown q then q
      else if item \<in> wq_dirty q then q
      else
        (let q = q\<lparr>wq_dirty := insert item (wq_dirty q)\<rparr> in
         if item \<in> wq_processing q then q
         else q\<lparr>wq_queue := wq_queue q @ [item]\<rparr>))"

text \<open>\<^verbatim>\<open>Get\<close> waits while the queue is empty and not shutting down.\<close>

datatype 'k got = Waits | ShutDown | Item 'k

definition wq_Get :: "'k wq \<Rightarrow> 'k got \<times> 'k wq" where
  "wq_Get q =
     (case wq_queue q of
        [] \<Rightarrow> (if wq_shuttingDown q then ShutDown else Waits, q)
      | item # queue \<Rightarrow>
          (Item item, q\<lparr>wq_queue := queue, wq_processing := insert item (wq_processing q),
                        wq_dirty := wq_dirty q - {item}\<rparr>))"

definition wq_Done :: "'k \<Rightarrow> 'k wq \<Rightarrow> 'k wq" where
  "wq_Done item q =
     (let q = q\<lparr>wq_processing := wq_processing q - {item}\<rparr> in
      if item \<in> wq_dirty q then q\<lparr>wq_queue := wq_queue q @ [item]\<rparr> else q)"

definition wq_ShutDown :: "'k wq \<Rightarrow> 'k wq" where
  "wq_ShutDown q = q\<lparr>wq_shuttingDown := True\<rparr>"

text \<open>
  The invariant the comment on the type states: the queue holds, once each, exactly the dirty items
  that are not being processed.
\<close>

definition wq_inv :: "'k wq \<Rightarrow> bool" where
  "wq_inv q \<longleftrightarrow> distinct (wq_queue q) \<and> set (wq_queue q) = wq_dirty q - wq_processing q \<and>
     finite (wq_dirty q) \<and> finite (wq_processing q)"

lemma wq_new_inv [simp]: "wq_inv newQueue"
  by (simp add: wq_inv_def newQueue_def)

lemma wq_Add_inv:
  assumes "wq_inv q"
  shows "wq_inv (wq_Add k q)"
proof -
  have "insert k (wq_dirty q) - wq_processing q = insert k (wq_dirty q - wq_processing q)" if "k \<notin> wq_processing q"
    using that by blast
  moreover have "insert k (wq_dirty q) - wq_processing q = wq_dirty q - wq_processing q" if "k \<in> wq_processing q"
    using that by blast
  ultimately show ?thesis using assms by (simp add: wq_inv_def wq_Add_def Let_def)
qed

lemma wq_Add_sets [simp]:
  "wq_dirty (wq_Add k q) = (if wq_shuttingDown q then wq_dirty q else insert k (wq_dirty q))"
  "wq_processing (wq_Add k q) = wq_processing q" "wq_shuttingDown (wq_Add k q) = wq_shuttingDown q"
  by (auto simp: wq_Add_def Let_def)

lemma wq_Get_Item:
  assumes "wq_inv q" "wq_Get q = (Item k, q')"
  shows "wq_inv q'" "k \<in> wq_dirty q" "k \<notin> wq_processing q" "wq_dirty q' = wq_dirty q - {k}"
    "wq_processing q' = insert k (wq_processing q)" "wq_shuttingDown q' = wq_shuttingDown q"
proof -
  obtain queue where q: "wq_queue q = k # queue" and q': "q' = q\<lparr>wq_queue := queue, wq_processing := insert k (wq_processing q),
      wq_dirty := wq_dirty q - {k}\<rparr>"
    using assms(2) by (auto simp: wq_Get_def split: list.split_asm if_split_asm)
  have "insert k (set queue) = wq_dirty q - wq_processing q" "k \<notin> set queue" "distinct queue"
    using assms(1) q by (simp_all add: wq_inv_def)
  moreover from this have "set queue = wq_dirty q - {k} - insert k (wq_processing q)" by blast
  ultimately show "wq_inv q'" "k \<in> wq_dirty q" "k \<notin> wq_processing q" using assms(1) by (simp_all add: wq_inv_def q') blast+
  show "wq_dirty q' = wq_dirty q - {k}" "wq_processing q' = insert k (wq_processing q)" "wq_shuttingDown q' = wq_shuttingDown q"
    by (simp_all add: q')
qed

lemma wq_Get_other: "wq_Get q = (g, q') \<Longrightarrow> g = Waits \<or> g = ShutDown \<Longrightarrow> q' = q \<and> wq_queue q = [] \<and> (g = ShutDown \<longleftrightarrow> wq_shuttingDown q)"
  by (auto simp: wq_Get_def split: list.split_asm if_split_asm)

lemma wq_Done_inv:
  assumes "wq_inv q" "k \<in> wq_processing q"
  shows "wq_inv (wq_Done k q)"
proof -
  have "k \<notin> set (wq_queue q)" using assms by (simp add: wq_inv_def)
  moreover have "insert k (wq_dirty q - wq_processing q) = wq_dirty q - (wq_processing q - {k})" if "k \<in> wq_dirty q"
    using that by blast
  moreover have "wq_dirty q - (wq_processing q - {k}) = wq_dirty q - wq_processing q" if "k \<notin> wq_dirty q"
    using that by blast
  ultimately show ?thesis using assms(1) by (simp add: wq_inv_def wq_Done_def Let_def)
qed

lemma wq_Done_sets [simp]:
  "wq_dirty (wq_Done k q) = wq_dirty q" "wq_processing (wq_Done k q) = wq_processing q - {k}"
  "wq_shuttingDown (wq_Done k q) = wq_shuttingDown q"
  by (auto simp: wq_Done_def Let_def)

lemma wq_ShutDown_inv: "wq_inv q \<Longrightarrow> wq_inv (wq_ShutDown q)"
  by (simp add: wq_inv_def wq_ShutDown_def)

lemma wq_ShutDown_sets [simp]:
  "wq_dirty (wq_ShutDown q) = wq_dirty q" "wq_processing (wq_ShutDown q) = wq_processing q"
  "wq_shuttingDown (wq_ShutDown q)"
  by (simp_all add: wq_ShutDown_def)

definition wq_take :: "'k wq \<Rightarrow> ('k \<times> 'k wq) option" where
  "wq_take q = (case wq_Get q of (Item k, q') \<Rightarrow> Some (k, q') | _ \<Rightarrow> None)"

interpretation wqi: work_queue "\<lambda>_ :: unit. wq_Add" wq_take wq_Done "\<lambda>q q'. q' = wq_ShutDown q" "\<lambda>_ q. \<not> wq_shuttingDown q"
  wq_dirty wq_processing wq_inv
proof unfold_locales
  fix q q' :: "'k wq" and k
  assume "wq_inv q"
  then show "wq_take q = Some (k, q') \<Longrightarrow> wq_inv q' \<and> k \<in> wq_dirty q \<and> k \<notin> wq_processing q \<and>
      wq_processing q' = insert k (wq_processing q) \<and> wq_dirty q - {k} \<subseteq> wq_dirty q'"
    using wq_Get_Item [of q k q'] by (auto simp: wq_take_def split: prod.split_asm got.split_asm)
qed (auto intro: wq_Add_inv wq_Done_inv wq_ShutDown_inv)

section \<open>Two lanes\<close>

text \<open>
  Each lane has a goroutine that takes an item out of its queue, marks it done there and sends it to
  the consumer goroutine over a channel without buffer; the consumer adds it to the queue the
  workers take from. \<open>tl_fastOpen\<close> and \<open>tl_slowOpen\<close> are the flags of \<^verbatim>\<open>runConsumer\<close>, \<open>tl_both\<close> is
  its second \<^verbatim>\<open>select\<close>, where it looks at both channels.
\<close>

datatype lane = Fast | Slow

datatype 'k producer = Getting | Got 'k | Sending 'k | Closed

record 'k twoLaneQueue =
  tl_fast :: "'k wq"
  tl_slow :: "'k wq"
  tl_consumerQueue :: "'k wq"
  tl_fastChan :: "'k producer"
  tl_slowChan :: "'k producer"
  tl_fastOpen :: bool
  tl_slowOpen :: bool
  tl_both :: bool

definition newTwoLaneWorkQueue :: "'k twoLaneQueue" where
  "newTwoLaneWorkQueue =
     \<lparr>tl_fast = newQueue, tl_slow = newQueue, tl_consumerQueue = newQueue, tl_fastChan = Getting,
      tl_slowChan = Getting, tl_fastOpen = True, tl_slowOpen = True, tl_both = False\<rparr>"

text \<open>One step of \<^verbatim>\<open>process\<close>, unless it waits for the queue or the consumer.\<close>

fun process :: "'k wq \<times> 'k producer \<Rightarrow> ('k wq \<times> 'k producer) option" where
  "process (q, Getting) =
     (case wq_Get q of
        (Waits, _) \<Rightarrow> None
      | (ShutDown, q) \<Rightarrow> Some (q, Closed)
      | (Item i, q) \<Rightarrow> Some (q, Got i))"
| "process (q, Got i) = Some (wq_Done i q, Sending i)"
| "process (q, Sending i) = None"
| "process (q, Closed) = None"

text \<open>What the consumer does with what it receives from a lane; it is at the head of its loop again.\<close>

fun receive :: "lane \<Rightarrow> 'k producer \<Rightarrow> 'k twoLaneQueue \<Rightarrow> 'k twoLaneQueue option" where
  "receive Fast (Sending i) q = Some (q\<lparr>tl_consumerQueue := wq_Add i (tl_consumerQueue q), tl_fastChan := Getting, tl_both := False\<rparr>)"
| "receive Slow (Sending i) q = Some (q\<lparr>tl_consumerQueue := wq_Add i (tl_consumerQueue q), tl_slowChan := Getting, tl_both := False\<rparr>)"
| "receive Fast Closed q = Some (q\<lparr>tl_fastOpen := False, tl_both := False\<rparr>)"
| "receive Slow Closed q = Some (q\<lparr>tl_slowOpen := False, tl_both := False\<rparr>)"
| "receive l p q = None"

inductive tl_step :: "'k twoLaneQueue \<Rightarrow> 'k twoLaneQueue \<Rightarrow> bool" where
  ProcessFast: "process (tl_fast q, tl_fastChan q) = Some (f, c) \<Longrightarrow> tl_step q (q\<lparr>tl_fast := f, tl_fastChan := c\<rparr>)"
| ProcessSlow: "process (tl_slow q, tl_slowChan q) = Some (f, c) \<Longrightarrow> tl_step q (q\<lparr>tl_slow := f, tl_slowChan := c\<rparr>)"
| FastFirst: "\<not> tl_both q \<Longrightarrow> tl_fastOpen q \<Longrightarrow> receive Fast (tl_fastChan q) q = Some q' \<Longrightarrow> tl_step q q'"
| Default: "\<not> tl_both q \<Longrightarrow> tl_fastOpen q \<Longrightarrow> receive Fast (tl_fastChan q) q = None \<Longrightarrow> tl_step q (q\<lparr>tl_both := True\<rparr>)"
| SlowOnly: "\<not> tl_both q \<Longrightarrow> \<not> tl_fastOpen q \<Longrightarrow> tl_slowOpen q \<Longrightarrow> tl_step q (q\<lparr>tl_both := True\<rparr>)"
| Select: "tl_both q \<Longrightarrow> receive l (if l = Fast then tl_fastChan q else tl_slowChan q) q = Some q' \<Longrightarrow> tl_step q q'"
| Stop: "\<not> tl_both q \<Longrightarrow> \<not> tl_fastOpen q \<Longrightarrow> \<not> tl_slowOpen q \<Longrightarrow> tl_step q (q\<lparr>tl_consumerQueue := wq_ShutDown (tl_consumerQueue q)\<rparr>)"
| TlShutDown: "tl_step q (q\<lparr>tl_fast := wq_ShutDown (tl_fast q), tl_slow := wq_ShutDown (tl_slow q)\<rparr>)"

inductive_cases tl_stepE: "tl_step q q'"

fun tl_Add :: "lane \<Rightarrow> 'k \<Rightarrow> 'k twoLaneQueue \<Rightarrow> 'k twoLaneQueue" where
  "tl_Add Fast i q = q\<lparr>tl_fast := wq_Add i (tl_fast q)\<rparr>"
| "tl_Add Slow i q = q\<lparr>tl_slow := wq_Add i (tl_slow q)\<rparr>"

definition tl_Get :: "'k twoLaneQueue \<Rightarrow> 'k got \<times> 'k twoLaneQueue" where
  "tl_Get q = (case wq_Get (tl_consumerQueue q) of (g, c) \<Rightarrow> (g, q\<lparr>tl_consumerQueue := c\<rparr>))"

definition tl_Done :: "'k \<Rightarrow> 'k twoLaneQueue \<Rightarrow> 'k twoLaneQueue" where
  "tl_Done i q = q\<lparr>tl_consumerQueue := wq_Done i (tl_consumerQueue q)\<rparr>"

definition tl_take :: "'k twoLaneQueue \<Rightarrow> ('k \<times> 'k twoLaneQueue) option" where
  "tl_take q = (case tl_Get q of (Item k, q') \<Rightarrow> Some (k, q') | _ \<Rightarrow> None)"

fun tl_accepting :: "lane \<Rightarrow> 'k twoLaneQueue \<Rightarrow> bool" where
  "tl_accepting Fast q \<longleftrightarrow> \<not> wq_shuttingDown (tl_fast q)"
| "tl_accepting Slow q \<longleftrightarrow> \<not> wq_shuttingDown (tl_slow q)"

section \<open>No item is lost between the lanes\<close>

fun held :: "'k producer \<Rightarrow> 'k set" where
  "held (Got k) = {k}"
| "held (Sending k) = {k}"
| "held p = {}"

definition tl_pending :: "'k twoLaneQueue \<Rightarrow> 'k set" where
  "tl_pending q = wq_dirty (tl_fast q) \<union> wq_dirty (tl_slow q) \<union> held (tl_fastChan q) \<union> held (tl_slowChan q) \<union>
     wq_dirty (tl_consumerQueue q)"

definition tl_active :: "'k twoLaneQueue \<Rightarrow> 'k set" where
  "tl_active q = wq_processing (tl_consumerQueue q)"

text \<open>A lane with its goroutine: only the goroutine processes, and it ends when the lane is empty and shut down.\<close>

definition lane_inv :: "'k wq \<times> 'k producer \<Rightarrow> bool" where
  "lane_inv qp \<longleftrightarrow> (case qp of (q, p) \<Rightarrow>
     wq_inv q \<and> wq_processing q = (case p of Got k \<Rightarrow> {k} | _ \<Rightarrow> {}) \<and>
     (p = Closed \<longrightarrow> wq_shuttingDown q \<and> wq_dirty q = {}))"

definition tl_inv :: "'k twoLaneQueue \<Rightarrow> bool" where
  "tl_inv q \<longleftrightarrow> lane_inv (tl_fast q, tl_fastChan q) \<and> lane_inv (tl_slow q, tl_slowChan q) \<and> wq_inv (tl_consumerQueue q) \<and>
     (\<not> tl_fastOpen q \<longrightarrow> tl_fastChan q = Closed) \<and> (\<not> tl_slowOpen q \<longrightarrow> tl_slowChan q = Closed) \<and>
     (wq_shuttingDown (tl_consumerQueue q) \<longrightarrow> \<not> tl_fastOpen q \<and> \<not> tl_slowOpen q)"

lemma lane_Add: "lane_inv (q, p) \<Longrightarrow> lane_inv (wq_Add k q, p)"
  by (auto simp: lane_inv_def wq_Add_inv split: producer.splits)

lemma lane_ShutDown: "lane_inv (q, p) \<Longrightarrow> lane_inv (wq_ShutDown q, p)"
  by (auto simp: lane_inv_def wq_ShutDown_inv split: producer.splits)

lemma lane_handed: "lane_inv (q, Sending k) \<Longrightarrow> lane_inv (q, Getting)"
  by (simp add: lane_inv_def)

lemma lane_process:
  assumes "lane_inv (q, p)" "process (q, p) = Some (q', p')"
  shows "lane_inv (q', p')" "wq_dirty q' \<union> held p' = wq_dirty q \<union> held p" "p \<noteq> Closed"
proof -
  have inv: "wq_inv q" using assms(1) by (simp add: lane_inv_def)
  consider (shut) "p = Getting" "p' = Closed" "q' = q" "wq_queue q = []" "wq_shuttingDown q"
    | (got) k where "p = Getting" "p' = Got k" "wq_Get q = (Item k, q')"
    | (sent) k where "p = Got k" "p' = Sending k" "q' = wq_Done k q"
    using assms(2) wq_Get_other [of q] by (cases "(q, p)" rule: process.cases) (auto split: prod.splits got.splits)
  then have "lane_inv (q', p') \<and> wq_dirty q' \<union> held p' = wq_dirty q \<union> held p"
  proof cases
    case shut
    then show ?thesis using assms(1) by (auto simp: lane_inv_def wq_inv_def)
  next
    case got
    note g = wq_Get_Item [OF inv got(3)]
    show ?thesis using assms(1) got(1,2) g by (auto simp: lane_inv_def)
  next
    case sent
    then have "k \<in> wq_processing q" using assms(1) by (simp add: lane_inv_def)
    from wq_Done_inv [OF inv this] show ?thesis using assms(1) sent by (simp add: lane_inv_def)
  qed
  then show "lane_inv (q', p')" "wq_dirty q' \<union> held p' = wq_dirty q \<union> held p" by simp_all
  show "p \<noteq> Closed" using assms(2) by auto
qed

lemma lane_receive_cases:
  assumes "receive l p q = Some q'"
  obtains (fast) k where "l = Fast" "p = Sending k"
      "q' = q\<lparr>tl_consumerQueue := wq_Add k (tl_consumerQueue q), tl_fastChan := Getting, tl_both := False\<rparr>"
  | (slow) k where "l = Slow" "p = Sending k"
      "q' = q\<lparr>tl_consumerQueue := wq_Add k (tl_consumerQueue q), tl_slowChan := Getting, tl_both := False\<rparr>"
  | (fast_closed) "l = Fast" "p = Closed" "q' = q\<lparr>tl_fastOpen := False, tl_both := False\<rparr>"
  | (slow_closed) "l = Slow" "p = Closed" "q' = q\<lparr>tl_slowOpen := False, tl_both := False\<rparr>"
  using assms by (cases l; cases p; simp only: receive.simps option.simps; metis)

lemma receive_keeps:
  assumes "tl_inv q" "receive l (if l = Fast then tl_fastChan q else tl_slowChan q) q = Some q'"
  shows "tl_inv q' \<and> tl_pending q' = tl_pending q \<and> tl_active q' = tl_active q"
  using assms(2)
proof (cases rule: lane_receive_cases)
  case (fast k)
  then have "\<not> wq_shuttingDown (tl_consumerQueue q)" using assms(1) by (auto simp: tl_inv_def)
  with fast show ?thesis using assms(1) by (auto simp: tl_inv_def tl_pending_def tl_active_def wq_Add_inv lane_handed)
next
  case (slow k)
  then have "\<not> wq_shuttingDown (tl_consumerQueue q)" using assms(1) by (auto simp: tl_inv_def)
  with slow show ?thesis using assms(1) by (auto simp: tl_inv_def tl_pending_def tl_active_def wq_Add_inv lane_handed)
qed (use assms(1) in \<open>auto simp: tl_inv_def tl_pending_def tl_active_def\<close>)

lemma tl_step_keeps:
  assumes "tl_inv q" "tl_step q q'"
  shows "tl_inv q' \<and> tl_pending q' = tl_pending q \<and> tl_active q' = tl_active q"
  using assms(2)
proof (cases rule: tl_step.cases)
  case (ProcessFast f c)
  have l: "lane_inv (tl_fast q, tl_fastChan q)" using assms(1) by (simp add: tl_inv_def)
  show ?thesis
    using assms(1) lane_process [OF l ProcessFast(2)] unfolding ProcessFast(1)
    by (auto simp: tl_inv_def tl_pending_def tl_active_def)
next
  case (ProcessSlow f c)
  have l: "lane_inv (tl_slow q, tl_slowChan q)" using assms(1) by (simp add: tl_inv_def)
  show ?thesis
    using assms(1) lane_process [OF l ProcessSlow(2)] unfolding ProcessSlow(1)
    by (auto simp: tl_inv_def tl_pending_def tl_active_def)
next
  case FastFirst
  then show ?thesis using receive_keeps [OF assms(1), of Fast] by simp
next
  case (Select l)
  then show ?thesis using receive_keeps [OF assms(1), of l] by simp
qed (use assms(1) in \<open>auto simp: tl_inv_def tl_pending_def tl_active_def wq_ShutDown_inv lane_ShutDown\<close>)

lemma tl_take_Some:
  assumes "tl_take q = Some (k, q')"
  obtains c where "wq_Get (tl_consumerQueue q) = (Item k, c)" "q' = q\<lparr>tl_consumerQueue := c\<rparr>"
  using assms by (auto simp: tl_take_def tl_Get_def split: prod.split_asm got.split_asm)

interpretation tli: work_queue tl_Add tl_take tl_Done tl_step tl_accepting tl_pending tl_active tl_inv
proof unfold_locales
  fix q q' :: "'k twoLaneQueue" and k l
  assume q: "tl_inv q"
  then show "tl_inv (tl_Add l k q) \<and> tl_active (tl_Add l k q) = tl_active q \<and>
      tl_pending (tl_Add l k q) = (if tl_accepting l q then insert k (tl_pending q) else tl_pending q)"
    by (cases l) (auto simp: tl_inv_def tl_pending_def tl_active_def lane_Add)
  have c: "wq_inv (tl_consumerQueue q)" using q by (simp add: tl_inv_def)
  show "tl_inv q' \<and> k \<in> tl_pending q \<and> k \<notin> tl_active q \<and> tl_active q' = insert k (tl_active q) \<and> tl_pending q - {k} \<subseteq> tl_pending q'"
    if "tl_take q = Some (k, q')"
    using that
  proof (rule tl_take_Some)
    fix c' assume "wq_Get (tl_consumerQueue q) = (Item k, c')" "q' = q\<lparr>tl_consumerQueue := c'\<rparr>"
    then show ?thesis
      using q wq_Get_Item [OF c] by (auto simp: tl_inv_def tl_pending_def tl_active_def)
  qed
  show "tl_inv (tl_Done k q) \<and> tl_pending (tl_Done k q) = tl_pending q \<and> tl_active (tl_Done k q) = tl_active q - {k}" if "k \<in> tl_active q"
    using q that wq_Done_inv [OF c] by (simp add: tl_inv_def tl_pending_def tl_active_def tl_Done_def)
qed (rule tl_step_keeps)

lemma tl_new_inv [simp]: "tl_inv newTwoLaneWorkQueue"
  by (simp add: tl_inv_def newTwoLaneWorkQueue_def lane_inv_def) (simp add: newQueue_def)

text \<open>A worker can take an item of its queue when no worker is busy.\<close>

lemma tl_take_possible:
  assumes "tl_inv q" "wq_dirty (tl_consumerQueue q) \<noteq> {}" "tl_active q = {}"
  shows "tl_take q \<noteq> None"
proof -
  have "wq_queue (tl_consumerQueue q) \<noteq> []" using assms by (auto simp: tl_inv_def wq_inv_def tl_active_def)
  then show ?thesis by (auto simp: tl_take_def tl_Get_def wq_Get_def neq_Nil_conv)
qed

section \<open>The lanes drain\<close>

text \<open>
  While the queue is not shut down, its goroutines move every item into the queue of the workers in
  finitely many steps; the weight of an item falls on its way.
\<close>

definition running :: "'k twoLaneQueue \<Rightarrow> bool" where
  "running q \<longleftrightarrow> \<not> wq_shuttingDown (tl_fast q) \<and> \<not> wq_shuttingDown (tl_slow q)"

fun producer_work :: "'k producer \<Rightarrow> nat" where
  "producer_work (Got k) = 13"
| "producer_work (Sending k) = 12"
| "producer_work p = 0"

definition lane_work :: "'k wq \<times> 'k producer \<Rightarrow> nat" where
  "lane_work qp = 14 * card (wq_dirty (fst qp)) + producer_work (snd qp)"

definition tl_work :: "'k twoLaneQueue \<Rightarrow> nat" where
  "tl_work q = lane_work (tl_fast q, tl_fastChan q) + lane_work (tl_slow q, tl_slowChan q) +
     10 * card (wq_dirty (tl_consumerQueue q)) + (if tl_both q then 0 else 1)"

lemma wq_inv_finite: "wq_inv q \<Longrightarrow> finite (wq_dirty q)"
  by (simp add: wq_inv_def)

lemma lane_process_work:
  assumes "lane_inv (q, p)" "process (q, p) = Some (q', p')" "\<not> wq_shuttingDown q"
  shows "lane_work (q', p') < lane_work (q, p)"
proof -
  have inv: "wq_inv q" using assms(1) by (simp add: lane_inv_def)
  consider (got) k where "p = Getting" "p' = Got k" "wq_Get q = (Item k, q')"
    | (sent) k where "p = Got k" "p' = Sending k" "q' = wq_Done k q"
    using assms(2,3) wq_Get_other [of q] by (cases "(q, p)" rule: process.cases) (auto split: prod.splits got.splits)
  then show ?thesis
  proof cases
    case got
    note g = wq_Get_Item [OF inv got(3)]
    have "card (wq_dirty q) = Suc (card (wq_dirty q'))"
      using card_Suc_Diff1 [OF wq_inv_finite [OF inv] g(2)] by (simp only: g(4))
    then show ?thesis using got by (simp add: lane_work_def)
  qed (simp add: lane_work_def)
qed

lemma process_running: "process (q, p) = Some (q', p') \<Longrightarrow> wq_shuttingDown q' = wq_shuttingDown q"
  by (cases "(q, p)" rule: process.cases) (auto simp: wq_Get_def split: list.split_asm if_split_asm)

lemma running_open:
  assumes "tl_inv q" "running q"
  shows "tl_fastOpen q" "tl_slowOpen q" "tl_fastChan q \<noteq> Closed" "tl_slowChan q \<noteq> Closed" "\<not> wq_shuttingDown (tl_consumerQueue q)"
  using assms by (auto simp: tl_inv_def running_def lane_inv_def)

lemma receive_work:
  assumes "tl_inv q" "running q" "receive l (if l = Fast then tl_fastChan q else tl_slowChan q) q = Some q'"
  shows "tl_work q' < tl_work q"
proof -
  have c: "card (wq_dirty (wq_Add k (tl_consumerQueue q))) \<le> Suc (card (wq_dirty (tl_consumerQueue q)))" for k
    using assms(1) wq_inv_finite [of "tl_consumerQueue q"] by (auto simp: tl_inv_def card_insert_if)
  from assms(3) show ?thesis
  proof (cases rule: lane_receive_cases)
    case (fast k)
    then show ?thesis using c [of k] by (simp add: tl_work_def lane_work_def)
  next
    case (slow k)
    then show ?thesis using c [of k] by (simp add: tl_work_def lane_work_def)
  qed (use running_open [OF assms(1,2)] in simp_all)
qed

lemma tl_step_work:
  assumes "tl_inv q" "running q" "tl_step q q'" "running q'"
  shows "tl_work q' < tl_work q"
  using assms(3)
proof (cases rule: tl_step.cases)
  case (ProcessFast f c)
  then show ?thesis
    using lane_process_work [OF _ ProcessFast(2)] assms(1,2) by (simp add: tl_work_def tl_inv_def running_def)
next
  case (ProcessSlow f c)
  then show ?thesis
    using lane_process_work [OF _ ProcessSlow(2)] assms(1,2) by (simp add: tl_work_def tl_inv_def running_def)
next
  case FastFirst
  then show ?thesis using receive_work [OF assms(1,2), of Fast] by simp
next
  case (Select l)
  then show ?thesis using receive_work [OF assms(1,2), of l] by simp
qed (use assms running_open [OF assms(1,2)] in \<open>auto simp: tl_work_def running_def\<close>)

text \<open>When no goroutine can move, everything pending is in the queue of the workers.\<close>

lemma lane_stuck:
  assumes "lane_inv (q, p)" "process (q, p) = None" "\<not> wq_shuttingDown q" "p \<noteq> Closed" "\<And>k. p \<noteq> Sending k"
  shows "wq_dirty q = {}" "held p = {}"
proof -
  have p: "p = Getting" using assms(2,4,5) by (cases "(q, p)" rule: process.cases) auto
  then have "wq_queue q = []" using assms(2) by (simp add: wq_Get_def split: list.split_asm)
  then show "wq_dirty q = {}" using assms(1) by (auto simp: p lane_inv_def wq_inv_def)
  show "held p = {}" by (simp add: p)
qed

lemma receive_running: "receive l p q = Some q' \<Longrightarrow> running q' = running q"
  by (erule lane_receive_cases) (simp_all add: running_def)

lemma receive_None: "receive l p q = None \<Longrightarrow> p \<noteq> Sending k"
  by (cases l) auto

lemma tl_stuck:
  assumes "tl_inv q" "running q" "\<And>q'. tl_step q q' \<Longrightarrow> \<not> running q'"
  shows "tl_pending q = wq_dirty (tl_consumerQueue q)"
proof -
  note o = running_open [OF assms(1,2)]
  have fast: "process (tl_fast q, tl_fastChan q) = None"
  proof (rule ccontr)
    assume "process (tl_fast q, tl_fastChan q) \<noteq> None"
    then obtain f c where fc: "process (tl_fast q, tl_fastChan q) = Some (f, c)" by fastforce
    show False using assms(3) [OF tl_step.ProcessFast [OF fc]] process_running [OF fc] assms(2) by (simp add: running_def)
  qed
  have slow: "process (tl_slow q, tl_slowChan q) = None"
  proof (rule ccontr)
    assume "process (tl_slow q, tl_slowChan q) \<noteq> None"
    then obtain f c where fc: "process (tl_slow q, tl_slowChan q) = Some (f, c)" by fastforce
    show False using assms(3) [OF tl_step.ProcessSlow [OF fc]] process_running [OF fc] assms(2) by (simp add: running_def)
  qed
  have both: "tl_both q"
  proof (rule ccontr)
    assume nb: "\<not> tl_both q"
    show False
      using assms(3) [OF tl_step.Default [OF nb o(1)]] assms(3) [OF tl_step.FastFirst [OF nb o(1)]] assms(2) receive_running
      by (cases "receive Fast (tl_fastChan q) q") (auto simp: running_def)
  qed
  have sel: "receive l (if l = Fast then tl_fastChan q else tl_slowChan q) q = None" for l
    using assms(3) [OF tl_step.Select [OF both]] assms(2) receive_running by (metis not_Some_eq)
  have "wq_dirty (tl_fast q) = {}" "held (tl_fastChan q) = {}" "wq_dirty (tl_slow q) = {}" "held (tl_slowChan q) = {}"
    using lane_stuck [OF _ fast] lane_stuck [OF _ slow] o assms(1,2) receive_None [OF sel [of Fast]] receive_None [OF sel [of Slow]]
    by (simp_all add: tl_inv_def running_def)
  then show ?thesis by (simp add: tl_pending_def)
qed

text \<open>
  C9: The work queue neither loses nor doubles work. In every run of the two lanes, with any mix of
  fast and slow additions, workers and goroutines, a key that was added and not taken since is
  still on its way, a key a worker has taken and not finished is never given to another worker, and
  as long as the queue runs and owes a key, a goroutine can move, a worker can take a key, or a worker
  is busy.
\<close>

theorem work_queue_exact:
  assumes "queue_run tl_Add tl_take tl_Done tl_step tl_accepting tl_active newTwoLaneWorkQueue es q"
  shows "owed es \<subseteq> tl_pending q \<and> busy es \<subseteq> tl_active q \<and>
    (\<forall>k q'. tl_take q = Some (k, q') \<longrightarrow> k \<notin> busy es) \<and>
    (running q \<longrightarrow> owed es \<noteq> {} \<longrightarrow> (\<exists>q'. tl_step q q' \<and> running q') \<or> tl_take q \<noteq> None \<or> tl_active q \<noteq> {})"
proof -
  note keeps = tli.run_keeps [OF assms tl_new_inv]
  have "k \<notin> busy es" if "tl_take q = Some (k, q')" for k q'
    using tli.get [OF _ that] keeps by blast
  moreover have "(\<exists>q'. tl_step q q' \<and> running q') \<or> tl_take q \<noteq> None \<or> tl_active q \<noteq> {}"
    if r: "running q" and o: "owed es \<noteq> {}"
  proof (rule ccontr)
    assume n: "\<not> ?thesis"
    have inv: "tl_inv q" using keeps by blast
    have "tl_pending q = wq_dirty (tl_consumerQueue q)" by (rule tl_stuck [OF inv r]) (use n in blast)
    then have "tl_take q \<noteq> None" using n keeps o by (intro tl_take_possible [OF inv]) auto
    then show False using n by blast
  qed
  ultimately show ?thesis using keeps by blast
qed

definition ex_trace :: "string qevent list" where
  "ex_trace = [Added ''a'', Added ''b'']"

theorem work_queue_exact_witness:
  "owed ex_trace = {''a'', ''b''} \<and> owed ex_trace \<subseteq> tl_pending (tl_Add Slow ''b'' (tl_Add Fast ''a'' newTwoLaneWorkQueue))"
proof -
  let ?run = "queue_run tl_Add tl_take tl_Done tl_step tl_accepting tl_active newTwoLaneWorkQueue"
  have "?run ([] @ [Added ''a'']) (tl_Add Fast ''a'' newTwoLaneWorkQueue)"
    by (rule queue_run.Add [OF queue_run.Start]) (simp add: newTwoLaneWorkQueue_def newQueue_def)
  from queue_run.Add [OF this, of Slow "''b''"]
  have "?run ex_trace (tl_Add Slow ''b'' (tl_Add Fast ''a'' newTwoLaneWorkQueue))"
    by (simp add: ex_trace_def newTwoLaneWorkQueue_def newQueue_def)
  from work_queue_exact [OF this] show ?thesis by (simp add: ex_trace_def owed_def insert_commute)
qed

end
