(* ===== verification/Retry.thy ===== *)
theory Retry
  imports Work_Queue
begin

text \<open>
  What the controller does with a key its reconciler failed for: the rate limiter and the delaying
  queue of \<^verbatim>\<open>k8s.io/client-go/util/workqueue\<close> in front of the fast lane, and the end of
  \<^verbatim>\<open>processNextWorkItem\<close> of \<^verbatim>\<open>knative.dev/pkg/controller\<close>. Only the fast lane gets delayed items.
\<close>

section \<open>Rate limits\<close>

text \<open>
  \<^verbatim>\<open>ItemExponentialFailureRateLimiter\<close>: the delay doubles with every failure. The code computes with
  \<^verbatim>\<open>float64\<close>; the base delay times a power of two is exact there, and beyond the range of 64 bits the
  maximum is taken.
\<close>

type_synonym 'k failures = "'k \<Rightarrow> nat option"

definition NumRequeues :: "'k failures \<Rightarrow> 'k \<Rightarrow> nat" where
  "NumRequeues failures item = (case failures item of None \<Rightarrow> 0 | Some n \<Rightarrow> n)"

definition MaxInt64 :: int where "MaxInt64 = 2 ^ 63 - 1"

definition exponential_When :: "int \<Rightarrow> int \<Rightarrow> 'k \<Rightarrow> 'k failures \<Rightarrow> int \<times> 'k failures" where
  "exponential_When baseDelay maxDelay item failures =
     (let n = NumRequeues failures item;
          failures = failures(item \<mapsto> n + 1);
          backoff = baseDelay * 2 ^ n
      in if backoff > MaxInt64 then (maxDelay, failures)
         else if backoff > maxDelay then (maxDelay, failures)
         else (backoff, failures))"

text \<open>
  \<^verbatim>\<open>DefaultControllerRateLimiter\<close>: the worst of the delay of the item and that of a token bucket all
  items share, which is the argument \<open>bucket\<close>.
\<close>

definition baseDelay :: int where "baseDelay = 5 * 1000 * 1000"
definition maxDelay :: int where "maxDelay = 1000 * 1000 * 1000 * 1000"

definition MaxOf_When :: "int \<Rightarrow> 'k \<Rightarrow> 'k failures \<Rightarrow> int \<times> 'k failures" where
  "MaxOf_When bucket item failures =
     (let ret = 0;
          (curr, failures) = exponential_When baseDelay maxDelay item failures;
          ret = (if curr > ret then curr else ret);
          ret = (if bucket > ret then bucket else ret)
      in (ret, failures))"

definition limiter_Forget :: "'k \<Rightarrow> 'k failures \<Rightarrow> 'k failures" where
  "limiter_Forget item failures = failures(item := None)"

lemma exponential_delay:
  "exponential_When baseDelay maxDelay k f = (min (5000000 * 2 ^ NumRequeues f k) 1000000000000, f(k \<mapsto> NumRequeues f k + 1))"
  by (auto simp: exponential_When_def baseDelay_def maxDelay_def MaxInt64_def Let_def)

lemma MaxOf_delay:
  "MaxOf_When bucket k f = (max bucket (min (5000000 * 2 ^ NumRequeues f k) 1000000000000), f(k \<mapsto> NumRequeues f k + 1))"
proof -
  have "0 < min (5000000 * 2 ^ NumRequeues f k) (1000000000000 :: int)" by simp
  then show ?thesis unfolding MaxOf_When_def exponential_delay by (auto simp: Let_def max_def)
qed

section \<open>The delaying queue\<close>

text \<open>
  The controller's queue: the clock, the entries on their way to the waiting loop, those the loop
  holds, the lanes and the failures counted for a key. An entry is a key with the time it is ready.
\<close>

record 'k impl =
  im_now :: int
  im_waitingForAddCh :: "('k \<times> int) list"
  im_waiting :: "('k \<times> int) list"
  im_workQueue :: "'k twoLaneQueue"
  im_failures :: "'k failures"

definition new_impl :: "int \<Rightarrow> 'k impl" where
  "new_impl now = \<lparr>im_now = now, im_waitingForAddCh = [], im_waiting = [], im_workQueue = newTwoLaneWorkQueue, im_failures = (\<lambda>_. None)\<rparr>"

definition Enqueue :: "lane \<Rightarrow> 'k \<Rightarrow> 'k impl \<Rightarrow> 'k impl" where
  "Enqueue l item c = c\<lparr>im_workQueue := tl_Add l item (im_workQueue c)\<rparr>"

definition AddAfter :: "'k \<Rightarrow> int \<Rightarrow> 'k impl \<Rightarrow> 'k impl" where
  "AddAfter item duration c =
     (if wq_shuttingDown (tl_fast (im_workQueue c)) then c
      else if duration \<le> 0 then Enqueue Fast item c
      else c\<lparr>im_waitingForAddCh := im_waitingForAddCh c @ [(item, im_now c + duration)]\<rparr>)"

definition AddRateLimited :: "int \<Rightarrow> 'k \<Rightarrow> 'k impl \<Rightarrow> 'k impl" where
  "AddRateLimited bucket item c =
     (case MaxOf_When bucket item (im_failures c) of (delay, failures) \<Rightarrow> AddAfter item delay (c\<lparr>im_failures := failures\<rparr>))"

definition Forget :: "'k \<Rightarrow> 'k impl \<Rightarrow> 'k impl" where
  "Forget item c = c\<lparr>im_failures := limiter_Forget item (im_failures c)\<rparr>"

text \<open>A known item keeps the earlier of the two times.\<close>

definition insert_entry :: "'k \<times> int \<Rightarrow> ('k \<times> int) list \<Rightarrow> ('k \<times> int) list" where
  "insert_entry entry waiting =
     (case map_of waiting (fst entry) of
        Some readyAt \<Rightarrow> if readyAt > snd entry then AList.update (fst entry) (snd entry) waiting else waiting
      | None \<Rightarrow> AList.update (fst entry) (snd entry) waiting)"

text \<open>
  The steps of the controller's queue between the calls of its clients: time passes, the waiting
  loop receives an entry or adds an entry that is ready and has the smallest time, the lanes move.
\<close>

inductive impl_step :: "'k impl \<Rightarrow> 'k impl \<Rightarrow> bool" where
  Tick: "im_now c \<le> now \<Longrightarrow> impl_step c (c\<lparr>im_now := now\<rparr>)"
| ReceiveEntry: "\<not> wq_shuttingDown (tl_fast (im_workQueue c)) \<Longrightarrow> im_waitingForAddCh c = entry # rest \<Longrightarrow>
    c' = c\<lparr>im_waitingForAddCh := rest\<rparr> \<Longrightarrow>
    impl_step c (if snd entry > im_now c then c'\<lparr>im_waiting := insert_entry entry (im_waiting c)\<rparr> else Enqueue Fast (fst entry) c')"
| AddReady: "\<not> wq_shuttingDown (tl_fast (im_workQueue c)) \<Longrightarrow> (item, readyAt) \<in> set (im_waiting c) \<Longrightarrow>
    (\<forall>(_, other) \<in> set (im_waiting c). readyAt \<le> other) \<Longrightarrow> readyAt \<le> im_now c \<Longrightarrow>
    impl_step c (Enqueue Fast item (c\<lparr>im_waiting := AList.delete item (im_waiting c)\<rparr>))"
| Lanes: "tl_step (im_workQueue c) q \<Longrightarrow> impl_step c (c\<lparr>im_workQueue := q\<rparr>)"

section \<open>The end of a work item\<close>

text \<open>
  The kinds of errors \<^verbatim>\<open>handleErr\<close> tells apart. The reconciler of this program returns none of the
  special kinds.
\<close>

datatype error_kind = SkipKey | RequeueKey int | PermanentError | TransientError

definition handleErr :: "int \<Rightarrow> error_kind \<Rightarrow> 'k \<Rightarrow> 'k impl \<Rightarrow> 'k impl" where
  "handleErr bucket err key c =
     (case err of
        SkipKey \<Rightarrow> Forget key c
      | RequeueKey delay \<Rightarrow> AddAfter key delay c
      | PermanentError \<Rightarrow> Forget key c
      | TransientError \<Rightarrow>
          if \<not> wq_shuttingDown (tl_fast (im_workQueue c)) then AddRateLimited bucket key c else Forget key c)"

text \<open>What \<^verbatim>\<open>processNextWorkItem\<close> does after \<^verbatim>\<open>Reconcile\<close> has returned.\<close>

definition item_processed :: "int \<Rightarrow> error_kind option \<Rightarrow> 'k \<Rightarrow> 'k impl \<Rightarrow> 'k impl" where
  "item_processed bucket err key c =
     (let c = (case err of Some e \<Rightarrow> handleErr bucket e key c | None \<Rightarrow> Forget key c)
      in c\<lparr>im_workQueue := tl_Done key (im_workQueue c)\<rparr>)"

section \<open>Retries happen\<close>

definition impl_inv :: "'k impl \<Rightarrow> bool" where
  "impl_inv c \<longleftrightarrow> tl_inv (im_workQueue c) \<and> wf_alist (im_waiting c)"

abbreviation im_pending :: "'k impl \<Rightarrow> 'k set" where
  "im_pending c \<equiv> tl_pending (im_workQueue c)"

abbreviation im_active :: "'k impl \<Rightarrow> 'k set" where
  "im_active c \<equiv> tl_active (im_workQueue c)"

text \<open>The delaying queue holds an entry for the key that is ready by the given time.\<close>

definition scheduled :: "'k impl \<Rightarrow> 'k \<Rightarrow> int \<Rightarrow> bool" where
  "scheduled c k r \<longleftrightarrow> (\<exists>r' \<le> r. (k, r') \<in> set (im_waitingForAddCh c) \<or> map_of (im_waiting c) k = Some r')"

lemma new_impl_inv [simp]: "impl_inv (new_impl now)"
  by (simp add: impl_inv_def new_impl_def)

lemma tl_Add_running [simp]: "running (tl_Add l k q) = running q"
  by (cases l) (simp_all add: running_def)

declare tl_Add.simps [simp del]

lemma Enqueue_frame [simp]:
  "im_now (Enqueue l k c) = im_now c" "im_waitingForAddCh (Enqueue l k c) = im_waitingForAddCh c"
  "im_waiting (Enqueue l k c) = im_waiting c" "im_failures (Enqueue l k c) = im_failures c"
  "im_workQueue (Enqueue l k c) = tl_Add l k (im_workQueue c)"
  by (simp_all add: Enqueue_def)

lemma Enqueue_pending:
  assumes "impl_inv c"
  shows "impl_inv (Enqueue l k c)" "im_active (Enqueue l k c) = im_active c" "im_pending c \<subseteq> im_pending (Enqueue l k c)"
    "tl_accepting l (im_workQueue c) \<Longrightarrow> im_pending (Enqueue l k c) = insert k (im_pending c)"
  using assms tli.add [of "im_workQueue c" l k] by (auto simp: impl_inv_def)

lemma insert_entry_wf: "wf_alist waiting \<Longrightarrow> wf_alist (insert_entry e waiting)"
  by (auto simp: insert_entry_def al.wf_update split: option.split)

lemma insert_entry_lookup:
  "map_of (insert_entry (k, r) waiting) k' =
     (if k' = k then Some (case map_of waiting k of None \<Rightarrow> r | Some r0 \<Rightarrow> min r0 r) else map_of waiting k')"
  by (auto simp: insert_entry_def al.lookup_update split: option.split)

lemma impl_step_frame:
  assumes "impl_step c c'" "impl_inv c"
  shows "impl_inv c' \<and> im_pending c \<subseteq> im_pending c' \<and> im_active c' = im_active c \<and> im_now c \<le> im_now c'"
  using assms
proof (induction rule: impl_step.induct)
  case (ReceiveEntry c entry rest c')
  then have "impl_inv c'" "im_workQueue c' = im_workQueue c" by (simp_all add: impl_inv_def)
  then show ?case
    using ReceiveEntry.hyps(3) Enqueue_pending [of c' Fast "fst entry"] insert_entry_wf [of "im_waiting c" entry] by (auto simp: impl_inv_def)
next
  case (AddReady c item readyAt)
  then have "impl_inv (c\<lparr>im_waiting := AList.delete item (im_waiting c)\<rparr>)" by (simp add: impl_inv_def al.wf_remove)
  from Enqueue_pending [OF this, of Fast item] show ?case by simp
next
  case (Lanes c q)
  then show ?case using tl_step_keeps [of "im_workQueue c" q] by (simp add: impl_inv_def)
qed (simp add: impl_inv_def)

lemma impl_step_scheduled:
  assumes "impl_step c c'" "impl_inv c" "scheduled c k r"
  shows "scheduled c' k r \<or> k \<in> im_pending c'"
  using assms
proof (induction rule: impl_step.induct)
  case (ReceiveEntry c entry rest c')
  obtain k1 r1 where e: "entry = (k1, r1)" by fastforce
  have inv: "impl_inv c'" using ReceiveEntry by (simp add: impl_inv_def)
  have acc: "tl_accepting Fast (im_workQueue c')" using ReceiveEntry by simp
  show ?case
  proof (cases "r1 > im_now c")
    case True
    then show ?thesis
      using ReceiveEntry.prems(2) ReceiveEntry.hyps(2,3)
      by (auto simp: scheduled_def e insert_entry_lookup split: option.splits if_splits intro: min.coboundedI1 min.coboundedI2)
  next
    case False
    then show ?thesis
      using ReceiveEntry.prems(2) ReceiveEntry.hyps(2,3) Enqueue_pending(4) [OF inv acc, of k1]
      by (auto simp: scheduled_def e)
  qed
next
  case (AddReady c item readyAt)
  have inv: "impl_inv (c\<lparr>im_waiting := AList.delete item (im_waiting c)\<rparr>)"
    using AddReady.prems(1) by (simp add: impl_inv_def al.wf_remove)
  show ?case
    using Enqueue_pending(4) [OF inv, of Fast item] AddReady
    by (cases "k = item") (auto simp: scheduled_def al.lookup_remove)
qed (auto simp: scheduled_def)

text \<open>
  The waiting loop is idle when nothing is on its way to it and nothing it holds is ready. The weight
  of what it holds pays for the way through the fast lane.
\<close>

definition loop_idle :: "'k impl \<Rightarrow> bool" where
  "loop_idle c \<longleftrightarrow> im_waitingForAddCh c = [] \<and> (\<forall>(k, r) \<in> set (im_waiting c). im_now c < r)"

definition entries_work :: "int \<Rightarrow> ('k \<times> int) list \<Rightarrow> nat" where
  "entries_work now es = 15 * length (filter (\<lambda>(_, r). r \<le> now) es)"

definition im_work :: "'k impl \<Rightarrow> nat" where
  "im_work c = length (im_waitingForAddCh c) + entries_work (im_now c) (im_waitingForAddCh c) +
     entries_work (im_now c) (im_waiting c) + tl_work (im_workQueue c)"

lemma scheduled_idle: "loop_idle c \<Longrightarrow> scheduled c k r \<Longrightarrow> im_now c < r"
  by (fastforce simp: loop_idle_def scheduled_def dest: map_of_SomeD)

lemma entries_work_update:
  "now < r \<Longrightarrow> wf_alist m \<Longrightarrow> entries_work now (AList.update k r m) \<le> entries_work now m"
  by (induction m) (auto simp: entries_work_def wf_alist_def)

lemma entries_work_insert: "now < snd e \<Longrightarrow> wf_alist m \<Longrightarrow> entries_work now (insert_entry e m) \<le> entries_work now m"
  by (auto simp: insert_entry_def entries_work_update split: option.split)

lemma length_alist_delete: "(k, v) \<in> set m \<Longrightarrow> length (AList.delete k m) < length m"
  by (auto simp: AList.delete_eq intro: length_filter_less)

lemma entries_work_delete:
  assumes "(k, r) \<in> set m" "r \<le> now"
  shows "entries_work now (AList.delete k m) + 15 \<le> entries_work now m"
proof -
  have "filter (\<lambda>(_, r). r \<le> now) (AList.delete k m) = filter (\<lambda>(j, _). j \<noteq> k) (filter (\<lambda>(_, r). r \<le> now) m)"
    by (auto simp: AList.delete_eq filter_filter case_prod_unfold conj_commute intro: filter_cong)
  moreover have "length (filter (\<lambda>(j, _). j \<noteq> k) (filter (\<lambda>(_, r). r \<le> now) m)) < length (filter (\<lambda>(_, r). r \<le> now) m)"
    using assms by (intro length_filter_less [of "(k, r)"]) auto
  ultimately show ?thesis by (simp add: entries_work_def)
qed

lemma Enqueue_work:
  assumes "impl_inv c"
  shows "tl_work (im_workQueue (Enqueue l k c)) \<le> tl_work (im_workQueue c) + 14"
proof -
  have "finite (wq_dirty (tl_fast (im_workQueue c)))" "finite (wq_dirty (tl_slow (im_workQueue c)))"
    using assms by (auto simp: impl_inv_def tl_inv_def lane_inv_def wq_inv_def)
  then show ?thesis by (cases l) (auto simp: tl_work_def lane_work_def card_insert_if tl_Add.simps)
qed

lemma impl_step_work:
  assumes "impl_step c c'" "impl_inv c" "running (im_workQueue c)" "running (im_workQueue c')" "im_now c' = im_now c" "c' \<noteq> c"
  shows "im_work c' < im_work c"
  using assms
proof (induction rule: impl_step.induct)
  case (ReceiveEntry c entry rest c')
  have inv: "impl_inv c'" using ReceiveEntry by (simp add: impl_inv_def)
  show ?case
    using ReceiveEntry.hyps(2,3) Enqueue_work [OF inv, of Fast "fst entry"] entries_work_insert [of "im_now c" entry "im_waiting c"]
      ReceiveEntry.prems(1)
    by (auto simp: im_work_def impl_inv_def entries_work_def)
next
  case (AddReady c item readyAt)
  let ?c = "c\<lparr>im_waiting := AList.delete item (im_waiting c)\<rparr>"
  have inv: "impl_inv ?c" using AddReady.prems(1) by (simp add: impl_inv_def al.wf_remove)
  show ?case
    using Enqueue_work [OF inv, of Fast item] entries_work_delete [OF AddReady.hyps(2,4)] by (simp add: im_work_def)
next
  case (Lanes c q)
  then show ?case using tl_step_work [of "im_workQueue c" q] by (simp add: im_work_def impl_inv_def)
qed (simp add: im_work_def)

lemma loop_stuck:
  assumes "running (im_workQueue c)" "\<not> loop_idle c"
  shows "\<exists>c'. impl_step c c' \<and> running (im_workQueue c') \<and> im_now c' = im_now c \<and> c' \<noteq> c"
proof (cases "im_waitingForAddCh c")
  case (Cons entry rest)
  have r: "\<not> wq_shuttingDown (tl_fast (im_workQueue c))" using assms(1) by (simp add: running_def)
  let ?c = "if snd entry > im_now c then c\<lparr>im_waitingForAddCh := rest, im_waiting := insert_entry entry (im_waiting c)\<rparr>
    else Enqueue Fast (fst entry) (c\<lparr>im_waitingForAddCh := rest\<rparr>)"
  have "impl_step c ?c" using impl_step.ReceiveEntry [OF r Cons refl] by simp
  moreover have "im_waitingForAddCh ?c = rest" "running (im_workQueue ?c)" "im_now ?c = im_now c" using assms(1) by simp_all
  moreover from this(1) have "?c \<noteq> c" using Cons by (metis not_Cons_self2)
  ultimately show ?thesis by blast
next
  case Nil
  let ?ready = "set (im_waiting c)"
  have ne: "?ready \<noteq> {}" using assms(2) Nil by (auto simp: loop_idle_def)
  define e where "e = arg_min_on snd ?ready"
  have e: "e \<in> ?ready" "\<And>x. x \<in> ?ready \<Longrightarrow> snd e \<le> snd x"
    unfolding e_def using ne arg_min_if_finite(1) [of ?ready snd] arg_min_least [of ?ready _ snd] by auto
  obtain k r where kr: "e = (k, r)" by fastforce
  have "r \<le> im_now c" using assms(2) Nil e(2) by (fastforce simp: loop_idle_def kr)
  moreover have "\<forall>(_, other) \<in> ?ready. r \<le> other" using e(2) by (auto simp: kr)
  ultimately have "impl_step c (Enqueue Fast k (c\<lparr>im_waiting := AList.delete k (im_waiting c)\<rparr>))"
    using assms(1) e(1) by (intro impl_step.AddReady) (auto simp: running_def kr)
  moreover have "AList.delete k (im_waiting c) \<noteq> im_waiting c"
    using length_alist_delete [of k r "im_waiting c"] e(1) by (auto simp: kr)
  then have "Enqueue Fast k (c\<lparr>im_waiting := AList.delete k (im_waiting c)\<rparr>) \<noteq> c"
    by (auto dest: arg_cong [of _ _ im_waiting])
  ultimately show ?thesis
    using assms(1) by (intro exI [of _ "Enqueue Fast k (c\<lparr>im_waiting := AList.delete k (im_waiting c)\<rparr>)"] conjI) simp_all
qed

section \<open>The end of a work item and its retry\<close>

lemma AddAfter_frame:
  assumes "impl_inv c"
  shows "impl_inv (AddAfter k d c)" "im_active (AddAfter k d c) = im_active c" "im_pending c \<subseteq> im_pending (AddAfter k d c)"
    "im_now (AddAfter k d c) = im_now c" "running (im_workQueue (AddAfter k d c)) = running (im_workQueue c)"
    "im_failures (AddAfter k d c) = im_failures c" "scheduled c k' r \<Longrightarrow> scheduled (AddAfter k d c) k' r"
  using assms Enqueue_pending [OF assms, of Fast k] by (auto simp: AddAfter_def impl_inv_def scheduled_def)

lemma AddAfter_scheduled:
  "impl_inv c \<Longrightarrow> running (im_workQueue c) \<Longrightarrow> 0 < d \<Longrightarrow> scheduled (AddAfter k d c) k (im_now c + d)"
  by (auto simp: AddAfter_def running_def scheduled_def)

lemma Forget_frame [simp]:
  "im_workQueue (Forget k c) = im_workQueue c" "im_now (Forget k c) = im_now c" "impl_inv (Forget k c) = impl_inv c"
  "scheduled (Forget k c) = scheduled c" "im_failures (Forget k c) k = None"
  by (simp_all add: Forget_def impl_inv_def scheduled_def fun_eq_iff limiter_Forget_def)

lemma failures_frame [simp]:
  "impl_inv (c\<lparr>im_failures := f\<rparr>) = impl_inv c" "scheduled (c\<lparr>im_failures := f\<rparr>) = scheduled c"
  by (simp_all add: impl_inv_def scheduled_def fun_eq_iff)

lemma handleErr_frame:
  assumes "impl_inv c"
  shows "impl_inv (handleErr b e k c)" "im_active (handleErr b e k c) = im_active c" "im_pending c \<subseteq> im_pending (handleErr b e k c)"
    "im_now (handleErr b e k c) = im_now c" "running (im_workQueue (handleErr b e k c)) = running (im_workQueue c)"
    "scheduled c k' r \<Longrightarrow> scheduled (handleErr b e k c) k' r"
  using assms AddAfter_frame [of "c\<lparr>im_failures := f\<rparr>" for f] AddAfter_frame [OF assms]
  by (auto simp: handleErr_def AddRateLimited_def MaxOf_delay split: error_kind.split)

lemma tl_Done_frame:
  assumes "impl_inv c" "k \<in> im_active c"
  shows "impl_inv (c\<lparr>im_workQueue := tl_Done k (im_workQueue c)\<rparr>)" "tl_pending (tl_Done k (im_workQueue c)) = im_pending c"
    "tl_active (tl_Done k (im_workQueue c)) = im_active c - {k}" "running (tl_Done k (im_workQueue c)) = running (im_workQueue c)"
  using tli.finish [OF _ assms(2)] assms(1) by (auto simp: impl_inv_def running_def tl_Done_def)

lemma item_processed_frame:
  assumes "impl_inv c" "k \<in> im_active c"
  shows "impl_inv (item_processed b e k c)" "im_active (item_processed b e k c) = im_active c - {k}"
    "im_pending c \<subseteq> im_pending (item_processed b e k c)" "im_now (item_processed b e k c) = im_now c"
    "running (im_workQueue (item_processed b e k c)) = running (im_workQueue c)"
    "scheduled c k' r \<Longrightarrow> scheduled (item_processed b e k c) k' r"
proof -
  define c1 where "c1 = (case e of Some e \<Rightarrow> handleErr b e k c | None \<Rightarrow> Forget k c)"
  have 1: "impl_inv c1" "im_active c1 = im_active c" "im_pending c \<subseteq> im_pending c1" "im_now c1 = im_now c"
    "running (im_workQueue c1) = running (im_workQueue c)" "scheduled c k' r \<Longrightarrow> scheduled c1 k' r"
    using assms(1) handleErr_frame [OF assms(1)] by (auto simp: c1_def split: option.split)
  have p: "item_processed b e k c = c1\<lparr>im_workQueue := tl_Done k (im_workQueue c1)\<rparr>" by (simp add: item_processed_def c1_def Let_def)
  have "k \<in> im_active c1" using assms(2) 1(2) by simp
  note d = tl_Done_frame [OF 1(1) this]
  show "impl_inv (item_processed b e k c)" "im_active (item_processed b e k c) = im_active c - {k}"
    "im_pending c \<subseteq> im_pending (item_processed b e k c)" "im_now (item_processed b e k c) = im_now c"
    "running (im_workQueue (item_processed b e k c)) = running (im_workQueue c)"
    "scheduled c k' r \<Longrightarrow> scheduled (item_processed b e k c) k' r"
    unfolding p using 1 d by (simp_all add: scheduled_def)
qed

lemma transient_scheduled:
  assumes "impl_inv c" "running (im_workQueue c)"
  shows "scheduled (item_processed b (Some TransientError) k c) k
    (im_now c + max b (min (5000000 * 2 ^ NumRequeues (im_failures c) k) 1000000000000))"
proof -
  have "0 < max b (min (5000000 * 2 ^ NumRequeues (im_failures c) k) 1000000000000)" by (simp add: less_max_iff_disj)
  from AddAfter_scheduled [OF _ _ this, of "c\<lparr>im_failures := (im_failures c)(k \<mapsto> NumRequeues (im_failures c) k + 1)\<rparr>" k] assms
  have "scheduled (handleErr b TransientError k c) k
      (im_now c + max b (min (5000000 * 2 ^ NumRequeues (im_failures c) k) 1000000000000))"
    by (simp add: handleErr_def AddRateLimited_def MaxOf_delay running_def)
  then show ?thesis by (simp add: item_processed_def scheduled_def Let_def)
qed

text \<open>
  C14: A failed key is retried in time. When a worker ends a key with an error that is not special, then in
  every later state of the queue the key is pending again or scheduled for a time that is at most
  the delay away: twice the one before, from 5 ms up to 1000 s without overflow, or what the
  shared token bucket asks for. When that time has come and the waiting loop has nothing left to do, the
  key is pending. A success resets the delay.
\<close>

theorem failed_key_retried:
  assumes "impl_inv c" "running (im_workQueue c)" "k \<in> im_active c" "n = NumRequeues (im_failures c) k"
    and "due = im_now c + max bucket (min (5000000 * 2 ^ n) 1000000000000)"
    and "impl_step\<^sup>*\<^sup>* (item_processed bucket (Some TransientError) k c) c'"
  shows "(k \<in> im_pending c' \<or> scheduled c' k due) \<and> (loop_idle c' \<longrightarrow> due \<le> im_now c' \<longrightarrow> k \<in> im_pending c') \<and>
    NumRequeues (im_failures (item_processed bucket (Some TransientError) k c)) k = n + 1 \<and>
    NumRequeues (im_failures (item_processed bucket None k c)) k = 0"
proof -
  have "impl_inv c' \<and> (k \<in> im_pending c' \<or> scheduled c' k due)"
    using assms(6)
  proof (induction rule: rtranclp_induct)
    case base
    then show ?case using item_processed_frame(1) [OF assms(1,3)] transient_scheduled [OF assms(1,2)] assms(4,5) by blast
  next
    case (step c1 c2)
    then show ?case using impl_step_frame [OF step(2)] impl_step_scheduled [OF step(2)] by blast
  qed
  moreover have "NumRequeues (im_failures (item_processed bucket (Some TransientError) k c)) k = n + 1"
    using assms(1,2,4) AddAfter_frame(6) [of "c\<lparr>im_failures := f\<rparr>" for f]
    by (simp add: item_processed_def Let_def handleErr_def AddRateLimited_def MaxOf_delay running_def NumRequeues_def)
  moreover have "NumRequeues (im_failures (item_processed bucket None k c)) k = 0"
    by (simp add: item_processed_def Let_def NumRequeues_def)
  ultimately show ?thesis using scheduled_idle [of c' k due] by auto
qed

definition ex_impl :: "string impl" where
  "ex_impl = (new_impl 0)\<lparr>im_workQueue := newTwoLaneWorkQueue\<lparr>tl_consumerQueue := newQueue\<lparr>wq_processing := {''a''}\<rparr>\<rparr>\<rparr>"

theorem failed_key_retried_witness:
  "scheduled (item_processed 0 (Some TransientError) ''a'' ex_impl) ''a'' 5000000"
proof -
  have "impl_inv ex_impl" "running (im_workQueue ex_impl)" "''a'' \<in> im_active ex_impl"
    "0 = NumRequeues (im_failures ex_impl) ''a''" "im_now ex_impl = 0"
    by (simp_all add: ex_impl_def new_impl_def impl_inv_def tl_inv_def newTwoLaneWorkQueue_def lane_inv_def newQueue_def
        wq_inv_def running_def tl_active_def NumRequeues_def)
  note retry = failed_key_retried [OF this(1-4) refl rtranclp.rtrancl_refl, of 0]
  have "im_pending (item_processed 0 (Some TransientError) ''a'' ex_impl) = {}" by code_simp
  then show ?thesis using retry \<open>im_now ex_impl = 0\<close> by simp
qed

end
