(* ===== verification/Workers.thy ===== *)
theory Workers
  imports Events Retry
begin

text \<open>
  The workers of the controller. Several of them run \<^verbatim>\<open>Reconcile\<close> at the same time, for different keys;
  what they share is protected by the mutex of the caches and that of the snapshot cache, but not the
  whole handler. Here a handler is cut into the steps between two critical sections: translating
  the ingress, changing the caches, building the snapshot, handing it to the xDS server, and
  settling the result.
\<close>

section \<open>A handler in steps\<close>

text \<open>
  The handler a worker runs, with the object as it stands, and the step it is about to take. A
  reconciliation also keeps the object from before the update, for the prober.
\<close>

datatype job = NoJob | ReconcileJob IngressObject IngressObject | ObserveJob IngressObject | DeletionJob NamespacedName

datatype pc = ToTranslate | ToStore translatedIngress | ToDelete | ToBuild | ToPush Snapshot | ToSettle "unit res" | Returned "unit res"

definition safeKey :: "NamespacedName \<Rightarrow> string" where
  "safeKey k = (if nn_Namespace k = [] then nn_Name k else nn_Namespace k @ ''/'' @ nn_Name k)"

text \<open>The first part of the generated \<^verbatim>\<open>Reconcile\<close>: which handler to call, or what to return at once.\<close>

definition dispatch ::
  "bool \<Rightarrow> (IngressObject \<Rightarrow> go_error + IngressObject) \<Rightarrow> (string \<Rightarrow> string \<Rightarrow> go_error + IngressObject) \<Rightarrow> string \<Rightarrow> job \<times> pc" where
  "dispatch isLeader prepare lister k =
     (case SplitMetaNamespaceKey k of
        Inl e \<Rightarrow> (NoJob, Returned (Inr ()))
      | Inr (namespace, name) \<Rightarrow>
          (case lister namespace name of
             Inl e \<Rightarrow>
               if IsNotFound e then (DeletionJob \<lparr>nn_Namespace = namespace, nn_Name = name\<rparr>, ToDelete)
               else (NoJob, Returned (Inl (Err e)))
           | Inr original \<Rightarrow>
               if map_of (ing_Annotations (io_Ingress original)) ClassAnnotationKey \<noteq> Some KourierIngressClassName
               then (NoJob, Returned (Inr ()))
               else if io_DeletionTimestamp original = None then
                 (if isLeader then
                    (case prepare original of
                       Inl e \<Rightarrow> (NoJob, Returned (Inl (Err (ErrWrap ''failed to set finalizers'' e))))
                     | Inr resource \<Rightarrow> (ReconcileJob resource resource, ToTranslate))
                  else (ObserveJob original, ToTranslate))
               else if isLeader then (NoJob, Returned (FinalizeKind original))
               else (NoJob, Returned (Inr ()))))"

text \<open>Defaults, probe paths and the translation: the part of \<^verbatim>\<open>updateIngress\<close> before the caches are locked.\<close>

definition translate_step :: "rec_env \<Rightarrow> ctx \<Rightarrow> Ingress \<Rightarrow> rec_state \<Rightarrow> pc \<times> Ingress \<times> rec_state" where
  "translate_step env ctx ing s =
     (case InsertProbe (re_hash env) ing of
        (Inl e, ing) \<Rightarrow> (ToSettle (Inl (Err (ErrWrap ''failed to add knative probe header'' e))), ing, s)
      | (Inr hash, ing) \<Rightarrow>
          (case translateIngress (se_world (re_snap env)) (re_translator env) ctx ing (re_extAuthz env) (rs_tr s) of
             (Inl (Err e), tr) \<Rightarrow> (ToSettle (Inl (Err (ErrWrap ''failed to translate ingress'' e))), ing, s\<lparr>rs_tr := tr\<rparr>)
           | (Inl (Panic p), tr) \<Rightarrow> (ToSettle (Inl (Panic p)), ing, s\<lparr>rs_tr := tr\<rparr>)
           | (Inr None, tr) \<Rightarrow> (ToBuild, ing, s\<lparr>rs_tr := tr\<rparr>)
           | (Inr (Some ti), tr) \<Rightarrow> (ToStore ti, ing, s\<lparr>rs_tr := tr\<rparr>)))"

text \<open>What the handlers make of the result of the update.\<close>

definition settle :: "rec_env \<Rightarrow> int \<Rightarrow> job \<Rightarrow> unit res \<Rightarrow> rec_state \<Rightarrow> (job \<times> pc) \<times> rec_state" where
  "settle env now j r s =
     (case j of
        ReconcileJob before i \<Rightarrow>
          (case r of
             Inl (Panic p) \<Rightarrow> ((j, Returned (Inl (Panic p))), s)
           | Inl (Err e) \<Rightarrow>
               if errors_Is_conflict e
               then ((ReconcileJob before (i\<lparr>io_Status := MarkLoadBalancerFailed (re_sprintf env) now conflictReason
                        (''Ingress rejected: '' @ error_Error e) (io_Status i)\<rparr>), Returned (Inr ())), s)
               else ((ReconcileJob before (i\<lparr>io_Status := MarkIngressNotReady (re_sprintf env) now notReconciledReason
                        (error_Error e) (io_Status i)\<rparr>), Returned (Inl (Err (ErrWrap ''failed to update ingress'' e)))), s)
           | Inr _ \<Rightarrow> (case mark_ready env now before i of (r, i) \<Rightarrow> ((ReconcileJob before i, Returned r), s)))
      | ObserveJob i \<Rightarrow>
          (case r of
             Inl (Panic p) \<Rightarrow> ((j, Returned (Inl (Panic p))), s)
           | Inl (Err e) \<Rightarrow>
               if errors_Is_conflict e then ((j, Returned (Inr ())), s)
               else ((j, Returned (Inl (Err (ErrWrap ''failed to update ingress'' e)))), s)
           | Inr _ \<Rightarrow> ((j, Returned (Inr ())), s))
      | DeletionJob nn \<Rightarrow>
          (case r of
             Inl (Err e) \<Rightarrow> ((j, Returned (Inl (Err (ErrWrap ''failed updating envoy config'' e)))), s)
           | Inl (Panic p) \<Rightarrow> ((j, Returned (Inl (Panic p))), s)
           | Inr _ \<Rightarrow> ((j, Returned (Inr ())), s\<lparr>rs_resyncs := rs_resyncs s + 1\<rparr>))
      | NoJob \<Rightarrow> ((j, Returned r), s))"

fun worker_step :: "rec_env \<Rightarrow> ctx \<Rightarrow> int \<Rightarrow> job \<times> pc \<Rightarrow> rec_state \<Rightarrow> (job \<times> pc) \<times> rec_state" where
  "worker_step env ctx now (ReconcileJob _ i, ToTranslate) s =
     (case SetDefaults (io_Ingress i) of
        Inl f \<Rightarrow> ((ReconcileJob i i, Returned (Inl f)), s)
      | Inr ing \<Rightarrow>
          (case translate_step env ctx ing s of
             (pc, ing', s) \<Rightarrow> ((ReconcileJob (i\<lparr>io_Ingress := ing\<rparr>) (i\<lparr>io_Ingress := ing'\<rparr>), pc), s)))"
| "worker_step env ctx now (ObserveJob i, ToTranslate) s =
     (case SetDefaults (io_Ingress i) of
        Inl f \<Rightarrow> ((ObserveJob i, Returned (Inl f)), s)
      | Inr ing \<Rightarrow> (case translate_step env ctx ing s of (pc, ing', s) \<Rightarrow> ((ObserveJob (i\<lparr>io_Ingress := ing'\<rparr>), pc), s)))"
| "worker_step env ctx now (j, ToStore ti) s =
     (case UpdateIngress now (rs_caches s) ti of
        (Inl f, caches) \<Rightarrow> ((j, ToSettle (Inl f)), s\<lparr>rs_caches := caches\<rparr>)
      | (Inr _, caches) \<Rightarrow> ((j, ToBuild), s\<lparr>rs_caches := caches\<rparr>))"
| "worker_step env ctx now (DeletionJob nn, ToDelete) s =
     (let s = s\<lparr>rs_cancelled := rs_cancelled s @ [nn]\<rparr> in
      case DeleteIngressInfo now (rs_caches s) (nn_Name nn) (nn_Namespace nn) of
        Inl f \<Rightarrow> ((DeletionJob nn, Returned (Inl f)), s)
      | Inr caches \<Rightarrow> ((DeletionJob nn, ToBuild), s\<lparr>rs_caches := caches\<rparr>))"
| "worker_step env ctx now (j, ToBuild) s =
     (case ToEnvoySnapshot (re_snap env) (re_orders env) ctx now (re_version env) (ts_heap (rs_tr s)) (rs_caches s) of
        (Inl f, h) \<Rightarrow> ((j, ToSettle (Inl f)), s\<lparr>rs_tr := (rs_tr s)\<lparr>ts_heap := h\<rparr>\<rparr>)
      | (Inr snapshot, h) \<Rightarrow> ((j, ToPush snapshot), s\<lparr>rs_tr := (rs_tr s)\<lparr>ts_heap := h\<rparr>\<rparr>))"
| "worker_step env ctx now (j, ToPush snapshot) s =
     (let (r, snapshots) = SetSnapshot (re_watchError env) nodeID snapshot (rs_snapshots s)
      in ((j, ToSettle r), s\<lparr>rs_snapshots := snapshots\<rparr>))"
| "worker_step env ctx now (j, ToSettle r) s = settle env now j r s"
| "worker_step env ctx now (j, pc) s = ((j, Returned (Inr ())), s)"

section \<open>A worker alone\<close>

primrec worker_run :: "nat \<Rightarrow> rec_env \<Rightarrow> ctx \<Rightarrow> int \<Rightarrow> job \<times> pc \<Rightarrow> rec_state \<Rightarrow> (job \<times> pc) \<times> rec_state" where
  "worker_run 0 env ctx now jp s = (jp, s)"
| "worker_run (Suc n) env ctx now jp s =
     (case snd jp of
        Returned r \<Rightarrow> (jp, s)
      | _ \<Rightarrow> (case worker_step env ctx now jp s of (jp, s) \<Rightarrow> worker_run n env ctx now jp s))"

lemma run_Returned [simp]: "worker_run n env ctx now (j, Returned r) s = ((j, Returned r), s)"
  by (cases n) simp_all

lemma settle_Returned: "\<exists>j' r' s'. settle env now j r s = ((j', Returned r'), s')"
  by (auto simp: settle_def split: job.split sum.split fault.split prod.split)

lemma run_settle: "worker_run (Suc n) env ctx now (j, ToSettle r) s = settle env now j r s"
proof -
  obtain j' r' s' where "settle env now j r s = ((j', Returned r'), s')" using settle_Returned by metis
  then show ?thesis by simp
qed

text \<open>The steps from building the snapshot on are \<^verbatim>\<open>updateEnvoyConfig\<close>, all of them \<^verbatim>\<open>updateIngress\<close>.\<close>

lemma run_build:
  "worker_run (Suc (Suc (Suc n))) env ctx now (j, ToBuild) s =
     (case updateEnvoyConfig env ctx now s of (r, s) \<Rightarrow> settle env now j r s)"
proof -
  obtain r h where t: "ToEnvoySnapshot (re_snap env) (re_orders env) ctx now (re_version env) (ts_heap (rs_tr s)) (rs_caches s) = (r, h)"
    by fastforce
  show ?thesis
  proof (cases r)
    case (Inl f)
    then show ?thesis using t run_settle [of "Suc n" env ctx now j "Inl f"] by (simp add: updateEnvoyConfig_def del: worker_run.simps) (simp add: t)
  next
    case (Inr snap)
    then show ?thesis using t run_settle [of n env ctx now j] by (simp add: updateEnvoyConfig_def SetSnapshot_def Let_def)
  qed
qed

lemma run_store:
  "worker_run (Suc (Suc (Suc (Suc n)))) env ctx now (j, ToStore ti) s =
     (case UpdateIngress now (rs_caches s) ti of
        (Inl f, caches) \<Rightarrow> settle env now j (Inl f) (s\<lparr>rs_caches := caches\<rparr>)
      | (Inr _, caches) \<Rightarrow> (case updateEnvoyConfig env ctx now (s\<lparr>rs_caches := caches\<rparr>) of (r, s) \<Rightarrow> settle env now j r s))"
proof -
  obtain r c where u: "UpdateIngress now (rs_caches s) ti = (r, c)" by fastforce
  have "worker_run (Suc (Suc (Suc (Suc n)))) env ctx now (j, ToStore ti) s =
      (case worker_step env ctx now (j, ToStore ti) s of (jp, s) \<Rightarrow> worker_run (Suc (Suc (Suc n))) env ctx now jp s)"
    by (simp only: worker_run.simps snd_conv pc.case)
  then show ?thesis using u run_settle run_build by (cases r) (simp_all del: worker_run.simps)
qed

lemma run_translated:
  assumes "translate_step env ctx ing s = (pc, ing', s1)" "updateIngress env ctx now ing s = (r, ing2, s2)"
  shows "ing2 = ing' \<and> worker_run (Suc (Suc (Suc (Suc n)))) env ctx now (j, pc) s1 = settle env now j r s2"
proof -
  obtain pr ing1 where p: "InsertProbe (re_hash env) ing = (pr, ing1)" by fastforce
  obtain tr st where t: "translateIngress (se_world (re_snap env)) (re_translator env) ctx ing1 (re_extAuthz env) (rs_tr s) = (tr, st)"
    by fastforce
  have set: "s\<lparr>rs_caches := rs_caches s, rs_tr := rs_tr s\<rparr> = s" "s\<lparr>rs_caches := rs_caches s, rs_tr := st\<rparr> = s\<lparr>rs_tr := st\<rparr>" by simp_all
  have swap: "s\<lparr>rs_tr := st, rs_caches := c\<rparr> = s\<lparr>rs_caches := c, rs_tr := st\<rparr>" for c by (cases s) simp
  note defs = translate_step_def updateIngress_def UpdateInfoForIngress_def Let_def p
  consider (hash) e where "pr = Inl e" | (err) h e where "pr = Inr h" "tr = Inl (Err e)" | (panic) h q where "pr = Inr h" "tr = Inl (Panic q)"
    | (nil) h where "pr = Inr h" "tr = Inr None" | (found) h ti where "pr = Inr h" "tr = Inr (Some ti)"
    by (metis fault.exhaust not_Some_eq sum.exhaust)
  then show ?thesis
  proof cases
    case hash
    then show ?thesis using assms run_settle by (auto simp: defs set simp del: worker_run.simps)
  next
    case err
    then show ?thesis using assms t run_settle by (auto simp: defs set simp del: worker_run.simps)
  next
    case panic
    then show ?thesis using assms t run_settle by (auto simp: defs set simp del: worker_run.simps)
  next
    case nil
    then show ?thesis
      using assms t run_build [of "Suc n" env ctx now j s1]
      by (auto simp: defs set simp del: worker_run.simps split: prod.splits)
  next
    case found
    then have "pc = ToStore ti" "ing' = ing1" "s1 = s\<lparr>rs_tr := st\<rparr>" using assms(1) t by (auto simp: defs)
    moreover obtain r1 c where "UpdateIngress now (rs_caches s) ti = (r1, c)" by fastforce
    ultimately show ?thesis
      using assms(2) t found unfolding \<open>pc = _\<close> run_store
      by (cases r1) (auto simp: defs swap split: prod.splits)
  qed
qed

lemma five_steps:
  assumes "worker_step env ctx now (j, pc) s = (jp, s1)" "\<And>r. pc \<noteq> Returned r"
  shows "worker_run 5 env ctx now (j, pc) s = worker_run (Suc (Suc (Suc (Suc 0)))) env ctx now jp s1"
proof -
  have five: "5 = Suc (Suc (Suc (Suc (Suc 0))))" by simp
  show ?thesis
    unfolding five worker_run.simps(2) [of "Suc (Suc (Suc (Suc 0)))"] assms(1)
    using assms(2) by (cases pc) (auto simp del: worker_run.simps worker_step.simps)
qed

lemma run_ReconcileKind:
  assumes "ReconcileKind env ctx now i s = (r, i', s')"
  shows "\<exists>j. worker_run 5 env ctx now (ReconcileJob i i, ToTranslate) s = ((j, Returned r), s')"
proof (cases "SetDefaults (io_Ingress i)")
  case (Inl f)
  then show ?thesis using assms by (subst five_steps) (auto simp: ReconcileKind_def simp del: worker_run.simps)
next
  case (Inr ing)
  obtain pc ing' s1 where t: "translate_step env ctx ing s = (pc, ing', s1)" by (metis prod.exhaust)
  obtain r1 ing2 s2 where u: "updateIngress env ctx now ing s = (r1, ing2, s2)" by (metis prod.exhaust)
  note run = run_translated [OF t u]
  have st: "worker_step env ctx now (ReconcileJob i i, ToTranslate) s =
      ((ReconcileJob (i\<lparr>io_Ingress := ing\<rparr>) (i\<lparr>io_Ingress := ing'\<rparr>), pc), s1)" by (simp add: Inr t)
  have "worker_run 5 env ctx now (ReconcileJob i i, ToTranslate) s =
      settle env now (ReconcileJob (i\<lparr>io_Ingress := ing\<rparr>) (i\<lparr>io_Ingress := ing'\<rparr>)) r1 s2"
    by (rule trans [OF five_steps [OF st]]) (use run in \<open>auto simp del: worker_run.simps\<close>)
  then show ?thesis
    using assms run by (auto simp: ReconcileKind_def Inr u settle_def Let_def split: sum.splits fault.splits prod.splits if_splits)
qed

lemma run_ObserveKind:
  assumes "ObserveKind env ctx now i s = (r, i', s')"
  shows "\<exists>j. worker_run 5 env ctx now (ObserveJob i, ToTranslate) s = ((j, Returned r), s')"
proof (cases "SetDefaults (io_Ingress i)")
  case (Inl f)
  then show ?thesis using assms by (subst five_steps) (auto simp: ObserveKind_def simp del: worker_run.simps)
next
  case (Inr ing)
  obtain pc ing' s1 where t: "translate_step env ctx ing s = (pc, ing', s1)" by (metis prod.exhaust)
  obtain r1 ing2 s2 where u: "updateIngress env ctx now ing s = (r1, ing2, s2)" by (metis prod.exhaust)
  note run = run_translated [OF t u]
  have st: "worker_step env ctx now (ObserveJob i, ToTranslate) s = ((ObserveJob (i\<lparr>io_Ingress := ing'\<rparr>), pc), s1)" by (simp add: Inr t)
  have "worker_run 5 env ctx now (ObserveJob i, ToTranslate) s = settle env now (ObserveJob (i\<lparr>io_Ingress := ing'\<rparr>)) r1 s2"
    by (rule trans [OF five_steps [OF st]]) (use run in \<open>auto simp del: worker_run.simps\<close>)
  then show ?thesis
    using assms run by (auto simp: ObserveKind_def Inr u settle_def Let_def split: sum.splits fault.splits prod.splits if_splits)
qed

lemma run_ObserveDeletion:
  assumes "ObserveDeletion env ctx now nn s = (r, s')"
  shows "\<exists>j. worker_run 5 env ctx now (DeletionJob nn, ToDelete) s = ((j, Returned r), s')"
proof (cases "DeleteIngressInfo now (rs_caches s) (nn_Name nn) (nn_Namespace nn)")
  case (Inl f)
  then show ?thesis using assms by (subst five_steps) (auto simp: ObserveDeletion_def Let_def simp del: worker_run.simps)
next
  case (Inr caches)
  let ?s = "s\<lparr>rs_cancelled := rs_cancelled s @ [nn], rs_caches := caches\<rparr>"
  have st: "worker_step env ctx now (DeletionJob nn, ToDelete) s = ((DeletionJob nn, ToBuild), ?s)" by (simp add: Inr Let_def)
  have "worker_run 5 env ctx now (DeletionJob nn, ToDelete) s =
      (case updateEnvoyConfig env ctx now ?s of (r, s) \<Rightarrow> settle env now (DeletionJob nn) r s)"
    by (rule trans [OF five_steps [OF st]]) (simp_all only: run_build pc.distinct not_False_eq_True)
  then show ?thesis
    using assms by (auto simp: ObserveDeletion_def Inr settle_def Let_def split: sum.splits fault.splits prod.splits)
qed

text \<open>
  A worker that is not interrupted does what the handlers do. Whatever key it takes and whatever the
  lister, the translator and the API answer, five steps bring it to its return, and then the
  result and the state of the process are those of \<^verbatim>\<open>Reconcile\<close>.
\<close>

lemma worker_alone:
  "\<exists>j. worker_run 5 env ctx now (dispatch isLeader prepare lister k) s =
     ((j, Returned (fst (Reconcile env ctx now isLeader prepare lister k s))), snd (Reconcile env ctx now isLeader prepare lister k s))"
proof -
  obtain r s' where rec: "Reconcile env ctx now isLeader prepare lister k s = (r, s')" by fastforce
  then have "(\<exists>j. dispatch isLeader prepare lister k = (j, Returned r) \<and> s' = s) \<or>
      (\<exists>nn. dispatch isLeader prepare lister k = (DeletionJob nn, ToDelete) \<and> ObserveDeletion env ctx now nn s = (r, s')) \<or>
      (\<exists>i i'. dispatch isLeader prepare lister k = (ReconcileJob i i, ToTranslate) \<and> ReconcileKind env ctx now i s = (r, i', s')) \<or>
      (\<exists>i i'. dispatch isLeader prepare lister k = (ObserveJob i, ToTranslate) \<and> ObserveKind env ctx now i s = (r, i', s'))"
    unfolding Reconcile_def dispatch_def by (auto split: sum.split_asm prod.split_asm if_split_asm)
  then show ?thesis
    unfolding rec fst_conv snd_conv
    by (elim disjE exE conjE) (auto intro: run_ReconcileKind run_ObserveKind run_ObserveDeletion simp del: worker_run.simps)
qed

end
