(* ===== verification/Config_Props.thy ===== *)
theory Config_Props
  imports Kourier_Config
begin

text \<open>
  Properties of the configuration: the parsed \<^verbatim>\<open>config-kourier\<close> ConfigMap key by key, and the port
  of the external authorization service.
\<close>

section \<open>The ConfigMap\<close>

text \<open>What one key contributes: its default when it is absent, otherwise its parsed value.\<close>

definition parsed :: "(string \<Rightarrow> go_error + 'a) \<Rightarrow> 'a \<Rightarrow> string gomap \<Rightarrow> string \<Rightarrow> 'a \<Rightarrow> bool" where
  "parsed p d m key v \<longleftrightarrow> (case map_of m key of None \<Rightarrow> v = d | Some raw \<Rightarrow> p raw = Inr v)"

text \<open>The tracing section an endpoint stands for, with the port as the number that was written.\<close>

definition tracing_ok :: "uri_parser \<Rightarrow> string \<Rightarrow> Tracing \<Rightarrow> bool" where
  "tracing_ok parseURI raw tr \<longleftrightarrow> tr_Enabled tr \<and>
     (\<exists>port. parseURI (''scheme://'' @ raw) = Inr (tr_CollectorHost tr, port, tr_CollectorEndpoint tr) \<and>
        strconv_ParseUint port 32 = Inr (unat (tr_CollectorPort tr)))"

lemma port_16:
  fixes w :: "16 word"
  shows "n \<le> 65535 \<Longrightarrow> unat (of_nat n :: 16 word) = n" "unat w \<le> 65535" "of_nat (unat w) = w"
  using unsigned_less [of w, where ?'a = nat] by (simp_all add: unsigned_of_nat take_bit_nat_eq_self)

lemma asTracing_Some:
  assumes "map_of m key = Some raw" "raw \<noteq> []"
  shows "asTracing parseURI key m nc = Inr k \<longleftrightarrow> k = nc\<lparr>kTracing := kTracing k\<rparr> \<and> tracing_ok parseURI raw (kTracing k)"
proof (cases "\<exists>host port path n. parseURI (''scheme://'' @ raw) = Inr (host, port, path) \<and>
    strconv_ParseUint port 32 = Inr n \<and> n \<le> 65535")
  case True
  then obtain host port path n where u: "parseURI (''scheme://'' @ raw) = Inr (host, port, path)"
    "strconv_ParseUint port 32 = Inr n" "n \<le> 65535" by blast
  have "kTracing k = \<lparr>tr_Enabled = True, tr_CollectorHost = host, tr_CollectorPort = of_nat n,
      tr_CollectorEndpoint = path\<rparr> \<longleftrightarrow> tracing_ok parseURI raw (kTracing k)"
    using u port_16(1) [OF u(3)] port_16(3)
    by (cases "kTracing k") (auto simp: tracing_ok_def)
  moreover have "asTracing parseURI key m nc = Inr (nc\<lparr>kTracing := \<lparr>tr_Enabled = True, tr_CollectorHost = host,
      tr_CollectorPort = of_nat n, tr_CollectorEndpoint = path\<rparr>\<rparr>)"
    using assms u by (simp add: asTracing_def)
  ultimately show ?thesis by (metis Kourier.select_convs(8) Kourier.surjective Kourier.update_convs(8) sum.inject(2))
next
  case False
  then have "\<not> tracing_ok parseURI raw (kTracing k)"
    using port_16(2) by (auto simp: tracing_ok_def)
  moreover have "asTracing parseURI key m nc \<noteq> Inr k"
    using False assms by (auto simp: asTracing_def split: sum.splits prod.splits if_splits)
  ultimately show ?thesis by simp
qed

definition tracing_field :: "uri_parser \<Rightarrow> Tracing \<Rightarrow> string gomap \<Rightarrow> string \<Rightarrow> Tracing \<Rightarrow> bool" where
  "tracing_field parseURI old m key tr \<longleftrightarrow>
     (case map_of m key of None \<Rightarrow> tr = old
      | Some raw \<Rightarrow> if raw = [] then tr = old else tracing_ok parseURI raw tr)"

lemma asTracing_field:
  "asTracing parseURI key m nc = Inr k \<longleftrightarrow>
     (\<exists>tr. tracing_field parseURI (kTracing nc) m key tr \<and> k = nc\<lparr>kTracing := tr\<rparr>)"
proof (cases "\<exists>raw. map_of m key = Some raw \<and> raw \<noteq> []")
  case True
  then obtain raw where "map_of m key = Some raw" "raw \<noteq> []" by blast
  then show ?thesis by (cases nc; cases k) (auto simp: asTracing_Some tracing_field_def)
next
  case False
  then show ?thesis by (auto simp: asTracing_def tracing_field_def split: option.splits)
qed

text \<open>
  A parser as a relation on its target field: when writing the old value back changes nothing,
  the parser writes some value that its key contributes.
\<close>

lemma AsBool_parsed:
  "target (sel nc) nc = nc \<Longrightarrow> AsBool key target m nc = Inr k \<longleftrightarrow>
     (\<exists>v. parsed strconv_ParseBool (sel nc) m key v \<and> k = target v nc)"
  by (auto simp: AsBool_def parsed_def go_simps split: option.split)

lemma AsString_parsed:
  "target (sel nc) nc = nc \<Longrightarrow> AsString key target m nc = Inr k \<longleftrightarrow>
     (\<exists>v. parsed Inr (sel nc) m key v \<and> k = target v nc)"
  by (auto simp: AsString_def parsed_def split: option.split)

lemma AsDuration_parsed:
  "target (sel nc) nc = nc \<Longrightarrow> AsDuration pd key target m nc = Inr k \<longleftrightarrow>
     (\<exists>v. parsed pd (sel nc) m key v \<and> k = target v nc)"
  by (auto simp: AsDuration_def parsed_def split: option.split sum.splits)

lemma AsStringSet_parsed:
  "target (sel nc) nc = nc \<Longrightarrow> AsStringSet key target m nc = Inr k \<longleftrightarrow>
     (\<exists>v. parsed (\<lambda>raw. Inr (set (map strings_TrimSpace (strings_Split raw CHR '','')))) (sel nc) m key v \<and>
       k = target v nc)"
  by (auto simp: AsStringSet_def parsed_def split: option.split)

lemma ParseUint32: "strconv_ParseUint raw 32 = Inr n \<Longrightarrow> unat (of_nat n :: 32 word) = n"
  by (auto simp: strconv_ParseUint_def unsigned_of_nat take_bit_nat_eq_self split: if_splits)

lemma AsUint32_parsed:
  assumes "target (sel nc) nc = nc"
  shows "AsUint32 key target m nc = Inr k \<longleftrightarrow>
     (\<exists>v. parsed (\<lambda>raw. strconv_ParseUint raw 32) (unat (sel nc)) m key (unat v) \<and> k = target v nc)"
proof (cases "map_of m key")
  case None
  then show ?thesis using assms by (auto simp: AsUint32_def parsed_def dest: word_unat_eq_iff [THEN iffD2])
next
  case (Some raw)
  then show ?thesis
    by (cases "strconv_ParseUint raw 32") (auto simp: AsUint32_def parsed_def, metis ParseUint32)
qed

lemma ex_written: "(\<exists>a. (\<exists>v. P v \<and> a = f v) \<and> Q a) \<longleftrightarrow> (\<exists>v. P v \<and> Q (f v))"
  by blast

lemmas field_parsers =
  AsBool_parsed [of "\<lambda>v nc. nc\<lparr>EnableServiceAccessLogging := v\<rparr>" EnableServiceAccessLogging]
  AsBool_parsed [of "\<lambda>v nc. nc\<lparr>EnableProxyProtocol := v\<rparr>" EnableProxyProtocol]
  AsString_parsed [of "\<lambda>v nc. nc\<lparr>ClusterCertSecret := v\<rparr>" ClusterCertSecret]
  AsDuration_parsed [of "\<lambda>v nc. nc\<lparr>IdleTimeout := v\<rparr>" IdleTimeout]
  AsUint32_parsed [of "\<lambda>v nc. nc\<lparr>TrustedHopsCount := v\<rparr>" TrustedHopsCount]
  AsStringSet_parsed [of "\<lambda>v nc. nc\<lparr>CipherSuites := v\<rparr>" CipherSuites]
  AsBool_parsed [of "\<lambda>v nc. nc\<lparr>EnableCryptoMB := v\<rparr>" EnableCryptoMB]

text \<open>
  \<^verbatim>\<open>NewConfigFromMap\<close> key by key: it returns a configuration exactly when every key that is
  present parses, and each field is then the parsed value of its own key, or the default when the
  key is absent; the port of the tracing collector is the number that was written, at most 65535.
\<close>

lemma NewConfigFromMap_fields:
  "NewConfigFromMap parseDuration parseURI m = Inr k \<longleftrightarrow>
     parsed strconv_ParseBool True m ''enable-service-access-logging'' (EnableServiceAccessLogging k) \<and>
     parsed strconv_ParseBool False m ''enable-proxy-protocol'' (EnableProxyProtocol k) \<and>
     parsed Inr [] m ''cluster-cert-secret'' (ClusterCertSecret k) \<and>
     parsed parseDuration 0 m ''stream-idle-timeout'' (IdleTimeout k) \<and>
     parsed (\<lambda>raw. strconv_ParseUint raw 32) 0 m ''trusted-hops-count'' (unat (TrustedHopsCount k)) \<and>
     parsed (\<lambda>raw. Inr (set (map strings_TrimSpace (strings_Split raw CHR '','')))) {} m ''cipher-suites'' (CipherSuites k) \<and>
     parsed strconv_ParseBool False m ''enable-cryptomb'' (EnableCryptoMB k) \<and>
     tracing_field parseURI no_tracing m ''tracing-collector-full-endpoint'' (kTracing k)"
  unfolding NewConfigFromMap_def cm_Parse_def kourier_parsers_def foldM.simps bindr_Inr_iff asTracing_field
  by (cases k) (simp add: field_parsers ex_written DefaultConfig_def)

section \<open>External authorization\<close>

definition cluster_ports :: "Cluster \<Rightarrow> 32 word list" where
  "cluster_ports c = map (\<lambda>lb. sa_PortValue (lbe_SocketAddress lb)) (concat (cla_Endpoints (cl_LoadAssignment c)))"

text \<open>
  The port of the external authorization service: when start-up succeeds with a configured
  host, the host splits into an address and a port that is a number of at most 65535, and the
  cluster uses that number modulo \<open>2 ^ 32\<close>. There is no lower bound: a negative port is accepted
  and wraps around.
\<close>

lemma ext_authz_port:
  assumes "ext_authz_init mar process env = Inr c" "os_Getenv env ''KOURIER_EXTAUTHZ_HOST'' \<noteq> []"
  shows "ea_Enabled c \<and> (\<exists>conf host portStr port cl. process env = Inr conf \<and>
    isValidExtAuthzProtocol (env_Protocol conf) \<and>
    net_SplitHostPort (env_Host conf) = Inr (host, portStr) \<and> strconv_Atoi portStr = Inr port \<and>
    port \<le> 65535 \<and> ea_Cluster c = Some cl \<and> map uint (cluster_ports cl) = [port mod 2 ^ 32])"
  using assms
  by (auto simp: ext_authz_init_def go_simps unixMaxPort_def extAuthzCluster_def Let_def cluster_ports_def
      unsigned_of_int take_bit_eq_mod split: sum.splits prod.splits if_splits)

definition ex_authz_env :: "string \<Rightarrow> extauthz_env" where
  "ex_authz_env host = \<lparr>env_Host = host, env_FailureModeAllow = False, env_MaxRequestBytes = 8192,
     env_Timeout = 2000, env_Protocol = ''grpc'', env_PackAsBytes = False, env_PathPrefix = []\<rparr>"

definition ex_authz :: ExternalAuthzConfig where
  "ex_authz = projr (ext_authz_init (\<lambda>_. None) (\<lambda>_. Inr (ex_authz_env ''h:-1'')) (\<lambda>_. Some ''h:-1''))"

end
