(* ===== verification/Config_Store.thy ===== *)
theory Config_Store
  imports Config_Props
begin

text \<open>
  The configuration store of \<^verbatim>\<open>pkg/reconciler/ingress/config/store.go\<close> over the untyped store of
  \<^verbatim>\<open>knative.dev/pkg/configmap\<close>, the generated deep copy of the configuration, and the label selector
  of the secret informer from \<^verbatim>\<open>pkg/reconciler/informerfiltering\<close>.
\<close>

section \<open>Deep copies\<close>

text \<open>The fields are values, except for the cipher suites, which are copied key by key.\<close>

definition Kourier_DeepCopyInto :: "Kourier \<Rightarrow> Kourier" where
  "Kourier_DeepCopyInto k =
     (let out = k; out = out\<lparr>CipherSuites := (\<Union>key \<in> CipherSuites k. {key})\<rparr> in out\<lparr>kTracing := kTracing k\<rparr>)"

definition Kourier_DeepCopy :: "Kourier option \<Rightarrow> Kourier option" where
  "Kourier_DeepCopy k = (case k of None \<Rightarrow> None | Some k \<Rightarrow> Some (Kourier_DeepCopyInto k))"

lemma Kourier_DeepCopy_eq [simp]: "Kourier_DeepCopy k = k"
  by (simp add: Kourier_DeepCopy_def Kourier_DeepCopyInto_def Let_def split: option.split)

section \<open>The store\<close>

definition KourierConfigName :: string where "KourierConfigName = ''config-kourier''"
definition NetworkConfigMapName :: string where "NetworkConfigMapName = ''config-network''"

text \<open>
  The atomic value of each of the two ConfigMaps, \<^verbatim>\<open>nil\<close> until the first one is stored, and the names
  the callbacks \<^verbatim>\<open>onAfterStore\<close> were called with; the callback of the controller enqueues all ingresses
  of its class.
\<close>

record Store =
  store_Kourier :: "Kourier option"
  store_Network :: "NetworkConfig option"
  store_notified :: "string list"

definition NewStore :: Store where
  "NewStore = \<lparr>store_Kourier = None, store_Network = None, store_notified = []\<rparr>"

text \<open>The constructors: that of the network configuration is a parameter.\<close>

record constructors =
  ct_Kourier :: "ConfigMap \<Rightarrow> go_error + Kourier"
  ct_Network :: "ConfigMap \<Rightarrow> go_error + NetworkConfig"

definition kourier_constructors ::
  "(string \<Rightarrow> go_error + int) \<Rightarrow> uri_parser \<Rightarrow> (ConfigMap \<Rightarrow> go_error + NetworkConfig) \<Rightarrow> constructors" where
  "kourier_constructors parseDuration parseURI network =
     \<lparr>ct_Kourier = NewConfigFromConfigMap parseDuration parseURI, ct_Network = network\<rparr>"

text \<open>
  Storing a constructed value with \<open>put\<close>: an error is fatal while nothing is stored, and otherwise
  it is logged and what is stored stays.
\<close>

definition store_value ::
  "string \<Rightarrow> 'a option \<Rightarrow> ('a option \<Rightarrow> Store \<Rightarrow> Store) \<Rightarrow> go_error + 'a \<Rightarrow> Store \<Rightarrow> Store res" where
  "store_value name stored put result s =
     (case result of
        Inl e \<Rightarrow> (case stored of Some _ \<Rightarrow> Inr s | None \<Rightarrow> Inl (Err (ErrWrap (''Error initializing kourier config '' @ name) e)))
      | Inr v \<Rightarrow> Inr ((put (Some v) s)\<lparr>store_notified := store_notified s @ [name]\<rparr>))"

text \<open>A change of a ConfigMap, by its name; calling the constructor of an unknown name panics.\<close>

definition OnConfigChanged :: "constructors \<Rightarrow> Store \<Rightarrow> string \<times> ConfigMap \<Rightarrow> Store res" where
  "OnConfigChanged ct s name_c =
     (let (name, c) = name_c in
      if name = KourierConfigName
      then store_value name (store_Kourier s) (\<lambda>v s. s\<lparr>store_Kourier := v\<rparr>) (ct_Kourier ct c) s
      else if name = NetworkConfigMapName
      then store_value name (store_Network s) (\<lambda>v s. s\<lparr>store_Network := v\<rparr>) (ct_Network ct c) s
      else Inl (Panic (PanicMsg ''reflect: call of reflect.Value.Call on zero Value'')))"

text \<open>\<^verbatim>\<open>Load\<close> asserts the types of the stored values, which panics on nil, and copies them.\<close>

definition Load :: "Store \<Rightarrow> Config res" where
  "Load s =
     bindr (deref (Kourier_DeepCopy (store_Kourier s))) (\<lambda>k.
     bindr (deref (store_Network s)) (\<lambda>n. Inr \<lparr>cfg_Kourier = k, cfg_Network = n\<rparr>))"

definition Store_ToContext :: "Store \<Rightarrow> ctx \<Rightarrow> ctx res" where
  "Store_ToContext s ctx = bindr (Load s) (\<lambda>c. Inr (ToContext ctx c))"

section \<open>The last valid configuration\<close>

text \<open>The value of the last ConfigMap of a name that can be constructed.\<close>

primrec last_valid :: "(ConfigMap \<Rightarrow> go_error + 'a) \<Rightarrow> string \<Rightarrow> (string \<times> ConfigMap) list \<Rightarrow> 'a option" where
  "last_valid construct name [] = None"
| "last_valid construct name (e # es) =
     (case last_valid construct name es of
        Some v \<Rightarrow> Some v
      | None \<Rightarrow> if fst e = name then (case construct (snd e) of Inr v \<Rightarrow> Some v | Inl _ \<Rightarrow> None) else None)"

lemma last_valid_snoc:
  "last_valid construct name (es @ [e]) =
     (if fst e = name \<and> isr (construct (snd e)) then Some (projr (construct (snd e))) else last_valid construct name es)"
  by (induction es) (auto split: sum.split option.split)

text \<open>The changes of which the callbacks are told.\<close>

definition event_valid :: "constructors \<Rightarrow> string \<times> ConfigMap \<Rightarrow> bool" where
  "event_valid ct e \<longleftrightarrow>
     (if fst e = KourierConfigName then isr (ct_Kourier ct (snd e)) else isr (ct_Network ct (snd e)))"

definition valid_events :: "constructors \<Rightarrow> (string \<times> ConfigMap) list \<Rightarrow> string list" where
  "valid_events ct events = map fst (filter (event_valid ct) events)"

lemma valid_events_snoc:
  "valid_events ct (es @ [e]) = valid_events ct es @ (if event_valid ct e then [fst e] else [])"
  by (simp add: valid_events_def)

lemma store_events:
  "foldM (OnConfigChanged ct) NewStore events = Inr s \<Longrightarrow>
    s = \<lparr>store_Kourier = last_valid (ct_Kourier ct) KourierConfigName events,
         store_Network = last_valid (ct_Network ct) NetworkConfigMapName events,
         store_notified = valid_events ct events\<rparr>"
proof (induction events arbitrary: s rule: rev_induct)
  case Nil
  then show ?case by (simp add: NewStore_def valid_events_def)
next
  case (snoc e es)
  then obtain s1 where "foldM (OnConfigChanged ct) NewStore es = Inr s1" and st: "OnConfigChanged ct s1 e = Inr s"
    by (auto simp: foldM_append go_simps)
  with snoc.IH have s1: "s1 = \<lparr>store_Kourier = last_valid (ct_Kourier ct) KourierConfigName es,
      store_Network = last_valid (ct_Network ct) NetworkConfigMapName es, store_notified = valid_events ct es\<rparr>" by blast
  have "KourierConfigName \<noteq> NetworkConfigMapName" by (simp add: KourierConfigName_def NetworkConfigMapName_def)
  then show ?case
    using st unfolding s1 last_valid_snoc valid_events_snoc
    by (cases e) (auto simp: OnConfigChanged_def store_value_def event_valid_def split: if_splits sum.splits option.splits)
qed

text \<open>
  C35: The store serves the last valid configuration. After any changes of the ConfigMaps that did not
  end the process, each of the two stored values comes from the last ConfigMap of its name that
  could be parsed: an invalid one changes nothing and tells nobody. The reconciler's context
  carries exactly these values, and loading panics while one of them was never valid.
\<close>

theorem store_last_valid:
  assumes "foldM (OnConfigChanged (kourier_constructors parseDuration parseURI network)) NewStore events = Inr s"
  shows "store_notified s = valid_events (kourier_constructors parseDuration parseURI network) events \<and>
    (case (last_valid (NewConfigFromConfigMap parseDuration parseURI) KourierConfigName events,
           last_valid network NetworkConfigMapName events) of
       (Some k, Some n) \<Rightarrow> Store_ToContext s ctx = Inr (Some \<lparr>cfg_Kourier = k, cfg_Network = n\<rparr>)
     | _ \<Rightarrow> Store_ToContext s ctx = Inl (Panic NilDereference))"
  unfolding store_events [OF assms]
  by (simp add: kourier_constructors_def Store_ToContext_def Load_def ToContext_def deref_def split: option.split)

definition ex_events :: "(string \<times> ConfigMap) list" where
  "ex_events = [(KourierConfigName, \<lparr>cmap_Data = [(''enable-proxy-protocol'', ''true'')]\<rparr>),
     (NetworkConfigMapName, \<lparr>cmap_Data = []\<rparr>),
     (KourierConfigName, \<lparr>cmap_Data = [(''enable-proxy-protocol'', ''maybe'')]\<rparr>)]"

definition ex_constructors :: constructors where
  "ex_constructors = kourier_constructors (\<lambda>_. Inl (ErrNew ''duration'')) (\<lambda>_. Inl (ErrNew ''uri'')) (\<lambda>_. Inr defaultConfig)"

theorem store_last_valid_witness:
  "\<exists>s. foldM (OnConfigChanged ex_constructors) NewStore ex_events = Inr s \<and>
     store_notified s = [KourierConfigName, NetworkConfigMapName] \<and>
     Store_ToContext s None = Inr (Some \<lparr>cfg_Kourier = DefaultConfig\<lparr>EnableProxyProtocol := True\<rparr>, cfg_Network = defaultConfig\<rparr>)"
proof -
  have "isr (foldM (OnConfigChanged ex_constructors) NewStore ex_events)" by code_simp
  then obtain s where s: "foldM (OnConfigChanged ex_constructors) NewStore ex_events = Inr s"
    by (cases "foldM (OnConfigChanged ex_constructors) NewStore ex_events") auto
  have "last_valid (NewConfigFromConfigMap (\<lambda>_. Inl (ErrNew ''duration'')) (\<lambda>_. Inl (ErrNew ''uri''))) KourierConfigName ex_events =
      Some (DefaultConfig\<lparr>EnableProxyProtocol := True\<rparr>)"
    "last_valid (\<lambda>_. Inr defaultConfig) NetworkConfigMapName ex_events = Some defaultConfig"
    "valid_events ex_constructors ex_events = [KourierConfigName, NetworkConfigMapName]"
    by code_simp+
  then show ?thesis
    using store_last_valid [OF s [unfolded ex_constructors_def], of None] s by (auto simp: ex_constructors_def)
qed

section \<open>The label selector of the secret informer\<close>

definition EnableSecretInformerFilteringByCertUIDEnv :: string where
  "EnableSecretInformerFilteringByCertUIDEnv = ''ENABLE_SECRET_INFORMER_FILTERING_BY_CERT_UID''"

definition CertificateUIDLabelKey :: string where
  "CertificateUIDLabelKey = ''networking.internal.knative.dev/certificate-uid''"

text \<open>A value that cannot be parsed counts as false.\<close>

definition ShouldFilterByCertificateUID :: "environ \<Rightarrow> bool" where
  "ShouldFilterByCertificateUID env =
     (let enable = os_Getenv env EnableSecretInformerFilteringByCertUIDEnv in
      if enable \<noteq> [] then (case strconv_ParseBool enable of Inl _ \<Rightarrow> False | Inr b \<Rightarrow> b) else False)"

text \<open>The context with the selectors, and the selector \<^verbatim>\<open>getSecretInformer\<close> takes from it.\<close>

definition GetContextWithFilteringLabelSelector :: "environ \<Rightarrow> string list option \<Rightarrow> string list option" where
  "GetContextWithFilteringLabelSelector env ctx =
     (if ShouldFilterByCertificateUID env then Some [CertificateUIDLabelKey] else Some [[]])"

definition getSecretInformer :: "string list option \<Rightarrow> string res" where
  "getSecretInformer ctx = bindr (deref ctx) (\<lambda>untyped. index_get untyped 0)"

text \<open>In the context of \<^verbatim>\<open>main\<close> there always is a selector, so \<^verbatim>\<open>getSecretInformer\<close> never panics.\<close>

lemma getSecretInformer_main:
  "getSecretInformer (GetContextWithFilteringLabelSelector env ctx) =
     Inr (if ShouldFilterByCertificateUID env then CertificateUIDLabelKey else [])"
  by (simp add: getSecretInformer_def GetContextWithFilteringLabelSelector_def deref_def index_get_def)

end
