(* ===== verification/Xds_Cache.thy ===== *)
theory Xds_Cache
  imports Controller
begin

text \<open>
  The snapshot cache behind the xDS server: \<^verbatim>\<open>simple.go\<close>, \<^verbatim>\<open>snapshot.go\<close>, \<^verbatim>\<open>resource.go\<close> and
  \<^verbatim>\<open>status.go\<close> of the vendored \<^verbatim>\<open>go-control-plane/pkg/cache/v3\<close>, which \<^verbatim>\<open>NewXdsServer\<close> creates and
  \<^verbatim>\<open>SetSnapshot\<close> fills. A gateway asks for the resources of a type; the cache answers into a channel,
  or keeps the request as an open watch that a later snapshot answers.

  The channels live in a store, since the cache and the stream that waits on a channel share it.
  Every channel is made with capacity 1; sending to a full one blocks for ever, because all calls
  pass \<^verbatim>\<open>context.Background()\<close>, and a call that blocks has the result \<open>Inl Blocked\<close>. The gateways use
  the state-of-the-world protocol (\<^verbatim>\<open>api_type: GRPC\<close> of their bootstrap configuration), so there are no delta watches.
\<close>

section \<open>Types of resources\<close>

definition APITypePrefix :: string where "APITypePrefix = ''type.googleapis.com/''"
definition EndpointType :: string where
  "EndpointType = APITypePrefix @ ''envoy.config.endpoint.v3.ClusterLoadAssignment''"
definition ClusterType :: string where "ClusterType = APITypePrefix @ ''envoy.config.cluster.v3.Cluster''"
definition RouteType :: string where "RouteType = APITypePrefix @ ''envoy.config.route.v3.RouteConfiguration''"
definition ListenerType :: string where "ListenerType = APITypePrefix @ ''envoy.config.listener.v3.Listener''"
definition resource_AnyType :: string where "resource_AnyType = []"

lemma types_distinct [simp]: "distinct [ClusterType, RouteType, ListenerType, EndpointType, resource_AnyType]"
  by code_simp

lemma types_distinct_simps [simp]:
  "ClusterType \<noteq> RouteType" "ClusterType \<noteq> ListenerType" "RouteType \<noteq> ListenerType"
  "RouteType \<noteq> ClusterType" "ListenerType \<noteq> ClusterType" "ListenerType \<noteq> RouteType"
  "ClusterType \<noteq> []" "RouteType \<noteq> []" "ListenerType \<noteq> []"
  using types_distinct by (auto simp: resource_AnyType_def)

datatype Resource = ResCluster Cluster | ResRoute RouteConfiguration | ResListener Listener

text \<open>
  \<^verbatim>\<open>GetResourcesAndTTL\<close> and \<^verbatim>\<open>GetVersion\<close>: the control plane fills the slots of clusters, routes and
  listeners; every other slot of the snapshot is empty and has the empty version.
\<close>

definition GetResourcesAndTTL :: "Snapshot \<Rightarrow> string \<Rightarrow> Resource gomap" where
  "GetResourcesAndTTL s typeURL =
     (if typeURL = ClusterType then map (map_prod id ResCluster) (sn_clusters s)
      else if typeURL = RouteType then map (map_prod id ResRoute) (sn_routes s)
      else if typeURL = ListenerType then map (map_prod id ResListener) (sn_listeners s)
      else [])"

definition GetVersion :: "Snapshot \<Rightarrow> string \<Rightarrow> string" where
  "GetVersion s typeURL = (if typeURL \<in> {ClusterType, RouteType, ListenerType} then sn_version s else [])"

section \<open>Requests, responses and channels\<close>

record DiscoveryRequest =
  rq_Node :: "string option"
  rq_TypeUrl :: string
  rq_VersionInfo :: string
  rq_ResourceNames :: "string list"
  rq_ResponseNonce :: string
  rq_ErrorDetail :: "ErrorDetail option"

record RawResponse =
  rp_Request :: DiscoveryRequest
  rp_Version :: string
  rp_Resources :: "Resource list"
  rp_Heartbeat :: bool

text \<open>The identifier of a node, \<^verbatim>\<open>IDHash\<close>: a nil node has the empty identifier.\<close>

definition IDHash_ID :: "string option \<Rightarrow> string" where
  "IDHash_ID node = (case node of None \<Rightarrow> [] | Some i \<Rightarrow> i)"

datatype block = Blocked

type_synonym chan_store = "RawResponse option list"

definition chan_send :: "nat \<Rightarrow> RawResponse \<Rightarrow> chan_store \<Rightarrow> block + chan_store" where
  "chan_send ch r chans = (case chans ! ch of None \<Rightarrow> Inr (chans[ch := Some r]) | Some _ \<Rightarrow> Inl Blocked)"

section \<open>The state of the cache\<close>

record ResponseWatch =
  rw_Request :: DiscoveryRequest
  rw_Response :: nat

record statusInfo =
  si_node :: "string option"
  si_watches :: "(64 word \<times> ResponseWatch) list"
  si_lastWatchRequestTime :: int

record snapshotCache =
  sc_watchCount :: "64 word"
  sc_ads :: bool
  sc_snapshots :: "(string \<times> Snapshot) list"
  sc_status :: "(string \<times> statusInfo) list"

definition newSnapshotCache :: "bool \<Rightarrow> snapshotCache" where
  "newSnapshotCache ads = \<lparr>sc_watchCount = 0, sc_ads = ads, sc_snapshots = [], sc_status = []\<rparr>"

definition newStatusInfo :: "string option \<Rightarrow> statusInfo" where
  "newStatusInfo node = \<lparr>si_node = node, si_watches = [], si_lastWatchRequestTime = 0\<rparr>"

text \<open>The orders in which the watches of a node and the resources of a type are visited.\<close>

record cache_orders =
  co_watches :: "(64 word \<times> ResponseWatch) list \<Rightarrow> (64 word \<times> ResponseWatch) list"
  co_resources :: "(string \<times> Resource) list \<Rightarrow> (string \<times> Resource) list"

section \<open>Responding\<close>

definition superset :: "string list \<Rightarrow> Resource gomap \<Rightarrow> bool" where
  "superset names resources = list_all (\<lambda>(name, _). name \<in> set names) resources"

definition createResponse ::
  "cache_orders \<Rightarrow> DiscoveryRequest \<Rightarrow> Resource gomap \<Rightarrow> string \<Rightarrow> bool \<Rightarrow> RawResponse" where
  "createResponse ords request resources version heartbeat =
     (let filtered =
        (if rq_ResourceNames request \<noteq> []
         then map snd (filter (\<lambda>(name, _). name \<in> set (rq_ResourceNames request)) (co_resources ords resources))
         else map snd (co_resources ords resources))
      in \<lparr>rp_Request = request, rp_Version = version, rp_Resources = filtered, rp_Heartbeat = heartbeat\<rparr>)"

text \<open>
  In ADS mode a request that names resources is answered only when it names all of them; otherwise
  \<^verbatim>\<open>respond\<close> returns without an error and without an answer.
\<close>

definition respond ::
  "cache_orders \<Rightarrow> bool \<Rightarrow> DiscoveryRequest \<Rightarrow> nat \<Rightarrow> Resource gomap \<Rightarrow> string \<Rightarrow> bool \<Rightarrow> chan_store \<Rightarrow>
   block + chan_store" where
  "respond ords ads request value resources version heartbeat chans =
     (if rq_ResourceNames request \<noteq> [] \<and> ads \<and> \<not> superset (rq_ResourceNames request) resources
      then Inr chans
      else chan_send value (createResponse ords request resources version heartbeat) chans)"

section \<open>Operations\<close>

text \<open>The body of the loop over the open watches; the loop variables are the watches and the channels.\<close>

definition answer_watch ::
  "cache_orders \<Rightarrow> bool \<Rightarrow> Snapshot \<Rightarrow> (64 word \<times> ResponseWatch) list \<times> chan_store \<Rightarrow>
   64 word \<times> ResponseWatch \<Rightarrow> block + (64 word \<times> ResponseWatch) list \<times> chan_store" where
  "answer_watch ords ads snapshot acc id_watch =
     (let (watches, chans) = acc; (id, watch) = id_watch; request = rw_Request watch;
          version = GetVersion snapshot (rq_TypeUrl request)
      in if version \<noteq> rq_VersionInfo request
         then bindr (respond ords ads request (rw_Response watch)
                (GetResourcesAndTTL snapshot (rq_TypeUrl request)) version False chans) (\<lambda>chans.
                Inr (AList.delete id watches, chans))
         else Inr acc)"

definition cache_SetSnapshot ::
  "cache_orders \<Rightarrow> string \<Rightarrow> Snapshot \<Rightarrow> snapshotCache \<Rightarrow> chan_store \<Rightarrow> block + snapshotCache \<times> chan_store" where
  "cache_SetSnapshot ords node snapshot cache chans =
     (let cache = cache\<lparr>sc_snapshots := AList.update node snapshot (sc_snapshots cache)\<rparr> in
      case map_of (sc_status cache) node of
        None \<Rightarrow> Inr (cache, chans)
      | Some info \<Rightarrow>
          bindr (foldM (answer_watch ords (sc_ads cache) snapshot) (si_watches info, chans)
                   (co_watches ords (si_watches info))) (\<lambda>(watches, chans).
            Inr (cache\<lparr>sc_status := AList.update node (info\<lparr>si_watches := watches\<rparr>) (sc_status cache)\<rparr>, chans)))"

text \<open>What \<^verbatim>\<open>CreateWatch\<close> returns: a function that does nothing, or \<^verbatim>\<open>cancelWatch(nodeID, watchID)\<close>.\<close>

datatype cancel_func = NoCancel | CancelWatch string "64 word"

definition run_cancel :: "cancel_func \<Rightarrow> snapshotCache \<Rightarrow> snapshotCache" where
  "run_cancel c cache =
     (case c of
        NoCancel \<Rightarrow> cache
      | CancelWatch node watchID \<Rightarrow>
          (case map_of (sc_status cache) node of
             None \<Rightarrow> cache
           | Some info \<Rightarrow> cache\<lparr>sc_status := AList.update node
               (info\<lparr>si_watches := AList.delete watchID (si_watches info)\<rparr>) (sc_status cache)\<rparr>))"

text \<open>\<open>known\<close> are the names of the stream's state for the type of the request.\<close>

definition CreateWatch ::
  "cache_orders \<Rightarrow> int \<Rightarrow> DiscoveryRequest \<Rightarrow> string list \<Rightarrow> nat \<Rightarrow> snapshotCache \<Rightarrow> chan_store \<Rightarrow>
   block + cancel_func \<times> snapshotCache \<times> chan_store" where
  "CreateWatch ords now request known value cache chans =
     (let node = IDHash_ID (rq_Node request);
          info = (case map_of (sc_status cache) node of None \<Rightarrow> newStatusInfo (rq_Node request) | Some i \<Rightarrow> i);
          info = info\<lparr>si_lastWatchRequestTime := now\<rparr>;
          cache = cache\<lparr>sc_status := AList.update node info (sc_status cache)\<rparr>;
          open_watch =
            (let watchID = sc_watchCount cache + 1 in
             Inr (CancelWatch node watchID,
               cache\<lparr>sc_watchCount := watchID, sc_status := AList.update node
                 (info\<lparr>si_watches := AList.update watchID \<lparr>rw_Request = request, rw_Response = value\<rparr>
                    (si_watches info)\<rparr>) (sc_status cache)\<rparr>, chans))
      in case map_of (sc_snapshots cache) node of
           None \<Rightarrow> open_watch
         | Some snapshot \<Rightarrow>
             (let version = GetVersion snapshot (rq_TypeUrl request);
                  resources = GetResourcesAndTTL snapshot (rq_TypeUrl request);
                  diff = filter (\<lambda>r. r \<notin> set known) (rq_ResourceNames request);
                  answer = bindr (respond ords (sc_ads cache) request value resources version False chans)
                    (\<lambda>chans. Inr (NoCancel, cache, chans))
              in if list_ex (\<lambda>name. map_of resources name \<noteq> None) diff then answer
                 else if rq_VersionInfo request = version then open_watch
                 else answer))"

section \<open>The open watches\<close>

definition watches_of :: "snapshotCache \<Rightarrow> string \<Rightarrow> (64 word \<times> ResponseWatch) list" where
  "watches_of cache n = (case map_of (sc_status cache) n of None \<Rightarrow> [] | Some info \<Rightarrow> si_watches info)"

text \<open>A watch a snapshot answers, whether the answer is held back, and the answer.\<close>

definition stale :: "Snapshot \<Rightarrow> DiscoveryRequest \<Rightarrow> bool" where
  "stale snapshot req \<longleftrightarrow> GetVersion snapshot (rq_TypeUrl req) \<noteq> rq_VersionInfo req"

definition answerable :: "bool \<Rightarrow> Snapshot \<Rightarrow> DiscoveryRequest \<Rightarrow> bool" where
  "answerable ads snapshot req \<longleftrightarrow> rq_ResourceNames req = [] \<or> \<not> ads \<or>
     superset (rq_ResourceNames req) (GetResourcesAndTTL snapshot (rq_TypeUrl req))"

definition answer_of :: "cache_orders \<Rightarrow> Snapshot \<Rightarrow> DiscoveryRequest \<Rightarrow> RawResponse" where
  "answer_of ords snapshot req = createResponse ords req (GetResourcesAndTTL snapshot (rq_TypeUrl req))
     (GetVersion snapshot (rq_TypeUrl req)) False"

lemma answer_of_simps [simp]:
  "rp_Request (answer_of ords snapshot req) = req"
  "rp_Version (answer_of ords snapshot req) = GetVersion snapshot (rq_TypeUrl req)"
  by (simp_all add: answer_of_def createResponse_def)

lemma respond_eq:
  assumes "chans ! ch = None"
  shows "respond ords ads req ch (GetResourcesAndTTL snapshot (rq_TypeUrl req))
      (GetVersion snapshot (rq_TypeUrl req)) False chans =
    Inr (if answerable ads snapshot req then chans[ch := Some (answer_of ords snapshot req)] else chans)"
  using assms by (auto simp: respond_def answerable_def answer_of_def chan_send_def)

lemma answer_watch_eq:
  assumes "stale snapshot (rw_Request rw) \<Longrightarrow> chans ! rw_Response rw = None"
  shows "answer_watch ords ads snapshot (ws, chans) (i, rw) =
    Inr (if stale snapshot (rw_Request rw)
         then (AList.delete i ws, if answerable ads snapshot (rw_Request rw)
                 then chans[rw_Response rw := Some (answer_of ords snapshot (rw_Request rw))] else chans)
         else (ws, chans))"
  using assms by (simp add: answer_watch_def respond_eq stale_def)

text \<open>
  What the loop over the watches \<open>xs\<close> does: it removes exactly the stale ones, answers into the
  channels of those that are not held back, and leaves every other channel alone.
\<close>

definition answered ::
  "cache_orders \<Rightarrow> bool \<Rightarrow> Snapshot \<Rightarrow> (64 word \<times> ResponseWatch) list \<Rightarrow>
   (64 word \<times> ResponseWatch) list \<times> chan_store \<Rightarrow> (64 word \<times> ResponseWatch) list \<times> chan_store \<Rightarrow> bool" where
  "answered ords ads snapshot xs old new \<longleftrightarrow>
    length (snd new) = length (snd old) \<and>
    map_of (fst new) = (\<lambda>i. if \<exists>rw. (i, rw) \<in> set xs \<and> stale snapshot (rw_Request rw) then None else map_of (fst old) i) \<and>
    (wf_alist (fst old) \<longrightarrow> wf_alist (fst new)) \<and>
    (\<forall>i rw. (i, rw) \<in> set xs \<longrightarrow> stale snapshot (rw_Request rw) \<longrightarrow> snd new ! rw_Response rw =
       (if answerable ads snapshot (rw_Request rw) then Some (answer_of ords snapshot (rw_Request rw)) else None)) \<and>
    (\<forall>ch. (\<forall>i rw. (i, rw) \<in> set xs \<longrightarrow> stale snapshot (rw_Request rw) \<longrightarrow> rw_Response rw \<noteq> ch) \<longrightarrow>
       snd new ! ch = snd old ! ch)"

text \<open>The loop does not block when the channels of the stale watches are empty and not shared.\<close>

lemma answer_watches:
  assumes "\<forall>(i, rw) \<in> set xs. stale snapshot (rw_Request rw) \<longrightarrow>
      chans ! rw_Response rw = None \<and> rw_Response rw < length chans"
    and "distinct (map (\<lambda>a. rw_Response (snd a)) xs)"
  shows "\<exists>new. foldM (answer_watch ords ads snapshot) (ws, chans) xs = Inr new \<and>
    answered ords ads snapshot xs (ws, chans) new"
  using assms
proof (induction xs arbitrary: ws chans)
  case Nil
  then show ?case by (simp add: answered_def)
next
  case (Cons x xs)
  obtain k rw where x [simp]: "x = (k, rw)" by (cases x)
  let ?st = "stale snapshot (rw_Request rw)"
  let ?ws = "if ?st then AList.delete k ws else ws"
  let ?ch = "if ?st \<and> answerable ads snapshot (rw_Request rw)
    then chans[rw_Response rw := Some (answer_of ords snapshot (rw_Request rw))] else chans"
  have step: "answer_watch ords ads snapshot (ws, chans) (k, rw) = Inr (?ws, ?ch)"
    using Cons.prems(1) by (subst answer_watch_eq) auto
  have fresh: "rw_Response r \<noteq> rw_Response rw" if "(i, r) \<in> set xs" for i r
    using Cons.prems(2) that by (force simp: image_iff)
  have H: "\<forall>(i, r) \<in> set xs. stale snapshot (rw_Request r) \<longrightarrow>
      ?ch ! rw_Response r = None \<and> rw_Response r < length ?ch"
    using Cons.prems(1) fresh by (fastforce simp: nth_list_update)
  have D: "distinct (map (\<lambda>a. rw_Response (snd a)) xs)" using Cons.prems(2) by simp
  obtain new where f: "foldM (answer_watch ords ads snapshot) (?ws, ?ch) xs = Inr new"
    and A: "answered ords ads snapshot xs (?ws, ?ch) new"
    using Cons.IH [OF H D, of ?ws] by blast
  have o: "snd new ! ch = ?ch ! ch"
    if "\<And>i r. (i, r) \<in> set xs \<Longrightarrow> stale snapshot (rw_Request r) \<Longrightarrow> rw_Response r \<noteq> ch" for ch
    using A that by (simp add: answered_def)
  have own: "snd new ! rw_Response rw = ?ch ! rw_Response rw" using o fresh by blast
  have "answered ords ads snapshot (x # xs) (ws, chans) new"
    unfolding answered_def
  proof (intro conjI allI impI)
    show "map_of (fst new) = (\<lambda>i. if \<exists>r. (i, r) \<in> set (x # xs) \<and> stale snapshot (rw_Request r)
        then None else map_of (fst (ws, chans)) i)"
      using A by (auto simp: answered_def fun_eq_iff AList.delete_conv')
    show "wf_alist (fst new)" if "wf_alist (fst (ws, chans))"
      using A that by (auto simp: answered_def al.wf_remove)
    show "snd new ! rw_Response r = (if answerable ads snapshot (rw_Request r)
        then Some (answer_of ords snapshot (rw_Request r)) else None)"
      if "(i, r) \<in> set (x # xs)" "stale snapshot (rw_Request r)" for i r
      using A own that Cons.prems(1) by (auto simp: answered_def)
    show "snd new ! ch = snd (ws, chans) ! ch"
      if "\<forall>i r. (i, r) \<in> set (x # xs) \<longrightarrow> stale snapshot (rw_Request r) \<longrightarrow> rw_Response r \<noteq> ch" for ch
      using o [of ch] that by auto
  qed (use A in \<open>auto simp: answered_def\<close>)
  then show ?case using step f by simp
qed

lemma answeredD:
  assumes "answered ords ads snapshot xs (ws, chans) (ws', chans')"
  shows "length chans' = length chans"
    and "map_of ws' i = (if \<exists>rw. (i, rw) \<in> set xs \<and> stale snapshot (rw_Request rw) then None else map_of ws i)"
    and "wf_alist ws \<Longrightarrow> wf_alist ws'"
    and "(i, rw) \<in> set xs \<Longrightarrow> stale snapshot (rw_Request rw) \<Longrightarrow> chans' ! rw_Response rw =
      (if answerable ads snapshot (rw_Request rw) then Some (answer_of ords snapshot (rw_Request rw)) else None)"
    and "(\<And>i rw. (i, rw) \<in> set xs \<Longrightarrow> stale snapshot (rw_Request rw) \<Longrightarrow> rw_Response rw \<noteq> ch) \<Longrightarrow>
      chans' ! ch = chans ! ch"
  using assms by (auto simp: answered_def)

lemma watches_of_update [simp]:
  "watches_of (c\<lparr>sc_status := AList.update n info st\<rparr>) m =
     (if m = n then si_watches info else watches_of (c\<lparr>sc_status := st\<rparr>) m)"
  by (simp add: watches_of_def AList.update_conv')

lemma watches_of_snapshots [simp]:
  "watches_of (c\<lparr>sc_snapshots := x\<rparr>) = watches_of c" "watches_of (c\<lparr>sc_watchCount := k\<rparr>) = watches_of c"
  "watches_of (c\<lparr>sc_snapshots := x, sc_status := st\<rparr>) = watches_of (c\<lparr>sc_status := st\<rparr>)"
  "watches_of (c\<lparr>sc_watchCount := k, sc_status := st\<rparr>) = watches_of (c\<lparr>sc_status := st\<rparr>)"
  "watches_of (c\<lparr>sc_status := sc_status c\<rparr>) = watches_of c"
  by (simp_all add: watches_of_def fun_eq_iff)

text \<open>
  \<^verbatim>\<open>SetSnapshot\<close> in terms of the watches: the snapshot is stored, the watches of the node that it made
  stale are gone, and the watches of other nodes and the counter are as before.
\<close>

lemma SetSnapshot_answers:
  assumes "range_order (co_watches ords)" "wf_alist (watches_of cache n)"
    and "\<forall>(i, rw) \<in> set (watches_of cache n). chans ! rw_Response rw = None \<and> rw_Response rw < length chans"
    and "inj_on (\<lambda>a. rw_Response (snd a)) (set (watches_of cache n))"
  shows "\<exists>cache' chans' ws'. cache_SetSnapshot ords n snapshot cache chans = Inr (cache', chans') \<and>
    answered ords (sc_ads cache) snapshot (watches_of cache n) (watches_of cache n, chans) (ws', chans') \<and>
    watches_of cache' = (watches_of cache)(n := ws') \<and>
    sc_snapshots cache' = AList.update n snapshot (sc_snapshots cache) \<and>
    sc_watchCount cache' = sc_watchCount cache \<and> sc_ads cache' = sc_ads cache"
proof (cases "map_of (sc_status cache) n")
  case None
  then show ?thesis
    by (intro exI [of _ "cache\<lparr>sc_snapshots := AList.update n snapshot (sc_snapshots cache)\<rparr>"] exI [of _ chans]
        exI [of _ "[]"])
      (auto simp: cache_SetSnapshot_def watches_of_def answered_def fun_eq_iff)
next
  case (Some info)
  then have W: "watches_of cache n = si_watches info" by (simp add: watches_of_def)
  have S: "set (co_watches ords (si_watches info)) = set (si_watches info)" by (rule range_order_set [OF assms(1)])
  have P: "mset (co_watches ords (si_watches info)) = mset (si_watches info)"
    using assms(1) by (simp add: range_order_def)
  have "distinct (si_watches info)" using assms(2) by (simp add: W wf_alist_def distinct_map)
  then have "distinct (map (\<lambda>a. rw_Response (snd a)) (co_watches ords (si_watches info)))"
    using assms(4) mset_eq_imp_distinct_iff [OF P] by (simp add: W S distinct_map)
  then obtain ws' chans' where
    f: "foldM (answer_watch ords (sc_ads cache) snapshot) (si_watches info, chans)
          (co_watches ords (si_watches info)) = Inr (ws', chans')"
    and a: "answered ords (sc_ads cache) snapshot (co_watches ords (si_watches info)) (si_watches info, chans) (ws', chans')"
    using answer_watches [of "co_watches ords (si_watches info)" snapshot chans ords "sc_ads cache" "si_watches info"]
      assms(3) by (fastforce simp: W S)
  have "answered ords (sc_ads cache) snapshot (watches_of cache n) (watches_of cache n, chans) (ws', chans')"
    using a by (simp add: answered_def W S)
  moreover have "cache_SetSnapshot ords n snapshot cache chans = Inr
      (cache\<lparr>sc_snapshots := AList.update n snapshot (sc_snapshots cache),
        sc_status := AList.update n (info\<lparr>si_watches := ws'\<rparr>) (sc_status cache)\<rparr>, chans')"
    using Some f by (simp add: cache_SetSnapshot_def)
  ultimately show ?thesis by (fastforce simp: fun_eq_iff)
qed

lemma watches_of_cancel:
  "watches_of (run_cancel c cache) =
     (case c of NoCancel \<Rightarrow> watches_of cache
      | CancelWatch n k \<Rightarrow> (watches_of cache)(n := AList.delete k (watches_of cache n)))"
  by (auto simp: run_cancel_def fun_eq_iff split: cancel_func.split option.split)
     (auto simp: watches_of_def)

lemma run_cancel_simps [simp]:
  "sc_snapshots (run_cancel c cache) = sc_snapshots cache"
  "sc_watchCount (run_cancel c cache) = sc_watchCount cache"
  "sc_ads (run_cancel c cache) = sc_ads cache"
  by (auto simp: run_cancel_def split: cancel_func.split option.split)

text \<open>
  \<^verbatim>\<open>CreateWatch\<close> opens a watch, under a new number, or answers at once, or holds the answer back.
\<close>

lemma CreateWatch_cases:
  assumes "chans ! ch = None"
  obtains (Opened) cache' where
    "CreateWatch ords now req known ch cache chans =
       Inr (CancelWatch (IDHash_ID (rq_Node req)) (sc_watchCount cache + 1), cache', chans)"
    "watches_of cache' = (watches_of cache)(IDHash_ID (rq_Node req) :=
       AList.update (sc_watchCount cache + 1) \<lparr>rw_Request = req, rw_Response = ch\<rparr> (watches_of cache (IDHash_ID (rq_Node req))))"
    "sc_snapshots cache' = sc_snapshots cache" "sc_watchCount cache' = sc_watchCount cache + 1"
    "sc_ads cache' = sc_ads cache"
    "\<And>snap. map_of (sc_snapshots cache) (IDHash_ID (rq_Node req)) = Some snap \<Longrightarrow> \<not> stale snap req"
  | (Answered) cache' snap where
    "CreateWatch ords now req known ch cache chans = Inr (NoCancel, cache',
       if answerable (sc_ads cache) snap req then chans[ch := Some (answer_of ords snap req)] else chans)"
    "map_of (sc_snapshots cache) (IDHash_ID (rq_Node req)) = Some snap"
    "watches_of cache' = watches_of cache" "sc_snapshots cache' = sc_snapshots cache"
    "sc_watchCount cache' = sc_watchCount cache" "sc_ads cache' = sc_ads cache"
proof -
  let ?n = "IDHash_ID (rq_Node req)"
  define info where "info = (case map_of (sc_status cache) ?n of None \<Rightarrow> newStatusInfo (rq_Node req) | Some i \<Rightarrow> i)
    \<lparr>si_lastWatchRequestTime := now\<rparr>"
  define cache1 where "cache1 = cache\<lparr>sc_status := AList.update ?n info (sc_status cache)\<rparr>"
  define cache2 where "cache2 = cache1\<lparr>sc_watchCount := sc_watchCount cache + 1, sc_status := AList.update ?n
    (info\<lparr>si_watches := AList.update (sc_watchCount cache + 1) \<lparr>rw_Request = req, rw_Response = ch\<rparr>
       (si_watches info)\<rparr>) (sc_status cache1)\<rparr>"
  have w: "si_watches info = watches_of cache ?n"
    by (auto simp: info_def watches_of_def newStatusInfo_def split: option.split)
  have w1: "watches_of cache1 = watches_of cache" by (auto simp: cache1_def w fun_eq_iff)
  have w2: "watches_of cache2 = (watches_of cache)(?n := AList.update (sc_watchCount cache + 1)
      \<lparr>rw_Request = req, rw_Response = ch\<rparr> (watches_of cache ?n))"
    using w1 by (auto simp: cache2_def w fun_eq_iff)
  have c: "sc_snapshots cache1 = sc_snapshots cache" "sc_watchCount cache1 = sc_watchCount cache"
    "sc_ads cache1 = sc_ads cache" "sc_snapshots cache2 = sc_snapshots cache"
    "sc_watchCount cache2 = sc_watchCount cache + 1" "sc_ads cache2 = sc_ads cache"
    by (simp_all add: cache1_def cache2_def)
  show thesis
  proof (cases "map_of (sc_snapshots cache) ?n")
    case None
    then have "CreateWatch ords now req known ch cache chans =
        Inr (CancelWatch ?n (sc_watchCount cache + 1), cache2, chans)"
      by (simp add: CreateWatch_def Let_def cache2_def cache1_def info_def)
    from Opened [OF this w2 c(4-6)] None show thesis by simp
  next
    case (Some snap)
    let ?new = "list_ex (\<lambda>name. map_of (GetResourcesAndTTL snap (rq_TypeUrl req)) name \<noteq> None)
        (filter (\<lambda>r. r \<notin> set known) (rq_ResourceNames req))"
    show thesis
    proof (cases "\<not> ?new \<and> \<not> stale snap req")
      case True
      then have "CreateWatch ords now req known ch cache chans =
          Inr (CancelWatch ?n (sc_watchCount cache + 1), cache2, chans)"
        using Some by (simp add: CreateWatch_def Let_def stale_def cache2_def cache1_def info_def)
      from Opened [OF this w2 c(4-6)] True Some show thesis by simp
    next
      case False
      then have "CreateWatch ords now req known ch cache chans = bindr (respond ords (sc_ads cache) req ch
          (GetResourcesAndTTL snap (rq_TypeUrl req)) (GetVersion snap (rq_TypeUrl req)) False chans)
            (\<lambda>chans. Inr (NoCancel, cache1, chans))"
        using Some by (auto simp: CreateWatch_def Let_def stale_def cache1_def info_def)
      then have "CreateWatch ords now req known ch cache chans = Inr (NoCancel, cache1,
          if answerable (sc_ads cache) snap req then chans[ch := Some (answer_of ords snap req)] else chans)"
        by (simp add: respond_eq [OF assms])
      from Answered [OF this Some w1 c(1-3)] show thesis .
    qed
  qed
qed

end
