(* ===== verification/Xds_Stream.thy ===== *)
theory Xds_Stream
  imports Xds_Cache
begin

text \<open>
  The streams of the xDS server: \<^verbatim>\<open>process\<close> of the vendored
  \<^verbatim>\<open>go-control-plane/pkg/server/sotw/v3/server.go\<close> and \<^verbatim>\<open>watches.go\<close>. A stream is one connected gateway.
  One iteration of its loop takes a request of the gateway, or takes a response out of the channel of
  one of its watches and sends it. The streams and the control plane meet in the snapshot cache,
  whose operations hold its mutex.
\<close>

section \<open>The state of a stream\<close>

record watch =
  wa_cancel :: cancel_func
  wa_nonce :: string
  wa_response :: nat

text \<open>
  \<open>st_known\<close> and \<open>st_last\<close> are \<^verbatim>\<open>streamState\<close> and \<^verbatim>\<open>lastDiscoveryResponses\<close>: for a type, the resource names
  the gateway acknowledged, and the nonce and the names of the response sent last.
\<close>

record xds_stream =
  st_defaultTypeURL :: string
  st_node :: "string option"
  st_streamNonce :: "64 word"
  st_known :: "string list gomap"
  st_last :: "(string \<times> string list) gomap"
  st_responders :: "watch gomap"

record DiscoveryResponse =
  dr_VersionInfo :: string
  dr_TypeUrl :: string
  dr_Nonce :: string
  dr_Resources :: "Resource list"

definition strconv_FormatInt :: "64 word \<Rightarrow> string" where
  "strconv_FormatInt n =
     (if sint n < 0 then ''-'' @ nat_str (nat (- sint n)) else nat_str (nat (sint n)))"

definition new_stream :: "string \<Rightarrow> xds_stream" where
  "new_stream defaultTypeURL =
     \<lparr>st_defaultTypeURL = defaultTypeURL, st_node = Some [], st_streamNonce = 0, st_known = [], st_last = [],
      st_responders = []\<rparr>"

section \<open>One iteration of the loop\<close>

text \<open>
  The request as the handler sees it: the node is the one of the first request that carried one, and
  the type is implicit on a stream for one type.
\<close>

definition complete_request :: "xds_stream \<Rightarrow> DiscoveryRequest \<Rightarrow> DiscoveryRequest" where
  "complete_request st req =
     (let req = (case rq_Node req of Some _ \<Rightarrow> req | None \<Rightarrow> req\<lparr>rq_Node := st_node st\<rparr>) in
      if rq_TypeUrl req = [] then req\<lparr>rq_TypeUrl := st_defaultTypeURL st\<rparr> else req)"

definition acknowledge :: "DiscoveryRequest \<Rightarrow> xds_stream \<Rightarrow> xds_stream" where
  "acknowledge req st =
     (case map_of (st_last st) (rq_TypeUrl req) of
        None \<Rightarrow> st
      | Some (nonce, resources) \<Rightarrow>
          if nonce = [] \<or> nonce = rq_ResponseNonce req
          then st\<lparr>st_known := AList.update (rq_TypeUrl req) resources (st_known st)\<rparr> else st)"

definition known_names :: "xds_stream \<Rightarrow> string \<Rightarrow> string list" where
  "known_names st typeURL = (case map_of (st_known st) typeURL of None \<Rightarrow> [] | Some ns \<Rightarrow> ns)"

text \<open>\<^verbatim>\<open>watches.addWatch(typeURL, &watch{cancel: CreateWatch(...), response: responder})\<close>.\<close>

definition add_watch ::
  "cache_orders \<Rightarrow> int \<Rightarrow> DiscoveryRequest \<Rightarrow> xds_stream \<Rightarrow> snapshotCache \<Rightarrow> chan_store \<Rightarrow>
   block + xds_stream \<times> snapshotCache \<times> chan_store" where
  "add_watch ords now req st cache chans =
     (let responder = length chans in
      bindr (CreateWatch ords now req (known_names st (rq_TypeUrl req)) responder cache (chans @ [None]))
        (\<lambda>(cancel, cache, chans).
        Inr (st\<lparr>st_responders := AList.update (rq_TypeUrl req)
               \<lparr>wa_cancel = cancel, wa_nonce = [], wa_response = responder\<rparr> (st_responders st)\<rparr>, cache, chans)))"

text \<open>
  A request of the gateway. \<open>onRequest\<close> is the error the callback \<^verbatim>\<open>OnStreamRequest\<close> returns, if any.
  The inner \<open>Inl\<close> is the error the stream ends with. A request that answers an older response than
  the last one leaves the watch as it is.
\<close>

definition accepts :: "DiscoveryRequest \<Rightarrow> watch option \<Rightarrow> bool" where
  "accepts req watch =
     (case watch of None \<Rightarrow> True | Some w \<Rightarrow> wa_nonce w = [] \<or> wa_nonce w = rq_ResponseNonce req)"

definition receive_request ::
  "cache_orders \<Rightarrow> int \<Rightarrow> (DiscoveryRequest \<Rightarrow> go_error option) \<Rightarrow> DiscoveryRequest \<Rightarrow> xds_stream \<Rightarrow>
   snapshotCache \<Rightarrow> chan_store \<Rightarrow> block + (go_error + xds_stream) \<times> snapshotCache \<times> chan_store" where
  "receive_request ords now onRequest request st cache chans =
     (let req = complete_request st request; st = st\<lparr>st_node := rq_Node req\<rparr> in
      if rq_TypeUrl req = [] then Inr (Inl (ErrNew ''type URL is required for ADS''), cache, chans)
      else case onRequest req of
        Some e \<Rightarrow> Inr (Inl e, cache, chans)
      | None \<Rightarrow>
          (let st = acknowledge req st; watch = map_of (st_responders st) (rq_TypeUrl req) in
           if accepts req watch
           then bindr (add_watch ords now req st
                  (case watch of None \<Rightarrow> cache | Some w \<Rightarrow> run_cancel (wa_cancel w) cache) chans)
                  (\<lambda>(st, cache, chans). Inr (Inr st, cache, chans))
           else Inr (Inr st, cache, chans @ [None])))"

text \<open>
  A response taken out of the channel of the watch for \<open>typeURL\<close>. \<open>marshalError\<close> and \<open>sendError\<close> are the
  errors of serialising the response and of sending it.
\<close>

definition send_response ::
  "go_error option \<Rightarrow> go_error option \<Rightarrow> RawResponse \<Rightarrow> xds_stream \<Rightarrow> (xds_stream \<times> DiscoveryResponse) res" where
  "send_response marshalError sendError resp st =
     (case marshalError of
        Some e \<Rightarrow> Inl (Err e)
      | None \<Rightarrow>
          (let streamNonce = st_streamNonce st + 1; typeURL = rq_TypeUrl (rp_Request resp);
               out = \<lparr>dr_VersionInfo = rp_Version resp, dr_TypeUrl = typeURL,
                      dr_Nonce = strconv_FormatInt streamNonce, dr_Resources = rp_Resources resp\<rparr>;
               st = st\<lparr>st_streamNonce := streamNonce, st_last := AList.update typeURL
                      (dr_Nonce out, rq_ResourceNames (rp_Request resp)) (st_last st)\<rparr>
           in case sendError of
                Some e \<Rightarrow> Inl (Err e)
              | None \<Rightarrow>
                  (case map_of (st_responders st) typeURL of
                     None \<Rightarrow> Inl (Panic NilDereference)
                   | Some w \<Rightarrow> Inr (st\<lparr>st_responders := AList.update typeURL
                       (w\<lparr>wa_nonce := dr_Nonce out\<rparr>) (st_responders st)\<rparr>, out))))"

text \<open>\<^verbatim>\<open>watches.close()\<close>, deferred to the end of the stream.\<close>

definition close_watches :: "xds_stream \<Rightarrow> snapshotCache \<Rightarrow> snapshotCache" where
  "close_watches st cache = foldl (\<lambda>cache (_, w). run_cancel (wa_cancel w) cache) cache (st_responders st)"

section \<open>The streams and the cache\<close>

text \<open>
  The whole server. \<open>xs_asked\<close> is a history variable: the request a stream's watch of a type was
  created for.
\<close>

record xds_system =
  xs_cache :: snapshotCache
  xs_chans :: chan_store
  xs_streams :: "nat \<Rightarrow> xds_stream option"
  xs_asked :: "nat \<Rightarrow> string \<Rightarrow> DiscoveryRequest"

definition xds_init :: "xds_system \<Rightarrow> bool" where
  "xds_init s \<longleftrightarrow> xs_cache s = newSnapshotCache True \<and> xs_chans s = [] \<and> xs_streams s = (\<lambda>_. None)"

text \<open>
  The steps: the control plane sets a snapshot, one of those it may set (\<open>ok\<close>); a gateway connects; a stream handles a request or
  ends with an error; a stream sends a response or ends with an error; a gateway disconnects. A
  request step assumes that the 64-bit counter of watches has not run through all its values.
\<close>

definition orders_ok :: "cache_orders \<Rightarrow> bool" where
  "orders_ok ords \<longleftrightarrow> range_order (co_watches ords) \<and> range_order (co_resources ords)"

inductive xds_step :: "(Snapshot \<Rightarrow> bool) \<Rightarrow> xds_system \<Rightarrow> xds_system \<Rightarrow> bool" for ok where
  SetSnap: "orders_ok ords \<Longrightarrow> ok snap \<Longrightarrow>
    cache_SetSnapshot ords node snap (xs_cache s) (xs_chans s) = Inr (cache, chans) \<Longrightarrow>
    xds_step ok s (s\<lparr>xs_cache := cache, xs_chans := chans\<rparr>)"
| Connect: "xs_streams s sid = None \<Longrightarrow> xds_step ok s (s\<lparr>xs_streams := (xs_streams s)(sid \<mapsto> new_stream typeURL)\<rparr>)"
| Request: "orders_ok ords \<Longrightarrow> xs_streams s sid = Some st \<Longrightarrow> sc_watchCount (xs_cache s) \<noteq> - 1 \<Longrightarrow>
    receive_request ords now onRequest req st (xs_cache s) (xs_chans s) = Inr (Inr st', cache, chans) \<Longrightarrow>
    t = rq_TypeUrl (complete_request st req) \<Longrightarrow>
    asked = (if accepts (complete_request st req) (map_of (st_responders st) t)
             then (xs_asked s)(sid := (xs_asked s sid)(t := complete_request st req)) else xs_asked s) \<Longrightarrow>
    xds_step ok s \<lparr>xs_cache = cache, xs_chans = chans, xs_streams = (xs_streams s)(sid \<mapsto> st'), xs_asked = asked\<rparr>"
| BadRequest: "xs_streams s sid = Some st \<Longrightarrow>
    receive_request ords now onRequest req st (xs_cache s) (xs_chans s) = Inr (Inl e, cache, chans) \<Longrightarrow>
    xds_step ok s (s\<lparr>xs_cache := close_watches st cache, xs_chans := chans, xs_streams := (xs_streams s)(sid := None)\<rparr>)"
| Send: "xs_streams s sid = Some st \<Longrightarrow> map_of (st_responders st) t = Some w \<Longrightarrow>
    xs_chans s ! wa_response w = Some resp \<Longrightarrow> send_response None None resp st = Inr (st', out) \<Longrightarrow>
    xds_step ok s (s\<lparr>xs_chans := (xs_chans s)[wa_response w := None], xs_streams := (xs_streams s)(sid \<mapsto> st')\<rparr>)"
| BadSend: "xs_streams s sid = Some st \<Longrightarrow> map_of (st_responders st) t = Some w \<Longrightarrow>
    xs_chans s ! wa_response w = Some resp \<Longrightarrow> send_response marshalError sendError resp st = Inl f \<Longrightarrow>
    xds_step ok s (s\<lparr>xs_cache := close_watches st (xs_cache s), xs_chans := (xs_chans s)[wa_response w := None],
      xs_streams := (xs_streams s)(sid := None)\<rparr>)"
| Disconnect: "xs_streams s sid = Some st \<Longrightarrow>
    xds_step ok s (s\<lparr>xs_cache := close_watches st (xs_cache s), xs_streams := (xs_streams s)(sid := None)\<rparr>)"

section \<open>The invariant\<close>

definition responder :: "xds_system \<Rightarrow> nat \<Rightarrow> string \<Rightarrow> watch option" where
  "responder s sid t = (case xs_streams s sid of None \<Rightarrow> None | Some st \<Rightarrow> map_of (st_responders st) t)"

definition open_watch :: "snapshotCache \<Rightarrow> watch \<Rightarrow> ResponseWatch option" where
  "open_watch cache w =
     (case wa_cancel w of NoCancel \<Rightarrow> None | CancelWatch n i \<Rightarrow> map_of (watches_of cache n) i)"

text \<open>
  The four states of a subscription: a watch is open for its request; a response to its request is
  in its channel; the response was sent (it has a nonce); or the request names resources and the
  answer is held back until the gateway names more.
\<close>

definition sub_ok :: "snapshotCache \<Rightarrow> chan_store \<Rightarrow> DiscoveryRequest \<Rightarrow> string \<Rightarrow> watch \<Rightarrow> bool" where
  "sub_ok cache chans req t w \<longleftrightarrow> wa_response w < length chans \<and> rq_TypeUrl req = t \<and>
     (case open_watch cache w of
        Some rw \<Rightarrow> rw = \<lparr>rw_Request = req, rw_Response = wa_response w\<rparr> \<and>
          (\<exists>i. wa_cancel w = CancelWatch (IDHash_ID (rq_Node req)) i) \<and> chans ! wa_response w = None \<and> wa_nonce w = []
      | None \<Rightarrow>
          (case chans ! wa_response w of
             Some r \<Rightarrow> rp_Request r = req \<and> wa_nonce w = []
           | None \<Rightarrow> wa_nonce w \<noteq> [] \<or> rq_ResourceNames req \<noteq> []))"

text \<open>
  The invariant: every subscription is in one of its states; channels and numbers of watches are not
  shared; every open watch belongs to a subscription, and asks for the version the node's snapshot has.
\<close>

definition xds_inv :: "xds_system \<Rightarrow> bool" where
  "xds_inv s \<longleftrightarrow> sc_ads (xs_cache s) \<and> (\<forall>n. wf_alist (watches_of (xs_cache s) n)) \<and>
    (\<forall>sid t w. responder s sid t = Some w \<longrightarrow> sub_ok (xs_cache s) (xs_chans s) (xs_asked s sid t) t w) \<and>
    (\<forall>sid t w sid' t' w'. responder s sid t = Some w \<longrightarrow> responder s sid' t' = Some w' \<longrightarrow>
       wa_response w = wa_response w' \<longrightarrow> sid = sid' \<and> t = t') \<and>
    (\<forall>sid t w sid' t' w' n n' i. responder s sid t = Some w \<longrightarrow> responder s sid' t' = Some w' \<longrightarrow>
       wa_cancel w = CancelWatch n i \<longrightarrow> wa_cancel w' = CancelWatch n' i \<longrightarrow> sid = sid' \<and> t = t') \<and>
    (\<forall>sid t w n i. responder s sid t = Some w \<longrightarrow> wa_cancel w = CancelWatch n i \<longrightarrow>
       i \<le> sc_watchCount (xs_cache s)) \<and>
    (\<forall>n i rw. map_of (watches_of (xs_cache s) n) i = Some rw \<longrightarrow>
       (\<exists>sid t w. responder s sid t = Some w \<and> wa_cancel w = CancelWatch n i)) \<and>
    (\<forall>n i rw snap. map_of (watches_of (xs_cache s) n) i = Some rw \<longrightarrow>
       map_of (sc_snapshots (xs_cache s)) n = Some snap \<longrightarrow> \<not> stale snap (rw_Request rw)) \<and>
    (\<forall>sid st. xs_streams s sid = Some st \<longrightarrow> wf_alist (st_responders st))"

lemma xds_invI:
  assumes "sc_ads (xs_cache s)" "\<And>n. wf_alist (watches_of (xs_cache s) n)"
    and "\<And>sid t w. responder s sid t = Some w \<Longrightarrow> sub_ok (xs_cache s) (xs_chans s) (xs_asked s sid t) t w"
    and "\<And>sid t w sid' t' w'. responder s sid t = Some w \<Longrightarrow> responder s sid' t' = Some w' \<Longrightarrow>
       wa_response w = wa_response w' \<Longrightarrow> sid = sid' \<and> t = t'"
    and "\<And>sid t w sid' t' w' n n' i. responder s sid t = Some w \<Longrightarrow> responder s sid' t' = Some w' \<Longrightarrow>
       wa_cancel w = CancelWatch n i \<Longrightarrow> wa_cancel w' = CancelWatch n' i \<Longrightarrow> sid = sid' \<and> t = t'"
    and "\<And>sid t w n i. responder s sid t = Some w \<Longrightarrow> wa_cancel w = CancelWatch n i \<Longrightarrow>
       i \<le> sc_watchCount (xs_cache s)"
    and "\<And>n i rw. map_of (watches_of (xs_cache s) n) i = Some rw \<Longrightarrow>
       \<exists>sid t w. responder s sid t = Some w \<and> wa_cancel w = CancelWatch n i"
    and "\<And>n i rw snap. map_of (watches_of (xs_cache s) n) i = Some rw \<Longrightarrow>
       map_of (sc_snapshots (xs_cache s)) n = Some snap \<Longrightarrow> \<not> stale snap (rw_Request rw)"
    and "\<And>sid st. xs_streams s sid = Some st \<Longrightarrow> wf_alist (st_responders st)"
  shows "xds_inv s"
  unfolding xds_inv_def using assms by blast

lemma xds_invD:
  assumes "xds_inv s"
  shows "sc_ads (xs_cache s)" and "wf_alist (watches_of (xs_cache s) n)"
    and "responder s sid t = Some w \<Longrightarrow> sub_ok (xs_cache s) (xs_chans s) (xs_asked s sid t) t w"
    and "responder s sid t = Some w \<Longrightarrow> responder s sid' t' = Some w' \<Longrightarrow> wa_response w = wa_response w' \<Longrightarrow>
       sid = sid' \<and> t = t'"
    and "responder s sid t = Some w \<Longrightarrow> responder s sid' t' = Some w' \<Longrightarrow> wa_cancel w = CancelWatch n i \<Longrightarrow>
       wa_cancel w' = CancelWatch n' i \<Longrightarrow> sid = sid' \<and> t = t'"
    and "responder s sid t = Some w \<Longrightarrow> wa_cancel w = CancelWatch n i \<Longrightarrow> i \<le> sc_watchCount (xs_cache s)"
    and "map_of (watches_of (xs_cache s) n) i = Some rw \<Longrightarrow>
       \<exists>sid t w. responder s sid t = Some w \<and> wa_cancel w = CancelWatch n i"
    and "map_of (watches_of (xs_cache s) n) i = Some rw \<Longrightarrow> map_of (sc_snapshots (xs_cache s)) n = Some snap \<Longrightarrow>
       \<not> stale snap (rw_Request rw)"
    and "xs_streams s sid = Some st \<Longrightarrow> wf_alist (st_responders st)"
proof -
  note c = assms [unfolded xds_inv_def, THEN conjunct2]
  show "sc_ads (xs_cache s)" using assms by (simp add: xds_inv_def)
  show "wf_alist (watches_of (xs_cache s) n)" using c by simp
  note c = c [THEN conjunct2]
  show "responder s sid t = Some w \<Longrightarrow> sub_ok (xs_cache s) (xs_chans s) (xs_asked s sid t) t w"
    using c by simp
  note c = c [THEN conjunct2]
  show "responder s sid t = Some w \<Longrightarrow> responder s sid' t' = Some w' \<Longrightarrow> wa_response w = wa_response w' \<Longrightarrow>
     sid = sid' \<and> t = t'" using c [THEN conjunct1] by blast
  note c = c [THEN conjunct2]
  show "responder s sid t = Some w \<Longrightarrow> responder s sid' t' = Some w' \<Longrightarrow> wa_cancel w = CancelWatch n i \<Longrightarrow>
     wa_cancel w' = CancelWatch n' i \<Longrightarrow> sid = sid' \<and> t = t'" using c [THEN conjunct1] by blast
  note c = c [THEN conjunct2]
  show "responder s sid t = Some w \<Longrightarrow> wa_cancel w = CancelWatch n i \<Longrightarrow> i \<le> sc_watchCount (xs_cache s)"
    using c [THEN conjunct1] by blast
  note c = c [THEN conjunct2]
  show "map_of (watches_of (xs_cache s) n) i = Some rw \<Longrightarrow>
     \<exists>sid t w. responder s sid t = Some w \<and> wa_cancel w = CancelWatch n i" using c [THEN conjunct1] by blast
  show "map_of (watches_of (xs_cache s) n) i = Some rw \<Longrightarrow> map_of (sc_snapshots (xs_cache s)) n = Some snap \<Longrightarrow>
     \<not> stale snap (rw_Request rw)" using c [THEN conjunct2, THEN conjunct1] by blast
  show "xs_streams s sid = Some st \<Longrightarrow> wf_alist (st_responders st)"
    using c [THEN conjunct2, THEN conjunct2] by blast
qed

text \<open>A step that leaves the watch and the channel of a subscription alone keeps its state.\<close>

lemma sub_ok_frame:
  assumes "sub_ok cache chans req t w" "open_watch cache' w = open_watch cache w"
    and "chans' ! wa_response w = chans ! wa_response w" "length chans \<le> length chans'"
  shows "sub_ok cache' chans' req t w"
  using assms by (cases "open_watch cache w"; cases "chans ! wa_response w") (auto simp: sub_ok_def)

text \<open>An open watch belongs to one subscription, which knows its request and its channel.\<close>

lemma watch_owner:
  assumes "xds_inv s" "map_of (watches_of (xs_cache s) n) i = Some rw"
  obtains sid t w where "responder s sid t = Some w" "wa_cancel w = CancelWatch n i"
    "open_watch (xs_cache s) w = Some rw" "rw = \<lparr>rw_Request = xs_asked s sid t, rw_Response = wa_response w\<rparr>"
    "xs_chans s ! wa_response w = None" "wa_response w < length (xs_chans s)" "wa_nonce w = []"
    "n = IDHash_ID (rq_Node (xs_asked s sid t))"
proof -
  obtain sid t w where w: "responder s sid t = Some w" "wa_cancel w = CancelWatch n i"
    using xds_invD(7) [OF assms] by blast
  moreover have "open_watch (xs_cache s) w = Some rw" using assms(2) w(2) by (simp add: open_watch_def)
  ultimately show thesis using xds_invD(3) [OF assms(1) w(1)] by (intro that) (auto simp: sub_ok_def)
qed

lemma owner_by_channel:
  assumes "xds_inv s" "map_of (watches_of (xs_cache s) n) i = Some rw"
    and "responder s sid t = Some w" "wa_response w = rw_Response rw"
  shows "wa_cancel w = CancelWatch n i" "open_watch (xs_cache s) w = Some rw"
proof -
  obtain sid' t' w' where o: "responder s sid' t' = Some w'" "wa_cancel w' = CancelWatch n i"
    "open_watch (xs_cache s) w' = Some rw" "rw_Response rw = wa_response w'"
    by (rule watch_owner [OF assms(1,2)]) auto
  then have "w' = w" using xds_invD(4) [OF assms(1) o(1) assms(3)] assms(3,4) by auto
  then show "wa_cancel w = CancelWatch n i" "open_watch (xs_cache s) w = Some rw" using o by simp_all
qed

section \<open>Every step keeps the invariant\<close>

text \<open>Setting a snapshot never blocks.\<close>

lemma SetSnapshot_proceeds:
  assumes "xds_inv s" "range_order (co_watches ords)"
  obtains cache chans ws where "cache_SetSnapshot ords n snap (xs_cache s) (xs_chans s) = Inr (cache, chans)"
    "answered ords True snap (watches_of (xs_cache s) n) (watches_of (xs_cache s) n, xs_chans s) (ws, chans)"
    "watches_of cache = (watches_of (xs_cache s))(n := ws)"
    "sc_snapshots cache = AList.update n snap (sc_snapshots (xs_cache s))"
    "sc_watchCount cache = sc_watchCount (xs_cache s)" "sc_ads cache"
proof -
  let ?ws = "watches_of (xs_cache s) n"
  have m: "(i, rw) \<in> set ?ws \<longleftrightarrow> map_of ?ws i = Some rw" for i rw
    by (rule al.entries_lookup [OF xds_invD(2) [OF assms(1)]])
  have "\<forall>(i, rw) \<in> set ?ws. xs_chans s ! rw_Response rw = None \<and> rw_Response rw < length (xs_chans s)"
    by (auto simp: m elim!: watch_owner [OF assms(1)])
  moreover have "inj_on (\<lambda>a. rw_Response (snd a)) (set ?ws)"
  proof (rule inj_onI, clarsimp simp: m)
    fix i rw i' rw'
    assume a: "map_of ?ws i = Some rw" "map_of ?ws i' = Some rw'" "rw_Response rw = rw_Response rw'"
    obtain sid t w where w: "responder s sid t = Some w" "wa_cancel w = CancelWatch n i" "rw_Response rw = wa_response w"
      by (rule watch_owner [OF assms(1) a(1)]) auto
    then have "wa_cancel w = CancelWatch n i'"
      using owner_by_channel [OF assms(1) a(2) w(1)] a(3) by simp
    then show "i = i' \<and> rw = rw'" using w(2) a by simp
  qed
  ultimately show thesis
    using SetSnapshot_answers [OF assms(2) xds_invD(2) [OF assms(1)], where chans = "xs_chans s" and snapshot = snap]
      xds_invD(1) [OF assms(1)] that by fastforce
qed

lemma answered_lookup:
  assumes "xds_inv s" "answered ords ads snap (watches_of (xs_cache s) n) (watches_of (xs_cache s) n, chans) (ws, chans')"
  shows "(i, rw) \<in> set (watches_of (xs_cache s) n) \<longleftrightarrow> map_of (watches_of (xs_cache s) n) i = Some rw"
    and "map_of ws i = (case map_of (watches_of (xs_cache s) n) i of
      None \<Rightarrow> None | Some rw \<Rightarrow> if stale snap (rw_Request rw) then None else Some rw)"
proof -
  show m: "(i, rw) \<in> set (watches_of (xs_cache s) n) \<longleftrightarrow> map_of (watches_of (xs_cache s) n) i = Some rw" for i rw
    by (rule al.entries_lookup [OF xds_invD(2) [OF assms(1)]])
  show "map_of ws i = (case map_of (watches_of (xs_cache s) n) i of
      None \<Rightarrow> None | Some rw \<Rightarrow> if stale snap (rw_Request rw) then None else Some rw)"
    using answeredD(2) [OF assms(2), of i] by (auto simp: m split: option.split)
qed

text \<open>A subscription whose watch is stale has its answer in the channel; every other one is as before.\<close>

lemma answered_sub:
  assumes inv: "xds_inv s" and A: "answered ords True snap (watches_of (xs_cache s) n) (watches_of (xs_cache s) n, xs_chans s) (ws, chans)"
    and W: "watches_of cache = (watches_of (xs_cache s))(n := ws)" and w: "responder s sid t = Some w"
  shows "sub_ok cache chans (xs_asked s sid t) t w"
proof -
  let ?c = "xs_cache s"
  note ok = xds_invD(3) [OF inv w] and m = answered_lookup(1) [OF inv A] and ws = answered_lookup(2) [OF inv A]
  show ?thesis
  proof (cases "\<exists>i rw. wa_cancel w = CancelWatch n i \<and> open_watch ?c w = Some rw \<and> stale snap (rw_Request rw)")
    case True
    then obtain i rw where i: "wa_cancel w = CancelWatch n i" "open_watch ?c w = Some rw" "stale snap (rw_Request rw)"
      by blast
    then have "(i, rw) \<in> set (watches_of ?c n)" by (simp add: m open_watch_def)
    from answeredD(4) [OF A this i(3)] show ?thesis
      using ok i by (auto simp: sub_ok_def open_watch_def W ws answeredD(1) [OF A] answerable_def)
  next
    case False
    then have "open_watch cache w = open_watch ?c w"
      by (auto simp: open_watch_def W ws split: cancel_func.splits option.splits)
    moreover have "chans ! wa_response w = xs_chans s ! wa_response w"
      by (rule answeredD(5) [OF A]) (use owner_by_channel [OF inv _ w] False m in metis)
    ultimately show ?thesis by (intro sub_ok_frame [OF ok]) (simp_all add: answeredD(1) [OF A])
  qed
qed

lemma SetSnap_inv:
  assumes "xds_inv s" "range_order (co_watches ords)"
    and "cache_SetSnapshot ords n snap (xs_cache s) (xs_chans s) = Inr (cache, chans)"
  shows "xds_inv (s\<lparr>xs_cache := cache, xs_chans := chans\<rparr>)"
proof -
  let ?c = "xs_cache s"
  obtain ws where A: "answered ords True snap (watches_of ?c n) (watches_of ?c n, xs_chans s) (ws, chans)"
    and W: "watches_of cache = (watches_of ?c)(n := ws)"
    and S: "sc_snapshots cache = AList.update n snap (sc_snapshots ?c)"
    and C: "sc_watchCount cache = sc_watchCount ?c" "sc_ads cache"
    by (rule SetSnapshot_proceeds [OF assms(1,2), of n snap]) (use assms(3) in auto)
  note ws = answered_lookup(2) [OF assms(1) A] and sub = answered_sub [OF assms(1) A W]
  have r: "responder (s\<lparr>xs_cache := cache, xs_chans := chans\<rparr>) = responder s"
    by (simp add: responder_def fun_eq_iff)
  have old: "map_of (watches_of ?c k) i = Some rw" if "map_of (watches_of cache k) i = Some rw" for k i rw
    using that by (auto simp: W ws split: if_splits option.splits)
  have fresh: "\<not> stale snap' (rw_Request rw)"
    if "map_of (watches_of cache k) i = Some rw" "map_of (sc_snapshots cache) k = Some snap'" for k i rw snap'
  proof (cases "k = n")
    case True
    then show ?thesis using that by (auto simp: S W ws AList.update_conv' split: option.splits if_splits)
  next
    case False
    then show ?thesis using that xds_invD(8) [OF assms(1) old] by (simp add: S AList.update_conv')
  qed
  show ?thesis
  proof (rule xds_invI)
    show "wf_alist (watches_of (xs_cache (s\<lparr>xs_cache := cache, xs_chans := chans\<rparr>)) k)" for k
      using xds_invD(2) [OF assms(1)] answeredD(3) [OF A] by (simp add: W)
  qed (simp_all add: r C sub fresh xds_invD(6) [OF assms(1)] xds_invD(7) [OF assms(1) old] xds_invD(9) [OF assms(1)],
      (erule (2) xds_invD(4) [OF assms(1)] | erule (3) xds_invD(5) [OF assms(1)])+)
qed

lemma watches_of_close:
  "map_of (watches_of (foldl (\<lambda>cache (_, w). run_cancel (wa_cancel w) cache) cache rs) n) i =
     (if \<exists>t w. (t, w) \<in> set rs \<and> wa_cancel w = CancelWatch n i then None else map_of (watches_of cache n) i)"
  by (induction rs arbitrary: cache) (auto simp: watches_of_cancel AList.delete_conv' split: cancel_func.splits, blast)

lemma cancel_all_frame:
  fixes rs :: "(string \<times> watch) list"
  defines "cancel_all \<equiv> foldl (\<lambda>cache (_, w). run_cancel (wa_cancel w) cache)"
  shows "sc_snapshots (cancel_all cache rs) = sc_snapshots cache"
    and "sc_watchCount (cancel_all cache rs) = sc_watchCount cache" and "sc_ads (cancel_all cache rs) = sc_ads cache"
    and "(\<And>n. wf_alist (watches_of cache n)) \<Longrightarrow> wf_alist (watches_of (cancel_all cache rs) n)"
  unfolding cancel_all_def
  by (induction rs arbitrary: cache)
    (auto simp: watches_of_cancel al.wf_remove split: cancel_func.splits)

lemma close_watches_frame:
  "sc_snapshots (close_watches st cache) = sc_snapshots cache"
  "sc_watchCount (close_watches st cache) = sc_watchCount cache" "sc_ads (close_watches st cache) = sc_ads cache"
  "(\<And>n. wf_alist (watches_of cache n)) \<Longrightarrow> wf_alist (watches_of (close_watches st cache) n)"
  by (simp_all add: close_watches_def cancel_all_frame)

lemma responder_streams:
  "responder (s\<lparr>xs_cache := c, xs_chans := h, xs_streams := (xs_streams s)(sid := o')\<rparr>) k t =
     (if k = sid then (case o' of None \<Rightarrow> None | Some st \<Rightarrow> map_of (st_responders st) t) else responder s k t)"
  by (simp add: responder_def)

text \<open>The end of a stream: its watches go, the others stay.\<close>

lemma close_inv:
  assumes inv: "xds_inv s" and st: "xs_streams s sid = Some st"
    and h: "length (xs_chans s) \<le> length chans"
      "\<And>k t w. k \<noteq> sid \<Longrightarrow> responder s k t = Some w \<Longrightarrow> chans ! wa_response w = xs_chans s ! wa_response w"
  shows "xds_inv (s\<lparr>xs_cache := close_watches st (xs_cache s), xs_chans := chans, xs_streams := (xs_streams s)(sid := None)\<rparr>)"
proof -
  let ?c = "xs_cache s"
  have mine: "(\<exists>t w. (t, w) \<in> set (st_responders st) \<and> wa_cancel w = CancelWatch n i) \<longleftrightarrow>
      (\<exists>t w. responder s sid t = Some w \<and> wa_cancel w = CancelWatch n i)" for n i
    using al.entries_lookup [OF xds_invD(9) [OF inv st]] by (simp add: responder_def st)
  have W: "map_of (watches_of (close_watches st ?c) n) i =
      (if \<exists>t w. responder s sid t = Some w \<and> wa_cancel w = CancelWatch n i then None else map_of (watches_of ?c n) i)" for n i
    by (simp add: close_watches_def watches_of_close mine)
  have r: "responder (s\<lparr>xs_cache := close_watches st ?c, xs_chans := chans, xs_streams := (xs_streams s)(sid := None)\<rparr>) k t = Some w \<longleftrightarrow>
      k \<noteq> sid \<and> responder s k t = Some w" for k t w
    by (simp add: responder_streams)
  have sub: "sub_ok (close_watches st ?c) chans (xs_asked s k t) t w" if w: "k \<noteq> sid" "responder s k t = Some w" for k t w
  proof (rule sub_ok_frame [OF xds_invD(3) [OF inv w(2)]])
    show "open_watch (close_watches st ?c) w = open_watch ?c w"
      using xds_invD(5) [OF inv w(2)] w(1) by (auto simp: open_watch_def W split: cancel_func.split)
  qed (use h w in auto)
  have owner: "\<exists>k t w. (k \<noteq> sid \<and> responder s k t = Some w) \<and> wa_cancel w = CancelWatch n i"
    if "map_of (watches_of (close_watches st ?c) n) i = Some rw" for n i rw
  proof -
    have "map_of (watches_of ?c n) i = Some rw" "\<nexists>t w. responder s sid t = Some w \<and> wa_cancel w = CancelWatch n i"
      using that by (auto simp: W split: if_splits)
    then show ?thesis using xds_invD(7) [OF inv] by metis
  qed
  show ?thesis
  proof (rule xds_invI)
    fix n i rw snap
    assume "map_of (watches_of (xs_cache (s\<lparr>xs_cache := close_watches st ?c, xs_chans := chans, xs_streams := (xs_streams s)(sid := None)\<rparr>)) n) i = Some rw"
      "map_of (sc_snapshots (xs_cache (s\<lparr>xs_cache := close_watches st ?c, xs_chans := chans, xs_streams := (xs_streams s)(sid := None)\<rparr>))) n = Some snap"
    then show "\<not> stale snap (rw_Request rw)"
      using xds_invD(8) [OF inv] by (auto simp: W close_watches_frame split: if_splits)
  next
    fix k st'
    assume "xs_streams (s\<lparr>xs_cache := close_watches st ?c, xs_chans := chans, xs_streams := (xs_streams s)(sid := None)\<rparr>) k = Some st'"
    then show "wf_alist (st_responders st')" using xds_invD(9) [OF inv] by (auto split: if_splits)
  qed (simp_all add: r sub owner close_watches_frame xds_invD(1,2) [OF inv],
      (meson xds_invD(4-6) [OF inv] owner)+)
qed

lemma Disconnect_inv:
  assumes "xds_inv s" "xs_streams s sid = Some st"
  shows "xds_inv (s\<lparr>xs_cache := close_watches st (xs_cache s), xs_streams := (xs_streams s)(sid := None)\<rparr>)"
  using close_inv [OF assms, of "xs_chans s"] by simp

lemma nat_str_nonempty [simp]: "nat_str n \<noteq> []"
  by (subst nat_str.simps) simp

lemma FormatInt_nonempty [simp]: "strconv_FormatInt n \<noteq> []"
  by (simp add: strconv_FormatInt_def)

text \<open>Sending a response gives the watch its nonce.\<close>

lemma send_response_eq:
  assumes "map_of (st_responders st) (rq_TypeUrl (rp_Request resp)) = Some w"
  obtains st' out where "send_response None None resp st = Inr (st', out)"
    "st_responders st' = AList.update (rq_TypeUrl (rp_Request resp)) (w\<lparr>wa_nonce := dr_Nonce out\<rparr>) (st_responders st)"
    "dr_Nonce out \<noteq> []" "dr_VersionInfo out = rp_Version resp" "dr_TypeUrl out = rq_TypeUrl (rp_Request resp)"
    "dr_Resources out = rp_Resources resp" "st_node st' = st_node st" "st_defaultTypeURL st' = st_defaultTypeURL st"
  using assms by (auto simp: send_response_def Let_def)

text \<open>Replacing the subscription of stream \<open>sid\<close> for \<open>t\<close> leaves the open watches of the others alone.\<close>

lemma other_watch_kept:
  assumes "xds_inv s" "responder s k u = Some w" "(k, u) \<noteq> (sid, t)"
    and W: "\<And>n i. map_of (watches_of cache' n) i =
        (if wa_cancel w' = CancelWatch n i then open_watch cache' w'
         else if \<exists>w. responder s sid t = Some w \<and> wa_cancel w = CancelWatch n i then None
         else map_of (watches_of (xs_cache s) n) i)"
    and new: "\<And>n n' i. wa_cancel w = CancelWatch n i \<Longrightarrow> wa_cancel w' \<noteq> CancelWatch n' i"
  shows "open_watch cache' w = open_watch (xs_cache s) w"
proof (cases "wa_cancel w")
  case NoCancel
  then show ?thesis by (simp add: open_watch_def)
next
  case (CancelWatch n i)
  have "\<nexists>x. responder s sid t = Some x \<and> wa_cancel x = CancelWatch n i"
    using xds_invD(5) [OF assms(1,2) _ CancelWatch] assms(3) by blast
  then show ?thesis using W [of n i] new [OF CancelWatch] by (auto simp: open_watch_def CancelWatch)
qed

text \<open>
  A step of stream \<open>sid\<close> that replaces its subscription for \<open>t\<close>: what has to be shown of it. The new
  watch has a number and a channel that no other subscription has.
\<close>

lemma replace_inv:
  assumes inv: "xds_inv s" and st: "xs_streams s sid = Some st"
    and s': "responder s' = (responder s)(sid := (responder s sid)(t \<mapsto> w'))"
      "xs_asked s' = (xs_asked s)(sid := (xs_asked s sid)(t := req))"
      "\<And>k st. xs_streams s' k = Some st \<Longrightarrow> wf_alist (st_responders st)"
    and cache: "sc_ads (xs_cache s')" "\<And>n. wf_alist (watches_of (xs_cache s') n)"
      "sc_watchCount (xs_cache s) \<le> sc_watchCount (xs_cache s')" "sc_snapshots (xs_cache s') = sc_snapshots (xs_cache s)"
    and chans: "length (xs_chans s) \<le> length (xs_chans s')"
      "\<And>k u w. (k, u) \<noteq> (sid, t) \<Longrightarrow> responder s k u = Some w \<Longrightarrow> xs_chans s' ! wa_response w = xs_chans s ! wa_response w"
    and W: "\<And>n i. map_of (watches_of (xs_cache s') n) i =
        (if wa_cancel w' = CancelWatch n i then open_watch (xs_cache s') w'
         else if \<exists>w. responder s sid t = Some w \<and> wa_cancel w = CancelWatch n i then None
         else map_of (watches_of (xs_cache s) n) i)"
    and new: "sub_ok (xs_cache s') (xs_chans s') req t w'"
      "\<And>k u w. (k, u) \<noteq> (sid, t) \<Longrightarrow> responder s k u = Some w \<Longrightarrow> wa_response w \<noteq> wa_response w'"
      "\<And>k u w n n' i. (k, u) \<noteq> (sid, t) \<Longrightarrow> responder s k u = Some w \<Longrightarrow>
         wa_cancel w = CancelWatch n i \<Longrightarrow> wa_cancel w' \<noteq> CancelWatch n' i"
      "\<And>n i. wa_cancel w' = CancelWatch n i \<Longrightarrow> i \<le> sc_watchCount (xs_cache s')"
      "\<And>n i rw snap. wa_cancel w' = CancelWatch n i \<Longrightarrow> open_watch (xs_cache s') w' = Some rw \<Longrightarrow>
         map_of (sc_snapshots (xs_cache s)) n = Some snap \<Longrightarrow> \<not> stale snap (rw_Request rw)"
  shows "xds_inv s'"
proof -
  have r: "responder s' k u = Some w \<longleftrightarrow>
      (if k = sid \<and> u = t then w = w' else responder s k u = Some w)" for k u w
    by (auto simp: s'(1))
  show ?thesis
  proof (rule xds_invI)
    show "sub_ok (xs_cache s') (xs_chans s') (xs_asked s' k u) u w" if w: "responder s' k u = Some w" for k u w
    proof (cases "k = sid \<and> u = t")
      case True
      then show ?thesis using w new(1) by (auto simp: r s'(2))
    next
      case False
      then have w: "responder s k u = Some w" using w by (simp add: r)
      moreover have "open_watch (xs_cache s') w = open_watch (xs_cache s) w"
        by (rule other_watch_kept [OF inv w _ W new(3) [OF _ w]]) (use False in auto)
      ultimately have "sub_ok (xs_cache s') (xs_chans s') (xs_asked s k u) u w"
        using False chans w by (intro sub_ok_frame [OF xds_invD(3) [OF inv w]]) auto
      then show ?thesis using False by (auto simp: s'(2))
    qed
    show "\<exists>k u w. responder s' k u = Some w \<and> wa_cancel w = CancelWatch n i"
      if "map_of (watches_of (xs_cache s') n) i = Some rw" for n i rw
    proof (cases "wa_cancel w' = CancelWatch n i")
      case True
      then show ?thesis by (auto simp: r)
    next
      case False
      then have "map_of (watches_of (xs_cache s) n) i = Some rw"
        "\<nexists>w. responder s sid t = Some w \<and> wa_cancel w = CancelWatch n i"
        using that by (auto simp: W split: if_splits)
      moreover obtain k u w where "responder s k u = Some w" "wa_cancel w = CancelWatch n i"
        using xds_invD(7) [OF inv calculation(1)] by blast
      ultimately show ?thesis by (intro exI [of _ k] exI [of _ u] exI [of _ w]) (auto simp: r)
    qed
    show "\<not> stale snap (rw_Request rw)" if "map_of (watches_of (xs_cache s') n) i = Some rw"
      "map_of (sc_snapshots (xs_cache s')) n = Some snap" for n i rw snap
    proof (cases "wa_cancel w' = CancelWatch n i")
      case True
      then show ?thesis using that new(5) [OF True] by (simp add: W cache(4))
    next
      case False
      then have "map_of (watches_of (xs_cache s) n) i = Some rw" using that(1) by (simp add: W split: if_splits)
      then show ?thesis using xds_invD(8) [OF inv] that(2) by (simp add: cache(4))
    qed
    show "i \<le> sc_watchCount (xs_cache s')" if "responder s' k u = Some w" "wa_cancel w = CancelWatch n i" for k u w n i
      using that new(4) order_trans [OF xds_invD(6) [OF inv] cache(3)] unfolding r by metis
    show "k = k' \<and> u = u'" if "responder s' k u = Some w" "responder s' k' u' = Some x" "wa_response w = wa_response x"
      for k u w k' u' x
      using that new(2) xds_invD(4) [OF inv] unfolding r by (metis prod.inject)
    show "k = k' \<and> u = u'" if "responder s' k u = Some w" "responder s' k' u' = Some x"
      "wa_cancel w = CancelWatch n i" "wa_cancel x = CancelWatch n' i" for k u w k' u' x n n' i
      using that new(3) xds_invD(5) [OF inv] unfolding r by (metis prod.inject)
  qed (use cache s'(3) in auto)
qed

lemma Send_inv:
  assumes inv: "xds_inv s" and st: "xs_streams s sid = Some st" and w: "map_of (st_responders st) t = Some w"
    and full: "xs_chans s ! wa_response w = Some resp" and send: "send_response None None resp st = Inr (st', out)"
  shows "xds_inv (s\<lparr>xs_chans := (xs_chans s)[wa_response w := None], xs_streams := (xs_streams s)(sid \<mapsto> st')\<rparr>)"
    (is "xds_inv ?s")
proof -
  have r: "responder s sid t = Some w" using st w by (simp add: responder_def)
  note ok = xds_invD(3) [OF inv r]
  have closed: "open_watch (xs_cache s) w = None" and req: "rp_Request resp = xs_asked s sid t"
    and t: "rq_TypeUrl (xs_asked s sid t) = t" and len: "wa_response w < length (xs_chans s)"
    using ok full by (auto simp: sub_ok_def split: option.splits)
  obtain n where st': "st_responders st' = AList.update t (w\<lparr>wa_nonce := n\<rparr>) (st_responders st)" "n \<noteq> []"
    using send_response_eq [of st resp w] send w by (auto simp: req t)
  let ?w = "w\<lparr>wa_nonce := n\<rparr>"
  have o: "open_watch c ?w = open_watch c w" for c by (simp add: open_watch_def)
  show ?thesis
  proof (rule replace_inv [OF inv st, where t = t and w' = ?w and req = "xs_asked s sid t"])
    show "responder ?s = (responder s)(sid := (responder s sid)(t \<mapsto> ?w))"
      using st by (auto simp: responder_def fun_eq_iff st'(1) AList.update_conv')
    show "wf_alist (st_responders x)" if "xs_streams ?s k = Some x" for k x
    proof (cases "k = sid")
      case True
      then have "x = st'" using that by simp
      then show ?thesis using xds_invD(9) [OF inv st] by (simp add: st'(1) al.wf_update)
    qed (use that xds_invD(9) [OF inv] in simp)
    show "xs_chans ?s ! wa_response x = xs_chans s ! wa_response x" if "(k, u) \<noteq> (sid, t)" "responder s k u = Some x" for k u x
    proof -
      have "wa_response w \<noteq> wa_response x" using xds_invD(4) [OF inv r that(2)] that(1) by auto
      then show ?thesis by simp
    qed
    show "map_of (watches_of (xs_cache ?s) m) i = (if wa_cancel ?w = CancelWatch m i then open_watch (xs_cache ?s) ?w
        else if \<exists>w. responder s sid t = Some w \<and> wa_cancel w = CancelWatch m i then None
        else map_of (watches_of (xs_cache s) m) i)" for m i
      using r by (auto simp: open_watch_def)
    show "sub_ok (xs_cache ?s) (xs_chans ?s) (xs_asked s sid t) t ?w"
      using closed len t st'(2) by (simp add: sub_ok_def o)
    show "wa_response x \<noteq> wa_response ?w" if "(k, u) \<noteq> (sid, t)" "responder s k u = Some x" for k u x
      using xds_invD(4) [OF inv r that(2)] that(1) by auto
    show "wa_cancel ?w \<noteq> CancelWatch m' i" if "(k, u) \<noteq> (sid, t)" "responder s k u = Some x" "wa_cancel x = CancelWatch m i" for k u x m m' i
      using xds_invD(5) [OF inv r that(2) _ that(3)] that(1) by auto
    show "i \<le> sc_watchCount (xs_cache ?s)" if "wa_cancel ?w = CancelWatch m i" for m i
      using xds_invD(6) [OF inv r] that by simp
  qed (use xds_invD(1,2) [OF inv] closed o in auto)
qed

lemma count_fresh:
  fixes c :: "64 word"
  assumes "c \<noteq> - 1"
  shows "c < c + 1"
proof -
  have "1 + c \<noteq> 0" using assms by (simp add: eq_neg_iff_add_eq_0 add.commute)
  from unatSuc [OF this] show ?thesis by (simp add: word_less_nat_alt add.commute)
qed

lemma complete_request_type [simp]: "rq_TypeUrl (complete_request (st\<lparr>st_node := n\<rparr>) req) = rq_TypeUrl (complete_request st req)"
  by (simp add: complete_request_def Let_def split: option.split)

lemma acknowledge_responders [simp]: "st_responders (acknowledge req st) = st_responders st"
  by (simp add: acknowledge_def split: option.split prod.split)

text \<open>What a request that is accepted does: cancel the old watch of the type and create a new one.\<close>

lemma receive_cases:
  assumes "receive_request ords now onRequest request st cache chans = Inr (Inr st', cache', chans')"
    and "req = complete_request st request"
  obtains (Ignored) "\<not> accepts req (map_of (st_responders st) (rq_TypeUrl req))"
    "st_responders st' = st_responders st" "cache' = cache" "chans' = chans @ [None]"
  | (Accepted) cancel known where "accepts req (map_of (st_responders st) (rq_TypeUrl req))"
    "st_responders st' = AList.update (rq_TypeUrl req)
       \<lparr>wa_cancel = cancel, wa_nonce = [], wa_response = length chans\<rparr> (st_responders st)"
    "CreateWatch ords now req known (length chans)
       (case map_of (st_responders st) (rq_TypeUrl req) of None \<Rightarrow> cache | Some w \<Rightarrow> run_cancel (wa_cancel w) cache)
       (chans @ [None]) = Inr (cancel, cache', chans')"
  using assms
  by (auto simp: receive_request_def add_watch_def Let_def bindr_Inr_iff split: if_splits option.splits)

text \<open>The cache after the old watch of a subscription is cancelled.\<close>

definition cancelled :: "snapshotCache \<Rightarrow> watch option \<Rightarrow> snapshotCache" where
  "cancelled cache watch = (case watch of None \<Rightarrow> cache | Some w \<Rightarrow> run_cancel (wa_cancel w) cache)"

lemma cancelled_simps [simp]:
  "sc_snapshots (cancelled cache o') = sc_snapshots cache" "sc_watchCount (cancelled cache o') = sc_watchCount cache"
  "sc_ads (cancelled cache o') = sc_ads cache"
  by (simp_all add: cancelled_def split: option.split)

lemma watches_of_cancelled:
  "map_of (watches_of (cancelled cache o') n) i =
     (if \<exists>w. o' = Some w \<and> wa_cancel w = CancelWatch n i then None else map_of (watches_of cache n) i)"
  by (auto simp: cancelled_def watches_of_cancel AList.delete_conv' split: option.split cancel_func.split)

lemma wf_cancelled: "(\<And>n. wf_alist (watches_of cache n)) \<Longrightarrow> wf_alist (watches_of (cancelled cache o') n)"
  by (auto simp: cancelled_def watches_of_cancel al.wf_remove split: option.split cancel_func.split)

text \<open>The subscription a created watch makes, on a new channel at the end of the store.\<close>

lemma CreateWatch_subscribes:
  assumes create: "CreateWatch ords now req known (length h) c (h @ [None]) = Inr (cancel, cache, chans)"
    and ads: "sc_ads c" and wf: "\<And>n. wf_alist (watches_of c n)" and count: "sc_watchCount c \<noteq> - 1"
    and gone: "\<And>n. map_of (watches_of c n) (sc_watchCount c + 1) = None"
  defines "w \<equiv> \<lparr>wa_cancel = cancel, wa_nonce = [], wa_response = length h\<rparr>"
  shows "sc_ads cache" "wf_alist (watches_of cache n)" "sc_watchCount c \<le> sc_watchCount cache"
    "sc_snapshots cache = sc_snapshots c" "length chans = Suc (length h)" "j < length h \<Longrightarrow> chans ! j = h ! j"
    "map_of (watches_of cache n) i = (if cancel = CancelWatch n i then open_watch cache w else map_of (watches_of c n) i)"
    "sub_ok cache chans req (rq_TypeUrl req) w"
    "cancel = CancelWatch n i \<Longrightarrow> i = sc_watchCount c + 1 \<and> i \<le> sc_watchCount cache"
    "cancel = CancelWatch n i \<Longrightarrow> open_watch cache w = Some rw \<Longrightarrow> map_of (sc_snapshots c) n = Some snap \<Longrightarrow>
       \<not> stale snap (rw_Request rw)"
proof -
  let ?k = "sc_watchCount c + 1" and ?n = "IDHash_ID (rq_Node req)"
  let ?rw = "\<lparr>rw_Request = req, rw_Response = length h\<rparr>"
  have empty: "(h @ [None]) ! length h = None" by simp
  have le: "sc_watchCount c \<le> ?k" using count_fresh [OF count] by simp
  have facts: "sc_ads cache \<and> (\<forall>n. wf_alist (watches_of cache n)) \<and> sc_watchCount c \<le> sc_watchCount cache \<and>
    sc_snapshots cache = sc_snapshots c \<and> length chans = Suc (length h) \<and> (\<forall>j < length h. chans ! j = h ! j) \<and>
    (\<forall>n i. map_of (watches_of cache n) i = (if cancel = CancelWatch n i then open_watch cache w else map_of (watches_of c n) i)) \<and>
    sub_ok cache chans req (rq_TypeUrl req) w \<and>
    (\<forall>n i. cancel = CancelWatch n i \<longrightarrow> i = ?k \<and> i \<le> sc_watchCount cache) \<and>
    (\<forall>n i rw snap. cancel = CancelWatch n i \<longrightarrow> open_watch cache w = Some rw \<longrightarrow> map_of (sc_snapshots c) n = Some snap \<longrightarrow>
       \<not> stale snap (rw_Request rw))"
    using empty
  proof (cases rule: CreateWatch_cases [where ords = ords and now = now and req = req and known = known and cache = c])
    case (Opened cache')
    then have e: "cancel = CancelWatch ?n ?k" "cache' = cache" "chans = h @ [None]" using create by auto
    have o: "open_watch cache w = Some ?rw"
      using Opened(2) by (simp add: open_watch_def w_def e AList.update_conv')
    have m: "map_of (watches_of cache n) i = (if cancel = CancelWatch n i then open_watch cache w else map_of (watches_of c n) i)" for n i
      using Opened(2) unfolding o by (simp add: e AList.update_conv')
    have "sub_ok cache chans req (rq_TypeUrl req) w" unfolding sub_ok_def o by (simp add: w_def e)
    then show ?thesis using Opened wf ads le m by (auto simp: e o al.wf_update nth_append)
  next
    case (Answered cache' snap)
    then have e: "cancel = NoCancel" "cache' = cache"
      "chans = (if answerable True snap req then (h @ [None])[length h := Some (answer_of ords snap req)] else h @ [None])"
      using create ads by auto
    have "open_watch cache w = None" by (simp add: open_watch_def w_def e)
    then have "sub_ok cache chans req (rq_TypeUrl req) w"
      by (auto simp: sub_ok_def e w_def answerable_def)
    then show ?thesis using Answered wf ads by (auto simp: e nth_append)
  qed
  then show "sc_ads cache" "wf_alist (watches_of cache n)" "sc_watchCount c \<le> sc_watchCount cache"
    "sc_snapshots cache = sc_snapshots c" "length chans = Suc (length h)" "j < length h \<Longrightarrow> chans ! j = h ! j"
    "map_of (watches_of cache n) i = (if cancel = CancelWatch n i then open_watch cache w else map_of (watches_of c n) i)"
    "sub_ok cache chans req (rq_TypeUrl req) w"
    "cancel = CancelWatch n i \<Longrightarrow> i = sc_watchCount c + 1 \<and> i \<le> sc_watchCount cache"
    "cancel = CancelWatch n i \<Longrightarrow> open_watch cache w = Some rw \<Longrightarrow> map_of (sc_snapshots c) n = Some snap \<Longrightarrow>
       \<not> stale snap (rw_Request rw)"
    by (elim conjE, metis)+
qed

lemma Accepted_inv:
  assumes inv: "xds_inv s" and st: "xs_streams s sid = Some st" and count: "sc_watchCount (xs_cache s) \<noteq> - 1"
    and st': "st_responders st' = AList.update t \<lparr>wa_cancel = cancel, wa_nonce = [], wa_response = length (xs_chans s)\<rparr>
        (st_responders st)" and t: "t = rq_TypeUrl req"
    and create: "CreateWatch ords now req known (length (xs_chans s))
        (cancelled (xs_cache s) (map_of (st_responders st) t)) (xs_chans s @ [None]) = Inr (cancel, cache, chans)"
  shows "xds_inv \<lparr>xs_cache = cache, xs_chans = chans, xs_streams = (xs_streams s)(sid \<mapsto> st'),
    xs_asked = (xs_asked s)(sid := (xs_asked s sid)(t := req))\<rparr>" (is "xds_inv ?s")
proof -
  let ?w = "\<lparr>wa_cancel = cancel, wa_nonce = [], wa_response = length (xs_chans s)\<rparr>"
  have r: "map_of (st_responders st) t = responder s sid t" using st by (simp add: responder_def)
  have lt: "wa_response w < length (xs_chans s)" if "responder s k u = Some w" for k u w
    using xds_invD(3) [OF inv that] by (simp add: sub_ok_def)
  have num: "i < sc_watchCount (xs_cache s) + 1" if "responder s k u = Some w" "wa_cancel w = CancelWatch n i" for k u w n i
    using xds_invD(6) [OF inv that] count_fresh [OF count] by simp
  have gone: "map_of (watches_of (cancelled (xs_cache s) o') n) (sc_watchCount (cancelled (xs_cache s) o') + 1) = None" for n o'
  proof -
    have "map_of (watches_of (xs_cache s) n) (sc_watchCount (xs_cache s) + 1) = None"
      using xds_invD(7) [OF inv] num by (metis less_irrefl not_None_eq)
    then show ?thesis by (simp add: watches_of_cancelled)
  qed
  note new = CreateWatch_subscribes [OF create _ wf_cancelled [OF xds_invD(2) [OF inv]] _ gone, folded r, unfolded cancelled_simps, OF xds_invD(1) [OF inv] count]
  show ?thesis
  proof (rule replace_inv [OF inv st, where t = t and w' = ?w and req = req])
    show "responder ?s = (responder s)(sid := (responder s sid)(t \<mapsto> ?w))"
      using st by (auto simp: responder_def fun_eq_iff st' AList.update_conv')
    show "wf_alist (st_responders x)" if "xs_streams ?s k = Some x" for k x
    proof (cases "k = sid")
      case True
      then have "x = st'" using that by simp
      then show ?thesis using xds_invD(9) [OF inv st] by (simp add: st' al.wf_update)
    qed (use that xds_invD(9) [OF inv] in simp)
    show "map_of (watches_of (xs_cache ?s) n) i = (if wa_cancel ?w = CancelWatch n i then open_watch (xs_cache ?s) ?w
        else if \<exists>w. responder s sid t = Some w \<and> wa_cancel w = CancelWatch n i then None
        else map_of (watches_of (xs_cache s) n) i)" for n i
      using new(7) [of n i] by (simp add: r watches_of_cancelled)
    show "wa_response x \<noteq> wa_response ?w" if "(k, u) \<noteq> (sid, t)" "responder s k u = Some x" for k u x
      using lt [OF that(2)] by simp
    show "wa_cancel ?w \<noteq> CancelWatch n' i" if "(k, u) \<noteq> (sid, t)" "responder s k u = Some x" "wa_cancel x = CancelWatch n i" for k u x n n' i
      using num [OF that(2,3)] new(9) by auto
  qed (use new lt t in auto)
qed

text \<open>A step that changes no subscription.\<close>

lemma frame_inv:
  assumes inv: "xds_inv s" and r: "responder s' = responder s"
    and e: "xs_asked s' = xs_asked s" "xs_cache s' = xs_cache s"
    and chans: "length (xs_chans s) \<le> length (xs_chans s')" "\<And>j. j < length (xs_chans s) \<Longrightarrow> xs_chans s' ! j = xs_chans s ! j"
    and wf: "\<And>k x. xs_streams s' k = Some x \<Longrightarrow> wf_alist (st_responders x)"
  shows "xds_inv s'"
proof (rule xds_invI, unfold r e)
  show "sub_ok (xs_cache s) (xs_chans s') (xs_asked s k u) u w" if "responder s k u = Some w" for k u w
  proof (rule sub_ok_frame [OF xds_invD(3) [OF inv that]])
    show "xs_chans s' ! wa_response w = xs_chans s ! wa_response w"
      using xds_invD(3) [OF inv that] by (intro chans) (simp add: sub_ok_def)
  qed (use chans in simp_all)
  show "k = k' \<and> u = u'" if "responder s k u = Some w" "responder s k' u' = Some x" "wa_response w = wa_response x"
    for k u w k' u' x by (rule xds_invD(4) [OF inv that])
  show "k = k' \<and> u = u'" if "responder s k u = Some w" "responder s k' u' = Some x"
    "wa_cancel w = CancelWatch n i" "wa_cancel x = CancelWatch n' i" for k u w k' u' x n n' i
    by (rule xds_invD(5) [OF inv that])
  show "i \<le> sc_watchCount (xs_cache s)" if "responder s k u = Some w" "wa_cancel w = CancelWatch n i" for k u w n i
    by (rule xds_invD(6) [OF inv that])
  show "\<exists>k u w. responder s k u = Some w \<and> wa_cancel w = CancelWatch n i"
    if "map_of (watches_of (xs_cache s) n) i = Some rw" for n i rw by (rule xds_invD(7) [OF inv that])
  show "\<not> stale snap (rw_Request rw)" if "map_of (watches_of (xs_cache s) n) i = Some rw"
    "map_of (sc_snapshots (xs_cache s)) n = Some snap" for n i rw snap by (rule xds_invD(8) [OF inv that])
qed (use inv wf in \<open>auto intro: xds_invD\<close>)

lemma Request_inv:
  assumes "xds_inv s" "xs_streams s sid = Some st" "sc_watchCount (xs_cache s) \<noteq> - 1"
    and "receive_request ords now onRequest req st (xs_cache s) (xs_chans s) = Inr (Inr st', cache, chans)"
    and "t = rq_TypeUrl (complete_request st req)"
    and "asked = (if accepts (complete_request st req) (map_of (st_responders st) t)
      then (xs_asked s)(sid := (xs_asked s sid)(t := complete_request st req)) else xs_asked s)"
  shows "xds_inv \<lparr>xs_cache = cache, xs_chans = chans, xs_streams = (xs_streams s)(sid \<mapsto> st'), xs_asked = asked\<rparr>"
  using assms(4) refl [of "complete_request st req"]
proof (cases rule: receive_cases)
  case Ignored
  let ?s = "\<lparr>xs_cache = cache, xs_chans = chans, xs_streams = (xs_streams s)(sid \<mapsto> st'), xs_asked = asked\<rparr>"
  have r: "responder ?s = responder s" using assms(2) Ignored(2) by (auto simp: responder_def fun_eq_iff)
  have a: "asked = xs_asked s" using Ignored(1) by (simp add: assms(5,6))
  show ?thesis
  proof (rule frame_inv [OF assms(1) r])
    show "wf_alist (st_responders x)" if "xs_streams ?s k = Some x" for k x
    proof (cases "k = sid")
      case True
      then have "x = st'" using that by simp
      then show ?thesis using xds_invD(9) [OF assms(1,2)] by (simp add: Ignored(2))
    qed (use that xds_invD(9) [OF assms(1)] in simp)
  qed (simp_all add: a Ignored(3,4) nth_append)
next
  case (Accepted cancel known)
  then show ?thesis
    using Accepted_inv [OF assms(1-3), where st' = st' and cancel = cancel and req = "complete_request st req" and t = t]
    by (simp add: assms(5,6) cancelled_def)
qed

lemma Connect_inv:
  assumes "xds_inv s" "xs_streams s sid = None"
  shows "xds_inv (s\<lparr>xs_streams := (xs_streams s)(sid \<mapsto> new_stream typeURL)\<rparr>)"
proof (rule frame_inv [OF assms(1)])
  show "wf_alist (st_responders x)"
    if "xs_streams (s\<lparr>xs_streams := (xs_streams s)(sid \<mapsto> new_stream typeURL)\<rparr>) k = Some x" for k x
    using that xds_invD(9) [OF assms(1)] by (auto simp: new_stream_def wf_alist_def split: if_splits)
qed (use assms(2) in \<open>auto simp: responder_def new_stream_def fun_eq_iff\<close>)

lemma BadRequest_state:
  "receive_request ords now onRequest req st cache chans = Inr (Inl e, cache', chans') \<Longrightarrow> cache' = cache \<and> chans' = chans"
  by (auto simp: receive_request_def add_watch_def Let_def bindr_Inr_iff split: if_splits option.splits)

lemma xds_step_inv: "xds_step ok s s' \<Longrightarrow> xds_inv s \<Longrightarrow> xds_inv s'"
proof (induction rule: xds_step.induct)
  case (BadRequest s sid st ords now onRequest req e cache chans)
  then show ?case using close_inv [OF BadRequest(3,1), of chans] BadRequest_state [OF BadRequest(2)] by simp
next
  case (BadSend s sid st t w resp marshalError sendError f)
  have "responder s sid t = Some w" using BadSend by (simp add: responder_def)
  then have "(xs_chans s)[wa_response w := None] ! wa_response x = xs_chans s ! wa_response x"
    if "k \<noteq> sid" "responder s k u = Some x" for k u x
    using xds_invD(4) [OF BadSend(5) _ that(2)] that(1) by (metis nth_list_update_neq)
  then show ?case using close_inv [OF BadSend(5,1), of "(xs_chans s)[wa_response w := None]"] by simp
qed (auto simp: orders_ok_def intro: SetSnap_inv Connect_inv Request_inv Send_inv Disconnect_inv)

lemma xds_init_inv: "xds_init s \<Longrightarrow> xds_inv s"
  by (rule xds_invI)
    (auto simp: xds_init_def responder_def newSnapshotCache_def watches_of_def wf_alist_def)

interpretation xds: transition_system xds_init "xds_step ok" xds_inv for ok
  by unfold_locales (auto intro: xds_init_inv xds_step_inv)

end
