(* ===== verification/Xds_Props.thy ===== *)
theory Xds_Props
  imports Xds_Stream
begin

text \<open>
  What the gateways get from the xDS server, in every state the server reaches from its start with
  any interleaving of snapshots, connections, requests and responses.
\<close>

section \<open>Snapshots reach the gateways\<close>

text \<open>
  C20: Setting a snapshot always returns: whatever watches the connected gateways have, no send on
  a channel blocks, which would hold the mutex of the cache for ever and stop every later update.
  The outcome is the one the reconciler relies on, the snapshot stored and no error, and every
  open watch of the node whose version differs is answered with the new version and the
  resources of its type, unless it names resources and misses one of the snapshot.
\<close>

theorem SetSnapshot_never_blocks:
  assumes "xds_init s0" "(xds_step ok)\<^sup>*\<^sup>* s0 s" "orders_ok ords"
  shows "\<exists>cache chans. cache_SetSnapshot ords n snap (xs_cache s) (xs_chans s) = Inr (cache, chans) \<and>
    SetSnapshot (\<lambda>_. None) n snap (sc_snapshots (xs_cache s)) = (Inr (), sc_snapshots cache) \<and>
    (\<forall>sid t w req. responder s sid t = Some w \<longrightarrow>
       open_watch (xs_cache s) w = Some \<lparr>rw_Request = req, rw_Response = wa_response w\<rparr> \<longrightarrow>
       IDHash_ID (rq_Node req) = n \<longrightarrow> rq_VersionInfo req \<noteq> GetVersion snap t \<longrightarrow>
       rq_ResourceNames req = [] \<or> superset (rq_ResourceNames req) (GetResourcesAndTTL snap t) \<longrightarrow>
       open_watch cache w = None \<and> chans ! wa_response w =
         Some (createResponse ords req (GetResourcesAndTTL snap t) (GetVersion snap t) False))"
proof -
  have inv: "xds_inv s" by (rule xds.reachable_inv [OF assms(1,2)])
  obtain cache chans ws where S: "cache_SetSnapshot ords n snap (xs_cache s) (xs_chans s) = Inr (cache, chans)"
    and A: "answered ords True snap (watches_of (xs_cache s) n) (watches_of (xs_cache s) n, xs_chans s) (ws, chans)"
    and W: "watches_of cache = (watches_of (xs_cache s))(n := ws)"
    and store: "sc_snapshots cache = AList.update n snap (sc_snapshots (xs_cache s))"
    by (rule SetSnapshot_proceeds [OF inv conjunct1 [OF assms(3) [unfolded orders_ok_def]]])
  have "open_watch cache w = None \<and> chans ! wa_response w =
      Some (createResponse ords req (GetResourcesAndTTL snap t) (GetVersion snap t) False)"
    if w: "responder s sid t = Some w" and o: "open_watch (xs_cache s) w = Some \<lparr>rw_Request = req, rw_Response = wa_response w\<rparr>"
      and n: "IDHash_ID (rq_Node req) = n" and v: "rq_VersionInfo req \<noteq> GetVersion snap t"
      and a: "rq_ResourceNames req = [] \<or> superset (rq_ResourceNames req) (GetResourcesAndTTL snap t)" for sid t w req
  proof -
    let ?rw = "\<lparr>rw_Request = req, rw_Response = wa_response w\<rparr>"
    obtain i where c: "wa_cancel w = CancelWatch n i" and t: "rq_TypeUrl req = t"
      using xds_invD(3) [OF inv w] o n by (auto simp: sub_ok_def)
    then have i: "(i, ?rw) \<in> set (watches_of (xs_cache s) n)"
      using o by (simp add: open_watch_def al.entries_lookup [OF xds_invD(2) [OF inv]])
    have st: "stale snap (rw_Request ?rw)" using v t by (auto simp: stale_def)
    have "open_watch cache w = None"
      using answeredD(2) [OF A, of i] i st by (auto simp: open_watch_def c W)
    then show ?thesis
      using answeredD(4) [OF A i st] a t by (auto simp: answerable_def answer_of_def)
  qed
  then show ?thesis using S store by (auto simp: SetSnapshot_def)
qed

text \<open>
  C8: No update is lost. Every subscription of a connected gateway to all resources of a type
  (the gateways ask this way for clusters and listeners) is in exactly one of three states: its
  answer was sent and carries a nonce, its answer waits in its channel, or it has an open watch,
  and then the version it asked with is the one of the node's snapshot.
\<close>

theorem no_update_lost:
  assumes "xds_init s0" "(xds_step ok)\<^sup>*\<^sup>* s0 s" "responder s sid t = Some w"
    and "req = xs_asked s sid t" "rq_ResourceNames req = []"
  shows "rq_TypeUrl req = t \<and>
    (case open_watch (xs_cache s) w of
       Some rw \<Rightarrow> rw = \<lparr>rw_Request = req, rw_Response = wa_response w\<rparr> \<and> wa_nonce w = [] \<and>
         xs_chans s ! wa_response w = None \<and>
         (\<forall>snap. map_of (sc_snapshots (xs_cache s)) (IDHash_ID (rq_Node req)) = Some snap \<longrightarrow>
            rq_VersionInfo req = GetVersion snap t)
     | None \<Rightarrow> (case xs_chans s ! wa_response w of
         Some resp \<Rightarrow> rp_Request resp = req \<and> wa_nonce w = []
       | None \<Rightarrow> wa_nonce w \<noteq> []))"
proof -
  have inv: "xds_inv s" by (rule xds.reachable_inv [OF assms(1,2)])
  note ok = xds_invD(3) [OF inv assms(3), folded assms(4)]
  show ?thesis
  proof (cases "open_watch (xs_cache s) w")
    case None
    then show ?thesis using ok assms(5) by (auto simp: sub_ok_def split: option.splits)
  next
    case (Some rw)
    then obtain i where i: "wa_cancel w = CancelWatch (IDHash_ID (rq_Node req)) i"
      and rw: "rw = \<lparr>rw_Request = req, rw_Response = wa_response w\<rparr>" "rq_TypeUrl req = t"
      using ok by (auto simp: sub_ok_def)
    then have "map_of (watches_of (xs_cache s) (IDHash_ID (rq_Node req))) i = Some rw"
      using Some by (simp add: open_watch_def)
    from xds_invD(8) [OF inv this] have "\<not> stale snap req"
      if "map_of (sc_snapshots (xs_cache s)) (IDHash_ID (rq_Node req)) = Some snap" for snap
      using that rw by simp
    then show ?thesis using ok Some rw by (auto simp: sub_ok_def stale_def)
  qed
qed

section \<open>Acknowledgements\<close>

lemma CreateWatch_all:
  assumes "rq_ResourceNames req = []" "map_of (sc_snapshots cache) (IDHash_ID (rq_Node req)) = Some snap" "chans ! ch = None"
  obtains cancel cache' where "CreateWatch ords now req known ch cache chans =
      Inr (cancel, cache', if stale snap req then chans[ch := Some (answer_of ords snap req)] else chans)"
    "\<not> stale snap req \<Longrightarrow> open_watch cache' \<lparr>wa_cancel = cancel, wa_nonce = x, wa_response = ch\<rparr> =
       Some \<lparr>rw_Request = req, rw_Response = ch\<rparr>"
  using assms(3)
proof (cases rule: CreateWatch_cases [where ords = ords and now = now and req = req and known = known and cache = cache])
  case (Opened cache')
  then show ?thesis
    using assms(2) by (intro that) (auto simp: open_watch_def AList.update_conv')
next
  case (Answered cache' snap')
  have "stale snap req"
    using Answered(1) assms(1,2) by (auto simp: CreateWatch_def Let_def stale_def)
  then show ?thesis using Answered assms(1,2) by (intro that) (auto simp: answerable_def)
qed

text \<open>
  C19: A gateway that acknowledges what it gets converges to the current snapshot. When a response
  waits in the channel of a subscription, the stream sends it with its version; when the gateway
  acknowledges that response for all resources, then either the version was the current one and the
  subscription has an open watch for the next snapshot, or the current version, with all resources of
  the type in the current snapshot, waits in its new channel. So at most one further round brings the gateway up to date.
\<close>

theorem gateway_converges:
  assumes "xds_init s0" "(xds_step ok)\<^sup>*\<^sup>* s0 s" "xs_streams s sid = Some st" "map_of (st_responders st) t = Some w"
    and "xs_chans s ! wa_response w = Some resp" "map_of (sc_snapshots (xs_cache s)) n = Some snap"
  shows "\<exists>st' out. send_response None None resp st = Inr (st', out) \<and> dr_TypeUrl out = t \<and>
    dr_VersionInfo out = rp_Version resp \<and> dr_Resources out = rp_Resources resp \<and>
    (\<forall>ords now onRequest ack. rq_TypeUrl ack = t \<longrightarrow> rq_Node ack = Some n \<longrightarrow> rq_ResourceNames ack = [] \<longrightarrow>
       rq_VersionInfo ack = dr_VersionInfo out \<longrightarrow> rq_ResponseNonce ack = dr_Nonce out \<longrightarrow> onRequest ack = None \<longrightarrow> t \<noteq> [] \<longrightarrow>
       (\<exists>st'' cache chans w'. receive_request ords now onRequest ack st' (xs_cache s) ((xs_chans s)[wa_response w := None]) =
            Inr (Inr st'', cache, chans) \<and> map_of (st_responders st'') t = Some w' \<and>
          (if rp_Version resp = GetVersion snap t
           then open_watch cache w' = Some \<lparr>rw_Request = ack, rw_Response = wa_response w'\<rparr>
           else chans ! wa_response w' =
             Some (createResponse ords ack (GetResourcesAndTTL snap t) (GetVersion snap t) False))))"
proof -
  have inv: "xds_inv s" by (rule xds.reachable_inv [OF assms(1,2)])
  have r: "responder s sid t = Some w" using assms(3,4) by (simp add: responder_def)
  have t: "rq_TypeUrl (rp_Request resp) = t"
    using xds_invD(3) [OF inv r] assms(5) by (auto simp: sub_ok_def split: option.splits)
  obtain st' out where send: "send_response None None resp st = Inr (st', out)"
    and st': "st_responders st' = AList.update t (w\<lparr>wa_nonce := dr_Nonce out\<rparr>) (st_responders st)"
    and out: "dr_VersionInfo out = rp_Version resp" "dr_TypeUrl out = t" "dr_Resources out = rp_Resources resp"
    using send_response_eq [of st resp w] assms(4) unfolding t by metis
  let ?h = "(xs_chans s)[wa_response w := None]"
  have "\<exists>st'' cache chans w'. receive_request ords now onRequest ack st' (xs_cache s) ?h = Inr (Inr st'', cache, chans) \<and>
      map_of (st_responders st'') t = Some w' \<and>
      (if rp_Version resp = GetVersion snap t then open_watch cache w' = Some \<lparr>rw_Request = ack, rw_Response = wa_response w'\<rparr>
       else chans ! wa_response w' = Some (createResponse ords ack (GetResourcesAndTTL snap t) (GetVersion snap t) False))"
    if a: "rq_TypeUrl ack = t" "rq_Node ack = Some n" "rq_ResourceNames ack = []" "rq_VersionInfo ack = dr_VersionInfo out"
      "rq_ResponseNonce ack = dr_Nonce out" "onRequest ack = None" "t \<noteq> []" for ords now onRequest ack
  proof -
    let ?st = "acknowledge ack (st'\<lparr>st_node := rq_Node ack\<rparr>)"
    let ?c = "run_cancel (wa_cancel w) (xs_cache s)"
    have c: "complete_request st' ack = ack" using a by (simp add: complete_request_def)
    have m: "map_of (st_responders st') t = Some (w\<lparr>wa_nonce := dr_Nonce out\<rparr>)" by (simp add: st' AList.update_conv')
    have "(?h @ [None]) ! length ?h = None" by (rule nth_append_length)
    then obtain cancel cache where cw: "CreateWatch ords now ack (known_names ?st t) (length ?h) ?c (?h @ [None]) =
        Inr (cancel, cache, if stale snap ack then (?h @ [None])[length ?h := Some (answer_of ords snap ack)] else ?h @ [None])"
      and o: "\<not> stale snap ack \<Longrightarrow> open_watch cache \<lparr>wa_cancel = cancel, wa_nonce = [], wa_response = length ?h\<rparr> =
        Some \<lparr>rw_Request = ack, rw_Response = length ?h\<rparr>"
      using CreateWatch_all [of ack ?c snap "?h @ [None]" "length ?h" ords now "known_names ?st t" "[]"] a assms(6)
      by (auto simp: IDHash_ID_def)
    have "receive_request ords now onRequest ack st' (xs_cache s) ?h =
        Inr (Inr (?st\<lparr>st_responders := AList.update t \<lparr>wa_cancel = cancel, wa_nonce = [], wa_response = length ?h\<rparr> (st_responders ?st)\<rparr>),
          cache, if stale snap ack then (?h @ [None])[length ?h := Some (answer_of ords snap ack)] else ?h @ [None])"
      using cw a by (simp add: receive_request_def Let_def c m accepts_def add_watch_def)
    moreover have "stale snap ack \<longleftrightarrow> rp_Version resp \<noteq> GetVersion snap t" using a out by (auto simp: stale_def)
    ultimately show ?thesis
      using o a by (auto simp: AList.update_conv' answer_of_def nth_append)
  qed
  then show ?thesis using send out by (intro exI [of _ st'] exI [of _ out]) blast
qed

section \<open>What the gateways receive\<close>

text \<open>A response that is made of one snapshot, of those the control plane may set.\<close>

definition taken_from :: "(Snapshot \<Rightarrow> bool) \<Rightarrow> RawResponse \<Rightarrow> bool" where
  "taken_from ok r \<longleftrightarrow> (\<exists>ords snap. orders_ok ords \<and> ok snap \<and> r = answer_of ords snap (rp_Request r))"

definition from_inv :: "(Snapshot \<Rightarrow> bool) \<Rightarrow> xds_system \<Rightarrow> bool" where
  "from_inv ok s \<longleftrightarrow> xds_inv s \<and> (\<forall>n snap. map_of (sc_snapshots (xs_cache s)) n = Some snap \<longrightarrow> ok snap) \<and>
     (\<forall>r. Some r \<in> set (xs_chans s) \<longrightarrow> taken_from ok r)"

lemma taken_from_answer: "orders_ok ords \<Longrightarrow> ok snap \<Longrightarrow> taken_from ok (answer_of ords snap req)"
  unfolding taken_from_def by (metis answer_of_simps(1))

lemma SetSnap_from:
  assumes inv: "from_inv ok s" and ords: "orders_ok ords" "ok snap"
    and set: "cache_SetSnapshot ords n snap (xs_cache s) (xs_chans s) = Inr (cache, chans)"
  shows "(\<forall>m snap. map_of (sc_snapshots cache) m = Some snap \<longrightarrow> ok snap) \<and> (\<forall>r. Some r \<in> set chans \<longrightarrow> taken_from ok r)"
proof -
  have x: "xds_inv s" using inv by (simp add: from_inv_def)
  have o: "range_order (co_watches ords)" using ords(1) by (simp add: orders_ok_def)
  obtain ws where A: "answered ords True snap (watches_of (xs_cache s) n) (watches_of (xs_cache s) n, xs_chans s) (ws, chans)"
    and S: "sc_snapshots cache = AList.update n snap (sc_snapshots (xs_cache s))"
    by (rule SetSnapshot_proceeds [OF x o, of n snap]) (use set in auto)
  have "taken_from ok r" if r: "Some r \<in> set chans" for r
  proof -
    obtain j where j: "j < length chans" "chans ! j = Some r" using r by (auto simp: in_set_conv_nth)
    show ?thesis
    proof (cases "\<exists>i rw. (i, rw) \<in> set (watches_of (xs_cache s) n) \<and> stale snap (rw_Request rw) \<and> rw_Response rw = j")
      case True
      then show ?thesis using answeredD(4) [OF A] j taken_from_answer [of ords ok] ords by (force split: if_splits)
    next
      case False
      then have "xs_chans s ! j = Some r" using answeredD(5) [OF A, of j] j(2) by auto
      then show ?thesis using inv j(1) answeredD(1) [OF A] by (simp add: from_inv_def in_set_conv_nth) metis
    qed
  qed
  then show ?thesis using inv ords by (auto simp: from_inv_def S AList.update_conv')
qed

lemma CreateWatch_from:
  assumes "CreateWatch ords now req known (length h) c (h @ [None]) = Inr (cancel, cache, chans)" "orders_ok ords"
    and "\<And>n snap. map_of (sc_snapshots c) n = Some snap \<Longrightarrow> ok snap"
  shows "sc_snapshots cache = sc_snapshots c \<and> (\<forall>r. Some r \<in> set chans \<longrightarrow> Some r \<in> set h \<or> taken_from ok r)"
proof -
  have "(h @ [None]) ! length h = None" by simp
  then show ?thesis
  proof (cases rule: CreateWatch_cases [where ords = ords and now = now and req = req and known = known and cache = c])
    case (Opened cache')
    then show ?thesis using assms(1) by auto
  next
    case (Answered cache' snap)
    then show ?thesis using assms taken_from_answer [of ords ok snap req] by auto
  qed
qed

lemma from_step: "xds_step ok s s' \<Longrightarrow> from_inv ok s \<Longrightarrow> from_inv ok s'"
proof (induction rule: xds_step.induct)
  case (SetSnap ords snap node s cache chans)
  then have "xds_inv (s\<lparr>xs_cache := cache, xs_chans := chans\<rparr>)"
    by (intro SetSnap_inv) (auto simp: from_inv_def orders_ok_def)
  then show ?case using SetSnap_from [OF SetSnap(4,1,2,3)] by (simp add: from_inv_def)
next
  case (Request ords s sid st now onRequest req st' cache chans t asked)
  have inv: "xds_inv s" and ok: "\<And>n snap. map_of (sc_snapshots (xs_cache s)) n = Some snap \<Longrightarrow> ok snap"
    using Request by (auto simp: from_inv_def)
  from Request(4) refl [of "complete_request st req"]
  have "sc_snapshots cache = sc_snapshots (xs_cache s) \<and> (\<forall>r. Some r \<in> set chans \<longrightarrow> Some r \<in> set (xs_chans s) \<or> taken_from ok r)"
  proof (cases rule: receive_cases)
    case (Accepted cancel known)
    then show ?thesis
      using CreateWatch_from [OF Accepted(3) Request(1), of ok] ok by (auto split: option.splits)
  qed simp
  moreover have "xds_inv \<lparr>xs_cache = cache, xs_chans = chans, xs_streams = (xs_streams s)(sid \<mapsto> st'), xs_asked = asked\<rparr>"
    by (rule Request_inv [OF inv Request(2-6)])
  ultimately show ?case using Request(7) by (auto simp: from_inv_def)
next
  case (BadRequest s sid st ords now onRequest req e cache chans)
  have "xds_step ok s (s\<lparr>xs_cache := close_watches st cache, xs_chans := chans, xs_streams := (xs_streams s)(sid := None)\<rparr>)"
    by (rule xds_step.BadRequest [OF BadRequest(1,2)])
  then show ?case using BadRequest(3) xds_step_inv BadRequest_state [OF BadRequest(2)]
    by (simp add: from_inv_def close_watches_frame)
next
  case (Send s sid st t w resp st' out)
  then show ?case using Send_inv [OF _ Send(1-4)] by (auto simp: from_inv_def dest!: set_update_subset_insert [THEN subsetD])
next
  case (BadSend s sid st t w resp marshalError sendError f)
  have "xds_step ok s (s\<lparr>xs_cache := close_watches st (xs_cache s), xs_chans := (xs_chans s)[wa_response w := None],
      xs_streams := (xs_streams s)(sid := None)\<rparr>)"
    by (rule xds_step.BadSend [OF BadSend(1-4)])
  then show ?case using BadSend(5) xds_step_inv
    by (auto simp: from_inv_def close_watches_frame dest!: set_update_subset_insert [THEN subsetD])
next
  case (Connect s sid typeURL)
  then show ?case using Connect_inv by (simp add: from_inv_def)
next
  case (Disconnect s sid st)
  then show ?case using Disconnect_inv by (simp add: from_inv_def close_watches_frame)
qed

lemma from_init: "xds_init s \<Longrightarrow> from_inv ok s"
  using xds_init_inv [of s] by (simp add: from_inv_def) (simp add: xds_init_def newSnapshotCache_def)

interpretation xfrom: transition_system xds_init "xds_step ok" "from_inv ok" for ok
  by unfold_locales (auto intro: from_init from_step)

lemma delivered_from_snapshot:
  assumes "xds_init s0" "(xds_step ok)\<^sup>*\<^sup>* s0 s" "xs_streams s sid = Some st" "map_of (st_responders st) t = Some w"
    and "xs_chans s ! wa_response w = Some resp"
  obtains ords snap where "orders_ok ords" "ok snap" "resp = answer_of ords snap (rp_Request resp)"
    "rq_TypeUrl (rp_Request resp) = t"
proof -
  have inv: "from_inv ok s" by (rule xfrom.reachable_inv [OF assms(1,2)])
  have ok: "sub_ok (xs_cache s) (xs_chans s) (xs_asked s sid t) t w"
    using inv assms(3,4) by (intro xds_invD(3)) (simp_all add: from_inv_def responder_def)
  then have "Some resp \<in> set (xs_chans s)" using assms(5) by (metis nth_mem sub_ok_def)
  moreover have "rq_TypeUrl (rp_Request resp) = t" using ok assms(5) by (auto simp: sub_ok_def split: option.splits)
  ultimately show ?thesis using inv that by (auto simp: from_inv_def taken_from_def)
qed

section \<open>A run of the server\<close>

text \<open>
  A gateway connects before the first snapshot and asks for all listeners; then the control plane
  sets a snapshot.
\<close>

definition ex_co :: cache_orders where "ex_co = \<lparr>co_watches = (\<lambda>xs. xs), co_resources = (\<lambda>xs. xs)\<rparr>"

definition ex_request :: "string \<Rightarrow> string \<Rightarrow> DiscoveryRequest" where
  "ex_request version nonce = \<lparr>rq_Node = Some nodeID, rq_TypeUrl = ListenerType, rq_VersionInfo = version,
     rq_ResourceNames = [], rq_ResponseNonce = nonce, rq_ErrorDetail = None\<rparr>"

definition ex_start :: xds_system where
  "ex_start = \<lparr>xs_cache = newSnapshotCache True, xs_chans = [], xs_streams = (\<lambda>_. None),
     xs_asked = (\<lambda>_ _. ex_request [] [])\<rparr>"

definition ex_watch :: watch where
  "ex_watch = \<lparr>wa_cancel = CancelWatch nodeID 1, wa_nonce = [], wa_response = 0\<rparr>"

definition ex_subscriber :: xds_stream where
  "ex_subscriber = (new_stream resource_AnyType)\<lparr>st_node := Some nodeID, st_responders := [(ListenerType, ex_watch)]\<rparr>"

definition ex_open :: xds_system where
  "ex_open = \<lparr>xs_cache = \<lparr>sc_watchCount = 1, sc_ads = True, sc_snapshots = [],
       sc_status = [(nodeID, \<lparr>si_node = Some nodeID, si_watches = [(1, \<lparr>rw_Request = ex_request [] [], rw_Response = 0\<rparr>)],
         si_lastWatchRequestTime = 7\<rparr>)]\<rparr>,
     xs_chans = [None], xs_streams = [0 \<mapsto> ex_subscriber], xs_asked = (\<lambda>_ _. ex_request [] [])\<rparr>"

definition ex_answer :: RawResponse where
  "ex_answer = createResponse ex_co (ex_request [] []) (GetResourcesAndTTL ex_snapshot ListenerType) ''v1'' False"

definition ex_pending :: xds_system where
  "ex_pending = ex_open\<lparr>xs_cache := \<lparr>sc_watchCount = 1, sc_ads = True, sc_snapshots = [(nodeID, ex_snapshot)],
       sc_status = [(nodeID, \<lparr>si_node = Some nodeID, si_watches = [], si_lastWatchRequestTime = 7\<rparr>)]\<rparr>,
     xs_chans := [Some ex_answer]\<rparr>"

lemma ex_version: "GetVersion ex_snapshot ListenerType = ''v1''"
  by (simp add: GetVersion_def ex_snapshot_def NewSnapshot_def)

lemma ex_co_ok: "orders_ok ex_co"
  by (simp add: ex_co_def orders_ok_def)

lemma ex_init: "xds_init ex_start"
  by (simp add: xds_init_def ex_start_def)

lemma ex_open_reached: "(xds_step (\<lambda>_. True))\<^sup>*\<^sup>* ex_start ex_open"
proof -
  let ?s = "ex_start\<lparr>xs_streams := (xs_streams ex_start)(0 \<mapsto> new_stream resource_AnyType)\<rparr>"
  have "xds_step (\<lambda>_. True) ex_start ?s" by (rule xds_step.Connect) (simp add: ex_start_def)
  moreover have "xds_step (\<lambda>_. True) ?s ex_open"
  proof -
    have r: "receive_request ex_co 7 (\<lambda>_. None) (ex_request [] []) (new_stream resource_AnyType) (xs_cache ?s) (xs_chans ?s) =
        Inr (Inr ex_subscriber, xs_cache ex_open, xs_chans ex_open)"
      by (simp add: receive_request_def complete_request_def ex_request_def acknowledge_def new_stream_def accepts_def
          add_watch_def CreateWatch_def Let_def ex_start_def newSnapshotCache_def newStatusInfo_def IDHash_ID_def
          ex_subscriber_def ex_watch_def ex_open_def)
    have "ex_open = \<lparr>xs_cache = xs_cache ex_open, xs_chans = xs_chans ex_open,
        xs_streams = (xs_streams ?s)(0 \<mapsto> ex_subscriber), xs_asked = xs_asked ex_open\<rparr>"
      by (simp add: ex_open_def ex_start_def fun_eq_iff)
    moreover have "xs_asked ex_open =
        (if accepts (complete_request (new_stream resource_AnyType) (ex_request [] []))
              (map_of (st_responders (new_stream resource_AnyType)) (rq_TypeUrl (complete_request (new_stream resource_AnyType) (ex_request [] []))))
         then (xs_asked ?s)(0 := (xs_asked ?s 0)(rq_TypeUrl (complete_request (new_stream resource_AnyType) (ex_request [] [])) :=
                complete_request (new_stream resource_AnyType) (ex_request [] [])))
         else xs_asked ?s)"
      by (auto simp: ex_open_def ex_start_def complete_request_def ex_request_def fun_eq_iff)
    ultimately show ?thesis
      using xds_step.Request [OF ex_co_ok _ _ r refl, of 0 "xs_asked ex_open"] by (simp add: ex_start_def newSnapshotCache_def)
  qed
  ultimately show ?thesis by (metis r_into_rtranclp rtranclp_trans)
qed

lemma ex_set: "cache_SetSnapshot ex_co nodeID ex_snapshot (xs_cache ex_open) (xs_chans ex_open) =
    Inr (xs_cache ex_pending, xs_chans ex_pending)"
  by (simp add: cache_SetSnapshot_def ex_open_def ex_pending_def ex_co_def answer_watch_def respond_def chan_send_def
      ex_request_def ex_version ex_answer_def)

lemma ex_pending_reached: "(xds_step (\<lambda>_. True))\<^sup>*\<^sup>* ex_start ex_pending"
proof -
  have "ex_pending = ex_open\<lparr>xs_cache := xs_cache ex_pending, xs_chans := xs_chans ex_pending\<rparr>"
    by (simp add: ex_pending_def)
  then have "xds_step (\<lambda>_. True) ex_open ex_pending" using xds_step.SetSnap [OF ex_co_ok _ ex_set] by simp
  then show ?thesis using ex_open_reached by simp
qed

lemma ex_responder: "responder ex_open 0 ListenerType = Some ex_watch" "responder ex_pending 0 ListenerType = Some ex_watch"
  by (simp_all add: responder_def ex_open_def ex_pending_def ex_subscriber_def)

lemma ex_open_watch:
  "open_watch (xs_cache ex_open) ex_watch = Some \<lparr>rw_Request = ex_request [] [], rw_Response = wa_response ex_watch\<rparr>"
  by (simp add: open_watch_def ex_watch_def watches_of_def ex_open_def)

theorem SetSnapshot_never_blocks_witness:
  "\<exists>cache chans. cache_SetSnapshot ex_co nodeID ex_snapshot (xs_cache ex_open) (xs_chans ex_open) = Inr (cache, chans) \<and>
     open_watch cache ex_watch = None \<and> chans ! 0 = Some ex_answer"
proof -
  have "IDHash_ID (rq_Node (ex_request [] [])) = nodeID" "rq_ResourceNames (ex_request [] []) = []"
    "rq_VersionInfo (ex_request [] []) \<noteq> GetVersion ex_snapshot ListenerType"
    by (simp_all add: ex_request_def IDHash_ID_def ex_version)
  then show ?thesis
    using SetSnapshot_never_blocks [OF ex_init ex_open_reached ex_co_ok, of nodeID ex_snapshot] ex_responder(1) ex_open_watch
    by (fastforce simp: ex_answer_def ex_version ex_watch_def)
qed

theorem no_update_lost_witness:
  "xs_chans ex_open ! 0 = None \<and> wa_nonce ex_watch = [] \<and>
   rq_TypeUrl (xs_asked ex_open 0 ListenerType) = ListenerType"
  using no_update_lost [OF ex_init ex_open_reached ex_responder(1) refl]
  by (simp add: ex_open_watch) (simp add: ex_open_def ex_request_def ex_watch_def)

theorem gateway_converges_witness:
  "\<exists>st out st' cache chans w. send_response None None ex_answer ex_subscriber = Inr (st, out) \<and> dr_VersionInfo out = ''v1'' \<and>
     receive_request ex_co 8 (\<lambda>_. None) (ex_request (dr_VersionInfo out) (dr_Nonce out)) st (xs_cache ex_pending) [None] =
       Inr (Inr st', cache, chans) \<and>
     map_of (st_responders st') ListenerType = Some w \<and> open_watch cache w \<noteq> None"
proof -
  have st: "xs_streams ex_pending 0 = Some ex_subscriber" "map_of (st_responders ex_subscriber) ListenerType = Some ex_watch"
    "xs_chans ex_pending ! wa_response ex_watch = Some ex_answer" "map_of (sc_snapshots (xs_cache ex_pending)) nodeID = Some ex_snapshot"
    "(xs_chans ex_pending)[wa_response ex_watch := None] = [None]" "rp_Version ex_answer = ''v1''"
    by (simp_all add: ex_pending_def ex_open_def ex_subscriber_def ex_watch_def ex_answer_def createResponse_def)
  obtain st' out where out: "send_response None None ex_answer ex_subscriber = Inr (st', out)" "dr_VersionInfo out = ''v1''"
    and acked: "\<forall>ords now onRequest ack. rq_TypeUrl ack = ListenerType \<longrightarrow> rq_Node ack = Some nodeID \<longrightarrow>
       rq_ResourceNames ack = [] \<longrightarrow> rq_VersionInfo ack = dr_VersionInfo out \<longrightarrow> rq_ResponseNonce ack = dr_Nonce out \<longrightarrow>
       onRequest ack = None \<longrightarrow> ListenerType \<noteq> [] \<longrightarrow>
       (\<exists>st'' cache chans w'. receive_request ords now onRequest ack st' (xs_cache ex_pending) [None] = Inr (Inr st'', cache, chans) \<and>
          map_of (st_responders st'') ListenerType = Some w' \<and>
          open_watch cache w' = Some \<lparr>rw_Request = ack, rw_Response = wa_response w'\<rparr>)"
    using gateway_converges [OF ex_init ex_pending_reached st(1-4)] by (auto simp: st(5,6) ex_version)
  have "\<exists>st'' cache chans w'. receive_request ex_co 8 (\<lambda>_. None) (ex_request (dr_VersionInfo out) (dr_Nonce out)) st'
        (xs_cache ex_pending) [None] = Inr (Inr st'', cache, chans) \<and> map_of (st_responders st'') ListenerType = Some w' \<and>
      open_watch cache w' = Some \<lparr>rw_Request = ex_request (dr_VersionInfo out) (dr_Nonce out), rw_Response = wa_response w'\<rparr>"
    by (rule acked [rule_format]) (simp_all add: ex_request_def)
  then show ?thesis using out by (metis option.distinct(1))
qed

end
