(* ===== verification/Xds_Server.thy ===== *)
theory Xds_Server
  imports Xds_Props Controller_Props
begin

text \<open>
  The management server of \<^verbatim>\<open>pkg/envoy/server/xds_server.go\<close> and how \<^verbatim>\<open>NewController\<close> starts it: after
  the caches are primed, so that the first request of a gateway finds the configuration of the
  ingresses that were ready before.
\<close>

section \<open>The server\<close>

definition grpcMaxConcurrentStreams :: "32 word" where "grpcMaxConcurrentStreams = 1000000"

text \<open>
  The context of the server is \<^verbatim>\<open>context.Background()\<close>; \<open>xd_done\<close> tells whether its channel is closed,
  which for that context is never the case. \<open>xd_onRequest\<close> is the callback \<^verbatim>\<open>StreamRequestFunc\<close>.
\<close>

record XdsServer =
  xd_managementPort :: nat
  xd_done :: bool
  xd_onRequest :: "ErrorDetail option \<Rightarrow> stream_effect"
  xd_snapshotCache :: snapshotCache

definition NewXdsServer :: "nat \<Rightarrow> (ErrorDetail option \<Rightarrow> stream_effect) \<Rightarrow> XdsServer" where
  "NewXdsServer port callbacks =
     \<lparr>xd_managementPort = port, xd_done = False, xd_onRequest = callbacks, xd_snapshotCache = newSnapshotCache True\<rparr>"

datatype ServingStatus = UNKNOWN | SERVING | NOT_SERVING | SERVICE_UNKNOWN

definition healthServer_Check :: "'request \<Rightarrow> go_error + ServingStatus" where
  "healthServer_Check request = Inr SERVING"

section \<open>Running it\<close>

text \<open>
  The services in the order they are registered with the gRPC server, and its options: the limit of
  concurrent streams and the least time between the pings of a client, in nanoseconds.
\<close>

datatype grpc_service = AggregatedDiscovery | Health | ClusterDiscovery | ListenerDiscovery | RouteDiscovery

record grpcServer =
  gs_MaxConcurrentStreams :: "32 word"
  gs_MinTime :: int
  gs_PermitWithoutStream :: bool
  gs_Services :: "grpc_service list"

definition grpc_NewServer :: grpcServer where
  "grpc_NewServer = \<lparr>gs_MaxConcurrentStreams = grpcMaxConcurrentStreams, gs_MinTime = 20 * 10 ^ 9,
     gs_PermitWithoutStream = True, gs_Services = []\<rparr>"

definition register_services :: "grpcServer \<Rightarrow> grpcServer" where
  "register_services g = g\<lparr>gs_Services := gs_Services g @
     [AggregatedDiscovery, Health, ClusterDiscovery, ListenerDiscovery, RouteDiscovery]\<rparr>"

text \<open>
  What a call of \<^verbatim>\<open>RunManagementServer\<close> may do: return, with the error or \<^verbatim>\<open>nil\<close>, or wait in its
  \<^verbatim>\<open>select\<close> while the gRPC server runs. \<open>listen\<close> is the error of \<^verbatim>\<open>net.Listen\<close> for an address; \<open>serve\<close> is
  \<open>None\<close> while \<^verbatim>\<open>Serve\<close> runs and its result after that. When both channels of the \<^verbatim>\<open>select\<close> are ready,
  either may be taken.
\<close>

datatype run_outcome = Returns "go_error option" | Serving grpcServer

inductive RunManagementServer ::
  "(string \<Rightarrow> go_error option) \<Rightarrow> go_error option option \<Rightarrow> XdsServer \<Rightarrow> run_outcome \<Rightarrow> bool"
  for listen serve srv where
  ListenError: "listen ('':'' @ nat_str (xd_managementPort srv)) = Some e \<Longrightarrow>
    RunManagementServer listen serve srv (Returns (Some (ErrWrap ''failed to listen'' e)))"
| Stopped: "listen ('':'' @ nat_str (xd_managementPort srv)) = None \<Longrightarrow> xd_done srv \<Longrightarrow>
    RunManagementServer listen serve srv (Returns None)"
| ServeError: "listen ('':'' @ nat_str (xd_managementPort srv)) = None \<Longrightarrow> serve = Some (Some e) \<Longrightarrow>
    RunManagementServer listen serve srv (Returns (Some (ErrWrap ''failed to serve'' e)))"
| Waiting: "listen ('':'' @ nat_str (xd_managementPort srv)) = None \<Longrightarrow> \<not> xd_done srv \<Longrightarrow>
    (\<And>e. serve \<noteq> Some (Some e)) \<Longrightarrow>
    RunManagementServer listen serve srv (Serving (register_services grpc_NewServer))"

inductive_cases RunManagementServerE: "RunManagementServer listen serve srv out"

text \<open>
  The goroutine of \<^verbatim>\<open>NewController\<close> that runs the server: an error ends the process.
\<close>

definition start_server :: "run_outcome \<Rightarrow> grpcServer option res" where
  "start_server out =
     (case out of
        Returns (Some e) \<Rightarrow> Inl (Err (ErrWrap ''Failed to serve XDS Server'' e))
      | Returns None \<Rightarrow> Inr None
      | Serving g \<Rightarrow> Inr (Some g))"

text \<open>
  The server the controller creates never stops quietly: it serves all registered services, or it
  fails to listen or to serve and the process ends with that error.
\<close>

lemma management_server_outcome:
  assumes "RunManagementServer listen serve (NewXdsServer port callbacks) out"
  shows "case listen ('':'' @ nat_str port) of
      Some e \<Rightarrow> start_server out = Inl (Err (ErrWrap ''Failed to serve XDS Server'' (ErrWrap ''failed to listen'' e)))
    | None \<Rightarrow> (case serve of
        Some (Some e) \<Rightarrow> start_server out = Inl (Err (ErrWrap ''Failed to serve XDS Server'' (ErrWrap ''failed to serve'' e)))
      | _ \<Rightarrow> start_server out = Inr (Some (register_services grpc_NewServer)))"
  using assms by (cases rule: RunManagementServer.cases)
    (auto simp: NewXdsServer_def start_server_def split: option.splits)

section \<open>From the start-up to the first request\<close>

text \<open>The server as the management server finds it: no gateway is connected yet.\<close>

definition no_request :: DiscoveryRequest where
  "no_request = \<lparr>rq_Node = None, rq_TypeUrl = [], rq_VersionInfo = [], rq_ResourceNames = [],
     rq_ResponseNonce = [], rq_ErrorDetail = None\<rparr>"

definition xds_started :: "rec_state \<Rightarrow> xds_system" where
  "xds_started s = \<lparr>xs_cache = (xd_snapshotCache (NewXdsServer managementPort (\<lambda>_. NoEffect)))
       \<lparr>sc_snapshots := rs_snapshots s\<rparr>,
     xs_chans = [], xs_streams = (\<lambda>_. None), xs_asked = (\<lambda>_ _. no_request)\<rparr>"

lemma update_stores:
  assumes "updateEnvoyConfig env ctx now s = (Inr (), s')"
  obtains snap where "rs_snapshots s' = AList.update nodeID snap (rs_snapshots s)" "sn_version snap = re_version env"
proof -
  obtain snap h where "ToEnvoySnapshot (re_snap env) (re_orders env) ctx now (re_version env) (ts_heap (rs_tr s)) (rs_caches s) = (Inr snap, h)"
    "rs_snapshots s' = AList.update nodeID snap (rs_snapshots s)"
    using assms by (auto simp: updateEnvoyConfig_def SetSnapshot_def split: prod.splits sum.splits)
  moreover from this(1) have "sn_version snap = re_version env"
    by (auto simp: ToEnvoySnapshot_def Let_def go_simps NewSnapshot_def split: prod.splits)
  ultimately show thesis using that by blast
qed

lemma prime_snapshots: "foldM (prime_step envs ctx now) s ks = Inr s' \<Longrightarrow> rs_snapshots s' = rs_snapshots s"
  by (erule foldM_invariant) (auto simp: prime_step_def Let_def go_simps split: prod.splits)

lemma startup_snapshots:
  assumes "NewController envs ctx now ingresses = Inr s" "getReadyIngresses ingresses = Inr ready"
  obtains snap where "rs_snapshots s = [(nodeID, snap)]" "sn_version snap = re_version (envs (length ready + 1))"
proof -
  obtain caches s1 s2 where "updateEnvoyConfig (envs 0) ctx (now 0) (fresh_state caches) = (Inr (), s1)"
    and s2: "foldM (prime_step envs ctx now) s1 (enumerate 1 ready) = Inr s2"
    and last: "updateEnvoyConfig (envs (length ready + 1)) ctx (now (length ready + 1)) s2 = (Inr (), s)"
    using assms by (auto simp: NewController_Inr)
  then obtain snap0 where "rs_snapshots s2 = [(nodeID, snap0)]"
    by (elim update_stores) (auto simp: fresh_state_def prime_snapshots [OF s2])
  with last that show thesis by (elim update_stores) simp
qed

lemma xds_started_reached:
  assumes "rs_snapshots s = [(nodeID, snap)]" "ok snap"
  obtains x where "xds_init x" "(xds_step ok)\<^sup>*\<^sup>* x (xds_started s)"
proof -
  let ?x = "(xds_started s)\<lparr>xs_cache := newSnapshotCache True\<rparr>"
  have "cache_SetSnapshot ex_co nodeID snap (xs_cache ?x) (xs_chans ?x) =
      Inr (xs_cache (xds_started s), xs_chans (xds_started s))"
    by (simp add: cache_SetSnapshot_def xds_started_def NewXdsServer_def newSnapshotCache_def assms(1))
  from xds_step.SetSnap [where ok = ok, OF ex_co_ok assms(2) this] have "xds_step ok ?x (xds_started s)" by simp
  moreover have "xds_init ?x" by (simp add: xds_init_def xds_started_def)
  ultimately show thesis using that by blast
qed

lemma first_answer:
  assumes "rs_snapshots s = [(nodeID, snap)]" "sn_version snap \<noteq> []"
    and "rq_Node req = Some nodeID" "rq_TypeUrl req \<in> {ClusterType, RouteType, ListenerType}"
    and "rq_ResourceNames req = []" "rq_VersionInfo req = []"
  obtains st cancel cache where
    "receive_request ords time (\<lambda>_. None) req (new_stream resource_AnyType) (xs_cache (xds_started s)) (xs_chans (xds_started s)) =
      Inr (Inr st, cache, [Some (answer_of ords snap req)])"
    "map_of (st_responders st) (rq_TypeUrl req) = Some \<lparr>wa_cancel = cancel, wa_nonce = [], wa_response = 0\<rparr>"
proof -
  let ?st = "acknowledge req ((new_stream resource_AnyType)\<lparr>st_node := rq_Node req\<rparr>)"
  have st: "stale snap req" using assms(2,4,6) by (auto simp: stale_def GetVersion_def)
  have t: "rq_TypeUrl req \<noteq> []" using assms(4) by auto
  have c: "complete_request (new_stream resource_AnyType) req = req" using t assms(3) by (simp add: complete_request_def)
  have r: "st_responders (new_stream resource_AnyType) = []" by (simp add: new_stream_def)
  have m: "map_of (sc_snapshots (xs_cache (xds_started s))) (IDHash_ID (rq_Node req)) = Some snap"
    using assms(1,3) by (simp add: xds_started_def IDHash_ID_def)
  obtain cancel cache where "CreateWatch ords time req (known_names ?st (rq_TypeUrl req)) 0 (xs_cache (xds_started s)) [None] =
      Inr (cancel, cache, [Some (answer_of ords snap req)])"
    using CreateWatch_all [OF assms(5) m, of "[None]" 0 ords time "known_names ?st (rq_TypeUrl req)"] st by auto
  then have "receive_request ords time (\<lambda>_. None) req (new_stream resource_AnyType) (xs_cache (xds_started s)) (xs_chans (xds_started s)) =
      Inr (Inr (?st\<lparr>st_responders := AList.update (rq_TypeUrl req) \<lparr>wa_cancel = cancel, wa_nonce = [], wa_response = 0\<rparr>
        (st_responders ?st)\<rparr>), cache, [Some (answer_of ords snap req)])"
    using t by (simp add: receive_request_def Let_def c accepts_def r add_watch_def) (simp add: xds_started_def)
  then show ?thesis by (rule that) (simp add: AList.update_conv')
qed

text \<open>
  The first request of a gateway after the start-up is answered at once with the primed
  configuration. When the start-up succeeds, the snapshot of the gateway's node is the one taken after
  priming; a gateway that connects to the aggregated discovery service and asks for all
  clusters or all listeners, without a version, gets all of them in the version of that snapshot: no
  gateway starts with an empty configuration.
\<close>

lemma first_request_served:
  assumes "NewController envs ctx now ingresses = Inr s" "getReadyIngresses ingresses = Inr ready"
    and "re_version (envs (length ready + 1)) \<noteq> []"
    and "rq_Node req = Some nodeID" "rq_TypeUrl req = ClusterType \<or> rq_TypeUrl req = ListenerType"
    and "rq_ResourceNames req = []" "rq_VersionInfo req = []"
  shows "\<exists>snap st cache. map_of (rs_snapshots s) nodeID = Some snap \<and>
    sn_version snap = re_version (envs (length ready + 1)) \<and>
    receive_request ords time (\<lambda>_. None) req (new_stream resource_AnyType) (xs_cache (xds_started s)) (xs_chans (xds_started s)) =
      Inr (Inr st, cache, [Some (createResponse ords req (GetResourcesAndTTL snap (rq_TypeUrl req)) (sn_version snap) False)])"
proof -
  obtain snap where snap: "rs_snapshots s = [(nodeID, snap)]" "sn_version snap = re_version (envs (length ready + 1))"
    by (rule startup_snapshots [OF assms(1,2)])
  have t: "rq_TypeUrl req \<in> {ClusterType, RouteType, ListenerType}" using assms(5) by blast
  have "sn_version snap \<noteq> []" using assms(3) snap(2) by simp
  then obtain st cache where "receive_request ords time (\<lambda>_. None) req (new_stream resource_AnyType)
      (xs_cache (xds_started s)) (xs_chans (xds_started s)) = Inr (Inr st, cache, [Some (answer_of ords snap req)])"
    by (rule first_answer [OF snap(1) _ assms(4) t assms(6,7)]) blast
  moreover have "GetVersion snap (rq_TypeUrl req) = sn_version snap" using t by (simp add: GetVersion_def)
  ultimately show ?thesis using snap by (auto simp: answer_of_def)
qed

end
