(* ===== verification/Wiring.thy ===== *)
theory Wiring
  imports Events Config_Store Xds_Server
begin

text \<open>
  How \<^verbatim>\<open>main\<close> and \<^verbatim>\<open>NewController\<close> put the components together: the context the process starts with, the
  translators over informers and over clients, and the callbacks by which the configuration store, the
  status prober and the janitor of the cluster cache put ingresses into the work queue.
\<close>

section \<open>The entry point\<close>

definition ControllerName :: string where "ControllerName = ''net-kourier-controller''"

text \<open>
  What \<^verbatim>\<open>main\<close> hands to the shared main function: the selectors of the context, whether health
  probes are disabled, and the name of the component.
\<close>

record main_context =
  mc_Selectors :: "string list option"
  mc_HealthProbesDisabled :: bool
  mc_Component :: string

definition kourier_main :: "environ \<Rightarrow> main_context" where
  "kourier_main env =
     (let ctx = GetContextWithFilteringLabelSelector env None in
      \<lparr>mc_Selectors = ctx, mc_HealthProbesDisabled = True, mc_Component = ControllerName\<rparr>)"

lemma main_secret_informer: "isr (getSecretInformer (mc_Selectors (kourier_main env)))"
  by (simp add: kourier_main_def getSecretInformer_main)

section \<open>The translators\<close>

text \<open>
  The getters of a source of objects: the listers of the informers while the process runs, and the
  clients of the API server at start-up.
\<close>

record object_source =
  os_Secrets :: "string \<Rightarrow> string \<Rightarrow> go_error + Secret"
  os_Endpoints :: "string \<Rightarrow> string \<Rightarrow> go_error + Endpoints"
  os_Services :: "string \<Rightarrow> string \<Rightarrow> go_error + Service"

definition ingressTranslator :: "object_source \<Rightarrow> (Reference \<Rightarrow> NamespacedName \<Rightarrow> go_error option) \<Rightarrow> IngressTranslator" where
  "ingressTranslator listers tk =
     NewIngressTranslator (\<lambda>ns name. os_Secrets listers ns name) (\<lambda>ns name. os_Endpoints listers ns name)
       (\<lambda>ns name. os_Services listers ns name) tk"

definition startupTranslator :: "object_source \<Rightarrow> (Reference \<Rightarrow> NamespacedName \<Rightarrow> go_error option) \<Rightarrow> IngressTranslator" where
  "startupTranslator clients tk =
     NewIngressTranslator (\<lambda>ns name. os_Secrets clients ns name) (\<lambda>ns name. os_Endpoints clients ns name)
       (\<lambda>ns name. os_Services clients ns name) tk"

section \<open>Callbacks that fill the work queue\<close>

text \<open>\<^verbatim>\<open>configmap.TypeFilter\<close>: the callback is called for values of the given types.\<close>

datatype config_type = NetworkConfigType | KourierType | OtherType

definition TypeFilter :: "config_type list \<Rightarrow> (string \<Rightarrow> effects) \<Rightarrow> string \<Rightarrow> config_type \<Rightarrow> effects" where
  "TypeFilter types f name t = (if t \<in> set types then f name else no_effect)"

definition resync :: "IngressObject list \<Rightarrow> string \<Rightarrow> config_type \<Rightarrow> effects" where
  "resync store =
     TypeFilter [NetworkConfigType, KourierType]
       (\<lambda>_. enqueue (FilteredGlobalResync (\<lambda>obj. isKourierIngress (io_Ingress obj)) store))"

text \<open>The type of the value that is stored for a ConfigMap.\<close>

definition config_type_of :: "string \<Rightarrow> config_type" where
  "config_type_of name =
     (if name = KourierConfigName then KourierType
      else if name = NetworkConfigMapName then NetworkConfigType else OtherType)"

text \<open>
  A change of a ConfigMap with the callback of the controller: it is called for every value that was
  stored.
\<close>

definition config_changed ::
  "constructors \<Rightarrow> IngressObject list \<Rightarrow> Store \<Rightarrow> string \<times> ConfigMap \<Rightarrow> (effects \<times> Store) res" where
  "config_changed ct store s e =
     bindr (OnConfigChanged ct s e) (\<lambda>s'.
       Inr (case drop (length (store_notified s)) (store_notified s') of
              [] \<Rightarrow> no_effect
            | name # _ \<Rightarrow> resync store name (config_type_of name), s'))"

text \<open>
  The options of the controller: when this replica becomes the leader, the ingresses that pass the
  filter are put into the queue.
\<close>

definition promoted :: "IngressObject list \<Rightarrow> effects" where
  "promoted store = enqueue (FilteredGlobalResync (\<lambda>obj. isKourierIngress (io_Ingress obj)) store)"

definition ready_callback :: "Ingress \<Rightarrow> effects" where
  "ready_callback ing = enqueue [\<lparr>nn_Namespace = ing_Namespace ing, nn_Name = ing_Name ing\<rparr>]"

definition evicted_callback :: "NamespacedName \<times> Cluster \<Rightarrow> effects" where
  "evicted_callback key_value = enqueue [fst key_value]"

text \<open>One run of the janitor: the names that its callbacks enqueue.\<close>

definition run_janitor :: "int \<Rightarrow> Caches \<Rightarrow> (NamespacedName list \<times> Caches) res" where
  "run_janitor now caches =
     bindr (evict_clusters now caches) (\<lambda>(caches, calls).
       Inr (concat (map (\<lambda>call. ef_Enqueued (evicted_callback call)) calls), caches))"


text \<open>
  A change of a ConfigMap that could be parsed puts every ingress of the store's class back into the
  queue, so that it is translated with the new configuration; one that could not be parsed puts none.
\<close>

lemma config_change_wakes:
  assumes "OnConfigChanged ct s e = Inr s'"
  shows "\<exists>eff. config_changed ct store s e = Inr (eff, s') \<and> ef_CancelledPods eff = [] \<and>
    ef_Enqueued eff = (if event_valid ct e
      then map (\<lambda>i. ing_nn (io_Ingress i)) (filter (\<lambda>i. isKourierIngress (io_Ingress i)) store) else [])"
proof -
  have "store_notified s' = store_notified s @ (if event_valid ct e then [fst e] else [])"
    "fst e = KourierConfigName \<or> fst e = NetworkConfigMapName" "KourierConfigName \<noteq> NetworkConfigMapName"
    using assms by (auto simp: OnConfigChanged_def store_value_def event_valid_def KourierConfigName_def NetworkConfigMapName_def
        split: prod.splits if_splits sum.splits option.splits)
  then show ?thesis
    using assms by (auto simp: config_changed_def resync_def TypeFilter_def config_type_of_def enqueue_def no_effect_def FilteredGlobalResync_def)
qed

text \<open>A new leader visits the ingresses a valid change of the configuration would visit.\<close>

lemma promoted_as_config_change:
  assumes "config_changed ct store s e = Inr (eff, s')" "event_valid ct e"
  shows "promoted store = eff"
proof -
  have "OnConfigChanged ct s e = Inr s'"
    using assms(1) by (auto simp: config_changed_def Let_def go_simps split: sum.splits)
  from config_change_wakes [OF this, of store] show ?thesis
    using assms by (auto simp: promoted_def enqueue_def no_effect_def FilteredGlobalResync_def)
qed

section \<open>The keys of the cluster cache\<close>

text \<open>Every key of the cluster cache was built by \<^verbatim>\<open>key\<close> from the name of the cluster it stores.\<close>

definition keys_ok :: "ClustersCache \<Rightarrow> bool" where
  "keys_ok cc \<longleftrightarrow> cc_inv cc \<and>
     (\<forall>k it. map_of (gc_items (cc_clusters cc)) k = Some it \<longrightarrow> (\<exists>n ns. k = key (cl_Name (it_Object it)) n ns))"

lemma keys_okD: "keys_ok cc \<Longrightarrow> map_of (gc_items (cc_clusters cc)) k = Some it \<Longrightarrow> \<exists>n ns. k = key (cl_Name (it_Object it)) n ns"
  by (simp add: keys_ok_def)

lemma keys_okI:
  assumes "cc_inv cc"
    and "\<And>k it. map_of (gc_items (cc_clusters cc)) k = Some it \<Longrightarrow> \<exists>n ns. k = key (cl_Name (it_Object it)) n ns"
  shows "keys_ok cc"
  using assms by (simp add: keys_ok_def)

lemma map_of_gocache_Set:
  "map_of (gc_items (gocache_Set now k x d c)) j = Some it \<Longrightarrow> j = k \<and> it_Object it = x \<or> map_of (gc_items c) j = Some it"
  by (auto simp: gocache_Set_def Let_def al.lookup_update split: if_split_asm)

lemma keys_ok_set: "keys_ok cc \<Longrightarrow> keys_ok (cc_set now c n ns cc)"
  using cs.inv_put [of cc "key (cl_Name c) n ns" c]
  by (intro keys_okI) (auto simp: keys_ok_def cc_set_put cc_put_def dest!: map_of_gocache_Set)

lemma keys_ok_setExpiration:
  assumes "keys_ok cc"
  shows "keys_ok (cc_setExpiration now c n ns cc)"
proof (rule keys_okI)
  show "cc_inv (cc_setExpiration now c n ns cc)"
    using assms by (simp add: keys_ok_def cc_setExpiration_retire cs.inv_retire)
next
  fix k it assume "map_of (gc_items (cc_clusters (cc_setExpiration now c n ns cc))) k = Some it"
  then show "\<exists>n ns. k = key (cl_Name (it_Object it)) n ns"
    using keys_okD [OF assms]
    by (auto simp: cc_setExpiration_retire cc_retire_def gocache_Get_def dest!: map_of_gocache_Set split: option.splits if_split_asm)
qed

lemma keys_ok_evict: "keys_ok cc \<Longrightarrow> keys_ok (fst (cc_evict now cc))"
  using cs.inv_sweep [of cc now]
  by (intro keys_okI) (auto simp: keys_ok_def cc_evict_def gocache_DeleteExpired_def cc_inv_def map_of_filter_value split: option.splits if_split_asm)

lemma foldl_keeps: "(\<And>a x. P a \<Longrightarrow> P (f a x)) \<Longrightarrow> P a \<Longrightarrow> P (foldl f a xs)"
  by (induction xs arbitrary: a) auto

lemma keys_ok_clusters: "keys_ok cc \<Longrightarrow> keys_ok (set_clusters now ti cc)" "keys_ok cc \<Longrightarrow> keys_ok (expire_clusters now n ns ti cc)"
  unfolding set_clusters_def expire_clusters_def
  by (auto intro!: foldl_keeps [where P = keys_ok] keys_ok_set keys_ok_setExpiration)

lemma keys_ok_add: "addTranslatedIngress now c ti = Inr c' \<Longrightarrow> keys_ok (ca_clusters c) \<Longrightarrow> keys_ok (ca_clusters c')"
  by (auto simp: addTranslatedIngress_def go_simps keys_ok_clusters)

lemma keys_ok_delete: "deleteTranslatedIngress now c n ns = Inr c' \<Longrightarrow> keys_ok (ca_clusters c) \<Longrightarrow> keys_ok (ca_clusters c')"
  by (auto simp: deleteTranslatedIngress_def Let_def go_simps keys_ok_clusters split: option.splits)

lemma keys_ok_janitor: "evict_clusters now c = Inr (c', calls) \<Longrightarrow> keys_ok (ca_clusters c) \<Longrightarrow> keys_ok (ca_clusters c')"
  using keys_ok_evict [of "ca_clusters c" now] by (auto simp: evict_clusters_def go_simps split: prod.splits)

lemma keys_ok_update: "UpdateIngress now c ti = (r, c') \<Longrightarrow> keys_ok (ca_clusters c) \<Longrightarrow> keys_ok (ca_clusters c')"
  by (auto simp: UpdateIngress_def split: sum.splits dest: keys_ok_add keys_ok_delete)

interpretation kts: transition_system caches_init caches_step "\<lambda>c. keys_ok (ca_clusters c)"
proof unfold_locales
  fix c assume "caches_init c"
  moreover have "keys_ok newClustersCache"
    using cc_inv_new
    by (simp add: keys_ok_def newClustersCache_def newClustersCacheWithExpAndCleanupIntervals_def gocache_New_def)
  ultimately show "keys_ok (ca_clusters c)"
    by (auto elim!: caches_initE simp: NewCaches_def Let_def go_simps keys_ok_set split: if_split_asm)
next
  fix c c' assume "keys_ok (ca_clusters c)" "caches_step c c'"
  then show "keys_ok (ca_clusters c')"
    by (auto elim!: caches_stepE simp: DeleteIngressInfo_def dest: keys_ok_update keys_ok_delete keys_ok_janitor)
qed

section \<open>The janitor never panics and wakes every ingress it evicts a cluster of\<close>

lemma length_strings_Split: "length (strings_Split s c) = Suc (count_list s c)"
  by (induction s c rule: strings_Split.induct) (auto split: list.splits)

lemma explodeKey_total: "isr (explodeKey (key c n ns))"
proof -
  have "3 \<le> length (strings_Split (key c n ns) CHR '':'')"
    by (simp add: length_strings_Split key_def)
  then show ?thesis by (auto simp: explodeKey_def Let_def numeral_3_eq_3 Suc_le_eq index_get_def)
qed

definition key_ingress :: "string \<Rightarrow> NamespacedName" where
  "key_ingress k = (case projr (explodeKey k) of (_, name, namespace) \<Rightarrow> \<lparr>nn_Namespace = namespace, nn_Name = name\<rparr>)"

lemma evict_clusters_result:
  assumes "keys_ok (ca_clusters c)"
  shows "evict_clusters now c = Inr (c\<lparr>ca_clusters := fst (cc_evict now (ca_clusters c))\<rparr>,
    map (\<lambda>(k, val). (key_ingress k, val)) (snd (cc_evict now (ca_clusters c))))"
proof -
  let ?ev = "snd (cc_evict now (ca_clusters c))"
  have ok: "isr (explodeKey k)" if "(k, val) \<in> set ?ev" for k val
  proof -
    have "k \<in> dom (map_of (gc_items (cc_clusters (ca_clusters c))))"
      using that unfolding dom_map_of_conv_image_fst by (force simp: cc_evict_def gocache_DeleteExpired_def)
    then show ?thesis using keys_okD [OF assms] explodeKey_total by fastforce
  qed
  have "foldM (\<lambda>calls (k, val). bindr (explodeKey k) (\<lambda>(_, name, namespace).
      Inr (calls @ [(\<lparr>nn_Namespace = namespace, nn_Name = name\<rparr>, val)]))) [] ?ev =
    Inr (foldl (\<lambda>calls kv. calls @ [case kv of (k, val) \<Rightarrow> (key_ingress k, val)]) [] ?ev)"
    by (rule foldM_total) (use ok in \<open>fastforce simp: key_ingress_def bindr_def split: sum.splits prod.splits\<close>)
  also have "foldl (\<lambda>calls kv. calls @ [case kv of (k, val) \<Rightarrow> (key_ingress k, val)]) cs xs =
      cs @ map (\<lambda>(k, val). (key_ingress k, val)) xs" for cs and xs :: "(string \<times> Cluster) list"
    by (induction xs arbitrary: cs) auto
  finally show ?thesis by (cases "cc_evict now (ca_clusters c)") (simp add: evict_clusters_def)
qed

lemma run_janitor_result:
  assumes "keys_ok (ca_clusters c)"
  shows "run_janitor now c = Inr (map (key_ingress \<circ> fst) (snd (cc_evict now (ca_clusters c))),
    c\<lparr>ca_clusters := fst (cc_evict now (ca_clusters c))\<rparr>)"
  by (simp add: run_janitor_def evict_clusters_result [OF assms] evicted_callback_def enqueue_def no_effect_def
      concat_map_singleton split_beta comp_def)

lemma evicted_gone:
  assumes "keys_ok cc" "map_of (gc_items (cc_clusters cc)) k = Some it" "expired now it"
  shows "k \<in> fst ` set (snd (cc_evict now cc))" "map_of (gc_items (cc_clusters (fst (cc_evict now cc)))) k = None"
proof -
  have inv: "cc_inv cc" using assms(1) by (simp add: keys_ok_def)
  have "(k, it_Object it) \<in> set (snd (cc_evict now cc))"
    using cluster_eviction [OF inv order.refl] assms(2,3) by blast
  then show "k \<in> fst ` set (snd (cc_evict now cc))" by force
  show "map_of (gc_items (cc_clusters (fst (cc_evict now cc)))) k = None"
    using inv assms(2,3) by (simp add: cc_evict_def gocache_DeleteExpired_def cc_inv_def map_of_filter_value)
qed

text \<open>Retiring clusters changes nothing at the moment it is done.\<close>

lemma expire_clusters_live:
  assumes "cc_inv cc" "0 \<le> now"
  shows "cc_inv (expire_clusters now n ns ti cc) \<and> cc_live (expire_clusters now n ns ti cc) now = cc_live cc now"
  unfolding expire_clusters_def
proof (rule foldl_keeps [where P = "\<lambda>c. cc_inv c \<and> cc_live c now = cc_live cc now"])
  fix c x assume a: "cc_inv c \<and> cc_live c now = cc_live cc now"
  then have "cc_live (cc_setExpiration now (cl_Name x) n ns c) now j = cc_live c now j" for j
    using assms(2) by (auto simp: cc_setExpiration_retire cs.live_retire cc_inv_def split: option.splits)
  then show "cc_inv (cc_setExpiration now (cl_Name x) n ns c) \<and> cc_live (cc_setExpiration now (cl_Name x) n ns c) now = cc_live cc now"
    using a by (simp add: cc_setExpiration_retire cs.inv_retire fun_eq_iff)
qed (simp add: assms)

lemma delete_live:
  assumes "deleteTranslatedIngress now c n ns = Inr c'" "cc_inv (ca_clusters c)" "0 \<le> now"
  shows "cc_live (ca_clusters c') now = cc_live (ca_clusters c) now"
  using assms(1) expire_clusters_live [OF assms(2,3)]
  by (auto simp: deleteTranslatedIngress_def Let_def go_simps split: option.splits)

text \<open>Every cluster of a new snapshot is alive in the cache, except for that of the tracing collector.\<close>

lemma generated_clusters:
  "generateListenersAndRouteConfigsAndClusters env ctx ext tls loc snis = Inr (ls, routes, cs) \<Longrightarrow>
    cs = tracing_clusters (cfg_Kourier (FromContextOrDefaults ctx))"
  by (auto simp: generateListenersAndRouteConfigsAndClusters_def Let_def go_simps tracing_clusters_def simp del: upt_Suc split: if_split_asm prod.splits)

lemma snapshot_clusters_live:
  assumes "updateEnvoyConfig env ctx now s = (Inr (), s')" "env_ok env" "keys_ok (ca_clusters (rs_caches s))"
  shows "\<exists>snap. map_of (rs_snapshots s') nodeID = Some snap \<and>
    (\<forall>cl \<in> dom (map_of (sn_clusters snap)). cl = ''tracing-collector'' \<or>
       (\<exists>n ns v. cc_live (ca_clusters (rs_caches s)) now (key cl n ns) = Some v))"
proof -
  let ?cc = "ca_clusters (rs_caches s)" and ?cfg = "cfg_Kourier (FromContextOrDefaults ctx)"
  obtain snap h where snap: "ToEnvoySnapshot (re_snap env) (re_orders env) ctx now (re_version env)
      (ts_heap (rs_tr s)) (rs_caches s) = (Inr snap, h)"
    "rs_snapshots s' = AList.update nodeID snap (rs_snapshots s)"
    using assms(1) by (auto simp: updateEnvoyConfig_def SetSnapshot_def split: prod.splits sum.splits option.splits)
  have ords: "range_order (so_ingresses (re_orders env))" "range_order (so_snis (re_orders env))" "range_order (so_clusters (re_orders env))"
    using assms(2) by (simp_all add: env_ok_def)
  obtain routes ls cs where g: "snap = NewSnapshot (re_version env) (cc_list (so_clusters (re_orders env)) now ?cc @ cs) routes ls"
    "cs = tracing_clusters ?cfg"
    using snapshot_returned [OF snap(1) ords(1,2)] generated_clusters by metis
  have "cl = ''tracing-collector'' \<or> (\<exists>n ns v. cc_live ?cc now (key cl n ns) = Some v)"
    if cl: "cl \<in> dom (map_of (sn_clusters snap))" for cl
  proof -
    obtain c where c: "c \<in> set (cc_list (so_clusters (re_orders env)) now ?cc) \<or> c \<in> set cs" "cl = cl_Name c"
      using cl by (auto simp: g(1) NewSnapshot_def index_by_name_dom)
    show ?thesis
    proof (cases "c \<in> set cs")
      case True
      then show ?thesis using c(2) g(2) by (simp add: tracing_clusters_def jaegerCluster_def split: if_splits)
    next
      case False
      then obtain k where k: "cc_live ?cc now k = Some c"
        using c(1) cc_list_set [OF _ ords(3)] assms(3) by (auto simp: keys_ok_def)
      then obtain it where "map_of (gc_items (cc_clusters ?cc)) k = Some it" "it_Object it = c"
        by (auto simp: cc_live_def gocache_Get_def split: option.splits if_splits)
      then show ?thesis using keys_okD [OF assms(3)] k c(2) by metis
    qed
  qed
  moreover have "map_of (rs_snapshots s') nodeID = Some snap" by (simp add: snap(2) al.lookup_update)
  ultimately show ?thesis by blast
qed

lemma key_ingress_key:
  assumes "CHR '':'' \<notin> set c" "CHR '':'' \<notin> set n" "CHR '':'' \<notin> set ns"
  shows "key_ingress (key c n ns) = \<lparr>nn_Namespace = ns, nn_Name = n\<rparr>"
proof -
  have "strings_Split (key c n ns) CHR '':'' = [c, n, ns]"
    unfolding key_def using assms by (intro strings_Split_Join) auto
  then show ?thesis by (simp add: key_ingress_def explodeKey_def)
qed

lemma reachable_keys_ok:
  assumes "rec_init s0" "rec_step\<^sup>*\<^sup>* s0 s"
  shows "keys_ok (ca_clusters (rs_caches s))"
  using rts.reachable_inv [OF assms] kts.reachable_inv by (auto simp: rec_inv_def)

text \<open>A name from the queue whose ingress is gone.\<close>

lemma Reconcile_deleted:
  assumes "CHR ''/'' \<notin> set ns" "CHR ''/'' \<notin> set n" "lister ns n = Inl e" "IsNotFound e"
  shows "Reconcile env ctx now isLeader prepare lister (ns @ ''/'' @ n) s =
    ObserveDeletion env ctx now \<lparr>nn_Namespace = ns, nn_Name = n\<rparr> s"
  using assms by (simp add: Reconcile_def SplitMetaNamespaceKey_def strings_Split_append strings_Split_no_sep)

lemma deletion_withdraws:
  assumes "ObserveDeletion env ctx now nn s = (Inr (), s')" "env_ok env" "0 \<le> now"
    and "keys_ok (ca_clusters (rs_caches s))" "cc_live (ca_clusters (rs_caches s)) now (key cl n ns) = None"
  shows "\<exists>snap. map_of (rs_snapshots s') nodeID = Some snap \<and>
    (cl \<in> dom (map_of (sn_clusters snap)) \<longrightarrow> cl = ''tracing-collector'' \<or>
       (\<exists>n' ns' v. key cl n' ns' \<noteq> key cl n ns \<and> cc_live (ca_clusters (rs_caches s)) now (key cl n' ns') = Some v))"
proof -
  obtain c where c: "deleteTranslatedIngress now (rs_caches s) (nn_Name nn) (nn_Namespace nn) = Inr c"
    using assms(1) by (auto simp: ObserveDeletion_def DeleteIngressInfo_def Let_def split: sum.splits)
  let ?s = "s\<lparr>rs_cancelled := rs_cancelled s @ [nn], rs_caches := c\<rparr>"
  obtain s1 where s1: "updateEnvoyConfig env ctx now ?s = (Inr (), s1)" "rs_snapshots s' = rs_snapshots s1"
    using assms(1) c by (auto simp: ObserveDeletion_def DeleteIngressInfo_def Let_def split: sum.splits prod.splits fault.splits)
  have "keys_ok (ca_clusters (rs_caches ?s))" using keys_ok_delete [OF c assms(4)] by simp
  then have "\<exists>snap. map_of (rs_snapshots s1) nodeID = Some snap \<and> (\<forall>cl \<in> dom (map_of (sn_clusters snap)).
      cl = ''tracing-collector'' \<or> (\<exists>n ns v. cc_live (ca_clusters c) now (key cl n ns) = Some v))"
    using snapshot_clusters_live [OF s1(1) assms(2)] by simp
  moreover have "cc_live (ca_clusters c) now = cc_live (ca_clusters (rs_caches s)) now"
    using delete_live [OF c _ assms(3)] assms(4) by (simp add: keys_ok_def)
  ultimately show ?thesis using s1(2) assms(5) by (metis option.distinct(1))
qed

text \<open>
  C22: The clusters of a deleted ingress leave the gateway. In a reachable state without external authorization, a run of the janitor
  never panics and puts into the work queue the ingress of every cluster that has expired; when the name comes out of the
  queue, the ingress is gone and the new snapshot is installed, the snapshot has no cluster of that
  name any more, unless another ingress has a live cluster of the same name or it is the cluster of the tracing collector.
\<close>

theorem expired_cluster_withdrawn:
  assumes "rec_init s0" "rec_step\<^sup>*\<^sup>* s0 s" "env_ok env" "0 \<le> now'" "now \<le> now'"
    and "map_of (gc_items (cc_clusters (ca_clusters (rs_caches s)))) (key cl n ns) = Some it" "expired now it"
    and "CHR '':'' \<notin> set cl" "CHR '':'' \<notin> set n" "CHR '':'' \<notin> set ns" "CHR ''/'' \<notin> set n" "CHR ''/'' \<notin> set ns"
    and "lister ns n = Inl e" "IsNotFound e"
  shows "\<exists>names c'. run_janitor now (rs_caches s) = Inr (names, c') \<and>
    \<lparr>nn_Namespace = ns, nn_Name = n\<rparr> \<in> set names \<and>
    (\<forall>s'. Reconcile env ctx now' isLeader prepare lister (ns @ ''/'' @ n) (s\<lparr>rs_caches := c'\<rparr>) = (Inr (), s') \<longrightarrow>
      (\<exists>snap. map_of (rs_snapshots s') nodeID = Some snap \<and>
        (cl \<in> dom (map_of (sn_clusters snap)) \<longrightarrow> cl = ''tracing-collector'' \<or>
          (\<exists>n' ns' v. key cl n' ns' \<noteq> key cl n ns \<and> cc_live (ca_clusters (rs_caches s)) now' (key cl n' ns') = Some v))))"
proof -
  let ?cc = "ca_clusters (rs_caches s)"
  let ?c = "(rs_caches s)\<lparr>ca_clusters := fst (cc_evict now ?cc)\<rparr>"
  have ok: "keys_ok ?cc" by (rule reachable_keys_ok [OF assms(1,2)])
  note gone = evicted_gone [OF ok assms(6,7)]
  have "\<lparr>nn_Namespace = ns, nn_Name = n\<rparr> \<in> set (map (key_ingress \<circ> fst) (snd (cc_evict now ?cc)))"
    using gone(1) key_ingress_key [OF assms(8-10)] by (force simp: image_iff)
  moreover have "\<exists>snap. map_of (rs_snapshots s') nodeID = Some snap \<and>
      (cl \<in> dom (map_of (sn_clusters snap)) \<longrightarrow> cl = ''tracing-collector'' \<or>
        (\<exists>n' ns' v. key cl n' ns' \<noteq> key cl n ns \<and> cc_live ?cc now' (key cl n' ns') = Some v))"
    if r: "Reconcile env ctx now' isLeader prepare lister (ns @ ''/'' @ n) (s\<lparr>rs_caches := ?c\<rparr>) = (Inr (), s')" for s'
  proof -
    have live: "cc_live (fst (cc_evict now ?cc)) now' = cc_live ?cc now'"
      using cs.live_sweep [OF _ assms(5)] ok by (simp add: keys_ok_def)
    have none: "cc_live (fst (cc_evict now ?cc)) now' (key cl n ns) = None"
      using gone(2) by (simp add: cc_live_def gocache_Get_def)
    show ?thesis
      using deletion_withdraws [of env ctx now' "\<lparr>nn_Namespace = ns, nn_Name = n\<rparr>" "s\<lparr>rs_caches := ?c\<rparr>" s' cl n ns]
        r Reconcile_deleted [where lister = lister, OF assms(12,11,13,14)] assms(3,4) keys_ok_evict [OF ok] live none by simp
  qed
  ultimately show ?thesis using run_janitor_result [OF ok] by blast
qed

definition ex_deleted :: rec_state where
  "ex_deleted = snd (ObserveDeletion ex_renv None 7 (ti_name ex_rti) ex_rec1)"

lemma ex_deleted_reachable: "rec_step\<^sup>*\<^sup>* ex_rec0 ex_deleted"
proof -
  have "rec_step ex_rec1 ex_deleted"
    unfolding ex_deleted_def by (rule rec_step.Delete [OF ex_renv_ok(1) _ surjective_pairing]) simp
  then show ?thesis using ex_rec_reachable(2) by (rule rtranclp.rtrancl_into_rtrancl [rotated])
qed

lemma updateEnvoyConfig_caches: "rs_caches (snd (updateEnvoyConfig env ctx now s)) = rs_caches s"
  by (simp add: updateEnvoyConfig_def Let_def split_beta split: sum.splits)

lemma ex_deleted_caches: "DeleteIngressInfo 7 ex_rcaches ''hello'' ''default'' = Inr (rs_caches ex_deleted)"
proof -
  have rec1: "rs_caches ex_rec1 = ex_rcaches"
    using ex_probed ex_rti ex_rupdate
    by (simp add: ex_rec1_def updateIngress_def UpdateInfoForIngress_def ex_renv_ok ex_rec0_def Let_def split_beta updateEnvoyConfig_caches)
  have name: "ti_name ex_rti = \<lparr>nn_Namespace = ''default'', nn_Name = ''hello''\<rparr>" by code_simp
  have "isr (DeleteIngressInfo 7 ex_rcaches ''hello'' ''default'')" by code_simp
  then obtain c where "DeleteIngressInfo 7 ex_rcaches ''hello'' ''default'' = Inr c"
    by (cases "DeleteIngressInfo 7 ex_rcaches ''hello'' ''default''") auto
  then show ?thesis
    using updateEnvoyConfig_caches [of ex_renv None 7 "ex_rec1\<lparr>rs_cancelled := rs_cancelled ex_rec1 @ [ti_name ex_rti], rs_caches := c\<rparr>"]
    by (auto simp: ex_deleted_def ObserveDeletion_def rec1 name Let_def split: prod.splits sum.splits fault.splits)
qed

lemma ex_deleted_expired:
  "\<exists>it. map_of (gc_items (cc_clusters (ca_clusters (rs_caches ex_deleted)))) (key ''default/hello_region1'' ''hello'' ''default'') = Some it \<and>
    expired (8 + 15 * 10 ^ 9) it"
proof -
  have "case DeleteIngressInfo 7 ex_rcaches ''hello'' ''default'' of Inl _ \<Rightarrow> False
    | Inr c \<Rightarrow> (case map_of (gc_items (cc_clusters (ca_clusters c))) (key ''default/hello_region1'' ''hello'' ''default'') of
        None \<Rightarrow> False | Some it \<Rightarrow> expired (8 + 15 * 10 ^ 9) it)"
    by code_simp
  then show ?thesis by (simp add: ex_deleted_caches split: option.splits)
qed

theorem expired_cluster_withdrawn_witness:
  "\<exists>names c'. run_janitor (8 + 15 * 10 ^ 9) (rs_caches ex_deleted) = Inr (names, c') \<and>
    \<lparr>nn_Namespace = ''default'', nn_Name = ''hello''\<rparr> \<in> set names"
proof -
  obtain it where it: "map_of (gc_items (cc_clusters (ca_clusters (rs_caches ex_deleted)))) (key ''default/hello_region1'' ''hello'' ''default'') = Some it"
    "expired (8 + 15 * 10 ^ 9) it"
    using ex_deleted_expired by blast
  show ?thesis
    using expired_cluster_withdrawn [OF ex_rec_reachable(1) ex_deleted_reachable ex_renv_ok(1) _ order.refl it,
        of "\<lambda>_ n. Inl (ErrNotFound n)" "ErrNotFound ''hello''" None True Inr]
    by auto
qed

end
