(* ===== verification/Snapshot_Consistent.thy ===== *)
theory Snapshot_Consistent
  imports Xds_Cache
begin

text \<open>
  The consistency a snapshot needs in ADS mode. The cache answers a request for route configurations
  only when the request names all of them, and a gateway names those its listeners refer to: a
  snapshot with a route configuration that no listener refers to would never be delivered.
  \<^verbatim>\<open>GetAllResourceReferences\<close> and \<^verbatim>\<open>Consistent\<close> of \<^verbatim>\<open>go-control-plane/pkg/cache/v3\<close> express this; the
  control plane does not call \<^verbatim>\<open>Consistent\<close>, so that it holds is a property of \<^verbatim>\<open>ToEnvoySnapshot\<close>.
\<close>

section \<open>References between resources\<close>

text \<open>\<^verbatim>\<open>GetHTTPConnectionManager\<close>: an \<^verbatim>\<open>Any\<close> without a value is not a connection manager.\<close>

definition GetHTTPConnectionManager :: "Filter \<Rightarrow> HttpConnectionManager option" where
  "GetHTTPConnectionManager f = (case fl_TypedConfig f of AnyNew m \<Rightarrow> Some m | AnyType _ \<Rightarrow> None)"

definition filter_references :: "Filter \<Rightarrow> string list" where
  "filter_references f =
     (case GetHTTPConnectionManager f of
        None \<Rightarrow> []
      | Some m \<Rightarrow> (let name = rds_RouteConfigName (hcm_Rds m) in if name \<noteq> [] then [name] else []))"

definition getListenerReferences :: "Listener \<Rightarrow> string list" where
  "getListenerReferences src =
     concat (map (\<lambda>chain. concat (map filter_references (fc_Filters chain))) (ls_FilterChains src))"

text \<open>Clusters with endpoints of their own do not refer to endpoint resources.\<close>

definition getClusterReferences :: "Cluster \<Rightarrow> string list" where
  "getClusterReferences src = (case cl_Type src of STATIC \<Rightarrow> [] | STRICT_DNS \<Rightarrow> [] | LOGICAL_DNS \<Rightarrow> [])"

text \<open>The names of the endpoint resources and of the route configurations that are referred to.\<close>

definition GetAllResourceReferences :: "Snapshot \<Rightarrow> string list \<times> string list" where
  "GetAllResourceReferences s =
     (remdups (concat (map (\<lambda>(_, c). getClusterReferences c) (sn_clusters s))),
      remdups (concat (map (\<lambda>(_, l). getListenerReferences l) (sn_listeners s))))"

definition check_references :: "string \<Rightarrow> string list \<Rightarrow> Resource gomap \<Rightarrow> go_error option" where
  "check_references typeURL referenceSet items =
     (if length referenceSet \<noteq> length items
      then Some (ErrNew (''mismatched '' @ typeURL @ '' reference and resource lengths''))
      else if \<not> superset referenceSet items then Some (ErrNew (''inconsistent '' @ typeURL @ '' reference''))
      else None)"

definition Consistent :: "Snapshot \<Rightarrow> go_error option" where
  "Consistent s =
     (let (endpoints, routes) = GetAllResourceReferences s in
      case check_references EndpointType endpoints (GetResourcesAndTTL s EndpointType) of
        Some e \<Rightarrow> Some e
      | None \<Rightarrow> check_references RouteType routes (GetResourcesAndTTL s RouteType))"

section \<open>What the listeners refer to\<close>

lemma hcm_filters_references:
  "rds_RouteConfigName (hcm_Rds m) \<noteq> [] \<Longrightarrow>
   concat (map filter_references (hcm_filters m)) = [rds_RouteConfigName (hcm_Rds m)]"
  by (simp add: hcm_filters_def filter_references_def GetHTTPConnectionManager_def)

lemma createFilters_Inr: "createFilters mar m = Inr fs \<Longrightarrow> fs = hcm_filters m"
  by (auto simp: createFilters_def hcm_filters_def go_simps liftE_def dest!: anypb_New_Inr split: sum.splits)

lemma createFilters_fold:
  assumes "foldM (\<lambda>filters i. bindr (index_get manager i) (\<lambda>m. bindr (createFilters mar m) (\<lambda>fs. Inr (filters @ [fs]))))
      acc is = Inr filters" "\<forall>i \<in> set is. i < length manager"
  shows "filters = acc @ map (\<lambda>i. hcm_filters (manager ! i)) is"
  using assms
proof (induction "is" arbitrary: acc)
  case Nil
  then show ?case by simp
next
  case (Cons i "is")
  then show ?case
    using Cons.IH [of "acc @ [hcm_filters (manager ! i)]"] by (auto simp: go_simps dest!: createFilters_Inr)
qed

lemma dual_listener_references:
  assumes "NewHTTPListenerDual mar kenv ms port x = Inr l" "length ms = length regions"
    and "\<And>i. i < length regions \<Longrightarrow> rds_RouteConfigName (hcm_Rds (ms ! i)) \<noteq> []"
  shows "ls_Name l = CreateListenerName port"
    "getListenerReferences l = map (\<lambda>i. rds_RouteConfigName (hcm_Rds (ms ! i))) [0..<length regions]"
proof -
  obtain filters matches where f: "foldM (\<lambda>filters i. bindr (index_get ms i) (\<lambda>m.
        bindr (createFilters mar m) (\<lambda>fs. Inr (filters @ [fs])))) [] [0..<length regions] = Inr filters"
    and l: "ls_Name l = CreateListenerName port" "ls_FilterChains l = map (\<lambda>i. \<lparr>fc_FilterChainMatch = Some (matches ! i),
        fc_Filters = filters ! i, fc_TransportSocket = None\<rparr>) [0..<length regions]"
    using assms(1) unfolding NewHTTPListenerDual_def
    by (auto simp: go_simps Let_def split: option.splits sum.splits simp del: length_regions upt_three) blast
  have "filters = map (\<lambda>i. hcm_filters (ms ! i)) [0..<length regions]"
    using createFilters_fold [OF f] assms(2) by simp
  then have "getListenerReferences l = concat (map (\<lambda>i. [rds_RouteConfigName (hcm_Rds (ms ! i))]) [0..<length regions])"
    using assms(3) unfolding getListenerReferences_def l(2)
    by (intro arg_cong [of _ _ concat]) (auto simp: hcm_filters_references simp del: length_regions upt_three)
  then show "ls_Name l = CreateListenerName port"
    "getListenerReferences l = map (\<lambda>i. rds_RouteConfigName (hcm_Rds (ms ! i))) [0..<length regions]"
    using l by (simp_all add: concat_map_singleton)
qed

lemma one_cert_references:
  assumes "newInternalEnvoyListenerWithOneCert env m cfg = Inr l" "rds_RouteConfigName (hcm_Rds m) \<noteq> []"
  shows "ls_Name l = CreateListenerName HTTPSPortInternal" "getListenerReferences l = [rds_RouteConfigName (hcm_Rds m)]"
  using assms hcm_filters_references [of m]
  by (auto simp: newInternalEnvoyListenerWithOneCert_def NewHTTPSListener_def getListenerReferences_def
      CreateFilterChainFromCertificateAndPrivateKey_def go_simps dest!: createFilters_Inr split: prod.splits)

text \<open>
  Whatever the environment: the listeners of a generation that returns have different names and
  refer to the names of its route configurations.
\<close>

lemma generate_references:
  assumes "generateListenersAndRouteConfigsAndClusters env ctx ext tls loc snis = Inr (ls, routes, cs)"
  shows "distinct (map ls_Name ls) \<and> (\<Union>l \<in> set ls. set (getListenerReferences l)) = rc_Name ` set routes"
proof -
  let ?cfg = "cfg_Kourier (FromContextOrDefaults ctx)"
  let ?mar = "w_mar (se_world env)"
  let ?mgr = "\<lambda>rc. NewHTTPConnectionManager ?mar (se_authz env) (rc_Name rc) ?cfg"
  let ?ext = "map (\<lambda>i. NewRouteConfig (externalRouteConfigName ! i) (tls ! i)) [0..<length regions]"
  let ?int = "map (\<lambda>i. NewRouteConfig (internalRouteConfigName ! i) (loc ! i)) [0..<length regions]"
  let ?routes = "concat (map (\<lambda>i. [?ext ! i, ?int ! i]) [0..<length regions])"
  obtain l1 l2 l3 acc where
    d: "NewHTTPListenerDual ?mar (se_kube env 0) (map ?mgr ?ext) HTTPPortExternal (EnableProxyProtocol ?cfg) = Inr l1"
    "NewHTTPListenerDual ?mar (se_kube env 1) (map ?mgr ?int) HTTPPortInternal False = Inr l2"
    "NewHTTPListenerDual ?mar (se_kube env 2) (map ?mgr ?ext) HTTPPortProb False = Inr l3"
    and it: "internal_tls env ?cfg loc ([l1, l2, l3], ?routes) = Inr acc"
    and "\<exists>em tm trc. (if length snis > 0 then https_with_sni env ?cfg em tm trc snis acc
       else if useHTTPSListenerWithOneCert (w_env (se_world env))
       then https_with_one_cert env ?cfg tm trc acc else Inr acc) = Inr (ls, routes)"
    using assms unfolding generateListenersAndRouteConfigsAndClusters_def Let_def
    by (clarsimp simp: go_simps simp del: upt_three length_regions map_map) blast
  then have acc: "acc = (ls, routes)" by (auto simp: https_never_Inr split: if_split_asm)
  have mgr: "rds_RouteConfigName (hcm_Rds (NewHTTPConnectionManager ?mar (se_authz env) n ?cfg)) = n" for n
    by (simp add: NewHTTPConnectionManager_def Let_def)
  have ne: "i < length regions \<Longrightarrow> rds_RouteConfigName (hcm_Rds (map ?mgr ?ext ! i)) \<noteq> []"
    "i < length regions \<Longrightarrow> rds_RouteConfigName (hcm_Rds (map ?mgr ?int ! i)) \<noteq> []" for i
    using region_cases [of i]
    by (auto simp: mgr NewRouteConfig_def externalRouteConfigName_def internalRouteConfigName_def)
  have refs: "getListenerReferences l1 = externalRouteConfigName" "getListenerReferences l2 = internalRouteConfigName"
    "getListenerReferences l3 = externalRouteConfigName"
    "map ls_Name [l1, l2, l3] = map CreateListenerName [HTTPPortExternal, HTTPPortInternal, HTTPPortProb]"
    using dual_listener_references [OF d(1) _ ne(1)] dual_listener_references [OF d(2) _ ne(2)]
      dual_listener_references [OF d(3) _ ne(1)]
    by (auto simp: mgr NewRouteConfig_def externalRouteConfigName_def internalRouteConfigName_def)
  have routes: "rc_Name ` set ?routes = set externalRouteConfigName \<union> set internalRouteConfigName"
    by (auto simp: NewRouteConfig_def externalRouteConfigName_def internalRouteConfigName_def)
  have ports: "distinct (map CreateListenerName [HTTPPortExternal, HTTPPortInternal, HTTPPortProb, HTTPSPortInternal])"
    by (simp add: HTTPPortExternal_def HTTPPortInternal_def HTTPPortProb_def HTTPSPortInternal_def)
  show ?thesis
  proof (cases "ClusterCertSecret ?cfg = []")
    case True
    then have "ls = [l1, l2, l3]" "routes = ?routes" using it acc by (simp_all add: internal_tls_def)
    then show ?thesis using refs routes ports by auto
  next
    case False
    let ?rc = "NewRouteConfig (internalTLSRouteConfigName ! 0) (loc ! 0)"
    obtain l where l: "newInternalEnvoyListenerWithOneCert env (?mgr ?rc) ?cfg = Inr l"
      "ls = [l1, l2, l3] @ [l]" "routes = ?routes @ [?rc]"
      using it acc False by (auto simp: internal_tls_def go_simps Let_def)
    have "ls_Name l = CreateListenerName HTTPSPortInternal" "getListenerReferences l = [rc_Name ?rc]"
      using one_cert_references [OF l(1)] by (simp_all add: mgr NewRouteConfig_def internalTLSRouteConfigName_def)
    then show ?thesis using refs routes ports l(2,3) by auto
  qed
qed

section \<open>Consistency\<close>

lemma index_by_name_wf: "wf_alist (index_by_name f xs)"
  by (induction xs rule: rev_induct) (auto simp: index_by_name_def intro: al.wf_update)

lemma index_by_name_keys: "fst ` set (index_by_name f xs) = f ` set xs"
  using index_by_name_dom [of f xs] by (simp add: dom_map_of_conv_image_fst)

lemma index_by_name_length: "length (index_by_name f xs) = card (f ` set xs)"
  using distinct_card [of "map fst (index_by_name f xs)"] index_by_name_wf [of f xs] index_by_name_keys [of f xs]
  by (simp add: wf_alist_def)

text \<open>With different names, indexing loses nothing.\<close>

lemma index_by_name_values:
  assumes "distinct (map f xs)"
  shows "snd ` set (index_by_name f xs) = set xs"
proof -
  have "(f x, x) \<in> set (index_by_name f xs)" if "x \<in> set xs" for x
    using index_by_name_distinct [OF assms that] by (rule map_of_SomeD)
  moreover have "x \<in> set xs" if "(n, x) \<in> set (index_by_name f xs)" for n x
    using that al.entries_lookup [OF index_by_name_wf] index_by_name_ran by metis
  ultimately show ?thesis by force
qed

lemma routes_superset:
  "superset ns (GetResourcesAndTTL s RouteType) \<longleftrightarrow> fst ` set (sn_routes s) \<subseteq> set ns"
  by (auto simp: superset_def GetResourcesAndTTL_def list_all_iff)

lemma NewSnapshot_consistent:
  assumes "distinct (map ls_Name ls)" "(\<Union>l \<in> set ls. set (getListenerReferences l)) = rc_Name ` set routes"
  shows "Consistent (NewSnapshot version clusters routes ls) = None"
    "set (snd (GetAllResourceReferences (NewSnapshot version clusters routes ls))) = rc_Name ` set routes"
proof -
  let ?s = "NewSnapshot version clusters routes ls"
  let ?refs = "snd (GetAllResourceReferences ?s)"
  have "set ?refs = (\<Union>l \<in> snd ` set (index_by_name ls_Name ls). set (getListenerReferences l))"
    by (auto simp: GetAllResourceReferences_def NewSnapshot_def)
  then show refs: "set ?refs = rc_Name ` set routes" by (simp add: index_by_name_values [OF assms(1)] assms(2))
  have "length ?refs = card (set ?refs)" by (simp add: GetAllResourceReferences_def length_remdups_card_conv)
  then have len: "length ?refs = length (sn_routes ?s)"
    unfolding refs by (simp add: NewSnapshot_def index_by_name_length)
  have sup: "superset ?refs (GetResourcesAndTTL ?s RouteType)"
    unfolding routes_superset refs by (simp add: NewSnapshot_def index_by_name_keys)
  have "fst (GetAllResourceReferences ?s) = []"
    by (auto simp: GetAllResourceReferences_def getClusterReferences_def split: DiscoveryType.split)
  moreover have "GetResourcesAndTTL ?s EndpointType = []"
    using types_distinct by (auto simp: GetResourcesAndTTL_def)
  ultimately show "Consistent ?s = None"
    using len sup by (simp add: Consistent_def check_references_def superset_def split_beta)
      (simp add: GetResourcesAndTTL_def)
qed

text \<open>
  C21: Every snapshot the control plane hands out is consistent, whatever the caches, the configuration
  and the answers of the cluster: the route configurations it holds are exactly those its
  listeners refer to. So the cache never holds back the route configurations from a gateway that
  asks for those its listeners name.
\<close>

theorem snapshot_consistent:
  assumes "ToEnvoySnapshot env ords ctx now version h c = (Inr snap, h')"
    and "range_order (so_ingresses ords)" "range_order (so_snis ords)"
    and "rq_TypeUrl req = RouteType" "set (snd (GetAllResourceReferences snap)) \<subseteq> set (rq_ResourceNames req)"
  shows "Consistent snap = None \<and> answerable ads snap req"
proof -
  obtain routes ls cs where snap: "snap = NewSnapshot version (cc_list (so_clusters ords) now (ca_clusters c) @ cs) routes ls"
    and gen: "generateListenersAndRouteConfigsAndClusters env ctx
       (region_table (region_vhosts ti_externalVirtualHosts (so_ingresses ords (ca_translatedIngresses c))))
       (region_table (tls_vhosts ords c)) (region_table (local_vhosts ords c)) [] = Inr (ls, routes, cs)"
    by (rule snapshot_returned [OF assms(1-3)])
  note con = NewSnapshot_consistent [OF conjunct1 conjunct2, OF generate_references [OF gen] generate_references [OF gen]]
  have "superset (rq_ResourceNames req) (GetResourcesAndTTL snap RouteType)"
    using assms(5) unfolding snap con(2) routes_superset by (simp add: NewSnapshot_def index_by_name_keys)
  then show ?thesis using con(1) by (simp add: snap answerable_def assms(4))
qed

definition ex_route_request :: DiscoveryRequest where
  "ex_route_request = \<lparr>rq_Node = Some nodeID, rq_TypeUrl = RouteType, rq_VersionInfo = [],
     rq_ResourceNames = snd (GetAllResourceReferences ex_snapshot), rq_ResponseNonce = [], rq_ErrorDetail = None\<rparr>"

theorem snapshot_consistent_witness: "Consistent ex_snapshot = None \<and> answerable True ex_snapshot ex_route_request"
  by (rule snapshot_consistent [OF ex_snapshot_eq ex_orders_ok(1,2)]) (simp_all add: ex_route_request_def)

end
