(* ===== verification/Concurrency.thy ===== *)
theory Concurrency
  imports Workers Wiring Snapshot_Consistent
begin

text \<open>
  The process while it runs: the work queue with its delays, the workers in the middle of their
  handlers, and the state they share. Workers interleave at the critical sections of the code, the
  janitor of the cluster cache and the informers run beside them.
\<close>

section \<open>The process\<close>

record process =
  pr_impl :: "NamespacedName impl"
  pr_state :: rec_state
  pr_workers :: "nat \<Rightarrow> (NamespacedName \<times> job \<times> pc) option"

definition enqueue_all :: "lane \<Rightarrow> NamespacedName list \<Rightarrow> NamespacedName impl \<Rightarrow> NamespacedName impl" where
  "enqueue_all l ks c = foldl (\<lambda>c k. Enqueue l k c) c ks"

text \<open>The keys \<^verbatim>\<open>resyncConflicts\<close> puts into the slow lane when a handler has called it.\<close>

definition resynced :: "IngressObject list \<Rightarrow> rec_state \<Rightarrow> rec_state \<Rightarrow> NamespacedName list" where
  "resynced store s s' = (if rs_resyncs s' = rs_resyncs s then [] else resyncConflicts store)"

text \<open>The error with which \<^verbatim>\<open>processNextWorkItem\<close> ends an item: the handlers return none of the special kinds.\<close>

fun outcome :: "unit res \<Rightarrow> error_kind option" where
  "outcome (Inr _) = None"
| "outcome (Inl _) = Some TransientError"

text \<open>A panic in a worker ends the process.\<close>

definition alive :: "process \<Rightarrow> bool" where
  "alive s \<longleftrightarrow> (\<forall>w k j p. pr_workers s w \<noteq> Some (k, j, Returned (Inl (Panic p))))"

text \<open>
  The steps of the process itself: the goroutines of the queue move, a worker takes a key, takes a
  step of its handler, or ends its item. Every step has its own environment, context and time.
\<close>

inductive internal_step :: "nat \<Rightarrow> process \<Rightarrow> process \<Rightarrow> bool" for threads where
  Queue: "alive s \<Longrightarrow> impl_step (pr_impl s) c \<Longrightarrow> im_now c = im_now (pr_impl s) \<Longrightarrow> c \<noteq> pr_impl s \<Longrightarrow> running (im_workQueue c) \<Longrightarrow>
    internal_step threads s (s\<lparr>pr_impl := c\<rparr>)"
| Pick: "alive s \<Longrightarrow> w < threads \<Longrightarrow> pr_workers s w = None \<Longrightarrow> tl_take (im_workQueue (pr_impl s)) = Some (k, q) \<Longrightarrow> lister_ok lister \<Longrightarrow>
    (\<And>i i'. prepare i = Inr i' \<Longrightarrow> ing_nn (io_Ingress i') = ing_nn (io_Ingress i)) \<Longrightarrow>
    internal_step threads s (s\<lparr>pr_impl := (pr_impl s)\<lparr>im_workQueue := q\<rparr>,
      pr_workers := (pr_workers s)(w \<mapsto> (k, dispatch isLeader prepare lister (safeKey k)))\<rparr>)"
| Work: "alive s \<Longrightarrow> pr_workers s w = Some (k, j, pc) \<Longrightarrow> (\<And>r. pc \<noteq> Returned r) \<Longrightarrow> env_ok env \<Longrightarrow> 0 \<le> now \<Longrightarrow>
    worker_step env ctx now (j, pc) (pr_state s) = (jp, st) \<Longrightarrow> resynced store (pr_state s) st = [] \<Longrightarrow>
    internal_step threads s (s\<lparr>pr_state := st, pr_workers := (pr_workers s)(w \<mapsto> (k, jp))\<rparr>)"
| Finish: "alive s \<Longrightarrow> pr_workers s w = Some (k, j, Returned r) \<Longrightarrow>
    internal_step threads s (s\<lparr>pr_impl := item_processed bucket (outcome r) k (pr_impl s), pr_workers := (pr_workers s)(w := None)\<rparr>)"

text \<open>
  The steps that bring new work: time passes, an event handler enqueues a key, a handler resyncs
  ingresses in conflict, the janitor evicts clusters; and what the queue may do on its own besides, its
  shutdown included.
\<close>

inductive external_step :: "process \<Rightarrow> process \<Rightarrow> bool" where
  Time: "alive s \<Longrightarrow> im_now (pr_impl s) \<le> now \<Longrightarrow> external_step s (s\<lparr>pr_impl := (pr_impl s)\<lparr>im_now := now\<rparr>\<rparr>)"
| Event: "alive s \<Longrightarrow> external_step s (s\<lparr>pr_impl := Enqueue l k (pr_impl s)\<rparr>)"
| Resync: "alive s \<Longrightarrow> pr_workers s w = Some (k, j, pc) \<Longrightarrow> (\<And>r. pc \<noteq> Returned r) \<Longrightarrow> env_ok env \<Longrightarrow> 0 \<le> now \<Longrightarrow>
    worker_step env ctx now (j, pc) (pr_state s) = (jp, st) \<Longrightarrow>
    external_step s (s\<lparr>pr_impl := enqueue_all Slow (resynced store (pr_state s) st) (pr_impl s), pr_state := st,
      pr_workers := (pr_workers s)(w \<mapsto> (k, jp))\<rparr>)"
| Evict: "alive s \<Longrightarrow> run_janitor now (rs_caches (pr_state s)) = Inr (names, caches) \<Longrightarrow>
    external_step s (s\<lparr>pr_impl := enqueue_all Fast names (pr_impl s), pr_state := (pr_state s)\<lparr>rs_caches := caches\<rparr>\<rparr>)"
| Background: "alive s \<Longrightarrow> impl_step (pr_impl s) c \<Longrightarrow> external_step s (s\<lparr>pr_impl := c\<rparr>)"

definition process_step :: "nat \<Rightarrow> process \<Rightarrow> process \<Rightarrow> bool" where
  "process_step threads s s' \<longleftrightarrow> internal_step threads s s' \<or> external_step s s'"

text \<open>The state in which \<^verbatim>\<open>NewController\<close> leaves the process, when no key is enqueued yet.\<close>

definition started :: "int \<Rightarrow> rec_state \<Rightarrow> process" where
  "started now s = \<lparr>pr_impl = new_impl now, pr_state = s, pr_workers = (\<lambda>_. None)\<rparr>"

section \<open>Snapshots built by the process\<close>

text \<open>A snapshot made by \<^verbatim>\<open>NewSnapshot\<close> whose routes have their clusters.\<close>

definition snapshot_ok :: "Snapshot \<Rightarrow> bool" where
  "snapshot_ok snap \<longleftrightarrow> snapshot_closed snap \<and> wf_alist (sn_routes snap)"

lemma ToEnvoySnapshot_wf: "ToEnvoySnapshot env ords ctx now version h c = (Inr snap, h') \<Longrightarrow> wf_alist (sn_routes snap)"
  by (auto simp: ToEnvoySnapshot_def Let_def go_simps NewSnapshot_def index_by_name_wf split: prod.splits)

definition state_ok :: "rec_state \<Rightarrow> bool" where
  "state_ok s \<longleftrightarrow> (\<exists>c0. caches_init c0 \<and> caches_step\<^sup>*\<^sup>* c0 (rs_caches s)) \<and>
     (\<forall>node snap. map_of (rs_snapshots s) node = Some snap \<longrightarrow> snapshot_ok snap)"

lemma state_ok_caches:
  assumes "state_ok s"
  shows "caches_inv (rs_caches s)" "caches_closed (rs_caches s)"
  using assms cts.reachable_inv ccl.reachable_inv unfolding state_ok_def by blast+

lemma state_ok_step:
  assumes "state_ok s" "rs_caches s' = rs_caches s \<or> caches_step (rs_caches s) (rs_caches s')" "rs_snapshots s' = rs_snapshots s"
  shows "state_ok s'"
  using assms unfolding state_ok_def by (metis rtranclp.rtrancl_into_rtrancl)

text \<open>What a worker carries from one critical section to the next.\<close>

fun job_ok :: "job \<Rightarrow> bool" where
  "job_ok (ReconcileJob before i) \<longleftrightarrow> name_ok (ing_nn (io_Ingress i))"
| "job_ok (ObserveJob i) \<longleftrightarrow> name_ok (ing_nn (io_Ingress i))"
| "job_ok j \<longleftrightarrow> True"

fun pc_ok :: "pc \<Rightarrow> bool" where
  "pc_ok (ToStore ti) \<longleftrightarrow> (\<exists>w t ctx ing s s'. name_ok (ing_nn ing) \<and> translateIngress w t ctx ing False s = (Inr (Some ti), s'))"
| "pc_ok (ToPush snap) \<longleftrightarrow> snapshot_ok snap"
| "pc_ok pc \<longleftrightarrow> True"

lemma translate_step_ok:
  assumes "translate_step env ctx ing s = (pc, ing', s')" "env_ok env" "name_ok (ing_nn ing)"
  shows "rs_caches s' = rs_caches s" "rs_snapshots s' = rs_snapshots s" "name_ok (ing_nn ing')" "pc_ok pc"
    "rs_resyncs s' = rs_resyncs s"
proof -
  obtain pr ing1 where p: "InsertProbe (re_hash env) ing = (pr, ing1)" by fastforce
  have nn: "name_ok (ing_nn ing1)" using InsertProbe_nn [OF p] assms(3) by simp
  have "\<not> re_extAuthz env" using assms(2) by (simp add: env_ok_def)
  then show "rs_caches s' = rs_caches s" "rs_snapshots s' = rs_snapshots s" "name_ok (ing_nn ing')" "pc_ok pc" "rs_resyncs s' = rs_resyncs s"
    using assms(1) p nn
    by (auto simp: translate_step_def split: sum.split_asm prod.split_asm fault.split_asm option.split_asm) blast
qed

lemma settle_frame:
  assumes "settle env now j r s = ((j', pc'), s')" "job_ok j"
  shows "rs_caches s' = rs_caches s" "rs_snapshots s' = rs_snapshots s" "job_ok j'" "\<exists>r'. pc' = Returned r'"
proof -
  have "ing_nn (io_Ingress i') = ing_nn (io_Ingress i)" if "mark_ready env now before i = (r, i')" for before i r i'
    using that by (auto simp: mark_ready_def Let_def split: sum.splits bool.splits prod.splits if_splits)
  then show "rs_caches s' = rs_caches s" "rs_snapshots s' = rs_snapshots s" "job_ok j'" "\<exists>r'. pc' = Returned r'"
    using assms by (auto simp: settle_def split: job.split_asm sum.split_asm fault.split_asm prod.split_asm if_split_asm)
qed

lemma worker_step_ok:
  assumes "worker_step env ctx now (j, pc) s = ((j', pc'), s')" "env_ok env" "0 \<le> now" "job_ok j" "pc_ok pc" "state_ok s"
  shows "job_ok j' \<and> pc_ok pc' \<and> state_ok s'"
proof -
  note closed = state_ok_caches(2) [OF assms(6)]
  have translated: "name_ok (ing_nn ing') \<and> pc_ok pc' \<and> state_ok s'" if "SetDefaults (io_Ingress i) = Inr ing"
    "name_ok (ing_nn (io_Ingress i))" "translate_step env ctx ing s = (pc', ing', s')" for i ing ing'
    using translate_step_ok [OF that(3) assms(2)] SetDefaults_nn [OF that(1)] that(2) state_ok_step [OF assms(6)] by auto
  show ?thesis
  proof (cases "(env, ctx, now, (j, pc), s)" rule: worker_step.cases)
    case (1 env ctx now b i s)
    then show ?thesis using assms translated [of i] by (auto split: sum.split_asm prod.split_asm)
  next
    case (2 env ctx now i s)
    then show ?thesis using assms translated [of i] by (auto split: sum.split_asm prod.split_asm)
  next
    case (3 env ctx now j ti s)
    then show ?thesis
      using assms state_ok_step [OF assms(6)] caches_step.Update [OF assms(3)] by (auto split: sum.split_asm prod.split_asm)
  next
    case (4 env ctx now nn s)
    then show ?thesis
      using assms state_ok_step [OF assms(6)] caches_step.Delete [OF assms(3)] by (auto simp: Let_def split: sum.split_asm)
  next
    case (5 env ctx now j s)
    then show ?thesis
      using assms state_ok_step [OF assms(6)] closed_snapshot [OF closed] ToEnvoySnapshot_wf
      by (auto simp: env_ok_def snapshot_ok_def split: sum.split_asm prod.split_asm)
  next
    case (6 env ctx now j snap s)
    then show ?thesis
      using assms by (auto simp: SetSnapshot_def Let_def state_ok_def al.lookup_update split: if_splits)
  next
    case (7 env ctx now j r s)
    then show ?thesis using assms settle_frame [of env now j r s j' pc' s'] state_ok_step [OF assms(6), of s'] by auto
  qed (use assms in auto)
qed

section \<open>The invariant of the process\<close>

definition taken :: "(nat \<Rightarrow> (NamespacedName \<times> job \<times> pc) option) \<Rightarrow> NamespacedName set" where
  "taken workers = {k. \<exists>w l. workers w = Some (k, l)}"

lemma taken_start:
  assumes "workers w = None"
  shows "taken (workers(w \<mapsto> (k, l))) = insert k (taken workers)"
proof (rule set_eqI)
  fix k'
  have "(\<exists>v l'. (workers(w \<mapsto> (k, l))) v = Some (k', l')) \<longleftrightarrow> k' = k \<or> (\<exists>v l'. v \<noteq> w \<and> workers v = Some (k', l'))"
    by (simp add: fun_upd_apply) blast
  moreover have "(\<exists>v l'. v \<noteq> w \<and> workers v = Some (k', l')) \<longleftrightarrow> (\<exists>v l'. workers v = Some (k', l'))"
    using assms by (metis option.distinct(1))
  ultimately show "k' \<in> taken (workers(w \<mapsto> (k, l))) \<longleftrightarrow> k' \<in> insert k (taken workers)" by (simp add: taken_def)
qed

lemma taken_work:
  assumes "workers w = Some (k, l)"
  shows "taken (workers(w \<mapsto> (k, l'))) = taken workers"
proof (rule set_eqI)
  fix k'
  have "(\<exists>m. (workers(w \<mapsto> (k, l'))) v = Some (k', m)) \<longleftrightarrow> (\<exists>m. workers v = Some (k', m))" for v
    using assms by (cases "v = w") auto
  then show "k' \<in> taken (workers(w \<mapsto> (k, l'))) \<longleftrightarrow> k' \<in> taken workers" by (simp add: taken_def)
qed

lemma taken_end:
  assumes "workers w = Some (k, l)" "\<And>w' l'. workers w' = Some (k, l') \<Longrightarrow> w' = w"
  shows "taken (workers(w := None)) = taken workers - {k}"
proof (rule set_eqI)
  fix k'
  have "(\<exists>m. (workers(w := None)) v = Some (k', m)) \<longleftrightarrow> (\<exists>m. workers v = Some (k', m)) \<and> k' \<noteq> k" for v
    using assms(1) assms(2) [of v] by (cases "v = w") auto
  then show "k' \<in> taken (workers(w := None)) \<longleftrightarrow> k' \<in> taken workers - {k}" by (simp add: taken_def)
qed

definition process_inv :: "nat \<Rightarrow> process \<Rightarrow> bool" where
  "process_inv threads s \<longleftrightarrow> impl_inv (pr_impl s) \<and> state_ok (pr_state s) \<and>
     (\<forall>w k j pc. pr_workers s w = Some (k, j, pc) \<longrightarrow> w < threads \<and> job_ok j \<and> pc_ok pc) \<and>
     (\<forall>w w' k l l'. pr_workers s w = Some (k, l) \<longrightarrow> pr_workers s w' = Some (k, l') \<longrightarrow> w = w') \<and>
     im_active (pr_impl s) = taken (pr_workers s)"

lemma enqueue_all_frame:
  assumes "impl_inv c"
  shows "impl_inv (enqueue_all l ks c) \<and> im_active (enqueue_all l ks c) = im_active c \<and> im_pending c \<subseteq> im_pending (enqueue_all l ks c)"
  using assms
proof (induction ks arbitrary: c)
  case (Cons k ks)
  note e = Enqueue_pending [OF Cons.prems, of l k]
  show ?case using e(2,3) Cons.IH [OF e(1)] by (auto simp: enqueue_all_def)
qed (simp add: enqueue_all_def)

lemma dispatch_ok:
  assumes "dispatch isLeader prepare lister k = (j, pc)" "lister_ok lister"
    "\<And>i i'. prepare i = Inr i' \<Longrightarrow> ing_nn (io_Ingress i') = ing_nn (io_Ingress i)"
  shows "job_ok j" "pc_ok pc"
  using assms unfolding dispatch_def lister_ok_def
  by (auto split: sum.split_asm prod.split_asm if_split_asm)

lemma process_invI:
  assumes "process_inv threads s" "impl_inv (pr_impl s')" "state_ok (pr_state s')" "im_active (pr_impl s') = im_active (pr_impl s)"
    "pr_workers s' = pr_workers s"
  shows "process_inv threads s'"
  using assms by (auto simp: process_inv_def)

lemma process_inv_work:
  assumes "process_inv threads s" "pr_workers s w = Some (k, j, pc)" "env_ok env" "0 \<le> now"
    and "worker_step env ctx now (j, pc) (pr_state s) = (jp, st)"
    and "impl_inv c" "im_active c = im_active (pr_impl s)"
  shows "process_inv threads \<lparr>pr_impl = c, pr_state = st, pr_workers = (pr_workers s)(w \<mapsto> (k, jp))\<rparr>"
proof -
  obtain j' pc' where jp: "jp = (j', pc')" by fastforce
  have "job_ok j' \<and> pc_ok pc' \<and> state_ok st"
    using worker_step_ok [OF assms(5) [unfolded jp] assms(3,4)] assms(1,2) by (auto simp: process_inv_def)
  moreover have "im_active c = taken ((pr_workers s)(w \<mapsto> (k, jp)))"
    using assms(1,7) taken_work [of "pr_workers s" w k "(j, pc)" jp, OF assms(2)] by (simp add: process_inv_def)
  ultimately show ?thesis
    using assms(1,2,6) unfolding process_inv_def jp by (auto split: if_split_asm)
qed

lemma internal_step_inv:
  assumes "internal_step threads s s'" "process_inv threads s"
  shows "process_inv threads s'"
  using assms
proof (induction rule: internal_step.induct)
  case (Queue s c)
  then have i: "impl_inv (pr_impl s)" "state_ok (pr_state s)" by (auto simp: process_inv_def)
  show ?case using impl_step_frame [OF Queue(2) i(1)] i by (intro process_invI [OF Queue.prems]) auto
next
  case (Pick s w k q lister prepare isLeader)
  have i: "tl_inv (im_workQueue (pr_impl s))" using Pick.prems by (simp add: process_inv_def impl_inv_def)
  obtain j pc where d: "dispatch isLeader prepare lister (safeKey k) = (j, pc)" by fastforce
  have "job_ok j" "pc_ok pc" using dispatch_ok [OF d Pick(5,6)] by auto
  moreover have "k \<notin> im_active (pr_impl s)" "tl_inv q" "tl_active q = insert k (im_active (pr_impl s))"
    using tli.get [OF i Pick(4)] by auto
  moreover have "insert k (im_active (pr_impl s)) = taken ((pr_workers s)(w \<mapsto> (k, j, pc)))" "k \<notin> taken (pr_workers s)"
    using Pick.prems taken_start [of "pr_workers s" w k "(j, pc)", OF Pick(3)] calculation(3) by (simp_all add: process_inv_def)
  ultimately show ?case
    using Pick.prems Pick(2,3) unfolding process_inv_def d
    by (auto simp: impl_inv_def split: if_split_asm) (auto simp: taken_def)
next
  case (Work s w k j pc env now ctx jp st store)
  have "impl_inv (pr_impl s)" using Work.prems by (simp add: process_inv_def)
  from process_inv_work [OF Work.prems Work(2,4,5,6) this refl] show ?case by (cases s) simp
next
  case (Finish s w k j r bucket)
  have i: "impl_inv (pr_impl s)" "k \<in> im_active (pr_impl s)" using Finish.prems Finish(2) by (auto simp: process_inv_def taken_def)
  note f = item_processed_frame [OF i]
  have "w' = w" if "pr_workers s w' = Some (k, l)" for w' l
    using Finish.prems Finish(2) that unfolding process_inv_def by blast
  then have "im_active (pr_impl s) - {k} = taken ((pr_workers s)(w := None))"
    using Finish.prems taken_end [of "pr_workers s" w k "(j, Returned r)", OF Finish(2)] by (simp add: process_inv_def)
  then show ?case using Finish.prems f(1,2) unfolding process_inv_def by (auto split: if_split_asm)
qed

lemma external_step_inv:
  assumes "external_step s s'" "process_inv threads s"
  shows "process_inv threads s'"
  using assms
proof (induction rule: external_step.induct)
  case (Time s now)
  then show ?case by (auto simp: process_inv_def impl_inv_def)
next
  case (Event s l k)
  then have "impl_inv (pr_impl s)" "state_ok (pr_state s)" by (simp_all add: process_inv_def)
  then show ?case using Enqueue_pending [of "pr_impl s" l k] by (intro process_invI [OF Event.prems]) auto
next
  case (Resync s w k j pc env now ctx jp st store)
  have "impl_inv (pr_impl s)" using Resync.prems by (simp add: process_inv_def)
  note e = enqueue_all_frame [OF this, of Slow "resynced store (pr_state s) st"]
  from process_inv_work [OF Resync.prems Resync(2,4,5,6), of "enqueue_all Slow (resynced store (pr_state s) st) (pr_impl s)"] e
  show ?case by (cases s) simp
next
  case (Evict s now names caches)
  then have i: "impl_inv (pr_impl s)" "state_ok (pr_state s)" by (auto simp: process_inv_def)
  obtain calls where "evict_clusters now (rs_caches (pr_state s)) = Inr (caches, calls)"
    using Evict(2) by (auto simp: run_janitor_def go_simps)
  then have "state_ok ((pr_state s)\<lparr>rs_caches := caches\<rparr>)" by (intro state_ok_step [OF i(2)]) (auto intro: caches_step.Evict)
  then show ?case using enqueue_all_frame [OF i(1), of Fast names] by (intro process_invI [OF Evict.prems]) auto
next
  case (Background s c)
  then have i: "impl_inv (pr_impl s)" "state_ok (pr_state s)" by (auto simp: process_inv_def)
  show ?case using impl_step_frame [OF Background(2) i(1)] i by (intro process_invI [OF Background.prems]) auto
qed

lemma started_inv: "state_ok s \<Longrightarrow> process_inv threads (started now s)"
  by (simp add: process_inv_def started_def taken_def new_impl_def tl_active_def newTwoLaneWorkQueue_def newQueue_def)
    (simp add: impl_inv_def tl_inv_def lane_inv_def wq_inv_def)

interpretation prs: transition_system "\<lambda>s. \<exists>now st. s = started now st \<and> state_ok st" "process_step threads" "process_inv threads" for threads
  by unfold_locales (auto simp: process_step_def intro: started_inv internal_step_inv external_step_inv)

end
