(* ===== verification/Process_Props.thy ===== *)
theory Process_Props
  imports Concurrency
begin

text \<open>
  What the concurrent process does with the work it has: it finishes all of it when nothing new comes
  in, and what two workers can do to each other between building a snapshot and handing it over.
\<close>

section \<open>The process finishes its work\<close>

text \<open>The steps a worker has left; a key on its way pays for them when it is taken.\<close>

fun pc_work :: "pc \<Rightarrow> nat" where
  "pc_work ToTranslate = 7"
| "pc_work (ToStore ti) = 6"
| "pc_work ToDelete = 6"
| "pc_work ToBuild = 5"
| "pc_work (ToPush snap) = 4"
| "pc_work (ToSettle r) = 3"
| "pc_work (Returned r) = 2"

definition worker_work :: "(NamespacedName \<times> job \<times> pc) option \<Rightarrow> nat" where
  "worker_work w = (case w of None \<Rightarrow> 0 | Some (_, _, pc) \<Rightarrow> pc_work pc)"

definition process_work :: "nat \<Rightarrow> process \<Rightarrow> nat" where
  "process_work threads s = im_work (pr_impl s) + (\<Sum>w<threads. worker_work (pr_workers s w))"

lemma workers_update:
  assumes "w < (threads :: nat)"
  shows "(\<Sum>v<threads. worker_work ((f(w := x)) v)) + worker_work (f w) = (\<Sum>v<threads. worker_work (f v)) + worker_work x"
proof -
  have w: "finite {..<threads}" "w \<in> {..<threads}" using assms by simp_all
  have "(\<Sum>v \<in> {..<threads} - {w}. worker_work ((f(w := x)) v)) = (\<Sum>v \<in> {..<threads} - {w}. worker_work (f v))"
    by (rule sum.cong) auto
  then show ?thesis
    using sum.remove [OF w, of "\<lambda>v. worker_work ((f(w := x)) v)"]
      sum.remove [OF w, of "\<lambda>v. worker_work (f v)"] by simp
qed

lemma dispatch_work: "dispatch isLeader prepare lister k = (j, pc) \<Longrightarrow> pc_work pc \<le> 7"
  by (auto simp: dispatch_def split: sum.split_asm prod.split_asm if_split_asm)

lemma translate_step_work: "translate_step env ctx ing s = (pc, ing', s') \<Longrightarrow> pc_work pc < 7"
  by (auto simp: translate_step_def split: sum.split_asm prod.split_asm fault.split_asm option.split_asm)

lemma worker_step_work:
  assumes "worker_step env ctx now (j, pc) s = ((j', pc'), s')" "\<And>r. pc \<noteq> Returned r"
  shows "pc_work pc' < pc_work pc"
proof (cases "(env, ctx, now, (j, pc), s)" rule: worker_step.cases)
  case (7 env ctx now j r s)
  obtain j1 r1 s1 where "settle env now j r s = ((j1, Returned r1), s1)" using settle_Returned by metis
  then show ?thesis using 7 assms by auto
qed (use assms translate_step_work in \<open>auto simp: Let_def split: sum.split_asm prod.split_asm\<close>)

lemma tl_take_work:
  assumes "tl_inv q" "tl_take q = Some (k, q')"
  shows "tl_work q = tl_work q' + 10" "running q' = running q"
proof -
  obtain c where c: "wq_Get (tl_consumerQueue q) = (Item k, c)" "q' = q\<lparr>tl_consumerQueue := c\<rparr>"
    by (rule tl_take_Some [OF assms(2)])
  have inv: "wq_inv (tl_consumerQueue q)" using assms(1) by (simp add: tl_inv_def)
  note g = wq_Get_Item [OF inv c(1)]
  have "card (wq_dirty (tl_consumerQueue q)) = Suc (card (wq_dirty c))"
    using card_Suc_Diff1 [OF wq_inv_finite [OF inv] g(2)] by (simp only: g(4))
  then show "tl_work q = tl_work q' + 10" "running q' = running q" by (simp_all add: c(2) tl_work_def running_def)
qed

lemma tl_Done_work [simp]: "tl_work (tl_Done k q) = tl_work q"
  by (simp add: tl_work_def tl_Done_def)

lemma item_processed_work:
  assumes "running (im_workQueue c)"
  shows "im_work (item_processed bucket (outcome r) k c) \<le> im_work c + 1"
proof (cases r)
  case (Inl f)
  have "\<not> max bucket (min (5000000 * 2 ^ NumRequeues (im_failures c) k) 1000000000000) \<le> 0" by (simp add: not_le less_max_iff_disj)
  then show ?thesis
    using assms Inl
    by (simp del: max.bounded_iff min_le_iff_disj add: item_processed_def Let_def handleErr_def running_def AddRateLimited_def MaxOf_delay AddAfter_def im_work_def entries_work_def)
next
  case (Inr u)
  then show ?thesis by (simp add: item_processed_def Let_def Forget_def im_work_def)
qed

lemma running_back: "impl_step c c' \<Longrightarrow> running (im_workQueue c') \<Longrightarrow> running (im_workQueue c)"
proof (induction rule: impl_step.induct)
  case (Lanes c q)
  from Lanes(1) show ?case
    by (cases rule: tl_step.cases) (use Lanes(2) in \<open>auto simp: running_def dest: process_running receive_running\<close>)
qed (auto split: if_split_asm)

lemma internal_step_work:
  assumes "internal_step threads s s'" "process_inv threads s" "running (im_workQueue (pr_impl s))"
  shows "process_work threads s' < process_work threads s \<and> running (im_workQueue (pr_impl s'))"
  using assms
proof (induction rule: internal_step.induct)
  case (Queue s c)
  then show ?case using impl_step_work [OF Queue(2)] by (simp add: process_work_def process_inv_def)
next
  case (Pick s w k q lister prepare isLeader)
  have i: "tl_inv (im_workQueue (pr_impl s))" using Pick.prems by (simp add: process_inv_def impl_inv_def)
  obtain j pc where d: "dispatch isLeader prepare lister (safeKey k) = (j, pc)" by fastforce
  show ?case
    using tl_take_work [OF i Pick(4)] dispatch_work [OF d] workers_update [OF Pick(2), of "pr_workers s" "Some (k, j, pc)"] Pick(3) Pick.prems
    by (simp add: process_work_def d im_work_def worker_work_def)
next
  case (Work s w k j pc env now ctx jp st store)
  obtain j' pc' where jp: "jp = (j', pc')" by fastforce
  have "w < threads" using Work.prems Work(2) by (auto simp: process_inv_def)
  then show ?case
    using worker_step_work [OF Work(6) [unfolded jp] Work(3)] workers_update [of w threads "pr_workers s" "Some (k, j', pc')"] Work(2) Work.prems
    by (simp add: process_work_def worker_work_def jp)
next
  case (Finish s w k j r bucket)
  have w: "w < threads" "impl_inv (pr_impl s)" "k \<in> im_active (pr_impl s)"
    using Finish.prems Finish(2) by (auto simp: process_inv_def taken_def)
  show ?case
    using item_processed_work [OF Finish.prems(2), of bucket r k] item_processed_frame(5) [OF w(2,3), of bucket "outcome r"]
      workers_update [OF w(1), of "pr_workers s" None] Finish(2) Finish.prems
    by (simp add: process_work_def worker_work_def)
qed

lemma internal_run_work:
  assumes "(internal_step threads ^^ n) s s'" "process_inv threads s" "running (im_workQueue (pr_impl s))"
  shows "process_work threads s' + n \<le> process_work threads s \<and> process_inv threads s' \<and> running (im_workQueue (pr_impl s'))"
  using assms(1)
proof (induction n arbitrary: s')
  case (Suc n)
  then obtain s1 where s1: "(internal_step threads ^^ n) s s1" "internal_step threads s1 s'" by auto
  with Suc.IH show ?case using internal_step_work [OF s1(2)] internal_step_inv [OF s1(2)] by fastforce
qed (use assms(2,3) in simp)

section \<open>When no step is possible\<close>

lemma alive_step:
  assumes "alive s" "pr_workers s w = Some (k, j, pc)"
  shows "\<exists>s'. internal_step threads s s'"
proof (cases "\<exists>r. pc = Returned r")
  case True
  then show ?thesis using internal_step.Finish [OF assms(1)] assms(2) by blast
next
  case False
  obtain jp st where "worker_step ex_renv None 0 (j, pc) (pr_state s) = (jp, st)" by fastforce
  from internal_step.Work [OF assms _ ex_renv_ok(1) _ this, of "[]"] show ?thesis
    using False by (auto simp: resynced_def resyncConflicts_def FilteredGlobalResync_def)
qed

lemma stuck_finished:
  assumes "process_inv threads s" "alive s" "running (im_workQueue (pr_impl s))" "0 < threads" "\<And>s'. \<not> internal_step threads s s'"
  shows "pr_workers s w = None" "im_pending (pr_impl s) = {}" "loop_idle (pr_impl s)"
proof -
  have idle: "pr_workers s w = None" for w
  proof (cases "pr_workers s w")
    case (Some l)
    then show ?thesis using alive_step [OF assms(2)] assms(5) by (metis prod_cases3)
  qed
  then show "pr_workers s w = None" .
  have inv: "tl_inv (im_workQueue (pr_impl s))" "tl_active (im_workQueue (pr_impl s)) = {}"
    using assms(1) idle by (auto simp: process_inv_def impl_inv_def taken_def)
  have queue: False if "impl_step (pr_impl s) c" "im_now c = im_now (pr_impl s)" "c \<noteq> pr_impl s" "running (im_workQueue c)" for c
    using internal_step.Queue [OF assms(2) that] assms(5) by blast
  show "loop_idle (pr_impl s)" using loop_stuck [OF assms(3)] queue by blast
  have "\<not> running q" if "tl_step (im_workQueue (pr_impl s)) q" for q
  proof
    assume r: "running q"
    have "q \<noteq> im_workQueue (pr_impl s)" using tl_step_work [OF inv(1) assms(3) that r] by auto
    then have "(pr_impl s)\<lparr>im_workQueue := q\<rparr> \<noteq> pr_impl s" by (auto dest: arg_cong [of _ _ im_workQueue])
    then show False using queue [OF impl_step.Lanes [OF that]] r by simp
  qed
  then have p: "im_pending (pr_impl s) = wq_dirty (tl_consumerQueue (im_workQueue (pr_impl s)))" by (intro tl_stuck [OF inv(1) assms(3)])
  have "tl_take (im_workQueue (pr_impl s)) = None"
  proof (rule ccontr)
    assume "tl_take (im_workQueue (pr_impl s)) \<noteq> None"
    then obtain k q where "tl_take (im_workQueue (pr_impl s)) = Some (k, q)" by fastforce
    have "internal_step threads s (s\<lparr>pr_impl := (pr_impl s)\<lparr>im_workQueue := q\<rparr>,
        pr_workers := (pr_workers s)(0 \<mapsto> (k, dispatch True (\<lambda>i. Inr i) (\<lambda>_ _. Inl (ErrNew [])) (safeKey k)))\<rparr>)"
      by (rule internal_step.Pick [OF assms(2,4) idle \<open>tl_take _ = Some _\<close>]) (simp_all add: lister_ok_def)
    then show False using assms(5) by blast
  qed
  then show "im_pending (pr_impl s) = {}" using tl_take_possible [OF inv(1) _ inv(2)] unfolding p by (metis (no_types))
qed

text \<open>
  C4: The process finishes its work. From every state the running process reaches with at least one worker,
  its own steps (goroutines of the queue, workers taking keys, running their handlers and
  ending them) can only go on for a bounded number of steps, in whatever order, unless something new
  comes in. When they have ended without a panic, every worker is idle, no key is pending,
  and all that is left are retries whose time has not come.
\<close>

theorem process_finishes:
  assumes "state_ok st" "(process_step threads)\<^sup>*\<^sup>* (started t st) s" "running (im_workQueue (pr_impl s))" "0 < threads"
  shows "(\<forall>n s'. (internal_step threads ^^ n) s s' \<longrightarrow> n \<le> process_work threads s) \<and>
    (\<forall>s'. (internal_step threads)\<^sup>*\<^sup>* s s' \<longrightarrow> (\<nexists>s''. internal_step threads s' s'') \<longrightarrow> alive s' \<longrightarrow>
      (\<forall>w. pr_workers s' w = None) \<and> im_pending (pr_impl s') = {} \<and>
      (\<forall>k r. scheduled (pr_impl s') k r \<longrightarrow> im_now (pr_impl s') < r)) \<and>
    (\<exists>s'. (internal_step threads)\<^sup>*\<^sup>* s s' \<and> (\<nexists>s''. internal_step threads s' s''))"
proof -
  have inv: "process_inv threads s" using prs.reachable_inv [OF _ assms(2)] assms(1) by blast
  note run = internal_run_work [OF _ inv assms(3)]
  have "(\<forall>w. pr_workers s' w = None) \<and> im_pending (pr_impl s') = {} \<and> (\<forall>k r. scheduled (pr_impl s') k r \<longrightarrow> im_now (pr_impl s') < r)"
    if ended: "(internal_step threads)\<^sup>*\<^sup>* s s'" "\<nexists>s''. internal_step threads s' s''" "alive s'" for s'
  proof -
    obtain n where "(internal_step threads ^^ n) s s'" using ended(1) by (metis rtranclp_power)
    note r = run [OF this]
    note stuck = stuck_finished [OF _ ended(3) _ assms(4)]
    have "\<not> internal_step threads s' x" for x using ended(2) by blast
    note ends = stuck [OF conjunct1 [OF conjunct2 [OF r]] conjunct2 [OF conjunct2 [OF r]] this]
    show ?thesis using ends(1,2) scheduled_idle [OF ends(3)] by simp
  qed
  moreover have "\<exists>s'. (internal_step threads)\<^sup>*\<^sup>* s s' \<and> (\<nexists>s''. internal_step threads s' s'')"
  proof -
    define s' where "s' = arg_min (process_work threads) (\<lambda>s'. (internal_step threads)\<^sup>*\<^sup>* s s')"
    have s': "(internal_step threads)\<^sup>*\<^sup>* s s'" "\<And>x. (internal_step threads)\<^sup>*\<^sup>* s x \<Longrightarrow> process_work threads s' \<le> process_work threads x"
      unfolding s'_def using arg_min_nat_lemma [of "\<lambda>s'. (internal_step threads)\<^sup>*\<^sup>* s s'" s "process_work threads"] by auto
    obtain n where n: "(internal_step threads ^^ n) s s'" using s'(1) by (metis rtranclp_power)
    have "False" if "internal_step threads s' x" for x
      using internal_step_work [OF that] run [OF n] s'(2) [OF rtranclp.rtrancl_into_rtrancl [OF s'(1) that]] by fastforce
    then show ?thesis using s'(1) by blast
  qed
  ultimately show ?thesis using run by fastforce
qed

section \<open>From an event to a worker\<close>

text \<open>The queue with nothing pending, while the given keys are processed.\<close>

definition idle_queue :: "'k set \<Rightarrow> 'k twoLaneQueue" where
  "idle_queue P = newTwoLaneWorkQueue\<lparr>tl_consumerQueue := newQueue\<lparr>wq_processing := P\<rparr>\<rparr>"

lemma key_delivered:
  assumes "k \<notin> P"
  shows "\<exists>q. tl_step\<^sup>*\<^sup>* (tl_Add Fast k (idle_queue P)) q \<and> tl_take q = Some (k, idle_queue (insert k P))"
proof -
  let ?q0 = "tl_Add Fast k (idle_queue P)"
  let ?q1 = "(idle_queue P)\<lparr>tl_fast := newQueue\<lparr>wq_processing := {k}\<rparr>, tl_fastChan := Got k\<rparr>"
  let ?q2 = "(idle_queue P)\<lparr>tl_fastChan := Sending k\<rparr>"
  let ?q3 = "(idle_queue P)\<lparr>tl_consumerQueue := wq_Add k (newQueue\<lparr>wq_processing := P\<rparr>)\<rparr>"
  note defs = idle_queue_def newTwoLaneWorkQueue_def newQueue_def tl_Add.simps wq_Add_def Let_def
  have 1: "tl_step ?q0 ?q1"
    using tl_step.ProcessFast [of ?q0 "newQueue\<lparr>wq_processing := {k}\<rparr>" "Got k"] by (simp add: defs wq_Get_def)
  have 2: "tl_step ?q1 ?q2"
    using tl_step.ProcessFast [of ?q1 newQueue "Sending k"] by (simp add: defs wq_Done_def)
  have 3: "tl_step ?q2 ?q3" by (rule tl_step.FastFirst) (simp_all add: defs)
  have "tl_step\<^sup>*\<^sup>* ?q0 ?q3" using 1 2 3 by (meson converse_rtranclp_into_rtranclp rtranclp.rtrancl_refl)
  moreover have "tl_take ?q3 = Some (k, idle_queue (insert k P))"
    using assms by (simp add: defs tl_take_def tl_Get_def wq_Get_def)
  ultimately show ?thesis by blast
qed

lemma lanes_move:
  assumes "tl_step\<^sup>*\<^sup>* (im_workQueue (pr_impl s)) q" "alive s"
  shows "(process_step threads)\<^sup>*\<^sup>* s (s\<lparr>pr_impl := (pr_impl s)\<lparr>im_workQueue := q\<rparr>\<rparr>)"
  using assms(1)
proof (induction rule: rtranclp_induct)
  case (step q q')
  let ?s = "s\<lparr>pr_impl := (pr_impl s)\<lparr>im_workQueue := q\<rparr>\<rparr>"
  have "process_step threads ?s (?s\<lparr>pr_impl := (pr_impl ?s)\<lparr>im_workQueue := q'\<rparr>\<rparr>)"
    unfolding process_step_def
    by (rule disjI2, rule external_step.Background, use assms(2) in \<open>simp add: alive_def\<close>, rule impl_step.Lanes) (use step(2) in simp)
  with step(3) show ?case by simp
qed simp

text \<open>A key an event handler enqueues reaches an idle worker.\<close>

lemma key_dispatched:
  assumes "alive s" "im_workQueue (pr_impl s) = idle_queue P" "k \<notin> P" "w < threads" "pr_workers s w = None" "lister_ok lister"
    and "\<And>i i'. prepare i = Inr i' \<Longrightarrow> ing_nn (io_Ingress i') = ing_nn (io_Ingress i)"
  shows "(process_step threads)\<^sup>*\<^sup>* s (s\<lparr>pr_impl := (pr_impl s)\<lparr>im_workQueue := idle_queue (insert k P)\<rparr>,
    pr_workers := (pr_workers s)(w \<mapsto> (k, dispatch isLeader prepare lister (safeKey k)))\<rparr>)"
proof -
  obtain q where q: "tl_step\<^sup>*\<^sup>* (tl_Add Fast k (idle_queue P)) q" "tl_take q = Some (k, idle_queue (insert k P))"
    using key_delivered [OF assms(3)] by blast
  let ?s1 = "s\<lparr>pr_impl := Enqueue Fast k (pr_impl s)\<rparr>" and ?s2 = "s\<lparr>pr_impl := (pr_impl s)\<lparr>im_workQueue := q\<rparr>\<rparr>"
  have "process_step threads s ?s1" using external_step.Event [OF assms(1)] by (simp add: process_step_def)
  moreover have "(process_step threads)\<^sup>*\<^sup>* ?s1 ?s2"
    using lanes_move [of ?s1 q threads] q(1) assms(1,2) by (simp add: alive_def Enqueue_def)
  moreover have "internal_step threads ?s2 (?s2\<lparr>pr_impl := (pr_impl ?s2)\<lparr>im_workQueue := idle_queue (insert k P)\<rparr>,
      pr_workers := (pr_workers ?s2)(w \<mapsto> (k, dispatch isLeader prepare lister (safeKey k)))\<rparr>)"
    by (rule internal_step.Pick) (use assms q(2) in \<open>simp_all add: alive_def\<close>)
  ultimately show ?thesis
    using process_step_def by (simp add: converse_rtranclp_into_rtranclp rtranclp.rtrancl_into_rtrancl)
qed

lemma ex_rec0_ok: "state_ok ex_rec0"
  using ex_reachable(1) by (auto simp: state_ok_def ex_rec0_def)

definition ex_key :: NamespacedName where
  "ex_key = \<lparr>nn_Namespace = ''default'', nn_Name = ''hello''\<rparr>"

theorem process_finishes_witness:
  "\<exists>s. (process_step 2)\<^sup>*\<^sup>* (started 0 ex_rec0) s \<and> ex_key \<in> im_pending (pr_impl s) \<and>
    (\<forall>s'. \<not> (internal_step 2 ^^ 16) s s') \<and> (\<exists>s'. (internal_step 2)\<^sup>*\<^sup>* s s' \<and> (\<nexists>s''. internal_step 2 s' s''))"
proof -
  let ?start = "started 0 ex_rec0"
  let ?s = "?start\<lparr>pr_impl := Enqueue Fast ex_key (pr_impl ?start)\<rparr>"
  have "process_step 2 ?start ?s"
    unfolding process_step_def by (rule disjI2, rule external_step.Event) (simp add: alive_def started_def)
  then have reach: "(process_step 2)\<^sup>*\<^sup>* ?start ?s" by (rule r_into_rtranclp [of "process_step 2"])
  note defs = started_def new_impl_def Enqueue_def newTwoLaneWorkQueue_def newQueue_def tl_Add.simps wq_Add_def Let_def
  have "running (im_workQueue (pr_impl ?s))" "ex_key \<in> im_pending (pr_impl ?s)" by (simp_all add: defs running_def tl_pending_def)
  moreover have "process_work 2 ?s = 15"
    by (simp add: defs process_work_def im_work_def entries_work_def tl_work_def lane_work_def worker_work_def)
  moreover note fin = process_finishes [OF ex_rec0_ok reach calculation(1)]
  have "\<not> (internal_step 2 ^^ 16) ?s s'" for s' using fin calculation(3) by force
  moreover have "\<exists>s'. (internal_step 2)\<^sup>*\<^sup>* ?s s' \<and> (\<nexists>s''. internal_step 2 s' s'')" using fin by simp
  ultimately show ?thesis using reach by (intro exI [of _ ?s]) simp
qed

section \<open>Two workers and one snapshot\<close>

lemma work_possible:
  assumes "alive s" "pr_workers s w = Some (k, j, pc)" "\<And>r. pc \<noteq> Returned r" "env_ok env" "0 \<le> now"
    and "worker_step env ctx now (j, pc) (pr_state s) = (jp, st)" "rs_resyncs st = rs_resyncs (pr_state s)"
  shows "internal_step threads s (s\<lparr>pr_state := st, pr_workers := (pr_workers s)(w \<mapsto> (k, jp))\<rparr>)"
  using internal_step.Work [OF assms(1-6), of "[]"] assms(7) by (simp add: resynced_def)

text \<open>
  C15: A stale snapshot can win. \<^verbatim>\<open>updateEnvoyConfig\<close> builds the snapshot under the mutex of the caches and hands
  it over after the mutex is free again. When one worker has built a snapshot and another one then
  stores its ingress, builds and hands over a newer snapshot, the first worker still hands over its
  own: both updates succeed, the caches hold the new ingress, and the gateways get the snapshot from before it. The
  controller runs two workers.
\<close>

theorem stale_snapshot_wins:
  assumes "alive s" "w \<noteq> w'" "pr_workers s w = Some (k, j, ToPush old)" "pr_workers s w' = Some (k', j', ToStore ti)"
    and "env_ok env" "0 \<le> now" "\<And>snap. re_watchError env snap = None"
    and "UpdateIngress now (rs_caches (pr_state s)) ti = (Inr u, c)"
    and "ToEnvoySnapshot (re_snap env) (re_orders env) ctx now (re_version env) (ts_heap (rs_tr (pr_state s))) c = (Inr new, h)"
  shows "\<exists>s1 s2. (internal_step threads)\<^sup>*\<^sup>* s s1 \<and> map_of (rs_snapshots (pr_state s1)) nodeID = Some new \<and>
    pr_workers s1 w' = Some (k', j', ToSettle (Inr ())) \<and> internal_step threads s1 s2 \<and>
    pr_workers s2 w = Some (k, j, ToSettle (Inr ())) \<and> pr_workers s2 w' = Some (k', j', ToSettle (Inr ())) \<and>
    rs_caches (pr_state s2) = c \<and> map_of (rs_snapshots (pr_state s2)) nodeID = Some old"
proof -
  let ?st1 = "(pr_state s)\<lparr>rs_caches := c\<rparr>"
  let ?st2 = "?st1\<lparr>rs_tr := (rs_tr ?st1)\<lparr>ts_heap := h\<rparr>\<rparr>"
  let ?st3 = "?st2\<lparr>rs_snapshots := AList.update nodeID new (rs_snapshots ?st2)\<rparr>"
  let ?st4 = "?st3\<lparr>rs_snapshots := AList.update nodeID old (rs_snapshots ?st3)\<rparr>"
  let ?at = "\<lambda>st pc. s\<lparr>pr_state := st, pr_workers := (pr_workers s)(w' \<mapsto> (k', j', pc))\<rparr>"
  let ?s1 = "?at ?st3 (ToSettle (Inr ()))"
  have al: "alive (?at st pc)" if "\<And>p. pc \<noteq> Returned (Inl (Panic p))" for st pc using assms(1) that by (auto simp: alive_def)
  have own: "internal_step threads (?at st pc) (?at st' pc')"
    if "\<And>r. pc \<noteq> Returned r" "worker_step env ctx now (j', pc) st = ((j', pc'), st')" "rs_resyncs st' = rs_resyncs st" for st st' pc pc'
    using work_possible [where s = "?at st pc" and w = w' and k = k' and j = j' and pc = pc and jp = "(j', pc')" and st = st', OF al] assms(5,6) that by simp
  have "internal_step threads s (?at ?st1 ToBuild)"
    using work_possible [where jp = "(j', ToBuild)" and st = ?st1, OF assms(1,4) _ assms(5,6)] assms(8) by simp
  moreover have "internal_step threads (?at ?st1 ToBuild) (?at ?st2 (ToPush new))" by (rule own) (use assms(9) in simp_all)
  moreover have "internal_step threads (?at ?st2 (ToPush new)) (?at ?st3 (ToSettle (Inr ())))"
    by (rule own) (use assms(7) in \<open>simp_all add: SetSnapshot_def\<close>)
  moreover have "internal_step threads ?s1 (?s1\<lparr>pr_state := ?st4, pr_workers := (pr_workers ?s1)(w \<mapsto> (k, j, ToSettle (Inr ())))\<rparr>)"
    by (rule work_possible [where j = j and pc = "ToPush old", OF al _ _ assms(5,6)]) (use assms(2,3,7) in \<open>simp_all add: SetSnapshot_def\<close>)
  ultimately show ?thesis
    using assms(2)
    by (intro exI [of _ ?s1] exI [of _ "?s1\<lparr>pr_state := ?st4, pr_workers := (pr_workers ?s1)(w \<mapsto> (k, j, ToSettle (Inr ())))\<rparr>"] conjI)
      (simp_all add: AList.update_conv' converse_rtranclp_into_rtranclp)
qed

definition ex_gone :: NamespacedName where
  "ex_gone = \<lparr>nn_Namespace = ''default'', nn_Name = ''b''\<rparr>"

definition ex_old :: Snapshot where
  "ex_old = NewSnapshot ''v1''
     (cc_list (so_clusters ex_orders) 0 (ca_clusters ex_caches) @ tracing_clusters (cfg_Kourier (FromContextOrDefaults None)))
     (plain_routes (region_table (tls_vhosts ex_orders ex_caches)) (region_table (local_vhosts ex_orders ex_caches)))
     (plain_listeners (re_snap ex_renv) (cfg_Kourier (FromContextOrDefaults None)) (\<lambda>_. ex_nodes) (\<lambda>_. ex_blocks))"

lemma ex_old: "ToEnvoySnapshot (re_snap ex_renv) (re_orders ex_renv) None 0 (re_version ex_renv) h ex_caches = (Inr ex_old, h)"
proof -
  have "no_tls ex_caches" "re_version ex_renv = ''v1''" by (simp_all add: no_tls_def ex_caches_def NewCaches_def Let_def ex_renv_def)
  then show ?thesis
    unfolding ex_old_def using snapshot_plain [OF ex_rplain(1) ex_orders_ok(1) _ ex_rplain(2)] by (simp add: ex_renv_ok(7))
qed

lemma ex_old_routes: "\<exists>rc. map_of (sn_routes ex_old) (internalRouteConfigName ! 1) = Some rc \<and> rc_VirtualHosts rc = [Some (ca_statusVirtualHost ex_caches)]"
proof -
  have "ca_translatedIngresses ex_caches = []" by (simp add: ex_caches_def NewCaches_def Let_def)
  then have "local_vhosts ex_orders ex_caches 1 = [Some (ca_statusVirtualHost ex_caches)]"
    by (simp add: local_vhosts_def region_vhosts_def ex_orders_def)
  moreover have "map_of (sn_routes ex_old) (internalRouteConfigName ! 1) = Some (route_cfg_int (region_table (local_vhosts ex_orders ex_caches)) 1)"
    unfolding ex_old_def NewSnapshot_def by (simp add: plain_routes_lookup del: One_nat_def)
  ultimately show ?thesis by (simp add: route_cfg_int_def NewRouteConfig_def region_table_def)
qed

lemma ex_gone_deleted: "DeleteIngressInfo 0 ex_caches ''b'' ''default'' = Inr ex_caches"
  by code_simp

definition ex_a :: NamespacedName where
  "ex_a = ing_nn (io_Ingress (ex_ready ''a''))"

lemma ex_dispatched:
  "dispatch False (\<lambda>i. Inr i) (\<lambda>_ _. Inl (ErrNotFound ''b'')) (safeKey ex_gone) = (DeletionJob ex_gone, ToDelete)"
  "dispatch False (\<lambda>i. Inr i) (\<lambda>_ _. Inr (ex_ready ''a'')) (safeKey ex_a) = (ObserveJob (ex_ready ''a''), ToTranslate)"
  by (code_simp, code_simp)

lemma ex_translated:
  assumes "rs_tr s = ex_state"
  shows "\<exists>j s'. worker_step ex_renv None 0 (ObserveJob (ex_ready ''a''), ToTranslate) s = ((j, ToStore ex_pti), s') \<and>
    rs_caches s' = rs_caches s \<and> rs_resyncs s' = rs_resyncs s"
proof -
  have "SetDefaults (io_Ingress (ex_ready ''a'')) = Inr (io_Ingress (ex_ready ''a''))"
    "InsertProbe ex_hash (io_Ingress (ex_ready ''a'')) = (Inr ''hash-of-a'', ex_primed ''a'')" by code_simp+
  then show ?thesis using assms ex_pti by (simp add: translate_step_def ex_renv_ok)
qed

definition two_workers :: "'a option \<Rightarrow> 'a option \<Rightarrow> nat \<Rightarrow> 'a option" where
  "two_workers x y w = (if w = 0 then x else if w = 1 then y else None)"

lemma two_workers:
  "(two_workers x y)(0 := z) = two_workers z y" "(two_workers x y)(Suc 0 := z) = two_workers x z"
  "two_workers x y 0 = x" "two_workers x y (Suc 0) = y"
  by (auto simp: two_workers_def)

definition two_at :: "NamespacedName set \<Rightarrow> rec_state \<Rightarrow> (NamespacedName \<times> job \<times> pc) option \<Rightarrow> (NamespacedName \<times> job \<times> pc) option \<Rightarrow> process" where
  "two_at P st x y = \<lparr>pr_impl = (new_impl 0)\<lparr>im_workQueue := idle_queue P\<rparr>, pr_state = st, pr_workers = two_workers x y\<rparr>"

lemma two_started: "started 0 st = two_at {} st None None"
  by (auto simp: started_def two_at_def new_impl_def idle_queue_def newQueue_def newTwoLaneWorkQueue_def two_workers_def)

lemma two_alive:
  assumes "\<And>k j r. x \<noteq> Some (k, j, Returned r)" "\<And>k j r. y \<noteq> Some (k, j, Returned r)"
  shows "alive (two_at P st x y)"
  using assms by (auto simp: alive_def two_at_def two_workers_def split: if_split_asm)

lemma two_pick:
  assumes "alive (two_at P st x y)" "k \<notin> P" "lister_ok lister" "jp = dispatch False (\<lambda>i. Inr i) lister (safeKey k)"
  shows "x = None \<Longrightarrow> (process_step 2)\<^sup>*\<^sup>* (two_at P st x y) (two_at (insert k P) st (Some (k, jp)) y)"
    "y = None \<Longrightarrow> (process_step 2)\<^sup>*\<^sup>* (two_at P st x y) (two_at (insert k P) st x (Some (k, jp)))"
  using key_dispatched [OF assms(1) _ assms(2) _ _ assms(3), of 0 2 "\<lambda>i. Inr i" False]
    key_dispatched [OF assms(1) _ assms(2) _ _ assms(3), of 1 2 "\<lambda>i. Inr i" False]
  by (simp_all add: two_at_def two_workers assms(4))

lemma two_work:
  assumes "alive (two_at P st x y)" "\<And>r. pc \<noteq> Returned r" "worker_step ex_renv None 0 (j, pc) st = (jp, st')" "rs_resyncs st' = rs_resyncs st"
  shows "x = Some (k, j, pc) \<Longrightarrow> process_step 2 (two_at P st x y) (two_at P st' (Some (k, jp)) y)"
    "y = Some (k, j, pc) \<Longrightarrow> process_step 2 (two_at P st x y) (two_at P st' x (Some (k, jp)))"
  using work_possible [OF assms(1) _ assms(2) ex_renv_ok(1) order_refl, of 0 k j None jp st' 2]
    work_possible [OF assms(1) _ assms(2) ex_renv_ok(1) order_refl, of 1 k j None jp st' 2] assms(3,4)
  by (simp_all add: process_step_def two_at_def two_workers)

text \<open>Two workers of the running process, one between building and handing over, the other before its update.\<close>

lemma ex_race:
  "\<exists>s j. (process_step 2)\<^sup>*\<^sup>* (started 0 ex_rec0) s \<and> alive s \<and> pr_workers s 0 = Some (ex_gone, DeletionJob ex_gone, ToPush ex_old) \<and>
     pr_workers s 1 = Some (ex_a, j, ToStore ex_pti) \<and> rs_caches (pr_state s) = ex_caches"
proof -
  let ?W = "\<lambda>pc. Some (ex_gone, DeletionJob ex_gone, pc)" and ?V = "\<lambda>j pc. Some (ex_a, j, pc)" and ?o = "ObserveJob (ex_ready ''a'')"
  let ?st = "ex_rec0\<lparr>rs_cancelled := [ex_gone]\<rparr>"
  have ne: "ex_a \<noteq> ex_gone" by code_simp
  have "(process_step 2)\<^sup>*\<^sup>* (started 0 ex_rec0) (two_at {ex_gone} ex_rec0 (?W ToDelete) None)"
    unfolding two_started by (rule two_pick(1) [where lister = "\<lambda>_ _. Inl (ErrNotFound ''b'')", OF two_alive]) (simp_all add: ex_dispatched lister_ok_def)
  moreover have "process_step 2 (two_at {ex_gone} ex_rec0 (?W ToDelete) None) (two_at {ex_gone} ?st (?W ToBuild) None)"
    by (rule two_work(1) [OF two_alive _ _ _ refl])
      (use ex_gone_deleted in \<open>simp_all add: ex_rec0_def ex_gone_def Let_def\<close>)
  moreover have "process_step 2 (two_at {ex_gone} ?st (?W ToBuild) None) (two_at {ex_gone} ?st (?W (ToPush ex_old)) None)"
    by (rule two_work(1) [OF two_alive _ _ _ refl]) (simp_all add: ex_old ex_rec0_def)
  moreover have "(process_step 2)\<^sup>*\<^sup>* (two_at {ex_gone} ?st (?W (ToPush ex_old)) None) (two_at {ex_a, ex_gone} ?st (?W (ToPush ex_old)) (?V ?o ToTranslate))"
    by (rule two_pick(2) [where lister = "\<lambda>_ _. Inr (ex_ready ''a'')", OF two_alive])
      (use ne in \<open>simp_all add: ex_dispatched lister_ok_def ex_ready_name\<close>)
  moreover obtain j st where w: "worker_step ex_renv None 0 (?o, ToTranslate) ?st = ((j, ToStore ex_pti), st)"
    "rs_caches st = ex_caches" "rs_resyncs st = rs_resyncs ?st"
    using ex_translated [of ?st] by (auto simp: ex_rec0_def)
  moreover have "process_step 2 (two_at {ex_a, ex_gone} ?st (?W (ToPush ex_old)) (?V ?o ToTranslate))
      (two_at {ex_a, ex_gone} st (?W (ToPush ex_old)) (?V j (ToStore ex_pti)))"
    by (rule two_work(2) [OF two_alive _ w(1) w(3) refl]) simp_all
  ultimately have "(process_step 2)\<^sup>*\<^sup>* (started 0 ex_rec0) (two_at {ex_a, ex_gone} st (?W (ToPush ex_old)) (?V j (ToStore ex_pti)))"
    by (meson rtranclp.rtrancl_into_rtrancl rtranclp_trans)
  moreover have "alive (two_at {ex_a, ex_gone} st (?W (ToPush ex_old)) (?V j (ToStore ex_pti)))" by (rule two_alive) simp_all
  ultimately show ?thesis
    using w(2) by (intro exI [of _ "two_at {ex_a, ex_gone} st (?W (ToPush ex_old)) (?V j (ToStore ex_pti))"] exI [of _ j]) (simp add: two_at_def two_workers)
qed

theorem stale_snapshot_wins_witness:
  "\<exists>s snap rc k k' j j'. (process_step 2)\<^sup>*\<^sup>* (started 0 ex_rec0) s \<and>
    pr_workers s 0 = Some (k, j, ToSettle (Inr ())) \<and> pr_workers s 1 = Some (k', j', ToSettle (Inr ())) \<and>
    map_of (ca_translatedIngresses (rs_caches (pr_state s))) ex_a = Some ex_pti \<and>
    map_of (rs_snapshots (pr_state s)) nodeID = Some snap \<and> map_of (sn_routes snap) (internalRouteConfigName ! 1) = Some rc \<and>
    rc_VirtualHosts rc = [Some (ca_statusVirtualHost (rs_caches (pr_state s)))]"
proof -
  obtain s j where s: "(process_step 2)\<^sup>*\<^sup>* (started 0 ex_rec0) s" "alive s" "pr_workers s 0 = Some (ex_gone, DeletionJob ex_gone, ToPush ex_old)"
    "pr_workers s 1 = Some (ex_a, j, ToStore ex_pti)" "rs_caches (pr_state s) = ex_caches" using ex_race by blast
  have c: "fst (UpdateIngress 0 ex_caches ex_pti) = Inr ()" "no_tls (snd (UpdateIngress 0 ex_caches ex_pti))"
    "map_of (ca_translatedIngresses (snd (UpdateIngress 0 ex_caches ex_pti))) ex_a = Some ex_pti"
    "ca_statusVirtualHost (snd (UpdateIngress 0 ex_caches ex_pti)) = ca_statusVirtualHost ex_caches" by code_simp+
  then have u: "UpdateIngress 0 (rs_caches (pr_state s)) ex_pti = (Inr (), snd (UpdateIngress 0 ex_caches ex_pti))" using s(5) by (simp add: prod_eq_iff)
  obtain new h where new: "ToEnvoySnapshot (re_snap ex_renv) (re_orders ex_renv) None 0 (re_version ex_renv) (ts_heap (rs_tr (pr_state s)))
      (snd (UpdateIngress 0 ex_caches ex_pti)) = (Inr new, h)"
    using snapshot_plain [OF ex_rplain(1) _ c(2) ex_rplain(2)] by (auto simp: ex_renv_ok(7) ex_orders_ok)
  obtain s1 s2 where r: "(internal_step 2)\<^sup>*\<^sup>* s s1" "internal_step 2 s1 s2" "pr_workers s2 0 = Some (ex_gone, DeletionJob ex_gone, ToSettle (Inr ()))"
    "pr_workers s2 1 = Some (ex_a, j, ToSettle (Inr ()))" "rs_caches (pr_state s2) = snd (UpdateIngress 0 ex_caches ex_pti)"
    "map_of (rs_snapshots (pr_state s2)) nodeID = Some ex_old"
    using stale_snapshot_wins [OF s(2) zero_neq_one s(3,4) ex_renv_ok(1) order_refl ex_renv_ok(6) u new, of 2] by blast
  have "(process_step 2)\<^sup>*\<^sup>* s s1" using r(1) by (rule rtranclp_mono [THEN predicate2D, rotated]) (auto simp: process_step_def)
  then have "(process_step 2)\<^sup>*\<^sup>* (started 0 ex_rec0) s2" using s(1) r(2) by (meson process_step_def rtranclp.rtrancl_into_rtrancl rtranclp_trans)
  then show ?thesis using r(3-6) c(3,4) ex_old_routes by (metis (no_types, lifting))
qed

end
