(* ===== verification/Lister.thy ===== *)
theory Lister
  imports Reconciler_Laws
begin

text \<open>
  The probe targets of \<^verbatim>\<open>pkg/reconciler/ingress/lister.go\<close>: for every rule of an ingress the URLs and
  the port of the gateway pods at which the status prober checks that the rule is served.
\<close>

record URL =
  url_Scheme :: string
  url_Host :: string
  url_Path :: string

record ProbeTarget =
  pt_PodIPs :: "string set"
  pt_PodPort :: string
  pt_URLs :: "URL list"

text \<open>\<^verbatim>\<open>strconv.Itoa\<close> of a port.\<close>

definition port_str :: "32 word \<Rightarrow> string" where
  "port_str port = nat_str (unat port)"

definition domainsToURL :: "string list \<Rightarrow> string \<Rightarrow> URL list" where
  "domainsToURL domains scheme =
     map (\<lambda>domain. \<lparr>url_Scheme = scheme, url_Host = domain, url_Path = ''/''\<rparr>) domains"

definition rule_target :: "Ingress \<Rightarrow> string set \<Rightarrow> IngressRule \<Rightarrow> ProbeTarget" where
  "rule_target ing ips rule =
     (let domains = ir_Hosts rule; scheme = ''http'' in
      if ir_Visibility rule = ExternalIP then
        (if length (ing_TLS ing) \<noteq> 0
         then \<lparr>pt_PodIPs = ips, pt_PodPort = port_str HTTPSPortProb, pt_URLs = domainsToURL domains ''https''\<rparr>
         else \<lparr>pt_PodIPs = ips, pt_PodPort = port_str HTTPPortProb, pt_URLs = domainsToURL domains scheme\<rparr>)
      else \<lparr>pt_PodIPs = ips, pt_PodPort = port_str HTTPPortInternal, pt_URLs = domainsToURL domains scheme\<rparr>)"

definition getIngressUrls :: "Ingress \<Rightarrow> string list \<Rightarrow> ProbeTarget list res" where
  "getIngressUrls ing gatewayIps =
     (let ips = set gatewayIps in Inr (foldl (\<lambda>targets rule. targets @ [rule_target ing ips rule]) [] (ing_Rules ing)))"

text \<open>The endpoints of the internal service give the pods; \<open>lister\<close> is the endpoints lister.\<close>

definition ListProbeTargets ::
  "environ \<Rightarrow> (string \<Rightarrow> string \<Rightarrow> go_error + Endpoints) \<Rightarrow> Ingress \<Rightarrow> ProbeTarget list res" where
  "ListProbeTargets env lister ing =
     bindr (GatewayNamespace env) (\<lambda>ns.
       case lister ns InternalServiceName of
         Inl e \<Rightarrow> Inl (Err (ErrWrap ''failed to get internal service'' e))
       | Inr eps \<Rightarrow>
           (let readyIPs = concat (map (\<lambda>sub. map ea_IP (es_Addresses sub)) (ep_Subsets eps)) in
            if length readyIPs = 0 then Inl (Err (ErrNew ''no gateway pods available''))
            else getIngressUrls ing readyIPs))"

section \<open>Targets and routes\<close>

lemma getIngressUrls_eq: "getIngressUrls ing ips = Inr (map (rule_target ing (set ips)) (ing_Rules ing))"
proof -
  have "foldl (\<lambda>targets rule. targets @ [rule_target ing (set ips) rule]) acc rules =
      acc @ map (rule_target ing (set ips)) rules" for acc rules
    by (induction rules arbitrary: acc) auto
  then show ?thesis by (simp add: getIngressUrls_def Let_def)
qed

lemma ListProbeTargets_Inr:
  "ListProbeTargets env lister ing = Inr targets \<longleftrightarrow>
     (\<exists>ns eps. GatewayNamespace env = Inr ns \<and> lister ns InternalServiceName = Inr eps \<and>
        all_addresses eps \<noteq> [] \<and> targets = map (rule_target ing (ea_IP ` set (all_addresses eps))) (ing_Rules ing))"
proof -
  have "concat (map (\<lambda>sub. map ea_IP (es_Addresses sub)) ss) = map ea_IP (concat (map es_Addresses ss))" for ss :: "EndpointSubset list"
    by (induction ss) simp_all
  then have ips: "concat (map (\<lambda>sub. map ea_IP (es_Addresses sub)) (ep_Subsets eps)) = map ea_IP (all_addresses eps)" for eps
    by (simp add: all_addresses_def)
  show ?thesis
  proof (cases "GatewayNamespace env")
    case (Inr ns)
    then show ?thesis
      by (cases "lister ns InternalServiceName") (auto simp: ListProbeTargets_def getIngressUrls_eq ips Let_def)
  qed (simp add: ListProbeTargets_def)
qed

text \<open>
  C36: An external rule can never be probed successfully. Without TLS and HTTPS listeners, and when the cluster answers and everything can be
  marshalled, its target is the probe port of
  the gateway pods; in the snapshot of the caches, every filter chain of the listener on that
  port runs a route configuration without virtual hosts, whatever ingresses are stored, so no
  probe finds the header of an ingress.
\<close>

theorem external_probe_unrouted:
  assumes "ListProbeTargets (w_env (se_world env)) lister ing = Inr targets"
    and "n < length (ing_Rules ing)" "ir_Visibility (ing_Rules ing ! n) = ExternalIP" "ing_TLS ing = []"
    and "plain_env env (cfg_Kourier (FromContextOrDefaults ctx)) nodes blocks"
    and "range_order (so_ingresses ords)" "range_order (so_snis ords)" "no_tls c"
    and "\<not> useHTTPSListenerWithOneCert (w_env (se_world env))" "j < length regions"
    and "\<And>k ti. (k, ti) \<in> set (ca_translatedIngresses c) \<Longrightarrow>
      \<exists>t ctx ing ext s s'. translateIngress (se_world env) t ctx ing ext s = (Inr (Some ti), s')"
  shows "pt_PodPort (targets ! n) = port_str HTTPPortProb \<and>
    pt_URLs (targets ! n) = domainsToURL (ir_Hosts (ing_Rules ing ! n)) ''http'' \<and>
    (\<exists>snap l m. ToEnvoySnapshot env ords ctx now version h c = (Inr snap, h) \<and>
       map_of (sn_listeners snap) (CreateListenerName HTTPPortProb) = Some l \<and>
       fc_Filters (ls_FilterChains l ! j) = hcm_filters m \<and>
       map_option rc_VirtualHosts (map_of (sn_routes snap) (rds_RouteConfigName (hcm_Rds m))) = Some [])"
proof -
  have "targets ! n = rule_target ing (pt_PodIPs (targets ! n)) (ing_Rules ing ! n)"
    using assms(1,2) by (auto simp: ListProbeTargets_Inr rule_target_def Let_def)
  then have target: "pt_PodPort (targets ! n) = port_str HTTPPortProb"
    "pt_URLs (targets ! n) = domainsToURL (ir_Hosts (ing_Rules ing ! n)) ''http''"
    using assms(3,4) by (simp_all add: rule_target_def Let_def) (metis ProbeTarget.select_convs(2,3))+
  obtain snap where snap: "ToEnvoySnapshot env ords ctx now version h c = (Inr snap, h)"
    and ls: "sn_listeners snap = index_by_name ls_Name (plain_listeners env (cfg_Kourier (FromContextOrDefaults ctx)) nodes blocks)"
    unfolding snapshot_plain [OF assms(5,6,8,9)] by (auto simp: NewSnapshot_def)
  obtain l m where lm: "map_of (sn_listeners snap) (CreateListenerName HTTPPortProb) = Some l"
    "fc_Filters (ls_FilterChains l ! j) = hcm_filters m" "rds_RouteConfigName (hcm_Rds m) = externalRouteConfigName ! j"
    using plain_listeners_lookup [of HTTPPortProb externalRouteConfigName j] assms(10)
    unfolding ls port_routes_def by fastforce
  have "map_option rc_VirtualHosts (map_of (sn_routes snap) (externalRouteConfigName ! j)) = Some []"
    using external_unrouted [OF snap assms(6,7,10)] assms(11) by blast
  then show ?thesis using target snap lm by auto
qed

section \<open>Witness\<close>

definition ex_gateway_lister :: "string \<Rightarrow> string \<Rightarrow> go_error + Endpoints" where
  "ex_gateway_lister ns n = (if n = InternalServiceName then Inr ex_endpoints else Inl (ErrNotFound n))"

definition ex_targets :: "ProbeTarget list" where
  "ex_targets = map (rule_target (ex_ingress ''hello'') {''10.0.0.1'', ''10.0.0.2''}) (ing_Rules (ex_ingress ''hello''))"

lemma ex_targets: "ListProbeTargets (w_env (se_world (re_snap ex_renv))) ex_gateway_lister (ex_ingress ''hello'') = Inr ex_targets"
  by (simp add: ListProbeTargets_Inr ex_renv_ok ex_rworld_def GatewayNamespace_def os_Getenv_def ex_gateway_lister_def
      ex_targets_def all_addresses_def ex_endpoints_def Let_def)

theorem external_probe_unrouted_witness:
  "pt_PodPort (ex_targets ! 0) = port_str HTTPPortProb \<and>
   (\<exists>snap l m. ToEnvoySnapshot (re_snap ex_renv) ex_orders None 5 ''v1'' [] ex_rcaches = (Inr snap, []) \<and>
      map_of (sn_listeners snap) (CreateListenerName HTTPPortProb) = Some l \<and>
      fc_Filters (ls_FilterChains l ! 1) = hcm_filters m \<and>
      map_option rc_VirtualHosts (map_of (sn_routes snap) (rds_RouteConfigName (hcm_Rds m))) = Some [])"
proof -
  have stored: "ca_translatedIngresses ex_rcaches = [(ti_name ex_rti, ex_rti)]" by code_simp
  have "\<exists>t ctx ing ext s s'. translateIngress (se_world (re_snap ex_renv)) t ctx ing ext s = (Inr (Some ti), s')"
    if "(k, ti) \<in> set (ca_translatedIngresses ex_rcaches)" for k ti
    using that ex_rti by (simp add: stored ex_renv_ok) blast
  then show ?thesis
    using external_probe_unrouted [OF ex_targets _ _ _ ex_rplain(1) ex_orders_ok(1,2) ex_rplain(3,2), of 0 1]
    by (simp add: ex_ingress_def ex_rule_def del: One_nat_def)
qed

end
