(* ===== verification/Prober.thy ===== *)
theory Prober
  imports Lister Wiring
begin

text \<open>
  The status prober of \<^verbatim>\<open>knative.dev/networking/pkg/status\<close> that the reconciler asks whether an ingress is
  ready, over the targets of the lister. Worker goroutines probe the URLs of an ingress at every
  gateway pod, and one goroutine per pod waits for the cancellation of its probing; they share counters that
  they change with atomic operations. Every atomic operation is a step of its own, so that the
  steps cover every interleaving. The counters are 32 bits wide; a bound below shows that they do
  not wrap around.
\<close>

section \<open>Responses\<close>

text \<open>The status code and the value of the header \<^verbatim>\<open>K-Network-Hash\<close>, empty when there is none.\<close>

datatype http_response = Response (resp_StatusCode: int) (resp_Hash: string)

definition probeVerifier :: "string \<Rightarrow> http_response \<Rightarrow> go_error + bool" where
  "probeVerifier hash r =
     (if resp_StatusCode r = 200 then
        (if resp_Hash r = [] then Inr True
         else if resp_Hash r = hash then Inr True
         else Inl (ErrNew ''unexpected hash''))
      else if resp_StatusCode r = 404 \<or> resp_StatusCode r = 503 then Inl (ErrNew ''unexpected status code'')
      else Inr True)"

text \<open>\<^verbatim>\<open>prober.Do\<close> with the verifier as its only check.\<close>

definition prober_Do :: "string \<Rightarrow> go_error + http_response \<Rightarrow> go_error + bool" where
  "prober_Do hash outcome =
     (case outcome of
        Inl e \<Rightarrow> Inl (ErrWrap ''error roundtripping'' e)
      | Inr r \<Rightarrow> (case probeVerifier hash r of Inl e \<Rightarrow> Inl e | Inr ok \<Rightarrow> if \<not> ok then Inr False else Inr True))"

section \<open>The state of the probing of an ingress\<close>

text \<open>
  Where a work item is: in the queue; before \<^verbatim>\<open>onProbingSuccess\<close>; in it before the pod's context is
  cancelled, before the counter of the ingress is decremented, before the callback; done; or dropped
  because its context was cancelled.
\<close>

datatype worker = Queued | Succeeded | AtCancel | AtDec | AtCallback | Passed | Dropped

text \<open>
  Where the goroutine of a pod is in \<^verbatim>\<open>onProbingCancellation\<close>: waiting for the context; before the load, after it
  with the value loaded; before the decrement; before the callback; returned.
\<close>

datatype canceller = Waiting | Loading | Loaded int | CancelDec | CancelCallback | Returned

text \<open>\<open>wi_response\<close> records the response that made the probe succeed.\<close>

record workItem =
  wi_url :: URL
  wi_podIP :: string
  wi_podPort :: string
  wi_response :: "http_response option"

text \<open>\<open>po_cancelled\<close> records that the context was cancelled by somebody other than the last worker of the pod.\<close>

record podState =
  po_ipContext :: nat
  po_pendingCount :: int
  po_done :: bool
  po_cancelled :: bool
  po_items :: "(workItem \<times> worker) list"
  po_canceller :: canceller

text \<open>\<open>ig_calls\<close> records how often the callback was called.\<close>

record ingressState =
  ig_hash :: string
  ig_ing :: Ingress
  ig_pendingCount :: int
  ig_lastAccessed :: int
  ig_pods :: "podState list"
  ig_calls :: nat

definition upd_item :: "podState \<Rightarrow> nat \<Rightarrow> worker \<Rightarrow> podState" where
  "upd_item p k w = p\<lparr>po_items := (po_items p)[k := (fst (po_items p ! k), w)]\<rparr>"

definition upd_pod :: "ingressState \<Rightarrow> nat \<Rightarrow> podState \<Rightarrow> ingressState" where
  "upd_pod g j p = g\<lparr>ig_pods := (ig_pods g)[j := p]\<rparr>"

text \<open>
  A worker with an item of the queue: the probe ends with an outcome; a cancelled item is dropped, a
  failed one goes back to the queue.
\<close>

definition processWorkItem :: "ingressState \<Rightarrow> nat \<Rightarrow> nat \<Rightarrow> go_error + http_response \<Rightarrow> ingressState" where
  "processWorkItem g j k outcome =
     (let p = ig_pods g ! j; (wi, w) = po_items p ! k in
      if w \<noteq> Queued then g
      else if po_done p then upd_pod g j (upd_item p k Dropped)
      else case prober_Do (ig_hash g) outcome of
          Inr True \<Rightarrow> upd_pod g j (p\<lparr>po_items := (po_items p)[k :=
            (wi\<lparr>wi_response := (case outcome of Inl _ \<Rightarrow> None | Inr r \<Rightarrow> Some r)\<rparr>, Succeeded)]\<rparr>)
        | _ \<Rightarrow> g)"

text \<open>The atomic steps of \<^verbatim>\<open>onProbingSuccess\<close>.\<close>

definition onProbingSuccess :: "ingressState \<Rightarrow> nat \<Rightarrow> nat \<Rightarrow> ingressState" where
  "onProbingSuccess g j k =
     (let p = ig_pods g ! j in
      case snd (po_items p ! k) of
        Succeeded \<Rightarrow>
          (let n = po_pendingCount p - 1
           in upd_pod g j ((upd_item p k (if n = 0 then AtCancel else Passed))\<lparr>po_pendingCount := n\<rparr>))
      | AtCancel \<Rightarrow> upd_pod g j ((upd_item p k AtDec)\<lparr>po_done := True\<rparr>)
      | AtDec \<Rightarrow>
          (let n = ig_pendingCount g - 1
           in (upd_pod g j (upd_item p k (if n = 0 then AtCallback else Passed)))\<lparr>ig_pendingCount := n\<rparr>)
      | AtCallback \<Rightarrow> (upd_pod g j (upd_item p k Passed))\<lparr>ig_calls := Suc (ig_calls g)\<rparr>
      | _ \<Rightarrow> g)"

text \<open>The atomic steps of \<^verbatim>\<open>onProbingCancellation\<close>: the loop around the compare-and-swap.\<close>

definition onProbingCancellation :: "ingressState \<Rightarrow> nat \<Rightarrow> ingressState" where
  "onProbingCancellation g j =
     (let p = ig_pods g ! j in
      case po_canceller p of
        Waiting \<Rightarrow> if po_done p then upd_pod g j (p\<lparr>po_canceller := Loading\<rparr>) else g
      | Loading \<Rightarrow>
          (let pendingCount = po_pendingCount p
           in upd_pod g j (p\<lparr>po_canceller := (if pendingCount \<le> 0 then Returned else Loaded pendingCount)\<rparr>))
      | Loaded pendingCount \<Rightarrow>
          if po_pendingCount p = pendingCount
          then upd_pod g j (p\<lparr>po_pendingCount := 0, po_canceller := CancelDec\<rparr>)
          else upd_pod g j (p\<lparr>po_canceller := Loading\<rparr>)
      | CancelDec \<Rightarrow>
          (let n = ig_pendingCount g - 1
           in (upd_pod g j (p\<lparr>po_canceller := (if n = 0 then CancelCallback else Returned)\<rparr>))\<lparr>ig_pendingCount := n\<rparr>)
      | CancelCallback \<Rightarrow> (upd_pod g j (p\<lparr>po_canceller := Returned\<rparr>))\<lparr>ig_calls := Suc (ig_calls g)\<rparr>
      | Returned \<Rightarrow> g)"

definition cancel_pod :: "podState \<Rightarrow> podState" where
  "cancel_pod p = p\<lparr>po_done := True, po_cancelled := po_cancelled p \<or> \<not> po_done p\<rparr>"

text \<open>Cancelling the context of an ingress cancels the contexts of its pods.\<close>

definition cancel_ingress :: "ingressState \<Rightarrow> ingressState" where
  "cancel_ingress g = g\<lparr>ig_pods := map cancel_pod (ig_pods g)\<rparr>"

section \<open>The prober\<close>

record Prober =
  pb_ingressStates :: "(NamespacedName \<times> nat) list"
  pb_podContexts :: "(string \<times> nat) list"
  pb_heap :: "ingressState list"
  pb_contexts :: nat
  pb_doneContexts :: "nat list"

definition NewProber :: Prober where
  "NewProber = \<lparr>pb_ingressStates = [], pb_podContexts = [], pb_heap = [], pb_contexts = 0, pb_doneContexts = []\<rparr>"

text \<open>The work items of all targets, grouped by the address of the pod; \<open>visit\<close> is the order of a set.\<close>

definition add_item :: "(string \<times> workItem list) list \<Rightarrow> workItem \<Rightarrow> (string \<times> workItem list) list" where
  "add_item m wi =
     AList.update (wi_podIP wi) ((case map_of m (wi_podIP wi) of None \<Rightarrow> [] | Some wis \<Rightarrow> wis) @ [wi]) m"

definition work_items :: "(string set \<Rightarrow> string list) \<Rightarrow> ProbeTarget list \<Rightarrow> (string \<times> workItem list) list" where
  "work_items visit targets =
     foldl (\<lambda>m target. foldl (\<lambda>m ip. foldl (\<lambda>m url.
         add_item m \<lparr>wi_url = url, wi_podIP = ip, wi_podPort = pt_PodPort target, wi_response = None\<rparr>)
       m (pt_URLs target)) m (visit (pt_PodIPs target))) [] targets"

text \<open>The context of a pod's address, created when there is none.\<close>

definition ip_context :: "string \<Rightarrow> Prober \<Rightarrow> nat \<times> Prober" where
  "ip_context ip m =
     (case map_of (pb_podContexts m) ip of
        Some c \<Rightarrow> (c, m)
      | None \<Rightarrow> (pb_contexts m, m\<lparr>pb_podContexts := AList.update ip (pb_contexts m) (pb_podContexts m),
                                 pb_contexts := Suc (pb_contexts m)\<rparr>))"

definition start_pod :: "podState list \<times> Prober \<Rightarrow> string \<times> workItem list \<Rightarrow> podState list \<times> Prober" where
  "start_pod acc entry =
     (let (pods, m) = acc; (ip, items) = entry; (c, m) = ip_context ip m in
      (pods @ [\<lparr>po_ipContext = c, po_pendingCount = int (length items), po_done = False, po_cancelled = False,
                po_items = map (\<lambda>wi. (wi, Queued)) items, po_canceller = Waiting\<rparr>], m))"

text \<open>
  \<^verbatim>\<open>IsReady\<close>. It is one step here: the items it queues wait for the initial delay, and every counter is set
  before an item that uses it is queued. \<open>ord\<close> is the order in which the map of work items is visited.
\<close>

definition prober_IsReady ::
  "(Ingress \<Rightarrow> go_error + string) \<Rightarrow> (Ingress \<Rightarrow> ProbeTarget list res) \<Rightarrow> (string set \<Rightarrow> string list) \<Rightarrow>
   ((string \<times> workItem list) list \<Rightarrow> (string \<times> workItem list) list) \<Rightarrow> int \<Rightarrow> Ingress \<Rightarrow> Prober \<Rightarrow> bool res \<times> Prober" where
  "prober_IsReady computeHash targetLister visit ord now ing m =
     (let ingressKey = ing_nn ing in
      case computeHash ing of
        Inl e \<Rightarrow> (Inl (Err (ErrWrap ''failed to compute the hash of the Ingress'' e)), m)
      | Inr hash \<Rightarrow>
          (let (answer, m) =
             (case map_of (pb_ingressStates m) ingressKey of
                None \<Rightarrow> (None, m)
              | Some i \<Rightarrow>
                  (let state = pb_heap m ! i in
                   if ig_hash state = hash
                   then (Some (ig_pendingCount state = 0), m\<lparr>pb_heap := (pb_heap m)[i := state\<lparr>ig_lastAccessed := now\<rparr>]\<rparr>)
                   else (None, m\<lparr>pb_heap := (pb_heap m)[i := cancel_ingress state],
                                 pb_ingressStates := AList.delete ingressKey (pb_ingressStates m)\<rparr>)))
           in case answer of
                Some ready \<Rightarrow> (Inr ready, m)
              | None \<Rightarrow>
                  (case targetLister ing of
                     Inl f \<Rightarrow> (Inl f, m)
                   | Inr targets \<Rightarrow>
                       (let workItems = work_items visit targets;
                            (pods, m) = foldl start_pod ([], m) (ord workItems);
                            state = \<lparr>ig_hash = hash, ig_ing = ing, ig_pendingCount = int (length workItems),
                                     ig_lastAccessed = now, ig_pods = pods, ig_calls = 0\<rparr>
                        in (Inr (length workItems = 0),
                            m\<lparr>pb_ingressStates := AList.update ingressKey (length (pb_heap m)) (pb_ingressStates m),
                              pb_heap := pb_heap m @ [state]\<rparr>)))))"

definition CancelIngressProbingByKey :: "NamespacedName \<Rightarrow> Prober \<Rightarrow> Prober" where
  "CancelIngressProbingByKey nn m =
     (case map_of (pb_ingressStates m) nn of
        None \<Rightarrow> m
      | Some i \<Rightarrow> m\<lparr>pb_heap := (pb_heap m)[i := cancel_ingress (pb_heap m ! i)],
                    pb_ingressStates := AList.delete nn (pb_ingressStates m)\<rparr>)"

definition CancelPodProbing :: "string \<Rightarrow> Prober \<Rightarrow> Prober" where
  "CancelPodProbing podIP m =
     (case map_of (pb_podContexts m) podIP of
        None \<Rightarrow> m
      | Some c \<Rightarrow> m\<lparr>pb_doneContexts := c # pb_doneContexts m, pb_podContexts := AList.delete podIP (pb_podContexts m)\<rparr>)"

text \<open>The goroutine that joins the context of a pod with that of its address.\<close>

definition join_contexts :: "nat list \<Rightarrow> ingressState \<Rightarrow> nat \<Rightarrow> ingressState" where
  "join_contexts finished g j =
     (let p = ig_pods g ! j in
      if \<not> po_done p \<and> po_ipContext p \<in> set finished then upd_pod g j (cancel_pod p) else g)"

section \<open>The steps\<close>

inductive probing_step :: "nat list \<Rightarrow> ingressState \<Rightarrow> ingressState \<Rightarrow> bool" for finished where
  Process: "j < length (ig_pods g) \<Longrightarrow> k < length (po_items (ig_pods g ! j)) \<Longrightarrow>
    probing_step finished g (processWorkItem g j k outcome)"
| Success: "j < length (ig_pods g) \<Longrightarrow> k < length (po_items (ig_pods g ! j)) \<Longrightarrow>
    probing_step finished g (onProbingSuccess g j k)"
| Cancellation: "j < length (ig_pods g) \<Longrightarrow> probing_step finished g (onProbingCancellation g j)"
| Join: "j < length (ig_pods g) \<Longrightarrow> probing_step finished g (join_contexts finished g j)"

inductive prober_step :: "Prober \<Rightarrow> Prober \<Rightarrow> bool" where
  IsReady: "range_order ord \<Longrightarrow> prober_IsReady computeHash targetLister visit ord now ing m = (r, m') \<Longrightarrow> prober_step m m'"
| CancelIngress: "prober_step m (CancelIngressProbingByKey nn m)"
| CancelPod: "prober_step m (CancelPodProbing podIP m)"
| Probing: "i < length (pb_heap m) \<Longrightarrow> probing_step (pb_doneContexts m) (pb_heap m ! i) g \<Longrightarrow>
    prober_step m (m\<lparr>pb_heap := (pb_heap m)[i := g]\<rparr>)"

section \<open>Counting\<close>

definition items_at :: "worker set \<Rightarrow> podState \<Rightarrow> nat" where
  "items_at W p = length (filter (\<lambda>(_, w). w \<in> W) (po_items p))"

text \<open>What a pod still owes the counter of its ingress, and the callbacks that are about to be called for it.\<close>

definition unfinished :: "podState \<Rightarrow> nat" where
  "unfinished p = of_bool (0 < po_pendingCount p) + items_at {AtCancel, AtDec} p + of_bool (po_canceller p = CancelDec)"

definition calling :: "podState \<Rightarrow> nat" where
  "calling p = items_at {AtCallback} p + of_bool (po_canceller p = CancelCallback)"

lemma sum_list_map_update:
  fixes f :: "'a \<Rightarrow> nat"
  assumes "j < length xs"
  shows "sum_list (map f (xs[j := x])) + f (xs ! j) = sum_list (map f xs) + f x"
proof -
  have "map f xs = map f (take j xs) @ f (xs ! j) # map f (drop (Suc j) xs)"
    using id_take_nth_drop [OF assms] by (metis list.simps(9) map_append)
  then show ?thesis using assms by (simp add: upd_conv_take_nth_drop)
qed

lemma length_filter_update:
  assumes "k < length xs"
  shows "length (filter P (xs[k := x])) + of_bool (P (xs ! k)) = length (filter P xs) + of_bool (P x)"
proof -
  have "length (filter P ys) = sum_list (map (\<lambda>y. of_bool (P y)) ys)" for ys by (induction ys) auto
  then show ?thesis using sum_list_map_update [OF assms, of "\<lambda>y. of_bool (P y)"] by simp
qed

lemma items_at_update:
  assumes "k < length (po_items p)" "po_items p' = (po_items p)[k := (wi, w)]"
  shows "items_at W p' + of_bool (snd (po_items p ! k) \<in> W) = items_at W p + of_bool (w \<in> W)"
  using length_filter_update [OF assms(1), of "\<lambda>(_, w). w \<in> W" "(wi, w)"] by (simp add: items_at_def assms(2) split_beta)

lemma items_at_cong: "po_items p' = po_items p \<Longrightarrow> items_at W p' = items_at W p"
  by (simp add: items_at_def)

section \<open>The invariant\<close>

definition accepted :: "string \<Rightarrow> workItem \<Rightarrow> bool" where
  "accepted hash wi \<longleftrightarrow> (\<exists>r. wi_response wi = Some r \<and> probeVerifier hash r = Inr True)"

definition pod_inv :: "string \<Rightarrow> podState \<Rightarrow> bool" where
  "pod_inv hash p \<longleftrightarrow>
     (\<forall>n. po_canceller p = Loaded n \<longrightarrow> 0 < n) \<and>
     (po_canceller p \<in> {CancelDec, CancelCallback, Returned} \<longrightarrow> po_pendingCount p \<le> 0) \<and>
     (po_cancelled p \<longrightarrow> po_done p) \<and>
     (0 < items_at {AtCancel} p \<longrightarrow> po_pendingCount p \<le> 0) \<and>
     - int (items_at {AtCancel, AtDec, AtCallback, Passed} p) \<le> po_pendingCount p \<and>
     po_pendingCount p \<le> int (length (po_items p)) \<and>
     (\<forall>wi w. (wi, w) \<in> set (po_items p) \<longrightarrow> w \<notin> {Queued, Dropped} \<longrightarrow> accepted hash wi) \<and>
     (\<not> po_cancelled p \<longrightarrow> po_pendingCount p = int (items_at {Queued, Succeeded} p) \<and>
        (po_done p \<longrightarrow> po_pendingCount p = 0) \<and> (po_canceller p \<noteq> Waiting \<longrightarrow> po_done p) \<and>
        po_canceller p \<noteq> CancelDec \<and> items_at {Dropped} p = 0)"

definition probing_inv :: "ingressState \<Rightarrow> bool" where
  "probing_inv g \<longleftrightarrow>
     ig_pendingCount g = int (sum_list (map unfinished (ig_pods g))) \<and>
     ig_calls g + sum_list (map calling (ig_pods g)) =
       of_bool (ig_pods g \<noteq> [] \<and> sum_list (map unfinished (ig_pods g)) = 0) \<and>
     (\<forall>p \<in> set (ig_pods g). pod_inv (ig_hash g) p)"

text \<open>
  A step on one pod keeps the invariant when it keeps that of the pod and either changes neither
  what the pod owes nor its calls, or settles a debt, or calls.
\<close>

lemma probing_inv_upd:
  assumes inv: "probing_inv g" and j: "j < length (ig_pods g)" "p = ig_pods g ! j" and p': "pod_inv (ig_hash g) p'"
  shows "unfinished p' = unfinished p \<Longrightarrow> calling p' = calling p \<Longrightarrow> probing_inv (upd_pod g j p')"
    and "n = ig_pendingCount g - 1 \<Longrightarrow> Suc (unfinished p') = unfinished p \<Longrightarrow> calling p' = calling p + of_bool (n = 0) \<Longrightarrow>
      probing_inv ((upd_pod g j p')\<lparr>ig_pendingCount := n\<rparr>)"
    and "unfinished p' = unfinished p \<Longrightarrow> Suc (calling p') = calling p \<Longrightarrow>
      probing_inv ((upd_pod g j p')\<lparr>ig_calls := Suc (ig_calls g)\<rparr>)"
proof -
  let ?ps = "(ig_pods g)[j := p']"
  have u: "sum_list (map unfinished ?ps) + unfinished p = sum_list (map unfinished (ig_pods g)) + unfinished p'"
    and c: "sum_list (map calling ?ps) + calling p = sum_list (map calling (ig_pods g)) + calling p'"
    using sum_list_map_update [OF j(1)] unfolding j(2) by blast+
  have ps: "\<forall>q \<in> set ?ps. pod_inv (ig_hash g) q" "?ps \<noteq> [] \<longleftrightarrow> ig_pods g \<noteq> []" "ig_pods g \<noteq> []"
    using inv j(1) p' set_update_subset_insert [of "ig_pods g" j p'] by (auto simp: probing_inv_def)
  have I: "ig_pendingCount g = int (sum_list (map unfinished (ig_pods g)))"
    "ig_calls g + sum_list (map calling (ig_pods g)) = of_bool (sum_list (map unfinished (ig_pods g)) = 0)"
    using inv ps(3) by (simp_all add: probing_inv_def)
  show "probing_inv (upd_pod g j p')" if "unfinished p' = unfinished p" "calling p' = calling p"
    using that u c I ps by (simp add: probing_inv_def upd_pod_def)
  show "probing_inv ((upd_pod g j p')\<lparr>ig_calls := Suc (ig_calls g)\<rparr>)" if "unfinished p' = unfinished p" "Suc (calling p') = calling p"
    using that u c I ps by (simp add: probing_inv_def upd_pod_def)
  show "probing_inv ((upd_pod g j p')\<lparr>ig_pendingCount := n\<rparr>)"
    if n: "n = ig_pendingCount g - 1" "Suc (unfinished p') = unfinished p" "calling p' = calling p + of_bool (n = 0)"
  proof -
    have "n = int (sum_list (map unfinished ?ps))" using n(1,2) u I(1) by simp
    moreover have "sum_list (map unfinished (ig_pods g)) \<noteq> 0" using n(2) u by linarith
    ultimately show ?thesis using n(3) c I(2) ps by (simp add: probing_inv_def upd_pod_def)
  qed
qed

lemmas counting = unfinished_def calling_def

lemma pod_invD:
  assumes "pod_inv hash p"
  shows "po_canceller p = Loaded n \<Longrightarrow> 0 < n" "0 < items_at {AtCancel} p \<Longrightarrow> po_pendingCount p \<le> 0"
    "- int (items_at {AtCancel, AtDec, AtCallback, Passed} p) \<le> po_pendingCount p"
    "po_pendingCount p \<le> int (length (po_items p))"
    "(wi, w) \<in> set (po_items p) \<Longrightarrow> w \<notin> {Queued, Dropped} \<Longrightarrow> accepted hash wi"
    "\<not> po_cancelled p \<Longrightarrow> po_pendingCount p = int (items_at {Queued, Succeeded} p)"
    "\<not> po_cancelled p \<Longrightarrow> po_done p \<Longrightarrow> po_pendingCount p = 0"
    "\<not> po_cancelled p \<Longrightarrow> po_canceller p \<noteq> Waiting \<Longrightarrow> po_done p"
    "\<not> po_cancelled p \<Longrightarrow> po_canceller p \<noteq> CancelDec" "\<not> po_cancelled p \<Longrightarrow> items_at {Dropped} p = 0"
    "po_canceller p \<in> {CancelDec, CancelCallback, Returned} \<Longrightarrow> po_pendingCount p \<le> 0" "po_cancelled p \<Longrightarrow> po_done p"
  using assms unfolding pod_inv_def by blast+

lemma item_counted:
  assumes "k < length (po_items p)" "snd (po_items p ! k) \<in> W"
  shows "0 < items_at W p"
  using assms nth_mem [OF assms(1)] by (auto simp: items_at_def filter_empty_conv split_beta)

lemma item_accepted:
  assumes "pod_inv hash p" "k < length (po_items p)" "snd (po_items p ! k) \<notin> {Queued, Dropped}"
  shows "accepted hash (fst (po_items p ! k))"
  using pod_invD(5) [OF assms(1), of "fst (po_items p ! k)" "snd (po_items p ! k)"] assms(2,3) by simp

text \<open>The counts after an item has moved from \<open>w'\<close> to \<open>w\<close>, for all the sets of places that are counted.\<close>

lemma item_moves:
  assumes "k < length (po_items p)" "po_items p' = (po_items p)[k := (wi, w)]" "snd (po_items p ! k) = w'"
  shows "items_at {AtCancel} p' + of_bool (w' \<in> {AtCancel}) = items_at {AtCancel} p + of_bool (w \<in> {AtCancel})"
    "items_at {AtCancel, AtDec, AtCallback, Passed} p' + of_bool (w' \<in> {AtCancel, AtDec, AtCallback, Passed}) = items_at {AtCancel, AtDec, AtCallback, Passed} p + of_bool (w \<in> {AtCancel, AtDec, AtCallback, Passed})"
    "items_at {Queued, Succeeded} p' + of_bool (w' \<in> {Queued, Succeeded}) = items_at {Queued, Succeeded} p + of_bool (w \<in> {Queued, Succeeded})"
    "items_at {Dropped} p' + of_bool (w' \<in> {Dropped}) = items_at {Dropped} p + of_bool (w \<in> {Dropped})"
    "items_at {AtCancel, AtDec} p' + of_bool (w' \<in> {AtCancel, AtDec}) = items_at {AtCancel, AtDec} p + of_bool (w \<in> {AtCancel, AtDec})"
    "items_at {AtCallback} p' + of_bool (w' \<in> {AtCallback}) = items_at {AtCallback} p + of_bool (w \<in> {AtCallback})"
  by (rule items_at_update [OF assms(1,2), unfolded assms(3)])+

lemma accepted_update:
  assumes "pod_inv hash p" "w \<notin> {Queued, Dropped} \<Longrightarrow> accepted hash wi" "(wi', v) \<in> set ((po_items p)[k := (wi, w)])" "v \<notin> {Queued, Dropped}"
  shows "accepted hash wi'"
  using assms set_update_subset_insert [of "po_items p" k "(wi, w)"] pod_invD(5) [OF assms(1)] by blast

text \<open>The moves of an item, and the invariant of the pod after one.\<close>

definition item_move :: "worker \<Rightarrow> worker \<Rightarrow> bool" where
  "item_move w w' \<longleftrightarrow> (w, w') \<in> {(Queued, Dropped), (Queued, Succeeded), (Succeeded, AtCancel), (Succeeded, Passed),
     (AtCancel, AtDec), (AtDec, AtCallback), (AtDec, Passed), (AtCallback, Passed)}"

lemma pod_inv_move:
  assumes p: "pod_inv hash p" and k: "k < length (po_items p)" "snd (po_items p ! k) = w" "item_move w w'"
    and q: "po_items q = (po_items p)[k := (wi, w')]" "po_canceller q = po_canceller p" "po_cancelled q = po_cancelled p"
    and n: "po_pendingCount q = po_pendingCount p - of_bool (w = Succeeded)" "w' = AtCancel \<Longrightarrow> po_pendingCount q \<le> 0"
    and a: "w' \<noteq> Dropped \<Longrightarrow> accepted hash wi" and c: "w' = Dropped \<Longrightarrow> po_cancelled p"
    and d: "po_done p \<Longrightarrow> po_done q" "\<not> po_cancelled p \<Longrightarrow> po_done q \<Longrightarrow> po_pendingCount q = 0"
  shows "pod_inv hash q"
proof -
  note moves = item_moves [OF k(1) q(1) k(2)]
  have acc: "accepted hash wi'" if "(wi', v) \<in> set (po_items q)" "v \<notin> {Queued, Dropped}" for wi' v
    using accepted_update [OF p _ that(1) [unfolded q(1)] that(2)] a by blast
  have len: "length (po_items q) = length (po_items p)" by (simp add: q(1))
  have "0 < items_at {AtCancel} q \<Longrightarrow> po_pendingCount q \<le> 0"
    using moves(1) pod_invD(2) [OF p] n by (cases "w' = AtCancel") auto
  moreover have "- int (items_at {AtCancel, AtDec, AtCallback, Passed} q) \<le> po_pendingCount q"
    using moves(2) pod_invD(3) [OF p] n(1) k(3) by (auto simp: item_move_def)
  moreover have "po_pendingCount q \<le> int (length (po_items q))" using pod_invD(4) [OF p] n(1) len by simp
  moreover have "po_pendingCount q = int (items_at {Queued, Succeeded} q) \<and> items_at {Dropped} q = 0" if "\<not> po_cancelled q"
    using moves(3,4) pod_invD(6,10) [OF p] n(1) k(3) c that q(3) by (auto simp: item_move_def)
  ultimately show ?thesis
    using acc d pod_invD(1,8,9,11,12) [OF p] q(2,3) n(1) unfolding pod_inv_def by (auto split: if_splits)
qed

lemma queued_not_done:
  assumes "pod_inv hash p" "k < length (po_items p)" "snd (po_items p ! k) \<in> {Queued, Succeeded}" "po_done p"
  shows "po_cancelled p"
  using pod_invD(6,7) [OF assms(1)] item_counted [OF assms(2,3)] assms(4) by force

lemma prober_Do_True: "prober_Do hash outcome = Inr True \<longleftrightarrow> (\<exists>r. outcome = Inr r \<and> probeVerifier hash r = Inr True)"
  by (auto simp: prober_Do_def split: sum.splits)

lemma process_cases:
  obtains (same) "processWorkItem g j k outcome = g"
    | (drop) "snd (po_items (ig_pods g ! j) ! k) = Queued" "po_done (ig_pods g ! j)"
        "processWorkItem g j k outcome = upd_pod g j (upd_item (ig_pods g ! j) k Dropped)"
    | (succeed) wi' where "snd (po_items (ig_pods g ! j) ! k) = Queued" "\<not> po_done (ig_pods g ! j)" "accepted (ig_hash g) wi'"
        "processWorkItem g j k outcome = upd_pod g j ((ig_pods g ! j)\<lparr>po_items := (po_items (ig_pods g ! j))[k := (wi', Succeeded)]\<rparr>)"
proof -
  obtain wi w where it: "po_items (ig_pods g ! j) ! k = (wi, w)" by fastforce
  show thesis
  proof (cases "w = Queued \<and> \<not> po_done (ig_pods g ! j) \<and> prober_Do (ig_hash g) outcome = Inr True")
    case True
    then obtain r where r: "outcome = Inr r" "probeVerifier (ig_hash g) r = Inr True" by (auto simp: prober_Do_True)
    show thesis
      by (rule succeed [of "wi\<lparr>wi_response := Some r\<rparr>"])
        (use True r it in \<open>auto simp: processWorkItem_def Let_def accepted_def prober_Do_def\<close>)
  next
    case False
    then consider "w \<noteq> Queued" | "w = Queued" "po_done (ig_pods g ! j)"
      | "w = Queued" "\<not> po_done (ig_pods g ! j)" "prober_Do (ig_hash g) outcome \<noteq> Inr True" by blast
    then show thesis
    proof cases
      case 3
      then have "processWorkItem g j k outcome = g"
        by (cases "prober_Do (ig_hash g) outcome") (auto simp: processWorkItem_def Let_def it split: bool.splits)
      then show thesis by (rule same)
    qed (use same drop it in \<open>auto simp: processWorkItem_def Let_def\<close>)
  qed
qed

lemma process_inv:
  assumes inv: "probing_inv g" and j: "j < length (ig_pods g)" and k: "k < length (po_items (ig_pods g ! j))"
  shows "probing_inv (processWorkItem g j k outcome)"
proof -
  let ?p = "ig_pods g ! j" and ?wi = "fst (po_items (ig_pods g ! j) ! k)"
  have p: "pod_inv (ig_hash g) ?p" using inv j by (simp add: probing_inv_def)
  show ?thesis
  proof (cases rule: process_cases [of g j k outcome])
    case drop
    let ?q = "upd_item ?p k Dropped"
    have q: "po_items ?q = (po_items ?p)[k := (?wi, Dropped)]" by (simp add: upd_item_def)
    have "pod_inv (ig_hash g) ?q"
      by (rule pod_inv_move [OF p k drop(1) _ q]) (use queued_not_done [OF p k] drop in \<open>auto simp: item_move_def upd_item_def\<close>)
    then show ?thesis
      unfolding drop(3) using item_moves [OF k q drop(1)]
      by (intro probing_inv_upd(1) [OF inv j refl]) (simp_all add: counting, simp_all add: upd_item_def)
  next
    case (succeed wi')
    let ?q = "?p\<lparr>po_items := (po_items ?p)[k := (wi', Succeeded)]\<rparr>"
    have q: "po_items ?q = (po_items ?p)[k := (wi', Succeeded)]" by simp
    have "pod_inv (ig_hash g) ?q"
      by (rule pod_inv_move [OF p k succeed(1) _ q]) (use succeed in \<open>auto simp: item_move_def\<close>)
    then show ?thesis
      unfolding succeed(4) using item_moves [OF k q succeed(1)]
      by (intro probing_inv_upd(1) [OF inv j refl]) (simp_all add: counting)
  qed (simp add: inv)
qed

lemma upd_item_simps:
  "po_items (upd_item p k w) = (po_items p)[k := (fst (po_items p ! k), w)]"
  "po_pendingCount (upd_item p k w) = po_pendingCount p" "po_canceller (upd_item p k w) = po_canceller p"
  "po_cancelled (upd_item p k w) = po_cancelled p" "po_done (upd_item p k w) = po_done p"
  by (simp_all add: upd_item_def)

text \<open>The four steps of a worker in \<^verbatim>\<open>onProbingSuccess\<close>.\<close>

lemma success_pod:
  assumes "probing_inv g" "j < length (ig_pods g)" "k < length (po_items (ig_pods g ! j))"
    and "snd (po_items (ig_pods g ! j) ! k) \<notin> {Queued, Dropped}"
  shows "pod_inv (ig_hash g) (ig_pods g ! j)" "accepted (ig_hash g) (fst (po_items (ig_pods g ! j) ! k))"
proof -
  show p: "pod_inv (ig_hash g) (ig_pods g ! j)" using assms(1,2) by (simp add: probing_inv_def)
  show "accepted (ig_hash g) (fst (po_items (ig_pods g ! j) ! k))" by (rule item_accepted [OF p assms(3,4)])
qed

lemma success_counts:
  assumes inv: "probing_inv g" and j: "j < length (ig_pods g)" and p: "p = ig_pods g ! j" and k: "k < length (po_items p)"
    and w: "snd (po_items p ! k) = Succeeded" and n: "n = po_pendingCount p - 1"
  shows "probing_inv (upd_pod g j ((upd_item p k (if n = 0 then AtCancel else Passed))\<lparr>po_pendingCount := n\<rparr>))"
proof -
  let ?q = "(upd_item p k (if n = 0 then AtCancel else Passed))\<lparr>po_pendingCount := n\<rparr>"
  note pod = success_pod [OF inv j, folded p, OF k, unfolded w, simplified]
  have q: "po_items ?q = (po_items p)[k := (fst (po_items p ! k), if n = 0 then AtCancel else Passed)]" by (simp add: upd_item_simps)
  have "pod_inv (ig_hash g) ?q"
    by (rule pod_inv_move [OF pod(1) k w _ q])
      (use pod(2) queued_not_done [OF pod(1) k] w n in \<open>auto simp: item_move_def upd_item_simps split: if_split_asm\<close>)
  then show ?thesis
    using item_moves [OF k q w] n
    by (intro probing_inv_upd(1) [OF inv j p]) (auto simp: counting upd_item_simps split: if_split_asm)
qed

lemma success_cancels:
  assumes inv: "probing_inv g" and j: "j < length (ig_pods g)" and p: "p = ig_pods g ! j" and k: "k < length (po_items p)"
    and w: "snd (po_items p ! k) = AtCancel"
  shows "probing_inv (upd_pod g j ((upd_item p k AtDec)\<lparr>po_done := True\<rparr>))"
proof -
  let ?q = "(upd_item p k AtDec)\<lparr>po_done := True\<rparr>"
  note pod = success_pod [OF inv j, folded p, OF k, unfolded w, simplified]
  have q: "po_items ?q = (po_items p)[k := (fst (po_items p ! k), AtDec)]" by (simp add: upd_item_simps)
  have "po_pendingCount p \<le> 0" using pod_invD(2) [OF pod(1)] item_counted [OF k, of "{AtCancel}"] w by simp
  then have "pod_inv (ig_hash g) ?q"
    by (intro pod_inv_move [OF pod(1) k w _ q])
      (use pod(2) w pod_invD(6) [OF pod(1)] in \<open>auto simp: item_move_def upd_item_simps\<close>)
  then show ?thesis
    using item_moves [OF k q w] by (intro probing_inv_upd(1) [OF inv j p]) (auto simp: counting upd_item_simps)
qed

lemma success_settles:
  assumes inv: "probing_inv g" and j: "j < length (ig_pods g)" and p: "p = ig_pods g ! j" and k: "k < length (po_items p)"
    and w: "snd (po_items p ! k) = AtDec" and n: "n = ig_pendingCount g - 1"
  shows "probing_inv ((upd_pod g j (upd_item p k (if n = 0 then AtCallback else Passed)))\<lparr>ig_pendingCount := n\<rparr>)"
proof -
  let ?q = "upd_item p k (if n = 0 then AtCallback else Passed)"
  note pod = success_pod [OF inv j, folded p, OF k, unfolded w, simplified]
  have q: "po_items ?q = (po_items p)[k := (fst (po_items p ! k), if n = 0 then AtCallback else Passed)]" by (simp add: upd_item_simps)
  have "pod_inv (ig_hash g) ?q"
    by (rule pod_inv_move [OF pod(1) k w _ q])
      (use pod(2) w pod_invD(7) [OF pod(1)] in \<open>auto simp: item_move_def upd_item_simps split: if_split_asm\<close>)
  moreover have "Suc (unfinished ?q) = unfinished p" "calling ?q = calling p + of_bool (n = 0)"
    using item_moves [OF k q w] by (auto simp: counting upd_item_simps split: if_split_asm)
  ultimately show ?thesis by (rule probing_inv_upd(2) [OF inv j p _ n])
qed

lemma success_calls:
  assumes inv: "probing_inv g" and j: "j < length (ig_pods g)" and p: "p = ig_pods g ! j" and k: "k < length (po_items p)"
    and w: "snd (po_items p ! k) = AtCallback"
  shows "probing_inv ((upd_pod g j (upd_item p k Passed))\<lparr>ig_calls := Suc (ig_calls g)\<rparr>)"
proof -
  let ?q = "upd_item p k Passed"
  note pod = success_pod [OF inv j, folded p, OF k, unfolded w, simplified]
  have q: "po_items ?q = (po_items p)[k := (fst (po_items p ! k), Passed)]" by (simp add: upd_item_simps)
  have "pod_inv (ig_hash g) ?q"
    by (rule pod_inv_move [OF pod(1) k w _ q])
      (use pod(2) w pod_invD(7) [OF pod(1)] in \<open>auto simp: item_move_def upd_item_simps\<close>)
  then show ?thesis
    using item_moves [OF k q w] by (intro probing_inv_upd(3) [OF inv j p]) (auto simp: counting upd_item_simps)
qed

lemma success_inv:
  assumes inv: "probing_inv g" and j: "j < length (ig_pods g)" and k: "k < length (po_items (ig_pods g ! j))"
  shows "probing_inv (onProbingSuccess g j k)"
  using success_counts [OF inv j refl k] success_cancels [OF inv j refl k] success_settles [OF inv j refl k] success_calls [OF inv j refl k]
  by (cases "snd (po_items (ig_pods g ! j) ! k)") (simp_all add: onProbingSuccess_def Let_def inv)

text \<open>A step that leaves the items of a pod where they are.\<close>

lemma pod_inv_same_items:
  assumes "pod_inv hash p" "po_items q = po_items p"
    and "\<And>n. po_canceller q = Loaded n \<Longrightarrow> 0 < n"
    and "po_pendingCount q = po_pendingCount p \<or> po_pendingCount q = 0 \<and> 0 < po_pendingCount p"
    and "po_canceller q \<in> {CancelDec, CancelCallback, Returned} \<Longrightarrow> po_pendingCount q \<le> 0" "po_cancelled q \<Longrightarrow> po_done q"
    and "\<not> po_cancelled q \<Longrightarrow> \<not> po_cancelled p \<and> po_done q = po_done p \<and> po_pendingCount q = po_pendingCount p \<and>
      (po_canceller q \<noteq> Waiting \<longrightarrow> po_done q) \<and> po_canceller q \<noteq> CancelDec"
  shows "pod_inv hash q"
proof -
  note D = pod_invD [OF assms(1)] and at = items_at_cong [OF assms(2)]
  have "0 < items_at {AtCancel} p \<Longrightarrow> po_pendingCount q \<le> 0" using D(2) assms(4) by linarith
  moreover have "- int (items_at {AtCancel, AtDec, AtCallback, Passed} p) \<le> po_pendingCount q"
    "po_pendingCount q \<le> int (length (po_items p))" using D(3,4) assms(4) by linarith+
  moreover have "po_pendingCount q = int (items_at {Queued, Succeeded} p) \<and> (po_done q \<longrightarrow> po_pendingCount q = 0) \<and>
      (po_canceller q \<noteq> Waiting \<longrightarrow> po_done q) \<and> po_canceller q \<noteq> CancelDec \<and> items_at {Dropped} p = 0" if "\<not> po_cancelled q"
    using assms(7) [OF that] D(6,7,10) by auto
  ultimately show ?thesis
    unfolding pod_inv_def assms(2) at using assms(3,5,6) D(5) by blast
qed

lemma cancellation_inv:
  assumes inv: "probing_inv g" and j: "j < length (ig_pods g)"
  shows "probing_inv (onProbingCancellation g j)"
proof -
  let ?p = "ig_pods g ! j"
  have p: "pod_inv (ig_hash g) ?p" using inv j by (simp add: probing_inv_def)
  note D = pod_invD [OF p]
  have frame: "items_at W (?p\<lparr>po_canceller := c\<rparr>) = items_at W ?p" "items_at W (?p\<lparr>po_pendingCount := n, po_canceller := c\<rparr>) = items_at W ?p"
    for W c n by (simp_all add: items_at_def)
  note upd = probing_inv_upd [OF inv j refl pod_inv_same_items [OF p]]
  show ?thesis
    using D(1,7,8,9,11,12)
    by (cases "po_canceller ?p")
      (auto simp: onProbingCancellation_def Let_def inv counting frame intro!: upd)
qed

lemma cancel_pod_counts: "unfinished (cancel_pod p) = unfinished p" "calling (cancel_pod p) = calling p"
  by (simp_all add: counting items_at_def cancel_pod_def)

lemma cancel_pod_inv: "pod_inv hash p \<Longrightarrow> pod_inv hash (cancel_pod p)"
  by (rule pod_inv_same_items [of hash p]) (use pod_invD(1,8,9,11,12) [of hash p] in \<open>simp_all add: cancel_pod_def\<close>)

lemma cancel_ingress_inv: "probing_inv g \<Longrightarrow> probing_inv (cancel_ingress g)"
  by (simp add: probing_inv_def cancel_ingress_def comp_def cancel_pod_counts cancel_pod_inv)

lemma join_inv:
  assumes "probing_inv g" "j < length (ig_pods g)"
  shows "probing_inv (join_contexts finished g j)"
proof -
  have "pod_inv (ig_hash g) (ig_pods g ! j)" using assms by (simp add: probing_inv_def)
  then show ?thesis
    using probing_inv_upd(1) [OF assms refl] cancel_pod_inv cancel_pod_counts assms(1) by (simp add: join_contexts_def Let_def)
qed

lemma probing_step_inv: "probing_step finished g g' \<Longrightarrow> probing_inv g \<Longrightarrow> probing_inv g'"
  by (induction rule: probing_step.induct) (auto intro: process_inv success_inv cancellation_inv join_inv)

lemma upd_pod_frame [simp]: "ig_hash (upd_pod g j p) = ig_hash g" "ig_ing (upd_pod g j p) = ig_ing g"
  by (simp_all add: upd_pod_def)

lemma probing_step_frame: "probing_step finished g g' \<Longrightarrow> ig_hash g' = ig_hash g \<and> ig_ing g' = ig_ing g"
proof (induction rule: probing_step.induct)
  case (Process j g k outcome)
  show ?case by (cases rule: process_cases [of g j k outcome]) simp_all
next
  case (Success j g k)
  show ?case by (cases "snd (po_items (ig_pods g ! j) ! k)") (simp_all add: onProbingSuccess_def Let_def)
next
  case (Cancellation j g)
  show ?case by (cases "po_canceller (ig_pods g ! j)") (simp_all add: onProbingCancellation_def Let_def)
qed (simp add: join_contexts_def Let_def)

section \<open>The invariant of the prober\<close>

definition prober_inv :: "Prober \<Rightarrow> bool" where
  "prober_inv m \<longleftrightarrow> (\<forall>g \<in> set (pb_heap m). probing_inv g) \<and>
     (\<forall>nn i. map_of (pb_ingressStates m) nn = Some i \<longrightarrow> i < length (pb_heap m) \<and> ing_nn (ig_ing (pb_heap m ! i)) = nn)"

lemma prober_inv_update:
  assumes "prober_inv m" "i < length (pb_heap m)" "probing_inv g" "ig_ing g = ig_ing (pb_heap m ! i)"
    and "pb_heap m' = (pb_heap m)[i := g]" "\<And>nn. map_of (pb_ingressStates m') nn \<in> {None, map_of (pb_ingressStates m) nn}"
  shows "prober_inv m'"
  unfolding prober_inv_def
proof (intro conjI ballI allI impI)
  show "probing_inv h" if "h \<in> set (pb_heap m')" for h
    using that assms(1,3,5) set_update_subset_insert [of "pb_heap m" i g] by (auto simp: prober_inv_def)
next
  fix nn l assume "map_of (pb_ingressStates m') nn = Some l"
  then have "map_of (pb_ingressStates m) nn = Some l" using assms(6) [of nn] by auto
  then have "l < length (pb_heap m)" "ing_nn (ig_ing (pb_heap m ! l)) = nn" using assms(1) by (auto simp: prober_inv_def)
  then show "l < length (pb_heap m')" "ing_nn (ig_ing (pb_heap m' ! l)) = nn"
    using assms(2,4,5) by (auto simp: nth_list_update)
qed

lemma cancel_key_inv:
  assumes "prober_inv m"
  shows "prober_inv (CancelIngressProbingByKey nn m)"
proof (cases "map_of (pb_ingressStates m) nn")
  case (Some i)
  then have i: "i < length (pb_heap m)" using assms by (auto simp: prober_inv_def)
  then have "probing_inv (cancel_ingress (pb_heap m ! i))" using assms cancel_ingress_inv by (simp add: prober_inv_def)
  then show ?thesis
    by (rule prober_inv_update [OF assms i]) (auto simp: CancelIngressProbingByKey_def Some cancel_ingress_def AList.delete_conv')
qed (simp add: CancelIngressProbingByKey_def assms)

section \<open>Starting a probing\<close>

definition fresh_pod :: "podState \<Rightarrow> string \<times> workItem list \<Rightarrow> bool" where
  "fresh_pod p entry \<longleftrightarrow> po_items p = map (\<lambda>wi. (wi, Queued)) (snd entry) \<and> po_pendingCount p = int (length (snd entry)) \<and>
     \<not> po_done p \<and> \<not> po_cancelled p \<and> po_canceller p = Waiting"

lemma start_pods:
  "foldl start_pod (pods, m) entries = (pods', m') \<Longrightarrow>
    (\<exists>new. pods' = pods @ new \<and> list_all2 fresh_pod new entries) \<and>
    pb_heap m' = pb_heap m \<and> pb_ingressStates m' = pb_ingressStates m"
proof (induction entries arbitrary: pods m)
  case (Cons e entries)
  obtain ip items c m1 where e: "e = (ip, items)" "ip_context ip m = (c, m1)" by fastforce
  let ?p = "\<lparr>po_ipContext = c, po_pendingCount = int (length items), po_done = False, po_cancelled = False,
    po_items = map (\<lambda>wi. (wi, Queued)) items, po_canceller = Waiting\<rparr>"
  have "start_pod (pods, m) e = (pods @ [?p], m1)" by (simp add: start_pod_def e)
  then have "foldl start_pod (pods @ [?p], m1) entries = (pods', m')" using Cons.prems by simp
  from Cons.IH [OF this] obtain new where "pods' = pods @ ?p # new" "list_all2 fresh_pod new entries"
    "pb_heap m' = pb_heap m1" "pb_ingressStates m' = pb_ingressStates m1" by auto
  moreover have "pb_heap m1 = pb_heap m" "pb_ingressStates m1 = pb_ingressStates m"
    using e(2) by (auto simp: ip_context_def split: option.splits)
  moreover have "fresh_pod ?p e" by (simp add: fresh_pod_def e(1))
  ultimately show ?case by (intro conjI exI [of _ "?p # new"]) simp_all
qed simp

lemma fresh_pod_inv:
  assumes "fresh_pod p (ip, items)" "items \<noteq> []"
  shows "pod_inv hash p" "unfinished p = 1" "calling p = 0"
proof -
  have at: "items_at W p = (if Queued \<in> W then length items else 0)" for W
    using assms(1) by (simp add: items_at_def fresh_pod_def filter_map comp_def)
  show "unfinished p = 1" "calling p = 0" using assms by (simp_all add: counting at, simp_all add: fresh_pod_def)
  show "pod_inv hash p" using assms unfolding pod_inv_def at by (auto simp: fresh_pod_def)
qed

lemma fresh_probing_inv:
  assumes "list_all2 fresh_pod pods entries" "\<And>ip items. (ip, items) \<in> set entries \<Longrightarrow> items \<noteq> []"
  shows "probing_inv \<lparr>ig_hash = hash, ig_ing = ing, ig_pendingCount = int (length entries), ig_lastAccessed = now, ig_pods = pods, ig_calls = 0\<rparr>"
proof -
  have "pod_inv hash p \<and> unfinished p = 1 \<and> calling p = 0" if "p \<in> set pods" for p
  proof -
    obtain i where i: "i < length pods" "p = pods ! i" using \<open>p \<in> set pods\<close> by (auto simp: in_set_conv_nth)
    obtain ip items where e: "entries ! i = (ip, items)" by fastforce
    have "fresh_pod p (ip, items)" using list_all2_nthD [OF assms(1) i(1)] i(2) e by simp
    moreover have "(ip, items) \<in> set entries" using i(1) e list_all2_lengthD [OF assms(1)] by (metis nth_mem)
    ultimately show ?thesis using assms(2) fresh_pod_inv by blast
  qed
  moreover from this have "map unfinished pods = replicate (length pods) 1" "map calling pods = replicate (length pods) 0"
    by (simp_all add: list_eq_iff_nth_eq)
  ultimately show ?thesis
    using list_all2_lengthD [OF assms(1)] by (auto simp: probing_inv_def sum_list_replicate)
qed

text \<open>The work items of an address, in the order of the targets and their URLs.\<close>

definition items_wf :: "(string \<times> workItem list) list \<Rightarrow> bool" where
  "items_wf m \<longleftrightarrow> wf_alist m \<and> (\<forall>ip items. map_of m ip = Some items \<longrightarrow> items \<noteq> [])"

lemma work_items_wf: "items_wf (work_items visit targets)"
proof -
  have add: "items_wf (add_item m wi)" if "items_wf m" for m wi
    using that by (auto simp: items_wf_def add_item_def al.wf_update al.lookup_update)
  show ?thesis
    unfolding work_items_def
    by (intro foldl_keeps [where P = items_wf]) (auto intro!: add simp: items_wf_def [of "[]"] wf_alist_def)
qed

text \<open>An outdated probing is forgotten the way \<^verbatim>\<open>CancelIngressProbingByKey\<close> does it.\<close>

definition known_probing :: "Prober \<Rightarrow> NamespacedName \<Rightarrow> string \<Rightarrow> nat option" where
  "known_probing m nn hash =
     (case map_of (pb_ingressStates m) nn of
        None \<Rightarrow> None | Some i \<Rightarrow> if ig_hash (pb_heap m ! i) = hash then Some i else None)"

lemma IsReady_cases:
  assumes "prober_IsReady computeHash targetLister visit ord now ing m = (r, m')"
  obtains (hash_error) e where "computeHash ing = Inl e" "r \<noteq> Inr True" "m' = m"
    | (known) hash i where "computeHash ing = Inr hash" "known_probing m (ing_nn ing) hash = Some i"
        "r = Inr (ig_pendingCount (pb_heap m ! i) = 0)" "m' = m\<lparr>pb_heap := (pb_heap m)[i := (pb_heap m ! i)\<lparr>ig_lastAccessed := now\<rparr>]\<rparr>"
    | (list_error) hash f where "computeHash ing = Inr hash" "targetLister ing = Inl f" "r \<noteq> Inr True"
        "m' = CancelIngressProbingByKey (ing_nn ing) m"
    | (started) hash targets pods m1 where "computeHash ing = Inr hash" "known_probing m (ing_nn ing) hash = None"
        "targetLister ing = Inr targets" "r = Inr (work_items visit targets = [])"
        "foldl start_pod ([], CancelIngressProbingByKey (ing_nn ing) m) (ord (work_items visit targets)) = (pods, m1)"
        "m' = m1\<lparr>pb_ingressStates := AList.update (ing_nn ing) (length (pb_heap m1)) (pb_ingressStates m1),
           pb_heap := pb_heap m1 @ [\<lparr>ig_hash = hash, ig_ing = ing, ig_pendingCount = int (length (work_items visit targets)),
             ig_lastAccessed = now, ig_pods = pods, ig_calls = 0\<rparr>]\<rparr>"
proof (cases "computeHash ing")
  case (Inl e)
  then show thesis using assms hash_error by (auto simp: prober_IsReady_def Let_def)
next
  case (Inr hash)
  show thesis
  proof (cases "known_probing m (ing_nn ing) hash")
    case (Some i)
    then show thesis
      using assms Inr by (intro known [OF Inr Some]) (auto simp: prober_IsReady_def known_probing_def Let_def split: option.splits if_split_asm)
  next
    case None
    have eq: "prober_IsReady computeHash targetLister visit ord now ing m =
      (case targetLister ing of
         Inl f \<Rightarrow> (Inl f, CancelIngressProbingByKey (ing_nn ing) m)
       | Inr targets \<Rightarrow>
           (case foldl start_pod ([], CancelIngressProbingByKey (ing_nn ing) m) (ord (work_items visit targets)) of (pods, m1) \<Rightarrow>
             (Inr (work_items visit targets = []), m1\<lparr>pb_ingressStates := AList.update (ing_nn ing) (length (pb_heap m1)) (pb_ingressStates m1),
               pb_heap := pb_heap m1 @ [\<lparr>ig_hash = hash, ig_ing = ing, ig_pendingCount = int (length (work_items visit targets)),
                 ig_lastAccessed = now, ig_pods = pods, ig_calls = 0\<rparr>]\<rparr>)))"
      using Inr None
      by (cases "map_of (pb_ingressStates m) (ing_nn ing)"; cases "targetLister ing")
        (auto simp: prober_IsReady_def known_probing_def CancelIngressProbingByKey_def Let_def split_beta split: if_split_asm)
    show thesis
    proof (cases "targetLister ing")
      case (Inl f)
      then show thesis using assms eq by (intro list_error [OF Inr Inl]) auto
    next
      case (Inr targets)
      obtain pods m1 where f: "foldl start_pod ([], CancelIngressProbingByKey (ing_nn ing) m) (ord (work_items visit targets)) = (pods, m1)"
        by fastforce
      then show thesis using assms eq Inr by (intro started [OF \<open>computeHash ing = Inr hash\<close> None Inr _ f]) auto
    qed
  qed
qed

lemma prober_inv_add:
  assumes "prober_inv m" "probing_inv g"
    and "pb_heap m' = pb_heap m @ [g]" "pb_ingressStates m' = AList.update (ing_nn (ig_ing g)) (length (pb_heap m)) (pb_ingressStates m)"
  shows "prober_inv m'"
  using assms by (auto simp: prober_inv_def AList.update_conv' nth_append less_Suc_eq split: if_split_asm)

lemma IsReady_inv:
  assumes inv: "prober_inv m" and ord: "range_order ord"
    and step: "prober_IsReady computeHash targetLister visit ord now ing m = (r, m')"
  shows "prober_inv m'"
  using step
proof (cases rule: IsReady_cases)
  case (known hash i)
  then have i: "i < length (pb_heap m)" using inv by (auto simp: prober_inv_def known_probing_def split: option.splits if_splits)
  then have "probing_inv ((pb_heap m ! i)\<lparr>ig_lastAccessed := now\<rparr>)" using inv by (simp add: prober_inv_def probing_inv_def)
  then show ?thesis by (rule prober_inv_update [OF inv i]) (auto simp: known)
next
  case (started hash targets pods m1)
  let ?g = "\<lparr>ig_hash = hash, ig_ing = ing, ig_pendingCount = int (length (work_items visit targets)),
    ig_lastAccessed = now, ig_pods = pods, ig_calls = 0\<rparr>"
  have m1: "list_all2 fresh_pod pods (ord (work_items visit targets))" "pb_heap m1 = pb_heap (CancelIngressProbingByKey (ing_nn ing) m)"
    "pb_ingressStates m1 = pb_ingressStates (CancelIngressProbingByKey (ing_nn ing) m)"
    using start_pods [OF started(5)] by auto
  have "items \<noteq> []" if "(ip, items) \<in> set (ord (work_items visit targets))" for ip items
    using work_items_wf [of visit targets] that by (auto simp: items_wf_def range_order_set [OF ord] wf_alist_def)
  then have "probing_inv ?g"
    using fresh_probing_inv [OF m1(1), of hash ing now] by (simp add: range_order_length [OF ord])
  moreover have "prober_inv m1" using cancel_key_inv [OF inv] m1(2,3) by (simp add: prober_inv_def)
  ultimately show ?thesis using prober_inv_add [of m1 ?g m'] started(6) by simp
qed (use inv cancel_key_inv in simp_all)

interpretation pts: transition_system "\<lambda>m. m = NewProber" prober_step prober_inv
proof unfold_locales
  fix m m' assume "prober_inv m" "prober_step m m'"
  from this(2,1) show "prober_inv m'"
  proof (induction rule: prober_step.induct)
    case (CancelPod m podIP)
    then show ?case by (simp add: CancelPodProbing_def prober_inv_def split: option.split)
  next
    case (Probing i m g)
    then have "probing_inv g" "ig_ing g = ig_ing (pb_heap m ! i)"
      using probing_step_inv probing_step_frame by (auto simp: prober_inv_def)
    then show ?case by (rule prober_inv_update [OF Probing(3,1)]) auto
  qed (auto intro: IsReady_inv cancel_key_inv)
qed (simp add: NewProber_def prober_inv_def)

text \<open>The work items cover every URL of every target at every pod of it.\<close>

definition has_item :: "workItem \<Rightarrow> (string \<times> workItem list) list \<Rightarrow> bool" where
  "has_item wi m \<longleftrightarrow> (\<exists>items. map_of m (wi_podIP wi) = Some items \<and> wi \<in> set items)"

lemma foldl_reaches:
  assumes "x \<in> set xs" "\<And>a. P (f a x)" "\<And>a y. P a \<Longrightarrow> P (f a y)"
  shows "P (foldl f a xs)"
proof -
  obtain ys zs where xs: "xs = ys @ x # zs" using split_list [OF assms(1)] by blast
  show ?thesis unfolding xs by (simp add: foldl_keeps [where P = P, OF assms(3)] assms(2))
qed

lemma work_items_cover:
  assumes "t \<in> set targets" "ip \<in> set (visit (pt_PodIPs t))" "url \<in> set (pt_URLs t)"
  shows "has_item \<lparr>wi_url = url, wi_podIP = ip, wi_podPort = pt_PodPort t, wi_response = None\<rparr> (work_items visit targets)"
proof -
  have new: "has_item wi (add_item m wi)" for wi m by (simp add: has_item_def add_item_def AList.update_conv')
  have old: "has_item wi m \<Longrightarrow> has_item wi (add_item m wi')" for wi wi' m
    by (auto simp: has_item_def add_item_def AList.update_conv')
  show ?thesis
    unfolding work_items_def
    by (rule foldl_reaches [OF assms(1)], rule foldl_reaches [OF assms(2)], rule foldl_reaches [OF assms(3)])
      (auto intro: new old foldl_keeps [where P = "has_item _"])
qed

section \<open>What a ready ingress means\<close>

text \<open>
  The gateways have confirmed an ingress: its probing, for this hash of it, has for each pod either all its probes answered
  to the prober's satisfaction or was cancelled for that pod.
\<close>

definition confirmed :: "Prober \<Rightarrow> Ingress \<Rightarrow> string \<Rightarrow> bool" where
  "confirmed m ing hash \<longleftrightarrow> (\<exists>g \<in> set (pb_heap m). ig_hash g = hash \<and> ing_nn (ig_ing g) = ing_nn ing \<and>
     (\<forall>p \<in> set (ig_pods g). po_cancelled p \<or> (\<forall>(wi, w) \<in> set (po_items p). accepted hash wi)))"

lemma pending_zero_confirmed:
  assumes "probing_inv g" "ig_pendingCount g = 0" "p \<in> set (ig_pods g)" "\<not> po_cancelled p" "(wi, w) \<in> set (po_items p)"
  shows "accepted (ig_hash g) wi"
proof -
  have p: "pod_inv (ig_hash g) p" "unfinished p = 0" using assms(1-3) by (auto simp: probing_inv_def)
  then have "items_at {Queued, Succeeded} p = 0" using pod_invD(6) [OF p(1) assms(4)] by (simp add: unfinished_def)
  then have "w \<notin> {Queued, Dropped}"
    using pod_invD(10) [OF p(1) assms(4)] assms(5) by (auto simp: items_at_def filter_empty_conv)
  then show ?thesis by (rule pod_invD(5) [OF p(1) assms(5)])
qed

lemma IsReady_confirmed:
  assumes "prober_step\<^sup>*\<^sup>* NewProber m" "prober_IsReady computeHash targetLister visit ord now ing m = (Inr True, m')"
  shows "\<exists>hash. computeHash ing = Inr hash \<and>
    (confirmed m ing hash \<or> (\<exists>targets. targetLister ing = Inr targets \<and> work_items visit targets = []))"
  using assms(2)
proof (cases rule: IsReady_cases)
  case (known hash i)
  have inv: "prober_inv m" by (rule pts.reachable_inv [OF refl assms(1)])
  have i: "i < length (pb_heap m)" "ing_nn (ig_ing (pb_heap m ! i)) = ing_nn ing" "ig_hash (pb_heap m ! i) = hash"
    using inv known(2) by (auto simp: prober_inv_def known_probing_def split: option.splits if_splits)
  have "probing_inv (pb_heap m ! i)" "ig_pendingCount (pb_heap m ! i) = 0"
    using inv i(1) known(3) by (simp_all add: prober_inv_def)
  from pending_zero_confirmed [OF this] have "confirmed m ing hash"
    unfolding confirmed_def using i by (intro bexI [of _ "pb_heap m ! i"]) auto
  then show ?thesis using known(1) by blast
qed auto

lemma mark_ready_probed:
  assumes "mark_ready env now before i = (Inr (), i')" "conds_wf (is_Conditions (io_Status i))"
    and "cond_status (is_Conditions (io_Status i)) IngressConditionLoadBalancerReady \<noteq> Some ConditionTrue"
    and "cond_status (is_Conditions (io_Status i')) IngressConditionReady = Some ConditionTrue"
  shows "re_probe env before = Inr True"
proof -
  let ?i = "i\<lparr>io_Status := MarkNetworkConfigured now (io_Status i)\<rparr>"
  let ?cs = "MarkTrue now IngressConditionNetworkConfigured (is_Conditions (io_Status i))"
  note M = MarkTrue_view [OF assms(2) dependents(1), where now = now]
  have "cond_status ?cs IngressConditionLoadBalancerReady \<noteq> Some ConditionTrue"
    using M(3) [OF dependents(2)] assms(3) by (simp add: cond_status_def)
  then have "cond_status ?cs IngressConditionReady \<noteq> Some ConditionTrue"
    using M(4) dependents(2) by (auto simp: happiness_def split: if_splits)
  then have n: "\<not> IsReady ?i" by (simp add: IsReady_def IsTrue_status MarkNetworkConfigured_def)
  show ?thesis
  proof (cases "re_probe env before")
    case (Inl e)
    then show ?thesis using assms(1) n by (simp add: mark_ready_def Let_def)
  next
    case (Inr ready)
    have cs: "conds_wf ?cs" "cond_status ?cs IngressConditionNetworkConfigured = Some ConditionTrue"
      using M(1,2) by (simp_all add: cond_status_def)
    have "is_Conditions (io_Status i') = MarkUnknown (re_sprintf env) now IngressConditionLoadBalancerReady
        ''Uninitialized'' ''Waiting for load balancer to be ready'' ?cs" if "\<not> ready"
      using assms(1) n Inr that by (auto simp: mark_ready_def Let_def MarkLoadBalancerNotReady_def MarkNetworkConfigured_def)
    then show ?thesis using Inr assms(4) MarkUnknown_LB [OF cs] by (cases ready) auto
  qed
qed

text \<open>With the lister of the controller, an ingress that has a host at all has something to probe.\<close>

lemma lister_items:
  assumes "ListProbeTargets env lister ing = Inr targets" "\<And>S. finite S \<Longrightarrow> set (visit S) = S"
    and "rule \<in> set (ing_Rules ing)" "ir_Hosts rule \<noteq> []"
  shows "work_items visit targets \<noteq> []"
proof -
  obtain eps where t: "all_addresses eps \<noteq> []" "targets = map (rule_target ing (ea_IP ` set (all_addresses eps))) (ing_Rules ing)"
    using assms(1) by (auto simp: ListProbeTargets_Inr)
  let ?t = "rule_target ing (ea_IP ` set (all_addresses eps)) rule"
  have ips: "pt_PodIPs ?t = ea_IP ` set (all_addresses eps)" by (simp add: rule_target_def Let_def)
  then have "set (visit (pt_PodIPs ?t)) \<noteq> {}" using t(1) assms(2) [of "pt_PodIPs ?t"] by simp
  then obtain ip where "ip \<in> set (visit (pt_PodIPs ?t))" by (rule ex_in_conv [THEN iffD2, THEN exE])
  moreover have "set (pt_URLs ?t) \<noteq> {}" using assms(4) by (simp add: rule_target_def domainsToURL_def Let_def)
  then obtain url where "url \<in> set (pt_URLs ?t)" by (rule ex_in_conv [THEN iffD2, THEN exE])
  moreover have "?t \<in> set targets" using t(2) assms(3) by simp
  ultimately show ?thesis using work_items_cover [of ?t targets _ visit] by (force simp: has_item_def)
qed

text \<open>
  C18: An ingress becomes ready only when the gateways confirmed it. When the status prober of the controller, in
  any reachable state, answers for the reconciler, and a reconciliation without error takes an ingress with a
  host, whose load balancer was not ready, to a ready status, then there is a probing of this very
  version of the ingress in which every probe of every pod that was not cancelled got a response the prober accepts.
\<close>

theorem ready_status_confirmed:
  assumes "prober_step\<^sup>*\<^sup>* NewProber m" "SetDefaults (io_Ingress i) = Inr ing"
    and "\<And>b. re_probe env (i\<lparr>io_Ingress := ing\<rparr>) = Inr b \<Longrightarrow>
      fst (prober_IsReady (re_hash env) (ListProbeTargets genv lister) visit ord now ing m) = Inr b"
    and "\<And>S. finite S \<Longrightarrow> set (visit S) = S" "rule \<in> set (ing_Rules ing)" "ir_Hosts rule \<noteq> []"
    and "ReconcileKind env ctx now i s = (Inr (), i', s')" "conds_wf (is_Conditions (io_Status i))"
    and "cond_status (is_Conditions (io_Status i)) IngressConditionLoadBalancerReady \<noteq> Some ConditionTrue"
    and "cond_status (is_Conditions (io_Status i')) IngressConditionReady = Some ConditionTrue"
  shows "\<exists>hash. re_hash env ing = Inr hash \<and> confirmed m ing hash"
proof -
  obtain r ing2 s2 where u: "updateIngress env ctx now ing s = (r, ing2, s2)" by (metis prod_cases3)
  have False if "r = Inl f" for f
    using assms(2,7,8,10) u that MarkFalse_view(2) [OF assms(8) dependents(2)]
    by (auto simp: ReconcileKind_def Let_def MarkLoadBalancerFailed_def cond_status_def split: fault.splits if_splits)
  then obtain x where "r = Inr x" by (cases r) auto
  then have "mark_ready env now (i\<lparr>io_Ingress := ing\<rparr>) (i\<lparr>io_Ingress := ing2\<rparr>) = (Inr (), i')"
    using assms(2,7) u by (auto simp: ReconcileKind_def Let_def split: prod.splits)
  then have "re_probe env (i\<lparr>io_Ingress := ing\<rparr>) = Inr True"
    by (rule mark_ready_probed) (use assms(8-10) in simp_all)
  then have "prober_IsReady (re_hash env) (ListProbeTargets genv lister) visit ord now ing m =
      (Inr True, snd (prober_IsReady (re_hash env) (ListProbeTargets genv lister) visit ord now ing m))"
    using assms(3) by (simp add: prod_eq_iff)
  then show ?thesis using IsReady_confirmed [OF assms(1)] lister_items [OF _ assms(4-6)] by blast
qed

section \<open>The callback\<close>

text \<open>A pod at rest: no worker has one of its items, and its goroutine waits for a context that is not cancelled or has returned.\<close>

definition at_rest :: "podState \<Rightarrow> bool" where
  "at_rest p \<longleftrightarrow> items_at {Queued, Succeeded, AtCancel, AtDec, AtCallback} p = 0 \<and>
     (po_canceller p = Returned \<or> po_canceller p = Waiting \<and> \<not> po_done p)"

lemma at_rest_finished:
  assumes "pod_inv hash p" "at_rest p"
  shows "unfinished p = 0" "calling p = 0"
proof -
  have z: "items_at {Queued, Succeeded} p = 0" "items_at {AtCancel, AtDec} p = 0" "items_at {AtCallback} p = 0"
    using assms(2) by (auto simp: at_rest_def items_at_def filter_empty_conv)
  have "po_pendingCount p \<le> 0"
    using assms(2) pod_invD(6,11,12) [OF assms(1)] z(1) by (cases "po_cancelled p") (auto simp: at_rest_def)
  then show "unfinished p = 0" "calling p = 0" using z assms(2) by (auto simp: counting at_rest_def)
qed

text \<open>
  C10: The prober calls back exactly once. In every interleaving of the workers, the cancellations and the
  requests of the reconciler, the callback that puts the ingress back into the work queue is called
  at most once for a probing, and only when no pod is pending; once every pod has come to rest, by answers or by
  cancellation, it has been called exactly once. The counter of a probing is never negative, and that of a pod stays between minus and plus the
  number of its probes.
\<close>

theorem callback_exactly_once:
  assumes "prober_step\<^sup>*\<^sup>* NewProber m" "g \<in> set (pb_heap m)"
  shows "ig_calls g \<le> 1 \<and> (ig_calls g = 1 \<longrightarrow> ig_pendingCount g = 0) \<and>
    (ig_pods g \<noteq> [] \<longrightarrow> (\<forall>p \<in> set (ig_pods g). at_rest p) \<longrightarrow> ig_calls g = 1) \<and> 0 \<le> ig_pendingCount g \<and>
    (\<forall>p \<in> set (ig_pods g). - int (length (po_items p)) \<le> po_pendingCount p \<and> po_pendingCount p \<le> int (length (po_items p)))"
proof -
  have inv: "probing_inv g" using pts.reachable_inv [OF refl assms(1)] assms(2) by (auto simp: prober_inv_def)
  define u where "u = sum_list (map unfinished (ig_pods g))"
  from inv have I: "ig_pendingCount g = int u" "ig_calls g + sum_list (map calling (ig_pods g)) = of_bool (ig_pods g \<noteq> [] \<and> u = 0)"
    and p: "\<And>p. p \<in> set (ig_pods g) \<Longrightarrow> pod_inv (ig_hash g) p"
    by (auto simp: probing_inv_def u_def)
  have "- int (length (po_items p)) \<le> po_pendingCount p" if "pod_inv (ig_hash g) p" for p
    using pod_invD(3) [OF that] length_filter_le [of "\<lambda>(_, w). w \<in> {AtCancel, AtDec, AtCallback, Passed}" "po_items p"]
    unfolding items_at_def by linarith
  moreover have "ig_calls g = 1" if "ig_pods g \<noteq> []" "\<forall>p \<in> set (ig_pods g). at_rest p"
  proof -
    have z: "u = 0" "sum_list (map calling (ig_pods g)) = 0"
      unfolding u_def using that(2) at_rest_finished [OF p] by simp_all
    then show ?thesis using I(2) [unfolded z] that(1) by simp
  qed
  moreover have "ig_calls g \<le> 1 \<and> (ig_calls g = 1 \<longrightarrow> ig_pendingCount g = 0)"
    using I by (cases "ig_pods g \<noteq> [] \<and> u = 0") auto
  ultimately show ?thesis using I(1) p pod_invD(4) [OF p] by simp
qed

section \<open>A run of the prober\<close>

definition ex_probe_targets :: "ProbeTarget list" where
  "ex_probe_targets = [\<lparr>pt_PodIPs = {''10.0.0.9''}, pt_PodPort = ''8081'',
     pt_URLs = [\<lparr>url_Scheme = ''http'', url_Host = ''h.io'', url_Path = ''/''\<rparr>]\<rparr>]"

definition ex_asked :: Prober where
  "ex_asked = snd (prober_IsReady ex_hash (\<lambda>_. Inr ex_probe_targets) (\<lambda>_. [''10.0.0.9'']) (\<lambda>es. es) 0 (ex_ingress ''hello'') NewProber)"

definition ex_url :: URL where
  "ex_url = \<lparr>url_Scheme = ''http'', url_Host = ''h.io'', url_Path = ''/''\<rparr>"

definition ex_probing :: "int \<Rightarrow> bool \<Rightarrow> http_response option \<Rightarrow> worker \<Rightarrow> canceller \<Rightarrow> int \<Rightarrow> nat \<Rightarrow> ingressState" where
  "ex_probing n finished response w c pending calls =
     \<lparr>ig_hash = ''hash-of-hello'', ig_ing = ex_ingress ''hello'', ig_pendingCount = pending, ig_lastAccessed = 0,
      ig_pods = [\<lparr>po_ipContext = 0, po_pendingCount = n, po_done = finished, po_cancelled = False,
        po_items = [(\<lparr>wi_url = ex_url, wi_podIP = ''10.0.0.9'', wi_podPort = ''8081'', wi_response = response\<rparr>, w)],
        po_canceller = c\<rparr>], ig_calls = calls\<rparr>"

lemma ex_asked_heap: "pb_heap ex_asked = [ex_probing 1 False None Queued Waiting 1 0]"
  by code_simp

definition ex_response :: http_response where "ex_response = Response 200 ''hash-of-hello''"

text \<open>The last worker finds the pod and the ingress complete and calls back; then the goroutine of the pod returns.\<close>

lemma ex_probing_steps:
  "processWorkItem (ex_probing 1 False None Queued Waiting 1 0) 0 0 (Inr ex_response) = ex_probing 1 False (Some ex_response) Succeeded Waiting 1 0"
  "onProbingSuccess (ex_probing 1 False (Some ex_response) Succeeded Waiting 1 0) 0 0 = ex_probing 0 False (Some ex_response) AtCancel Waiting 1 0"
  "onProbingSuccess (ex_probing 0 False (Some ex_response) AtCancel Waiting 1 0) 0 0 = ex_probing 0 True (Some ex_response) AtDec Waiting 1 0"
  "onProbingSuccess (ex_probing 0 True (Some ex_response) AtDec Waiting 1 0) 0 0 = ex_probing 0 True (Some ex_response) AtCallback Waiting 0 0"
  "onProbingSuccess (ex_probing 0 True (Some ex_response) AtCallback Waiting 0 0) 0 0 = ex_probing 0 True (Some ex_response) Passed Waiting 0 1"
  "onProbingCancellation (ex_probing 0 True (Some ex_response) Passed Waiting 0 1) 0 = ex_probing 0 True (Some ex_response) Passed Loading 0 1"
  "onProbingCancellation (ex_probing 0 True (Some ex_response) Passed Loading 0 1) 0 = ex_probing 0 True (Some ex_response) Passed Returned 0 1"
  by (simp_all add: ex_probing_def processWorkItem_def prober_Do_def probeVerifier_def ex_response_def upd_pod_def upd_item_def
      onProbingSuccess_def onProbingCancellation_def Let_def)

definition ex_prober :: "ingressState \<Rightarrow> Prober" where
  "ex_prober g = ex_asked\<lparr>pb_heap := [g]\<rparr>"

lemma ex_prober_step:
  assumes "prober_step\<^sup>*\<^sup>* NewProber (ex_prober g)" "probing_step (pb_doneContexts ex_asked) g g'"
  shows "prober_step\<^sup>*\<^sup>* NewProber (ex_prober g')"
  using prober_step.Probing [of 0 "ex_prober g" g'] assms by (simp add: ex_prober_def rtranclp.rtrancl_into_rtrancl)

definition ex_done :: ingressState where "ex_done = ex_probing 0 True (Some ex_response) Passed Returned 0 1"

lemma ex_done_reached: "prober_step\<^sup>*\<^sup>* NewProber (ex_prober ex_done)"
proof -
  have size: "0 < length (ig_pods (ex_probing n f r w c p k))" "0 < length (po_items (ig_pods (ex_probing n f r w c p k) ! 0))" for n f r w c p k
    by (simp_all add: ex_probing_def)
  have "ex_prober (ex_probing 1 False None Queued Waiting 1 0) = ex_asked" by (simp add: ex_prober_def ex_asked_heap [symmetric])
  moreover have "prober_step NewProber ex_asked"
    unfolding ex_asked_def by (rule prober_step.IsReady [OF range_order_id surjective_pairing])
  ultimately have "prober_step\<^sup>*\<^sup>* NewProber (ex_prober (ex_probing 1 False None Queued Waiting 1 0))" by simp
  note run = ex_prober_step [OF this probing_step.Process [OF size, where outcome = "Inr ex_response"], unfolded ex_probing_steps(1)]
  note run = ex_prober_step [OF run probing_step.Success [OF size], unfolded ex_probing_steps(2)]
  note run = ex_prober_step [OF run probing_step.Success [OF size], unfolded ex_probing_steps(3)]
  note run = ex_prober_step [OF run probing_step.Success [OF size], unfolded ex_probing_steps(4)]
  note run = ex_prober_step [OF run probing_step.Success [OF size], unfolded ex_probing_steps(5)]
  note run = ex_prober_step [OF run probing_step.Cancellation [OF size(1)], unfolded ex_probing_steps(6)]
  note run = ex_prober_step [OF run probing_step.Cancellation [OF size(1)], unfolded ex_probing_steps(7)]
  then show ?thesis by (simp add: ex_done_def)
qed

theorem callback_exactly_once_witness: "ig_calls ex_done = 1 \<and> ig_pendingCount ex_done = 0"
proof -
  have "ex_done \<in> set (pb_heap (ex_prober ex_done))" by (simp add: ex_prober_def)
  note once = callback_exactly_once [OF ex_done_reached this]
  have "ig_pods ex_done \<noteq> []" "list_all at_rest (ig_pods ex_done)" by (simp add: ex_done_def ex_probing_def) code_simp
  then show ?thesis using once by (simp add: list_all_iff)
qed

theorem ready_status_confirmed_witness: "confirmed (ex_prober ex_done) (ex_ingress ''hello'') ''hash-of-hello''"
proof -
  let ?r = "ReconcileKind ex_renv None 0 ex_object ex_rec0"
  have m: "fst (mark_ready ex_renv 0 (ex_object\<lparr>io_Ingress := ex_ingress ''hello''\<rparr>) (ex_object\<lparr>io_Ingress := ex_probed\<rparr>)) = Inr ()"
    by code_simp
  have "fst ?r = Inr ()"
    using ex_updateIngress m by (simp add: ReconcileKind_def ex_defaults Let_def split_beta)
  then have eq: "?r = (Inr (), fst (snd ?r), snd (snd ?r))" by (simp add: prod_eq_iff)
  have "fst (snd ?r) = snd (mark_ready ex_renv 0 (ex_object\<lparr>io_Ingress := ex_ingress ''hello''\<rparr>) (ex_object\<lparr>io_Ingress := ex_probed\<rparr>))"
    using ex_updateIngress by (simp add: ReconcileKind_def ex_defaults Let_def split_beta)
  moreover have "cond_status (is_Conditions (io_Status (snd (mark_ready ex_renv 0 (ex_object\<lparr>io_Ingress := ex_ingress ''hello''\<rparr>)
      (ex_object\<lparr>io_Ingress := ex_probed\<rparr>))))) IngressConditionReady = Some ConditionTrue" by code_simp
  ultimately have ready: "cond_status (is_Conditions (io_Status (fst (snd ?r)))) IngressConditionReady = Some ConditionTrue" by simp
  obtain visit :: "string set \<Rightarrow> string list" where visit: "set (visit S) = S" if "finite S" for S
    using finite_list by metis
  have "map_of (pb_ingressStates (ex_prober ex_done)) (ing_nn (ex_ingress ''hello'')) = Some 0" "ig_hash ex_done = ''hash-of-hello''"
    "ig_pendingCount ex_done = 0" "ex_hash (ex_ingress ''hello'') = Inr ''hash-of-hello''" by code_simp+
  then have probe: "fst (prober_IsReady ex_hash (ListProbeTargets (w_env (se_world (re_snap ex_renv))) ex_gateway_lister) visit
      (\<lambda>es. es) 0 (ex_ingress ''hello'') (ex_prober ex_done)) = Inr True"
    by (simp add: prober_IsReady_def ex_prober_def)
  have "re_probe ex_renv (ex_object\<lparr>io_Ingress := ex_ingress ''hello''\<rparr>) = Inr True" "re_hash ex_renv = ex_hash"
    by (simp_all add: ex_renv_def)
  moreover have "conds_wf (is_Conditions (io_Status ex_object))"
    "cond_status (is_Conditions (io_Status ex_object)) IngressConditionLoadBalancerReady \<noteq> Some ConditionTrue"
    by (simp add: ex_object_def conds_wf_def) code_simp
  moreover obtain rule where "rule \<in> set (ing_Rules (ex_ingress ''hello''))" "ir_Hosts rule \<noteq> []"
    by (auto simp: ex_ingress_def ex_rule_def)
  moreover have "ex_hash (ex_ingress ''hello'') = Inr ''hash-of-hello''" by code_simp
  ultimately show ?thesis
    using ready_status_confirmed [OF ex_done_reached ex_defaults _ visit _ _ eq _ _ ready,
        of "w_env (se_world (re_snap ex_renv))" ex_gateway_lister "\<lambda>es. es"] probe
    by auto
qed

end
