(* ===== verification/Api_Writes.thy ===== *)
theory Api_Writes
  imports Events
begin

text \<open>
  The generated reconciler of \<^verbatim>\<open>knative.dev/networking\<close> around the handlers: it sets and clears the
  finalizer, prepares the status before \<^verbatim>\<open>ReconcileKind\<close>, grooms it afterwards and writes it back,
  with retries when somebody else wrote first. The answers of the API server are parameters; what
  is sent to it is part of the result.
\<close>

section \<open>Objects and answers of the API server\<close>

record ApiObject =
  ao_Object :: IngressObject
  ao_Finalizers :: "string list"
  ao_ResourceVersion :: string

abbreviation ao_Status :: "ApiObject \<Rightarrow> IngressStatus" where
  "ao_Status obj \<equiv> io_Status (ao_Object obj)"

abbreviation ao_deleted :: "ApiObject \<Rightarrow> bool" where
  "ao_deleted obj \<equiv> io_DeletionTimestamp (ao_Object obj) \<noteq> None"

text \<open>What the reconciler sends: a patch with finalizers and resource version, or a status update.\<close>

datatype api_write = PatchFinalizers "string list" string | UpdateStatus ApiObject

text \<open>The answers to a patch, to the n-th read and to the n-th status update, and \<^verbatim>\<open>IsConflict\<close>.\<close>

record api =
  ap_Patch :: "string list \<Rightarrow> string \<Rightarrow> go_error + ApiObject"
  ap_Get :: "nat \<Rightarrow> go_error + ApiObject"
  ap_UpdateStatus :: "nat \<Rightarrow> ApiObject \<Rightarrow> go_error option"
  ap_IsConflict :: "go_error \<Rightarrow> bool"

definition defaultFinalizerName :: string where
  "defaultFinalizerName = ''ingresses.networking.internal.knative.dev''"

section \<open>Finalizers\<close>

definition patch_finalizers :: "api \<Rightarrow> ApiObject \<Rightarrow> string list \<Rightarrow> (go_error + ApiObject) \<times> api_write list" where
  "patch_finalizers api existing finalizers =
     (ap_Patch api finalizers (ao_ResourceVersion existing), [PatchFinalizers finalizers (ao_ResourceVersion existing)])"

definition updateFinalizersFiltered :: "api \<Rightarrow> ApiObject \<Rightarrow> string set \<Rightarrow> (go_error + ApiObject) \<times> api_write list" where
  "updateFinalizersFiltered api resource desiredFinalizers =
     (if defaultFinalizerName \<in> desiredFinalizers then
        if defaultFinalizerName \<in> set (ao_Finalizers resource) then (Inr resource, [])
        else patch_finalizers api resource (ao_Finalizers resource @ [defaultFinalizerName])
      else
        if defaultFinalizerName \<notin> set (ao_Finalizers resource) then (Inr resource, [])
        else patch_finalizers api resource (sort (remdups (removeAll defaultFinalizerName (ao_Finalizers resource)))))"

definition setFinalizerIfFinalizer :: "api \<Rightarrow> ApiObject \<Rightarrow> (go_error + ApiObject) \<times> api_write list" where
  "setFinalizerIfFinalizer api resource =
     (let finalizers = set (ao_Finalizers resource);
          finalizers = (if ao_deleted resource then finalizers else insert defaultFinalizerName finalizers)
      in updateFinalizersFiltered api resource finalizers)"

text \<open>The handlers return no events of their own, so an event is an error here.\<close>

definition clearFinalizer :: "api \<Rightarrow> ApiObject \<Rightarrow> unit res \<Rightarrow> (go_error + ApiObject) \<times> api_write list" where
  "clearFinalizer api resource reconcileEvent =
     (if \<not> ao_deleted resource then (Inr resource, [])
      else
        (let finalizers = set (ao_Finalizers resource);
             finalizers = (case reconcileEvent of Inl _ \<Rightarrow> finalizers | Inr _ \<Rightarrow> finalizers - {defaultFinalizerName})
         in updateFinalizersFiltered api resource finalizers))"

section \<open>Before and after a reconciliation\<close>

definition initializeTerminalCondition :: "int \<Rightarrow> ConditionStatus \<Rightarrow> string \<Rightarrow> Condition list \<Rightarrow> Condition list" where
  "initializeTerminalCondition now st t cs =
     (case GetCondition cs t of
        Some c \<Rightarrow> cs
      | None \<Rightarrow> SetCondition now \<lparr>cn_Type = t, cn_Status = st, cn_Severity = SeverityError, cn_Time = 0, cn_Reason = [], cn_Message = []\<rparr> cs)"

definition InitializeConditions :: "int \<Rightarrow> Condition list \<Rightarrow> Condition list" where
  "InitializeConditions now cs =
     (let unknown = \<lparr>cn_Type = IngressConditionReady, cn_Status = ConditionUnknown, cn_Severity = SeverityError,
            cn_Time = 0, cn_Reason = [], cn_Message = []\<rparr>;
          (happy, cs) = (case GetCondition cs IngressConditionReady of Some c \<Rightarrow> (c, cs) | None \<Rightarrow> (unknown, SetCondition now unknown cs));
          st = (if cn_Status happy = ConditionTrue then ConditionTrue else ConditionUnknown)
      in foldl (\<lambda>cs t. initializeTerminalCondition now st t cs) cs cond_dependents)"

definition failedGenerationBump :: string where "failedGenerationBump = ''NewObservedGenFailure''"

definition PreProcessReconcile :: "(string \<Rightarrow> string) \<Rightarrow> int \<Rightarrow> IngressObject \<Rightarrow> IngressObject res" where
  "PreProcessReconcile sprintf now i =
     bindr (SetDefaults (io_Ingress i)) (\<lambda>ing.
       let cs = InitializeConditions now (is_Conditions (io_Status i));
           cs = (if is_ObservedGeneration (io_Status i) \<noteq> io_Generation i
                 then MarkUnknown sprintf now IngressConditionReady failedGenerationBump ''unsuccessfully observed a new generation'' cs
                 else cs)
       in Inr (i\<lparr>io_Ingress := ing, io_Status := (io_Status i)\<lparr>is_Conditions := cs\<rparr>\<rparr>))"

text \<open>A condition that did not change keeps its time, the others share a new one.\<close>

definition groomConditionsTransitionTime :: "int \<Rightarrow> Condition list \<Rightarrow> Condition list \<Rightarrow> Condition list" where
  "groomConditionsTransitionTime now old cs =
     map (\<lambda>cond. case GetCondition old (cn_Type cond) of
            Some oldCond \<Rightarrow>
              (let cond = cond\<lparr>cn_Time := cn_Time oldCond\<rparr> in if cond = oldCond then cond else cond\<lparr>cn_Time := now\<rparr>)
          | None \<Rightarrow> cond\<lparr>cn_Time := now\<rparr>) cs"

definition PostProcessReconcile :: "int \<Rightarrow> IngressObject \<Rightarrow> IngressObject \<Rightarrow> IngressObject" where
  "PostProcessReconcile now old i =
     i\<lparr>io_Status := (io_Status i)\<lparr>is_ObservedGeneration := io_Generation i,
         is_Conditions := groomConditionsTransitionTime now (is_Conditions (io_Status old)) (is_Conditions (io_Status i))\<rparr>\<rparr>"

section \<open>Writing the status\<close>

text \<open>\<^verbatim>\<open>equality.Semantic\<close> takes all transition times as equal.\<close>

definition status_DeepEqual :: "IngressStatus \<Rightarrow> IngressStatus \<Rightarrow> bool" where
  "status_DeepEqual a b \<longleftrightarrow>
     a\<lparr>is_Conditions := map (\<lambda>c. c\<lparr>cn_Time := 0\<rparr>) (is_Conditions a)\<rparr> = b\<lparr>is_Conditions := map (\<lambda>c. c\<lparr>cn_Time := 0\<rparr>) (is_Conditions b)\<rparr>"

text \<open>\<^verbatim>\<open>retry.OnError\<close> with the number of steps that are left: the last retriable error is returned at the end.\<close>

fun OnError :: "nat \<Rightarrow> (go_error \<Rightarrow> bool) \<Rightarrow> (nat \<Rightarrow> go_error option \<times> api_write list) \<Rightarrow> nat \<Rightarrow> go_error option \<times> api_write list" where
  "OnError 0 retriable fn attempts = (None, [])"
| "OnError (Suc steps) retriable fn attempts =
     (case fn attempts of
        (None, ws) \<Rightarrow> (None, ws)
      | (Some err, ws) \<Rightarrow>
          if \<not> retriable err \<or> steps = 0 then (Some err, ws)
          else (case OnError steps retriable fn (attempts + 1) of (r, ws') \<Rightarrow> (r, ws @ ws')))"

definition DefaultRetry_Steps :: nat where "DefaultRetry_Steps = 5"

definition RetryUpdateConflicts :: "api \<Rightarrow> (nat \<Rightarrow> go_error option \<times> api_write list) \<Rightarrow> go_error option \<times> api_write list" where
  "RetryUpdateConflicts api updater = OnError DefaultRetry_Steps (ap_IsConflict api) updater 0"

definition updateStatus_attempt :: "api \<Rightarrow> ApiObject \<Rightarrow> ApiObject \<Rightarrow> nat \<Rightarrow> go_error option \<times> api_write list" where
  "updateStatus_attempt api existing desired attempts =
     (case (if attempts > 0 then ap_Get api attempts else Inr existing) of
        Inl err \<Rightarrow> (Some err, [])
      | Inr existing \<Rightarrow>
          if status_DeepEqual (ao_Status existing) (ao_Status desired) then (None, [])
          else
            (let existing = existing\<lparr>ao_Object := (ao_Object existing)\<lparr>io_Status := ao_Status desired\<rparr>\<rparr>
             in (ap_UpdateStatus api attempts existing, [UpdateStatus existing])))"

definition updateStatus :: "api \<Rightarrow> ApiObject \<Rightarrow> ApiObject \<Rightarrow> go_error option \<times> api_write list" where
  "updateStatus api existing desired = RetryUpdateConflicts api (updateStatus_attempt api existing desired)"

text \<open>The end of \<^verbatim>\<open>Reconcile\<close>: the status is written when it changed and this replica is the leader.\<close>

definition synchronize :: "api \<Rightarrow> bool \<Rightarrow> ApiObject \<Rightarrow> ApiObject \<Rightarrow> unit res \<Rightarrow> unit res \<times> api_write list" where
  "synchronize api isLeader original resource reconcileEvent =
     (if status_DeepEqual (ao_Status original) (ao_Status resource) then (reconcileEvent, [])
      else if \<not> isLeader then (reconcileEvent, [])
      else
        (case updateStatus api original resource of
           (Some err, ws) \<Rightarrow> (Inl (Err err), ws)
         | (None, ws) \<Rightarrow> (reconcileEvent, ws)))"

section \<open>The whole of Reconcile\<close>

definition reconcile_kind ::
  "rec_env \<Rightarrow> ctx \<Rightarrow> int \<Rightarrow> api \<Rightarrow> ApiObject \<Rightarrow> rec_state \<Rightarrow> unit res \<times> api_write list \<times> rec_state" where
  "reconcile_kind env ctx now api original s =
     (case setFinalizerIfFinalizer api original of
        (Inl e, ws) \<Rightarrow> (Inl (Err (ErrWrap ''failed to set finalizers'' e)), ws, s)
      | (Inr resource, ws) \<Rightarrow>
          (case PreProcessReconcile (re_sprintf env) now (ao_Object resource) of
             Inl f \<Rightarrow> (Inl f, ws, s)
           | Inr i \<Rightarrow>
               (case ReconcileKind env ctx now i s of
                  (Inl (Panic p), i, s) \<Rightarrow> (Inl (Panic p), ws, s)
                | (r, i, s) \<Rightarrow>
                    (case synchronize api True original (resource\<lparr>ao_Object := PostProcessReconcile now (ao_Object original) i\<rparr>) r of
                       (r, ws') \<Rightarrow> (r, ws @ ws', s)))))"

definition observe_kind ::
  "rec_env \<Rightarrow> ctx \<Rightarrow> int \<Rightarrow> api \<Rightarrow> ApiObject \<Rightarrow> rec_state \<Rightarrow> unit res \<times> api_write list \<times> rec_state" where
  "observe_kind env ctx now api original s =
     (case ObserveKind env ctx now (ao_Object original) s of
        (Inl (Panic p), i, s) \<Rightarrow> (Inl (Panic p), [], s)
      | (r, i, s) \<Rightarrow> (case synchronize api False original (original\<lparr>ao_Object := i\<rparr>) r of (r, ws) \<Rightarrow> (r, ws, s)))"

definition finalize_kind :: "api \<Rightarrow> ApiObject \<Rightarrow> unit res \<times> api_write list" where
  "finalize_kind api original =
     (let reconcileEvent = FinalizeKind (ao_Object original) in
      case clearFinalizer api original reconcileEvent of
        (Inl e, ws) \<Rightarrow> (Inl (Err (ErrWrap ''failed to clear finalizers'' e)), ws)
      | (Inr resource, ws) \<Rightarrow> (case synchronize api True original resource reconcileEvent of (r, ws') \<Rightarrow> (r, ws @ ws')))"

definition Reconcile_generated ::
  "rec_env \<Rightarrow> ctx \<Rightarrow> int \<Rightarrow> bool \<Rightarrow> api \<Rightarrow> (string \<Rightarrow> string \<Rightarrow> go_error + ApiObject) \<Rightarrow> string \<Rightarrow> rec_state \<Rightarrow>
   unit res \<times> api_write list \<times> rec_state" where
  "Reconcile_generated env ctx now isLeader api lister k s =
     (case SplitMetaNamespaceKey k of
        Inl e \<Rightarrow> (Inr (), [], s)
      | Inr (namespace, name) \<Rightarrow>
          (case lister namespace name of
             Inl e \<Rightarrow>
               if IsNotFound e
               then (case ObserveDeletion env ctx now \<lparr>nn_Namespace = namespace, nn_Name = name\<rparr> s of (r, s) \<Rightarrow> (r, [], s))
               else (Inl (Err e), [], s)
           | Inr original \<Rightarrow>
               if map_of (ing_Annotations (io_Ingress (ao_Object original))) ClassAnnotationKey \<noteq> Some KourierIngressClassName
               then (Inr (), [], s)
               else if \<not> ao_deleted original then
                 (if isLeader then reconcile_kind env ctx now api original s else observe_kind env ctx now api original s)
               else if isLeader then (case finalize_kind api original of (r, ws) \<Rightarrow> (r, ws, s))
               else (case synchronize api False original original (Inr ()) of (r, ws) \<Rightarrow> (r, ws, s))))"

section \<open>Transition times\<close>

text \<open>Grooming leaves a condition as it was when only its time would change, and otherwise stamps it.\<close>

lemma GetCondition_map:
  assumes "\<And>c. cn_Type (g c) = cn_Type c"
  shows "GetCondition (map g cs) t = map_option g (GetCondition cs t)"
  unfolding GetCondition_def by (induction cs) (simp_all add: assms)

lemma groomed_condition:
  assumes "GetCondition cs t = Some c"
  shows "GetCondition (groomConditionsTransitionTime now old cs) t =
    Some (case GetCondition old t of Some c' \<Rightarrow> if c\<lparr>cn_Time := cn_Time c'\<rparr> = c' then c' else c\<lparr>cn_Time := now\<rparr> | None \<Rightarrow> c\<lparr>cn_Time := now\<rparr>)"
proof -
  let ?g = "\<lambda>cond. case GetCondition old (cn_Type cond) of
      Some oldCond \<Rightarrow> (let cond = cond\<lparr>cn_Time := cn_Time oldCond\<rparr> in if cond = oldCond then cond else cond\<lparr>cn_Time := now\<rparr>)
    | None \<Rightarrow> cond\<lparr>cn_Time := now\<rparr>"
  have kind: "cn_Type (?g cond) = cn_Type cond" for cond by (auto simp: Let_def split: option.split dest: arg_cong [of _ _ cn_Type])
  have "GetCondition (map ?g cs) t = map_option ?g (GetCondition cs t)" by (rule GetCondition_map) (rule kind)
  moreover have "cn_Type c = t" using assms by (auto simp: GetCondition_def find_Some_iff)
  ultimately show ?thesis using assms by (auto simp: groomConditionsTransitionTime_def Let_def split: option.split)
qed

section \<open>Retries\<close>

lemma OnError_runs:
  assumes "0 < steps"
  shows "\<exists>n < steps. OnError steps c fn a = (fst (fn (a + n)), concat (map (\<lambda>m. snd (fn (a + m))) [0..<Suc n])) \<and>
    (\<forall>m < n. \<exists>e. fst (fn (a + m)) = Some e \<and> c e) \<and>
    (Suc n = steps \<or> (\<forall>e. fst (fn (a + n)) = Some e \<longrightarrow> \<not> c e))"
  using assms
proof (induction steps arbitrary: a)
  case (Suc steps)
  obtain r ws where fn: "fn a = (r, ws)" by fastforce
  show ?case
  proof (cases "\<exists>e. r = Some e \<and> c e \<and> steps \<noteq> 0")
    case False
    then show ?thesis using fn by (intro exI [of _ 0]) (cases r; auto)
  next
    case True
    then obtain e where e: "r = Some e" "c e" "0 < steps" by auto
    obtain n where n: "n < steps" "OnError steps c fn (a + 1) = (fst (fn (a + 1 + n)), concat (map (\<lambda>m. snd (fn (a + 1 + m))) [0..<Suc n]))"
      "\<forall>m < n. \<exists>e. fst (fn (a + 1 + m)) = Some e \<and> c e" "Suc n = steps \<or> (\<forall>e. fst (fn (a + 1 + n)) = Some e \<longrightarrow> \<not> c e)"
      using Suc.IH [OF e(3), of "a + 1"] by blast
    have "concat (map (\<lambda>m. snd (fn (a + m))) [0..<Suc (Suc n)]) = ws @ concat (map (\<lambda>m. snd (fn (a + 1 + m))) [0..<Suc n])"
      by (subst upt_conv_Cons, simp) (simp add: fn map_Suc_upt [symmetric] comp_def del: upt_Suc)
    moreover have "\<forall>m < Suc n. \<exists>e. fst (fn (a + m)) = Some e \<and> c e"
      using n(3) e fn by (simp add: All_less_Suc2)
    ultimately show ?thesis using n e fn by (intro exI [of _ "Suc n"]) (simp del: upt_Suc)
  qed
qed simp

lemma attempt_writes:
  assumes "updateStatus_attempt api existing desired n = (r, ws)"
  shows "length ws \<le> 1" "UpdateStatus w \<in> set ws \<Longrightarrow>
    \<exists>base. (base = existing \<or> (\<exists>m. ap_Get api m = Inr base)) \<and> w = base\<lparr>ao_Object := (ao_Object base)\<lparr>io_Status := ao_Status desired\<rparr>\<rparr>"
    "PatchFinalizers fs rv \<notin> set ws"
  using assms by (auto simp: updateStatus_attempt_def Let_def split: sum.split_asm if_split_asm)

lemma updateStatus_runs:
  "\<exists>n < 5. updateStatus api existing desired =
      (fst (updateStatus_attempt api existing desired n), concat (map (\<lambda>m. snd (updateStatus_attempt api existing desired m)) [0..<Suc n])) \<and>
    (\<forall>m < n. \<exists>e. fst (updateStatus_attempt api existing desired m) = Some e \<and> ap_IsConflict api e) \<and>
    (n = 4 \<or> (\<forall>e. fst (updateStatus_attempt api existing desired n) = Some e \<longrightarrow> \<not> ap_IsConflict api e))"
  using OnError_runs [of DefaultRetry_Steps "ap_IsConflict api" "updateStatus_attempt api existing desired" 0]
  by (auto simp: updateStatus_def RetryUpdateConflicts_def DefaultRetry_Steps_def simp del: upt_Suc)

lemma updateStatus_writes:
  "length (snd (updateStatus api existing desired)) \<le> 5" "PatchFinalizers fs rv \<notin> set (snd (updateStatus api existing desired))"
  "UpdateStatus w \<in> set (snd (updateStatus api existing desired)) \<Longrightarrow>
    \<exists>base. (base = existing \<or> (\<exists>m. ap_Get api m = Inr base)) \<and> w = base\<lparr>ao_Object := (ao_Object base)\<lparr>io_Status := ao_Status desired\<rparr>\<rparr>"
proof -
  let ?att = "updateStatus_attempt api existing desired"
  obtain n where n: "n < 5" "snd (updateStatus api existing desired) = concat (map (\<lambda>m. snd (?att m)) [0..<Suc n])"
    using updateStatus_runs [of api existing desired] by (metis snd_conv)
  note att = attempt_writes [OF prod.collapse [symmetric]]
  have "length (concat (map (\<lambda>m. snd (?att m)) ms)) \<le> length ms" for ms
  proof (induction ms)
    case (Cons m ms)
    then show ?case using att(1) [where n = m and api = api and existing = existing and desired = desired] by simp
  qed simp
  from this [of "[0..<Suc n]"] show "length (snd (updateStatus api existing desired)) \<le> 5" using n(1) by (simp add: n(2) del: upt_Suc)
  show "PatchFinalizers fs rv \<notin> set (snd (updateStatus api existing desired))" using att(3) by (auto simp: n(2) simp del: upt_Suc)
  show "\<exists>base. (base = existing \<or> (\<exists>m. ap_Get api m = Inr base)) \<and> w = base\<lparr>ao_Object := (ao_Object base)\<lparr>io_Status := ao_Status desired\<rparr>\<rparr>"
    if "UpdateStatus w \<in> set (snd (updateStatus api existing desired))"
    using that att(2) [where api = api and existing = existing and desired = desired] by (auto simp: n(2) simp del: upt_Suc)
qed



lemma concat_optional:
  assumes "\<And>m. f m = (case g m of None \<Rightarrow> [] | Some w \<Rightarrow> [h w])"
  shows "concat (map f ms) = map h (List.map_filter g ms)"
  by (induction ms) (simp_all add: assms map_filter_simps split: option.split)

text \<open>
  What an attempt is meant to do: it works on the object at hand the first time and on a fresh one later, and sends that object with
  the desired status unless it has it already.
\<close>

definition attempt_read :: "api \<Rightarrow> ApiObject \<Rightarrow> nat \<Rightarrow> go_error + ApiObject" where
  "attempt_read api existing m = (if m = 0 then Inr existing else ap_Get api m)"

definition attempt_sent :: "api \<Rightarrow> ApiObject \<Rightarrow> ApiObject \<Rightarrow> nat \<Rightarrow> ApiObject option" where
  "attempt_sent api existing desired m =
     (case attempt_read api existing m of
        Inl e \<Rightarrow> None
      | Inr base \<Rightarrow>
          if status_DeepEqual (ao_Status base) (ao_Status desired) then None
          else Some (base\<lparr>ao_Object := (ao_Object base)\<lparr>io_Status := ao_Status desired\<rparr>\<rparr>))"

definition attempt_answer :: "api \<Rightarrow> ApiObject \<Rightarrow> ApiObject \<Rightarrow> nat \<Rightarrow> go_error option" where
  "attempt_answer api existing desired m =
     (case attempt_read api existing m of
        Inl e \<Rightarrow> Some e
      | Inr base \<Rightarrow> (case attempt_sent api existing desired m of None \<Rightarrow> None | Some w \<Rightarrow> ap_UpdateStatus api m w))"

text \<open>
  C28: The status is written with bounded retries. The first attempt works on the object at hand, and every later attempt reads the
  object again; an attempt writes at most once, and only if the status of the object it works on differs: it
  writes exactly that object with the new status. The first attempts are made as long as the API server reports a conflict, at
  most five of them; the result is the answer to the last one, and what was sent are the writes of these attempts in order. So
  the update succeeds when one of the first five attempts does after conflicts only.
\<close>

theorem status_update_retried:
  "\<exists>n < 5. updateStatus api existing desired =
      (attempt_answer api existing desired n, map UpdateStatus (List.map_filter (attempt_sent api existing desired) [0..<Suc n])) \<and>
    (\<forall>m < n. \<exists>e. attempt_answer api existing desired m = Some e \<and> ap_IsConflict api e) \<and>
    (n = 4 \<or> (\<forall>e. attempt_answer api existing desired n = Some e \<longrightarrow> \<not> ap_IsConflict api e))"
proof -
  let ?att = "updateStatus_attempt api existing desired"
  have att: "fst (?att m) = attempt_answer api existing desired m"
    "snd (?att m) = (case attempt_sent api existing desired m of None \<Rightarrow> [] | Some w \<Rightarrow> [UpdateStatus w])" for m
    by (auto simp: updateStatus_attempt_def attempt_answer_def attempt_sent_def attempt_read_def Let_def split: sum.split)
  have "concat (map (\<lambda>m. snd (?att m)) ms) = map UpdateStatus (List.map_filter (attempt_sent api existing desired) ms)" for ms
    by (rule concat_optional) (rule att(2))
  then show ?thesis using updateStatus_runs [of api existing desired] unfolding att(1) by (simp del: upt_Suc)
qed

section \<open>What Reconcile does and writes\<close>

lemma setFinalizer_cases:
  assumes "setFinalizerIfFinalizer api obj = (x, ws)" "\<not> ao_deleted obj"
  obtains (kept) "defaultFinalizerName \<in> set (ao_Finalizers obj)" "x = Inr obj" "ws = []"
  | (added) "defaultFinalizerName \<notin> set (ao_Finalizers obj)"
      "x = ap_Patch api (ao_Finalizers obj @ [defaultFinalizerName]) (ao_ResourceVersion obj)"
      "ws = [PatchFinalizers (ao_Finalizers obj @ [defaultFinalizerName]) (ao_ResourceVersion obj)]"
  using assms by (auto simp: setFinalizerIfFinalizer_def updateFinalizersFiltered_def patch_finalizers_def split: if_split_asm)

lemma clearFinalizer_cases:
  assumes "clearFinalizer api obj (Inr u) = (x, ws)" "ao_deleted obj"
  obtains (gone) "defaultFinalizerName \<notin> set (ao_Finalizers obj)" "x = Inr obj" "ws = []"
  | (removed) fs where "defaultFinalizerName \<in> set (ao_Finalizers obj)" "set fs = set (ao_Finalizers obj) - {defaultFinalizerName}"
      "x = ap_Patch api fs (ao_ResourceVersion obj)" "ws = [PatchFinalizers fs (ao_ResourceVersion obj)]"
proof (cases "defaultFinalizerName \<in> set (ao_Finalizers obj)")
  case True
  let ?fs = "sort (remdups (removeAll defaultFinalizerName (ao_Finalizers obj)))"
  show ?thesis using assms True by (intro removed [of ?fs]) (auto simp: clearFinalizer_def updateFinalizersFiltered_def patch_finalizers_def)
next
  case False
  then show ?thesis using assms by (intro gone) (auto simp: clearFinalizer_def updateFinalizersFiltered_def)
qed

lemma synchronize_writes:
  assumes "synchronize api l original resource r = (r', ws)"
  shows "\<not> l \<Longrightarrow> ws = [] \<and> r' = r" "length ws \<le> 5" "PatchFinalizers fs rv \<notin> set ws"
    "UpdateStatus w \<in> set ws \<Longrightarrow>
      \<exists>base. (base = original \<or> (\<exists>m. ap_Get api m = Inr base)) \<and> w = base\<lparr>ao_Object := (ao_Object base)\<lparr>io_Status := ao_Status resource\<rparr>\<rparr>"
proof -
  obtain e us where u: "updateStatus api original resource = (e, us)" by fastforce
  have "(r' = r \<and> ws = []) \<or> (l \<and> ws = us)"
    using assms by (auto simp: synchronize_def u split: if_split_asm option.split_asm)
  then show "\<not> l \<Longrightarrow> ws = [] \<and> r' = r" "length ws \<le> 5" "PatchFinalizers fs rv \<notin> set ws"
    "UpdateStatus w \<in> set ws \<Longrightarrow>
      \<exists>base. (base = original \<or> (\<exists>m. ap_Get api m = Inr base)) \<and> w = base\<lparr>ao_Object := (ao_Object base)\<lparr>io_Status := ao_Status resource\<rparr>\<rparr>"
    using updateStatus_writes [where api = api and existing = original and desired = resource] by (auto simp: u)
qed




lemma synchronize_observer [simp]: "synchronize api False original resource r = (r, [])"
  by (simp add: synchronize_def)

lemma PreProcess_Inr:
  assumes "PreProcessReconcile sprintf now i = Inr i'"
  shows "ing_nn (io_Ingress i') = ing_nn (io_Ingress i)" "io_Generation i' = io_Generation i"
  using assms SetDefaults_nn by (auto simp: PreProcessReconcile_def Let_def go_simps)

lemma PreProcess_Inl:
  assumes "PreProcessReconcile sprintf now i = Inl f"
  shows "ReconcileKind env ctx now' i s = (Inl f, i, s)"
  using assms by (auto simp: PreProcessReconcile_def ReconcileKind_def Let_def go_simps)

lemma mark_ready_generation: "mark_ready env now before i = (r, i') \<Longrightarrow> io_Generation i' = io_Generation i"
  by (auto simp: mark_ready_def Let_def split: sum.split_asm bool.split_asm prod.split_asm if_split_asm)

lemma ReconcileKind_generation: "ReconcileKind env ctx now i s = (r, i', s') \<Longrightarrow> io_Generation i' = io_Generation i"
  by (auto simp: ReconcileKind_def Let_def dest!: mark_ready_generation split: sum.split_asm fault.split_asm prod.split_asm if_split_asm)

lemma observe_kind_eq:
  assumes "observe_kind env ctx now api original s = (r, ws, s')"
  shows "ws = [] \<and> (\<exists>i. ObserveKind env ctx now (ao_Object original) s = (r, i, s'))"
proof -
  obtain r1 i s1 where o: "ObserveKind env ctx now (ao_Object original) s = (r1, i, s1)" by (metis prod.exhaust)
  show ?thesis using assms o by (auto simp: observe_kind_def split: sum.split_asm fault.split_asm)
qed

text \<open>
  The object a reconciliation works on: the one the API server returned for the patch of the finalizers, or the
  listed one without a patch, with its status prepared. A panic of the preparation is that of the handler on the object itself.
\<close>

definition prepared :: "rec_env \<Rightarrow> int \<Rightarrow> api \<Rightarrow> ApiObject \<Rightarrow> go_error + IngressObject" where
  "prepared env now api original =
     (case fst (setFinalizerIfFinalizer api original) of
        Inl e \<Rightarrow> Inl e
      | Inr resource \<Rightarrow>
          (case PreProcessReconcile (re_sprintf env) now (ao_Object resource) of Inl f \<Rightarrow> Inr (ao_Object resource) | Inr i \<Rightarrow> Inr i))"

lemma prepared_nn:
  assumes "prepared env now api original = Inr i" "\<not> ao_deleted original"
    and "\<And>fs obj. ap_Patch api fs (ao_ResourceVersion original) = Inr obj \<Longrightarrow>
      ing_nn (io_Ingress (ao_Object obj)) = ing_nn (io_Ingress (ao_Object original))"
  shows "ing_nn (io_Ingress i) = ing_nn (io_Ingress (ao_Object original))"
proof -
  obtain x ws where f: "setFinalizerIfFinalizer api original = (x, ws)" by fastforce
  obtain resource where x: "x = Inr resource" using assms(1) f by (auto simp: prepared_def split: sum.split_asm)
  have "ing_nn (io_Ingress (ao_Object resource)) = ing_nn (io_Ingress (ao_Object original))"
    using f assms(2) by (cases rule: setFinalizer_cases) (use x assms(3) in auto)
  then show ?thesis using assms(1) f x PreProcess_Inr(1) by (auto simp: prepared_def split: sum.split_asm)
qed

lemma reconcile_kind_cases:
  assumes "reconcile_kind env ctx now api original s = (r, ws, s')" "\<not> ao_deleted original"
  obtains (failed) e where "r = Inl (Err (ErrWrap ''failed to set finalizers'' e))" "s' = s" "fst (setFinalizerIfFinalizer api original) = Inl e"
      "ws = snd (setFinalizerIfFinalizer api original)"
  | (panic) resource i p i' where "setFinalizerIfFinalizer api original = (Inr resource, ws)" "prepared env now api original = Inr i"
      "r = Inl p" "ReconcileKind env ctx now i s = (Inl p, i', s')"
  | (finished) resource ws1 ws2 i r1 i' where "setFinalizerIfFinalizer api original = (Inr resource, ws1)" "ws = ws1 @ ws2"
      "PreProcessReconcile (re_sprintf env) now (ao_Object resource) = Inr i" "ReconcileKind env ctx now i s = (r1, i', s')"
      "synchronize api True original (resource\<lparr>ao_Object := PostProcessReconcile now (ao_Object original) i'\<rparr>) r1 = (r, ws2)"
proof -
  obtain x ws1 where f: "setFinalizerIfFinalizer api original = (x, ws1)" by fastforce
  show ?thesis
  proof (cases x)
    case (Inl e)
    then show ?thesis using assms f by (intro failed) (auto simp: reconcile_kind_def)
  next
    case resource: (Inr resource)
    show ?thesis
    proof (cases "PreProcessReconcile (re_sprintf env) now (ao_Object resource)")
      case (Inl p)
      then show ?thesis
        using assms f resource PreProcess_Inl [OF Inl, of env ctx now s]
        by (intro panic [of resource "ao_Object resource" p "ao_Object resource"]) (auto simp: reconcile_kind_def prepared_def)
    next
      case (Inr i)
      obtain r1 i' s1 where k: "ReconcileKind env ctx now i s = (r1, i', s1)" by (metis prod.exhaust)
      obtain r2 ws2 where y: "synchronize api True original (resource\<lparr>ao_Object := PostProcessReconcile now (ao_Object original) i'\<rparr>) r1 = (r2, ws2)" by fastforce
      show ?thesis
      proof (cases "\<exists>p. r1 = Inl (Panic p)")
        case True
        then obtain p where p: "r1 = Inl (Panic p)" by blast
        then have "r = Inl (Panic p) \<and> ws = ws1 \<and> s' = s1" using assms f resource Inr k by (simp add: reconcile_kind_def)
        then show ?thesis using f resource k p Inr by (intro panic [of resource i "Panic p" i']) (simp_all add: prepared_def)
      next
        case False
        then have "r = r2 \<and> ws = ws1 @ ws2 \<and> s' = s1"
          using assms(1) f resource Inr k y by (auto simp: reconcile_kind_def split: sum.split_asm fault.split_asm)
        then show ?thesis using f resource Inr k y by (intro finished) auto
      qed
    qed
  qed
qed

lemma generated_cases:
  assumes "Reconcile_generated env ctx now isLeader api lister k s = (r, ws, s')"
    and "plain = (\<lambda>prepare. Reconcile env ctx now isLeader prepare (\<lambda>ns n. map_sum (\<lambda>e. e) ao_Object (lister ns n)) k s)"
  obtains (plain) "ws = []" "\<And>prepare. plain prepare = (r, s')"
      "\<And>ns n original. SplitMetaNamespaceKey k = Inr (ns, n) \<Longrightarrow> lister ns n = Inr original \<Longrightarrow> isLeader \<Longrightarrow>
        map_of (ing_Annotations (io_Ingress (ao_Object original))) ClassAnnotationKey \<noteq> Some KourierIngressClassName"
  | (finalize) ns n original where "SplitMetaNamespaceKey k = Inr (ns, n)" "lister ns n = Inr original" "ao_deleted original" isLeader
      "finalize_kind api original = (r, ws)" "s' = s" "\<And>prepare. plain prepare = (Inr (), s)"
      "map_of (ing_Annotations (io_Ingress (ao_Object original))) ClassAnnotationKey = Some KourierIngressClassName"
  | (reconcile) ns n original where "SplitMetaNamespaceKey k = Inr (ns, n)" "lister ns n = Inr original" "\<not> ao_deleted original" isLeader
      "reconcile_kind env ctx now api original s = (r, ws, s')"
      "\<And>prepare. plain prepare = (case prepare (ao_Object original) of
          Inl e \<Rightarrow> (Inl (Err (ErrWrap ''failed to set finalizers'' e)), s)
        | Inr resource \<Rightarrow> (case ReconcileKind env ctx now resource s of (r, _, s) \<Rightarrow> (r, s)))"
      "map_of (ing_Annotations (io_Ingress (ao_Object original))) ClassAnnotationKey = Some KourierIngressClassName"
proof (cases "SplitMetaNamespaceKey k")
  case (Inl e)
  then show ?thesis using assms by (intro plain) (simp_all add: Reconcile_generated_def Reconcile_def)
next
  case (Inr nn)
  obtain ns n where nn: "nn = (ns, n)" by fastforce
  note defs = Reconcile_generated_def Reconcile_def Inr nn
  show ?thesis
  proof (cases "lister ns n")
    case (Inl e)
    then show ?thesis using assms by (intro plain) (auto simp: defs split: prod.split_asm if_split_asm)
  next
    case o: (Inr original)
    let ?kourier = "map_of (ing_Annotations (io_Ingress (ao_Object original))) ClassAnnotationKey = Some KourierIngressClassName"
    consider "\<not> ?kourier" | ?kourier "\<not> ao_deleted original" "isLeader" | ?kourier "\<not> ao_deleted original" "\<not> isLeader"
      | ?kourier "ao_deleted original" isLeader | ?kourier "ao_deleted original" "\<not> isLeader" by blast
    then show ?thesis
    proof cases
      case 1
      then show ?thesis using assms o by (intro plain) (auto simp: defs)
    next
      case 2
      then show ?thesis using assms o by (intro reconcile [of ns n original]) (auto simp: defs)
    next
      case 3
      then have "observe_kind env ctx now api original s = (r, ws, s')" using assms(1) o by (simp add: defs)
      from observe_kind_eq [OF this] show ?thesis using 3 assms(2) o by (intro plain) (auto simp: defs)
    next
      case 4
      then show ?thesis using assms o by (intro finalize [of ns n original]) (auto simp: defs FinalizeKind_def split: prod.split_asm)
    next
      case 5
      then show ?thesis using assms o by (intro plain) (auto simp: defs)
    qed
  qed
qed








text \<open>The single patch and the status updates of one run.\<close>

definition patch_ok :: "ApiObject \<Rightarrow> api_write list \<Rightarrow> bool" where
  "patch_ok original ws \<longleftrightarrow>
     (if defaultFinalizerName \<in> set (ao_Finalizers original) \<longleftrightarrow> ao_deleted original
      then \<exists>fs. ws = [PatchFinalizers fs (ao_ResourceVersion original)] \<and>
        set fs - {defaultFinalizerName} = set (ao_Finalizers original) - {defaultFinalizerName} \<and>
        (defaultFinalizerName \<in> set fs \<longleftrightarrow> \<not> ao_deleted original)
      else ws = [])"

definition updates_ok :: "api \<Rightarrow> ApiObject \<Rightarrow> (int \<Rightarrow> bool) \<Rightarrow> api_write list \<Rightarrow> bool" where
  "updates_ok api original generation ws \<longleftrightarrow> length ws \<le> 5 \<and> (\<exists>us. ws = map UpdateStatus us) \<and>
     (\<forall>w. UpdateStatus w \<in> set ws \<longrightarrow> (\<exists>base st. (base = original \<or> (\<exists>m. ap_Get api m = Inr base)) \<and>
        w = base\<lparr>ao_Object := (ao_Object base)\<lparr>io_Status := st\<rparr>\<rparr> \<and> generation (is_ObservedGeneration st)))"

lemma only_updates: "(\<And>fs rv. PatchFinalizers fs rv \<notin> set ws) \<Longrightarrow> \<exists>us. ws = map UpdateStatus us"
proof (induction ws)
  case (Cons w ws)
  obtain us where "ws = map UpdateStatus us" using Cons by auto
  moreover obtain u where "w = UpdateStatus u" using Cons.prems by (cases w) auto
  ultimately show ?case by (intro exI [of _ "u # us"]) simp
qed simp

lemma updates_ok_nil [simp]: "updates_ok api original generation []"
  by (simp add: updates_ok_def)

lemma synchronize_ok:
  assumes "synchronize api l original resource r = (r', ws)" "generation (is_ObservedGeneration (ao_Status resource))"
  shows "updates_ok api original generation ws"
proof -
  have "\<exists>base st. (base = original \<or> (\<exists>m. ap_Get api m = Inr base)) \<and> w = base\<lparr>ao_Object := (ao_Object base)\<lparr>io_Status := st\<rparr>\<rparr> \<and>
      generation (is_ObservedGeneration st)" if "UpdateStatus w \<in> set ws" for w
    using synchronize_writes(4) [OF assms(1) that] assms(2) by blast
  moreover have "\<exists>us. ws = map UpdateStatus us" using only_updates synchronize_writes(3) [OF assms(1)] by blast
  ultimately show ?thesis using synchronize_writes(2) [OF assms(1)] unfolding updates_ok_def by auto
qed

lemma finalize_kind_ok:
  assumes "finalize_kind api original = (r, ws)" "ao_deleted original"
  obtains ws1 ws2 where "ws = ws1 @ ws2" "patch_ok original ws1" "updates_ok api original (\<lambda>_. True) ws2"
proof -
  obtain x ws1 where c: "clearFinalizer api original (Inr ()) = (x, ws1)" by fastforce
  from c assms(2) have "patch_ok original ws1" by (cases rule: clearFinalizer_cases) (use assms(2) in \<open>auto simp: patch_ok_def\<close>)
  moreover obtain ws2 where "ws = ws1 @ ws2" "ws2 = [] \<or> (\<exists>resource r'. synchronize api True original resource (Inr ()) = (r', ws2))"
    using assms(1) c by (auto simp: finalize_kind_def FinalizeKind_def split: sum.split_asm prod.split_asm)
  moreover have "updates_ok api original (\<lambda>_. True) ws2" using calculation(3) synchronize_ok by auto
  ultimately show ?thesis using that by blast
qed

lemma reconcile_kind_ok:
  assumes "reconcile_kind env ctx now api original s = (r, ws, s')" "\<not> ao_deleted original"
    and "generation = (\<lambda>g. \<exists>resource. (resource = original \<or> (\<exists>fs. ap_Patch api fs (ao_ResourceVersion original) = Inr resource)) \<and>
      g = io_Generation (ao_Object resource))"
  obtains ws1 ws2 where "ws = ws1 @ ws2" "patch_ok original ws1" "updates_ok api original generation ws2"
proof -
  obtain x ws1 where c: "setFinalizerIfFinalizer api original = (x, ws1)" by fastforce
  from c assms(2) have p: "patch_ok original ws1" by (cases rule: setFinalizer_cases) (use assms(2) in \<open>auto simp: patch_ok_def\<close>)
  from assms(1,2) have "\<exists>ws2. ws = ws1 @ ws2 \<and> updates_ok api original generation ws2"
  proof (cases rule: reconcile_kind_cases)
    case (finished resource ws1' ws2 i r1 i')
    have "generation (io_Generation (ao_Object resource))"
      using finished(1) assms(2) unfolding assms(3) by (cases rule: setFinalizer_cases) (blast, metis)
    moreover have "is_ObservedGeneration (ao_Status (resource\<lparr>ao_Object := PostProcessReconcile now (ao_Object original) i'\<rparr>)) = io_Generation (ao_Object resource)"
      using PreProcess_Inr(2) [OF finished(3)] ReconcileKind_generation [OF finished(4)] by (simp add: PostProcessReconcile_def)
    ultimately show ?thesis using synchronize_ok [OF finished(5), of generation] finished(1,2) c by simp
  qed (use c in auto)
  then show ?thesis using that p by blast
qed

text \<open>
  C12: What is written to the API server. A replica that is not the leader writes nothing, and nothing is written for an ingress of
  another class. For an ingress of this class, the leader sends one patch first if the finalizer has to change, and none otherwise: it adds the
  finalizer to an ingress that lives, removes it from one that is deleted, keeps all others and carries the version the patch is
  based on. At most five status updates follow, and nothing else; none of them touches the spec or the metadata, so the defaults and
  probe paths of the reconciler's copy never leave the process, and the status of an ingress that lives tells the generation it was made for.
\<close>

theorem api_writes:
  assumes "Reconcile_generated env ctx now isLeader api lister k s = (r, ws, s')"
    and "SplitMetaNamespaceKey k = Inr (ns, n)" "lister ns n = Inr original"
    and "kourier \<longleftrightarrow> map_of (ing_Annotations (io_Ingress (ao_Object original))) ClassAnnotationKey = Some KourierIngressClassName"
  shows "\<exists>patches updates. ws = patches @ map UpdateStatus updates \<and>
    (\<not> isLeader \<or> \<not> kourier \<longrightarrow> ws = []) \<and>
    (isLeader \<and> kourier \<longrightarrow>
      (if defaultFinalizerName \<in> set (ao_Finalizers original) \<longleftrightarrow> ao_deleted original
       then \<exists>fs. patches = [PatchFinalizers fs (ao_ResourceVersion original)] \<and>
         set fs - {defaultFinalizerName} = set (ao_Finalizers original) - {defaultFinalizerName} \<and>
         (defaultFinalizerName \<in> set fs \<longleftrightarrow> \<not> ao_deleted original)
       else patches = [])) \<and>
    length updates \<le> 5 \<and>
    (\<forall>w \<in> set updates.
      \<exists>base st. (base = original \<or> (\<exists>m. ap_Get api m = Inr base)) \<and> w = base\<lparr>ao_Object := (ao_Object base)\<lparr>io_Status := st\<rparr>\<rparr> \<and>
        (\<not> ao_deleted original \<longrightarrow> (\<exists>resource. (resource = original \<or> (\<exists>fs. ap_Patch api fs (ao_ResourceVersion original) = Inr resource)) \<and>
          is_ObservedGeneration st = io_Generation (ao_Object resource))))"
  using assms(1) refl
proof (cases rule: generated_cases)
  case plain
  then show ?thesis using assms(2-4) by (intro exI [of _ "[]"]) auto
next
  case (finalize ns' n' obj)
  then have obj: "obj = original" using assms(2,3) by simp
  from finalize(5,3) obtain ws1 ws2 where "ws = ws1 @ ws2" "patch_ok original ws1" "updates_ok api original (\<lambda>_. True) ws2"
    unfolding obj by (rule finalize_kind_ok)
  then show ?thesis using finalize(3,4,8) unfolding obj patch_ok_def updates_ok_def assms(4) by (intro exI [of _ ws1]) auto
next
  case (reconcile ns' n' obj)
  then have obj: "obj = original" using assms(2,3) by simp
  let ?generation = "\<lambda>g. \<exists>resource. (resource = original \<or> (\<exists>fs. ap_Patch api fs (ao_ResourceVersion original) = Inr resource)) \<and>
      g = io_Generation (ao_Object resource)"
  from reconcile(5,3) refl obtain ws1 ws2 where "ws = ws1 @ ws2" "patch_ok original ws1" "updates_ok api original ?generation ws2"
    unfolding obj by (rule reconcile_kind_ok)
  then show ?thesis using reconcile(3,4,7) unfolding obj patch_ok_def updates_ok_def assms(4) by (intro exI [of _ ws1]) auto
qed

section \<open>Witnesses\<close>

text \<open>An ingress that is being deleted, and a server that reports one conflict.\<close>

definition ex_dying :: ApiObject where
  "ex_dying = \<lparr>ao_Object = (ex_ready ''a'')\<lparr>io_DeletionTimestamp := Some 5\<rparr>, ao_Finalizers = [defaultFinalizerName, ''other''],
     ao_ResourceVersion = ''7''\<rparr>"

definition ex_api :: api where
  "ex_api = \<lparr>ap_Patch = (\<lambda>fs rv. Inr (ex_dying\<lparr>ao_Finalizers := fs, ao_ResourceVersion := ''8''\<rparr>)),
     ap_Get = (\<lambda>_. Inr (ex_dying\<lparr>ao_ResourceVersion := ''8''\<rparr>)),
     ap_UpdateStatus = (\<lambda>n obj. if ao_ResourceVersion obj = ''7'' then Some (ErrNew ''conflict'') else None),
     ap_IsConflict = (\<lambda>e. e = ErrNew ''conflict'')\<rparr>"

definition ex_desired :: ApiObject where
  "ex_desired = ex_dying\<lparr>ao_Object := (ao_Object ex_dying)\<lparr>io_Status := (io_Status (ao_Object ex_dying))\<lparr>is_ObservedGeneration := 9\<rparr>\<rparr>\<rparr>"

definition ex_api_lister :: "string \<Rightarrow> string \<Rightarrow> go_error + ApiObject" where
  "ex_api_lister ns n = (if (ns, n) = (''default'', ''a'') then Inr ex_dying else Inl (ErrNotFound n))"

lemma ex_finalized:
  "Reconcile_generated ex_renv None 0 True ex_api ex_api_lister ''default/a'' s = (Inr (), [PatchFinalizers [''other''] ''7''], s)"
proof -
  have "SplitMetaNamespaceKey ''default/a'' = Inr (''default'', ''a'')" by code_simp
  moreover have "map_of (ing_Annotations (io_Ingress (ao_Object ex_dying))) ClassAnnotationKey = Some KourierIngressClassName" by code_simp
  moreover have "ao_deleted ex_dying" by code_simp
  moreover have "finalize_kind ex_api ex_dying = (Inr (), [PatchFinalizers [''other''] ''7''])" by code_simp
  ultimately show ?thesis by (simp add: Reconcile_generated_def ex_api_lister_def)
qed

theorem status_update_retried_witness:
  "updateStatus ex_api ex_dying ex_desired =
     (None, [UpdateStatus ex_desired, UpdateStatus (ex_desired\<lparr>ao_ResourceVersion := ''8''\<rparr>)])"
proof -
  let ?sent = "attempt_sent ex_api ex_dying ex_desired" and ?answer = "attempt_answer ex_api ex_dying ex_desired"
  have differ: "\<not> status_DeepEqual (ao_Status ex_dying) (ao_Status ex_desired)" by code_simp
  have version: "ao_ResourceVersion ex_desired = ''7''" by (simp add: ex_desired_def ex_dying_def)
  have refuses: "ap_UpdateStatus ex_api m obj = (if ao_ResourceVersion obj = ''7'' then Some (ErrNew ''conflict'') else None)" for m obj
    by (simp add: ex_api_def)
  have reads: "attempt_read ex_api ex_dying 0 = Inr ex_dying" "attempt_read ex_api ex_dying (Suc m) = Inr (ex_dying\<lparr>ao_ResourceVersion := ''8''\<rparr>)" for m
    by (simp_all add: attempt_read_def ex_api_def)
  have sent: "?sent 0 = Some ex_desired" "?sent (Suc m) = Some (ex_desired\<lparr>ao_ResourceVersion := ''8''\<rparr>)" for m
    using differ by (simp_all add: attempt_sent_def reads) (simp_all add: ex_desired_def)
  have answers: "?answer 0 = Some (ErrNew ''conflict'')" "?answer (Suc m) = None" for m
    using version sent reads by (simp_all add: attempt_answer_def refuses)
  obtain n where n: "updateStatus ex_api ex_dying ex_desired = (?answer n, map UpdateStatus (List.map_filter ?sent [0..<Suc n]))"
    "\<forall>m < n. \<exists>e. ?answer m = Some e \<and> ap_IsConflict ex_api e" "n = 4 \<or> (\<forall>e. ?answer n = Some e \<longrightarrow> \<not> ap_IsConflict ex_api e)"
    using status_update_retried [of ex_api ex_dying ex_desired] by blast
  have "ap_IsConflict ex_api (ErrNew ''conflict'')" by (simp add: ex_api_def)
  then have "n \<noteq> 0" using n(3) answers(1) by (cases "n = 0") auto
  moreover have "\<not> 1 < n" using n(2) answers(2) [of 0] by auto
  ultimately have "n = Suc 0" by simp
  then show ?thesis using n(1) sent(1) sent(2) [of 0] answers(2) [of 0] by (simp add: List.map_filter_def)
qed


theorem api_writes_witness:
  "ex_api_lister ''default'' ''a'' = Inr ex_dying \<and> ao_deleted ex_dying \<and>
   (\<exists>fs updates. snd (Reconcile_generated ex_renv None 0 True ex_api ex_api_lister ''default/a'' ex_rec0) =
       (PatchFinalizers fs ''7'' # map UpdateStatus updates, ex_rec0) \<and>
     set fs - {defaultFinalizerName} = set (ao_Finalizers ex_dying) - {defaultFinalizerName} \<and> defaultFinalizerName \<notin> set fs \<and>
     length updates \<le> 5)"
proof -
  have k: "SplitMetaNamespaceKey ''default/a'' = Inr (''default'', ''a'')" by code_simp
  have l: "ex_api_lister ''default'' ''a'' = Inr ex_dying" by (simp add: ex_api_lister_def)
  have c: "True \<longleftrightarrow> map_of (ing_Annotations (io_Ingress (ao_Object ex_dying))) ClassAnnotationKey = Some KourierIngressClassName"
    "ao_deleted ex_dying" "ao_ResourceVersion ex_dying = ''7''" "defaultFinalizerName \<in> set (ao_Finalizers ex_dying)" by code_simp+
  from api_writes [OF ex_finalized [of ex_rec0] k l c(1)] obtain patches updates where
    "[PatchFinalizers [''other''] ''7''] = patches @ map UpdateStatus updates" "length updates \<le> 5"
    "\<exists>fs. patches = [PatchFinalizers fs (ao_ResourceVersion ex_dying)] \<and>
      set fs - {defaultFinalizerName} = set (ao_Finalizers ex_dying) - {defaultFinalizerName} \<and> (defaultFinalizerName \<in> set fs \<longleftrightarrow> \<not> ao_deleted ex_dying)"
    using c(2,4) by auto
  then show ?thesis using l c(2,3) by (auto simp: ex_finalized)
qed

end
