(* ===== verification/Deep_Copy.thy ===== *)
theory Deep_Copy
  imports Config_Store
begin

text \<open>
  The generated deep copies of \<^verbatim>\<open>pkg/config\<close> and \<^verbatim>\<open>pkg/reconciler/ingress/config\<close> with the sharing they
  leave. The cipher suites of a configuration are a \<^verbatim>\<open>sets.String\<close>, a Go map, so copying the struct copies a reference: the
  sets live in a heap, and an object refers to its set by an index, or to none when the map is nil.
\<close>

type_synonym set_heap = "string set list"

record kourier_object =
  kr_Fields :: Kourier
  kr_CipherSuites :: "nat option"

record config_object =
  cr_Kourier :: "kourier_object option"
  cr_Network :: "NetworkConfig option"

text \<open>The configuration an object stands for.\<close>

definition kr_value :: "set_heap \<Rightarrow> kourier_object \<Rightarrow> Kourier" where
  "kr_value h k = (kr_Fields k)\<lparr>CipherSuites := (case kr_CipherSuites k of None \<Rightarrow> {} | Some r \<Rightarrow> h ! r)\<rparr>"

definition kr_wf :: "set_heap \<Rightarrow> kourier_object \<Rightarrow> bool" where
  "kr_wf h k \<longleftrightarrow> (case kr_CipherSuites k of None \<Rightarrow> True | Some r \<Rightarrow> r < length h)"

section \<open>The copies\<close>

definition Kourier_DeepCopyInto_heap :: "kourier_object \<Rightarrow> set_heap \<Rightarrow> kourier_object \<times> set_heap" where
  "Kourier_DeepCopyInto_heap k h =
     (let out = k in
      case kr_CipherSuites k of
        None \<Rightarrow> (out, h)
      | Some r \<Rightarrow> (out\<lparr>kr_CipherSuites := Some (length h)\<rparr>, h @ [\<Union>key \<in> h ! r. {key}]))"

text \<open>
  \<^verbatim>\<open>Config.DeepCopyInto\<close>: the struct of the Kourier configuration is copied by assignment; the network
  configuration has no references in what is modelled of it.
\<close>

definition Config_DeepCopyInto :: "config_object \<Rightarrow> config_object" where
  "Config_DeepCopyInto c =
     (let out = c;
          out = (case cr_Kourier c of None \<Rightarrow> out | Some k \<Rightarrow> out\<lparr>cr_Kourier := Some k\<rparr>)
      in case cr_Network c of None \<Rightarrow> out | Some n \<Rightarrow> out\<lparr>cr_Network := Some n\<rparr>)"

definition Config_DeepCopy :: "config_object option \<Rightarrow> config_object option" where
  "Config_DeepCopy c = (case c of None \<Rightarrow> None | Some c \<Rightarrow> Some (Config_DeepCopyInto c))"

text \<open>\<^verbatim>\<open>k.CipherSuites.Insert(suite)\<close>; inserting into a nil map panics.\<close>

definition insert_suite :: "string \<Rightarrow> kourier_object \<Rightarrow> set_heap \<Rightarrow> set_heap res" where
  "insert_suite suite k h =
     (case kr_CipherSuites k of None \<Rightarrow> Inl (Panic (PanicMsg ''assignment to entry in nil map'')) | Some r \<Rightarrow> Inr (h[r := insert suite (h ! r)]))"

text \<open>\<^verbatim>\<open>FromContext\<close>, which asserts that the context carries a configuration.\<close>

definition FromContext :: "ctx \<Rightarrow> Config res" where
  "FromContext ctx =
     (case ctx of
        None \<Rightarrow> Inl (Panic (PanicMsg ''interface conversion: interface {} is nil, not *config.Config''))
      | Some c \<Rightarrow> Inr c)"

lemma FromContext_ToContext: "FromContext (ToContext ctx c) = Inr c" "(\<exists>p. FromContext ctx = Inl (Panic p)) \<longleftrightarrow> ctx = None"
  by (auto simp: FromContext_def ToContext_def split: option.split)

section \<open>Sharing\<close>

text \<open>The copy of the Kourier configuration stands for the same configuration and has a set of its own.\<close>

lemma Kourier_copy:
  assumes "kr_wf h k" "Kourier_DeepCopyInto_heap k h = (k', h')"
  shows "kr_value h' k' = kr_value h k" "kr_value h' k = kr_value h k" "kr_wf h' k" "kr_wf h' k'"
    "kr_CipherSuites k = Some r \<Longrightarrow> kr_CipherSuites k' \<noteq> Some r"
  using assms by (auto simp: Kourier_DeepCopyInto_heap_def kr_value_def kr_wf_def nth_append split: option.splits)

text \<open>A copy of the whole configuration refers to the same set.\<close>

lemma Config_copy: "Config_DeepCopyInto c = c"
  by (cases c; cases "cr_Kourier c"; cases "cr_Network c") (simp_all add: Config_DeepCopyInto_def)

text \<open>
  The copy of a Kourier configuration, which is what the store hands to the reconciler, can be changed without
  changing the original. A copy of the whole \<^verbatim>\<open>Config\<close> cannot: it stands for the same configuration, but
  its cipher suites are those of the original, and an insertion into the copy shows in both.
\<close>

lemma config_copy_shares:
  assumes "kr_wf h k" "kr_CipherSuites k = Some r"
  shows "(\<exists>k' h' h''. Kourier_DeepCopyInto_heap k h = (k', h') \<and> kr_value h' k' = kr_value h k \<and>
      insert_suite suite k' h' = Inr h'' \<and> kr_value h'' k = kr_value h k \<and>
      CipherSuites (kr_value h'' k') = insert suite (CipherSuites (kr_value h k))) \<and>
    (\<exists>c k' h''. Config_DeepCopy (Some \<lparr>cr_Kourier = Some k, cr_Network = n\<rparr>) = Some c \<and> cr_Kourier c = Some k' \<and> cr_Network c = n \<and>
      kr_value h k' = kr_value h k \<and> insert_suite suite k' h = Inr h'' \<and>
      CipherSuites (kr_value h'' k) = insert suite (CipherSuites (kr_value h k)))"
proof
  show "\<exists>k' h' h''. Kourier_DeepCopyInto_heap k h = (k', h') \<and> kr_value h' k' = kr_value h k \<and>
      insert_suite suite k' h' = Inr h'' \<and> kr_value h'' k = kr_value h k \<and>
      CipherSuites (kr_value h'' k') = insert suite (CipherSuites (kr_value h k))"
    using assms by (auto simp: Kourier_DeepCopyInto_heap_def insert_suite_def kr_value_def kr_wf_def nth_append nth_list_update)
  show "\<exists>c k' h''. Config_DeepCopy (Some \<lparr>cr_Kourier = Some k, cr_Network = n\<rparr>) = Some c \<and> cr_Kourier c = Some k' \<and> cr_Network c = n \<and>
      kr_value h k' = kr_value h k \<and> insert_suite suite k' h = Inr h'' \<and>
      CipherSuites (kr_value h'' k) = insert suite (CipherSuites (kr_value h k))"
    using assms by (simp add: Config_DeepCopy_def Config_copy insert_suite_def kr_value_def kr_wf_def)
qed

end
