(* ===== verification/Authz_Service.thy ===== *)
theory Authz_Service
  imports Kourier_Config
begin

text \<open>
  The external authorization services the repository ships to test the gateway's filter with: the gRPC
  service for both versions of the protocol and the HTTP service. They allow two paths and deny all others.
\<close>

datatype rpc_code = Code_OK | Code_PERMISSION_DENIED

record CheckResponse =
  chk_Code :: rpc_code
  chk_Message :: string

definition AuthV3_Check :: "string \<Rightarrow> CheckResponse" where
  "AuthV3_Check path =
     (if path = ''/success'' \<or> path = ''/healthz'' then \<lparr>chk_Code = Code_OK, chk_Message = []\<rparr>
      else \<lparr>chk_Code = Code_PERMISSION_DENIED, chk_Message = ''failed''\<rparr>)"

definition AuthV2_Check :: "string \<Rightarrow> CheckResponse" where
  "AuthV2_Check path =
     (if path = ''/success'' \<or> path = ''/healthz'' then \<lparr>chk_Code = Code_OK, chk_Message = []\<rparr>
      else \<lparr>chk_Code = Code_PERMISSION_DENIED, chk_Message = ''failed''\<rparr>)"

text \<open>The HTTP service, for a prefix taken from the environment.\<close>

definition pathPrefix :: "environ \<Rightarrow> string" where
  "pathPrefix env = os_Getenv env ''PATH_PREFIX''"

definition http_check :: "environ \<Rightarrow> string \<Rightarrow> int" where
  "http_check env path =
     (if path = pathPrefix env @ ''/success'' \<or> path = pathPrefix env @ ''/healthz'' then 200 else 403)"

text \<open>The three services take the same decision, the HTTP service behind its prefix.\<close>

lemma authz_services_agree:
  "AuthV2_Check path = AuthV3_Check path"
  "http_check env (pathPrefix env @ path) = (if chk_Code (AuthV3_Check path) = Code_OK then 200 else 403)"
  by (simp_all add: AuthV2_Check_def AuthV3_Check_def http_check_def)

end
