(* ===== verification/Ha_Test.thy ===== *)
theory Ha_Test
  imports Reconciler_Props Caches_Props
begin

text \<open>
  The ingress the high-availability tests of \<^verbatim>\<open>src/test/ha/ha.go\<close> create, and what the program makes of it.
\<close>

definition haReplicas :: nat where "haReplicas = 2"
definition domain :: string where "domain = ''.example.com''"
definition ServingNamespace :: string where "ServingNamespace = ''serving-tests''"

text \<open>The rules of the specification; a port is a Go \<^verbatim>\<open>int\<close> that is cut to 32 bits.\<close>

definition createIngressSpec :: "string \<Rightarrow> int \<Rightarrow> IngressRule list" where
  "createIngressSpec name port =
     [\<lparr>ir_Hosts = [name @ domain], ir_Visibility = ExternalIP,
       ir_HTTP = Some [\<lparr>hp_Path = [], hp_RewriteHost = [], hp_Headers = [],
         hp_Splits = [\<lparr>bs_ServiceNamespace = ServingNamespace, bs_ServiceName = name,
           bs_ServicePort = \<lparr>ios_IntVal = word_of_int port, ios_StrVal = []\<rparr>, bs_Percent = 0, bs_AppendHeaders = []\<rparr>],
         hp_AppendHeaders = []\<rparr>]\<rparr>]"

text \<open>The single split gets all traffic, and the ingress claims its host with and without a port.\<close>

lemma ha_defaults:
  assumes "ing_Rules ing = createIngressSpec name port"
  obtains ing' rule path split where "SetDefaults ing = Inr ing'" "ing_Rules ing' = [rule]" "ir_HTTP rule = Some [path]"
    "hp_Splits path = [split]" "bs_Percent split = 100" "bs_ServiceName split = name"
    "ing_domains ing' = {name @ ''.example.com'', name @ ''.example.com:*''}"
proof -
  obtain ing' where "SetDefaults ing = Inr ing'" using assms by (auto simp: SetDefaults_def createIngressSpec_def default_rule_def go_simps)
  moreover from this have "\<exists>rule path split. ing_Rules ing' = [rule] \<and> ir_HTTP rule = Some [path] \<and> hp_Splits path = [split] \<and>
      bs_Percent split = 100 \<and> bs_ServiceName split = name \<and> ing_domains ing' = {name @ ''.example.com'', name @ ''.example.com:*''}"
    using assms by (auto simp: SetDefaults_def createIngressSpec_def default_rule_def default_path_def Let_def go_simps
        ing_domains_def domainsForRule_def domain_def)
  ultimately show thesis using that by blast
qed

text \<open>
  The tests ask the external gateway for this host until it answers; but no virtual host of an external
  route configuration serves it, as no external route configuration has one.
\<close>

lemma ha_host_unrouted:
  assumes "ToEnvoySnapshot env ords ctx now version h c = (Inr snap, h')"
    and "range_order (so_ingresses ords)" "range_order (so_snis ords)" "i < length regions"
    and "\<And>k ti. (k, ti) \<in> set (ca_translatedIngresses c) \<Longrightarrow>
      \<exists>t ctx ing ext s s'. translateIngress (se_world env) t ctx ing ext s = (Inr (Some ti), s')"
    and "map_of (sn_routes snap) (externalRouteConfigName ! i) = Some rc" "Some vh \<in> set (rc_VirtualHosts rc)"
  shows "name @ domain \<notin> set (vh_Domains vh)"
  using external_unrouted [OF assms(1-5)] assms(6,7) by simp

end
