(* ===== verification/Spec2Isabelle.thy ===== *)
theory Spec2Isabelle
  imports Process_Props Prober Api_Writes Deep_Copy Authz_Service Ha_Test
begin

text \<open>
  A verification library for \<^verbatim>\<open>net-kourier-custom\<close>, a Knative ingress controller that programs Envoy
  gateways so that requests are served by the pods of the region they come from.

  \<^bold>\<open>The program.\<close> The reconciler gets the Knative \<^verbatim>\<open>Ingress\<close> objects of its class from the Kubernetes
  API. For each one, \<^verbatim>\<open>UpdateInfoForIngress\<close> inserts probe paths, translates the ingress into Envoy
  clusters, routes and virtual hosts, one set per region, and stores the translation in the caches.
  \<^verbatim>\<open>ToEnvoySnapshot\<close> turns the caches into a snapshot of clusters, route configurations and listeners,
  which the xDS server hands to the gateways. The status prober asks the gateways whether an ingress
  is served, and the reconciler writes the answer into the status. At start-up the controller primes
  the caches with the ingresses that were configured before.

  \<^bold>\<open>Theories and sources\<close> (paths under \<^verbatim>\<open>src/pkg\<close>).
  \<^item> \<^verbatim>\<open>Prelude\<close>: results of fallible Go code (\<open>Err\<close> is a returned error, \<open>Panic\<close> a panic), loops that
    may leave (\<open>foldM\<close>), slices with their index checks, strings, maps; the locales \<open>go_map\<close> and
    \<open>transition_system\<close>. \<^verbatim>\<open>Envoy_Types\<close>, \<^verbatim>\<open>Kube_Types\<close>: the objects of the two APIs with the fields the
    code uses; pointers that may be nil are options.
  \<^item> \<^verbatim>\<open>Regions\<close>: \<^verbatim>\<open>region/main.go\<close>. \<^verbatim>\<open>Kourier_Config\<close>, \<^verbatim>\<open>Config_Props\<close>: \<^verbatim>\<open>config/*.go\<close>. \<^verbatim>\<open>Config_Store\<close>:
    \<^verbatim>\<open>reconciler/ingress/config/store.go\<close> and \<^verbatim>\<open>reconciler/informerfiltering/util.go\<close>. \<^verbatim>\<open>Deep_Copy\<close>: the two
    \<^verbatim>\<open>zz_generated.deepcopy.go\<close>, over a heap of sets. \<^verbatim>\<open>Authz_Service\<close>: the test services under
    \<^verbatim>\<open>src/test/config/extauthz\<close>.
  \<^item> \<^verbatim>\<open>Envoy_Api\<close>, \<^verbatim>\<open>Listener\<close>: the builders of \<^verbatim>\<open>envoy/api/*.go\<close>.
  \<^item> \<^verbatim>\<open>Sni\<close>: \<^verbatim>\<open>generator/sni.go\<close>, with a heap of \<^verbatim>\<open>SNIMatch\<close> objects, because \<^verbatim>\<open>consume\<close> appends to
    objects the stored translations share. \<^verbatim>\<open>Cluster_Cache\<close>: \<^verbatim>\<open>generator/cluster_cache.go\<close> and the
    operations of the vendored \<^verbatim>\<open>go-cache\<close> it calls.
  \<^item> \<^verbatim>\<open>Translator_Monad\<close>, \<^verbatim>\<open>Translator\<close>: \<^verbatim>\<open>generator/ingress_translator.go\<close>, one definition per loop body;
    the state is the SNI heap and the references tracked so far, which survive an early return.
    \<^verbatim>\<open>Translator_Spec\<close> is the same translation without loops and state, \<^verbatim>\<open>Translator_Refine\<close> shows that
    the two agree, \<^verbatim>\<open>Translator_Props\<close> reads the properties off the specification.
  \<^item> \<^verbatim>\<open>Caches\<close>: the state of \<^verbatim>\<open>generator/caches.go\<close> and the operations that change it, and
    \<^verbatim>\<open>status_vhost.go\<close>. \<^verbatim>\<open>Caches_Inv\<close>: the invariant, the abstraction to a map from names to
    translations and the refinement. \<^verbatim>\<open>Caches_Props\<close>: the caches as a transition system.
  \<^item> \<^verbatim>\<open>Snapshot\<close>, \<^verbatim>\<open>Snapshot_Props\<close>, \<^verbatim>\<open>Snapshot_Laws\<close>: \<^verbatim>\<open>ToEnvoySnapshot\<close> and what it calls.
  \<^item> \<^verbatim>\<open>Generator\<close>: \<^verbatim>\<open>generator/generator.go\<close>. \<^verbatim>\<open>Ingress_Status\<close>: the vendored condition set the reconciler
    marks. \<^verbatim>\<open>Reconciler\<close>, \<^verbatim>\<open>Reconciler_Props\<close>, \<^verbatim>\<open>Reconciler_Laws\<close>: \<^verbatim>\<open>reconciler/ingress/ingress.go\<close>.
    \<^verbatim>\<open>Lister\<close>: \<^verbatim>\<open>lister.go\<close>. \<^verbatim>\<open>Controller\<close>, \<^verbatim>\<open>Controller_Props\<close>: \<^verbatim>\<open>controller.go\<close>. \<^verbatim>\<open>Tracker\<close>: the vendored
    tracker of references. \<^verbatim>\<open>Events\<close>: the event handlers of \<^verbatim>\<open>controller.go\<close> and the generated
    \<^verbatim>\<open>Reconcile\<close> that takes names from the work queue. \<^verbatim>\<open>Api_Writes\<close>: the same \<^verbatim>\<open>Reconcile\<close> with all it sends to the API
    server: finalizers, the conditions before and after a reconciliation, the status update and its retries. \<^verbatim>\<open>Wiring\<close>: the callbacks \<^verbatim>\<open>NewController\<close> installs in
    the configuration store, the prober and the cluster cache, and \<^verbatim>\<open>cmd/kourier/main.go\<close>.
  \<^item> \<^verbatim>\<open>Xds_Cache\<close>: the vendored snapshot cache (\<^verbatim>\<open>SetSnapshot\<close>, \<^verbatim>\<open>CreateWatch\<close>, cancelling a watch), with
    the channels of the streams as one-place buffers whose overflow is the value \<open>Blocked\<close>. \<^verbatim>\<open>Xds_Stream\<close>: the
    loop that serves one gateway, and the steps of all streams and the process beside each other.
    \<^verbatim>\<open>Xds_Props\<close>: what the gateways get. \<^verbatim>\<open>Snapshot_Consistent\<close>: the vendored consistency check. \<^verbatim>\<open>Xds_Server\<close>:
    \<^verbatim>\<open>envoy/server/xds_server.go\<close> and its start by the controller.
  \<^item> \<^verbatim>\<open>Prober\<close>: the vendored status prober the reconciler asks: a heap of probings, each with its
    pods, work items and counters, and one atomic step per access to a shared counter.
  \<^item> \<^verbatim>\<open>Work_Queue\<close>: the vendored work queue of \<^verbatim>\<open>client-go\<close> and the two lanes \<^verbatim>\<open>knative.dev/pkg/controller\<close> builds from three
    of them, with the goroutines between them. \<^verbatim>\<open>Retry\<close>: the delaying queue, the rate limiter and the end of a work item.
    \<^verbatim>\<open>Workers\<close>: the handlers cut at their critical sections, and that a worker that runs alone does what the handlers do in one go. \<^verbatim>\<open>Concurrency\<close>: the running process, in which the queue, the
    workers, the event handlers and the janitor take steps in any order, and its invariant. \<^verbatim>\<open>Process_Props\<close>: that it finishes its
    work, and the race of two workers for the snapshot.
  \<^item> This theory: the process from its start-up on, alone and beside the gateways.
  \<^item> \<^verbatim>\<open>Fixtures\<close>: the concrete inputs the witnesses evaluate. \<^verbatim>\<open>Ha_Test\<close>: the ingress of \<^verbatim>\<open>src/test/ha/ha.go\<close>.

  \<^bold>\<open>What is shown.\<close>
  \<^item> Translator: it returns exactly when every object is there and then returns the specified
    translation; the endpoints are split over the regions by the node they run on; which port of a service is used; every cluster a route
    names exists; which inputs make it return nil, an error or a panic.
  \<^item> Caches: updates and deletions refine a map from names to translations in which no two
    ingresses share a domain; clusters of a replaced translation live on for the grace period.
  \<^item> Snapshots: their contents; no dangling cluster in any reachable state; no domain twice in a
    route configuration; independence of the order in which Go visits maps; the branches that
    panic when an ingress uses TLS.
  \<^item> Reconciler and controller: an update end to end, from the ingress to the snapshot the gateway
    gets; the status on every branch; deletions; the start-up, which ends in a reachable state that
    serves all primed ingresses or is fatal; the reaction to rejected snapshots; an ingress that
    waits for an object is enqueued again when the object appears.
  \<^item> The xDS server: setting a snapshot never blocks on a channel; no update is lost; a gateway that
    acknowledges what it gets converges to the current snapshot; every snapshot is consistent, so
    that a request for routes is answered; the first request after the start-up is served at once.
  \<^item> The status prober: in every interleaving of workers, cancellations and requests it calls back
    exactly once per probing, and an ingress becomes ready only when the gateways confirmed its
    current version.
  \<^item> Clean-up: clusters of a deleted ingress leave the snapshot after their grace period.
  \<^item> The work queue: no key is lost or given to two workers, a failed key is retried within its delay,
    which doubles from 5 ms to 1000 s and never overflows.
  \<^item> The API server: what is written and by whom, with bounded retries; the generated code around the handlers changes the process as the
    handlers alone do, and makes up and loses no error.
  \<^item> The process (below): with any number of workers that interleave, no
    snapshot has a dangling route from the start-up on, and no response that waits for a gateway names a cluster the gateway
    cannot get; all work is finished in a bounded number of steps when nothing new comes in.
  \<^item> Configuration: parsing key by key, the last valid configuration of the store, bounds of ports,
    sharing between a configuration and its copy.
  Several theorems state defects: traffic of external rules that no route serves, panics on
  external names and on services without ready pods, HTTPS listeners in slices that are never
  allocated, the region in cluster names that defeats the reaction to unknown clusters, a worker that
  hands over a snapshot older than the installed one.

  \<^bold>\<open>Interfaces.\<close> \<open>go_map\<close> is the contract of a Go map, interpreted on association lists; \<open>expiring_store\<close>
  is the contract of the cluster cache (what is alive at which time after a put, a retirement, an
  eviction), interpreted on the model of the cluster cache, and the caches rest on it;
  \<open>observer_registry\<close> is the contract of the tracker (who is notified of what until when), interpreted
  on its model; \<open>work_queue\<close> is the contract of a work queue (an accepted key stays pending until it is taken, a taken one is
  given to nobody else until it is finished), interpreted on the queue and on the two lanes; \<open>transition_system\<close> (initial states,
  steps, an invariant both keep) is interpreted on the caches, for three invariants, on the reconciler, on the running process, on the
  streams of the xDS server, for two, and on the prober.

  \<^bold>\<open>Bounds and conventions.\<close> Machine integers are words where they can wrap around: ports,
  weights and the 64-bit number of a watch. The counters of the prober are integers: its invariant keeps the counter of a pod between minus and plus the
  number of its probes, and makes that of an ingress the number of its unfinished pods and cancellations. Times are integers in nanoseconds; each operation gets the time it reads the clock at.
  Every exported operation of the caches, of the work queue and of the snapshot cache holds its mutex, so it is one step; what happens
  between two of them (the workers, the goroutines of the queue and of the prober, the streams) are steps of \<^verbatim>\<open>inductive\<close>
  relations, which cover every order of them. The translation of an ingress works on objects of its own and is one step. Coarser than the code are four
  steps: a request on a stream closes the old watch and opens the new one, the prober looks up and stores the state of an ingress, a shutdown reaches
  both lanes of the queue, and a delayed key enters the waiting heap without the buffered channel before it. The retries of
  \<^verbatim>\<open>NewHTTPListenerDual\<close> and of the status update are bounded by the five attempts of the code, and no other fuel is used: all
  loops range over slices. The back-off delays are computed in \<^verbatim>\<open>float64\<close>, which is exact for the base delay times a power of two. Map iteration orders, random version strings, clocks, the answers of
  the Kubernetes API, which references the tracker accepts, the HTTP answers of the gateways, the delay of the shared token bucket, protobuf marshalling, SHA-256, X.509, URL and duration
  parsing and \<^verbatim>\<open>fmt.Sprintf\<close> are parameters; what a theorem needs of them is a hypothesis of it.
  \<^verbatim>\<open>sort.Slice\<close> on conditions is taken as stable, which it is for fewer than 13 elements.

  \<^bold>\<open>Not modelled.\<close> The transport itself: gRPC frames, sockets and HTTP requests, of which the model has the
  outcomes. Delta watches, REST fetches and heartbeats of the vendored snapshot cache, which the
  program does not switch on. The registration of handlers with the informers, whose calls are the steps of the
  process. Leader election, whose outcome is an argument of every run. Metrics, events recorded for users, logging (\<^verbatim>\<open>bonalib\<close>), and the assertion of
  \<^verbatim>\<open>test/ha/ha.go\<close>, which polls a live cluster.
\<close>

section \<open>The process\<close>

lemma startup_ok:
  assumes "NewController envs ctx now ingresses = Inr s0" "getReadyIngresses ingresses = Inr ready"
    and "\<And>k. env_ok (envs k)" "\<And>k. 0 \<le> now k" "\<And>i. i \<in> set ready \<Longrightarrow> name_ok (ing_nn (io_Ingress i))"
    and "distinct (map (\<lambda>i. ing_nn (io_Ingress i)) ready)"
  shows "state_ok s0"
proof -
  obtain s1 s2 where r: "rec_init s1" "rec_step\<^sup>*\<^sup>* s1 s2" "rec_step s2 s0"
    and u: "updateEnvoyConfig (envs (length ready + 1)) ctx (now (length ready + 1)) s2 = (Inr (), s0)"
    using startup_state [OF assms] by metis
  obtain snap where snap: "rs_snapshots s0 = [(nodeID, snap)]" by (rule startup_snapshots [OF assms(1,2)])
  have "rec_inv s0" using rts.reachable_inv [OF r(1)] r(2,3) by (metis rtranclp.rtrancl_into_rtrancl)
  moreover have "wf_alist (sn_routes snap')" if "map_of (rs_snapshots s0) nodeID = Some snap'" for snap'
    using u that by (auto simp: updateEnvoyConfig_def SetSnapshot_def Let_def al.lookup_update split: prod.splits sum.splits option.splits
        dest!: ToEnvoySnapshot_wf)
  ultimately show ?thesis unfolding state_ok_def rec_inv_def snapshot_ok_def snap by (auto split: if_split_asm)
qed

lemma process_reachable:
  assumes "NewController envs ctx now ingresses = Inr s0" "getReadyIngresses ingresses = Inr ready"
    and "\<And>k. env_ok (envs k)" "\<And>k. 0 \<le> now k" "\<And>i. i \<in> set ready \<Longrightarrow> name_ok (ing_nn (io_Ingress i))"
    and "distinct (map (\<lambda>i. ing_nn (io_Ingress i)) ready)" "(process_step threads)\<^sup>*\<^sup>* (started t s0) s"
  shows "process_inv threads s"
  using prs.reachable_inv [OF _ assms(7)] startup_ok [OF assms(1-6)] by blast

text \<open>
  C3: The process never serves a dangling route. After a successful start-up without external authorization, with any number of workers
  that interleave at their critical sections, whatever keys the event handlers enqueue, with any
  answers of the informers, the translator's getters and the cluster, as leader or not, every route of
  every snapshot the xDS server holds refers to a cluster of the same snapshot (or to the gateway's own
  statistics cluster), no two ingresses in the caches share a domain, and no two workers handle the same key.
\<close>

theorem process_never_dangles:
  assumes "NewController envs ctx now ingresses = Inr s0" "getReadyIngresses ingresses = Inr ready"
    and "\<And>k. env_ok (envs k)" "\<And>k. 0 \<le> now k" "\<And>i. i \<in> set ready \<Longrightarrow> name_ok (ing_nn (io_Ingress i))"
    and "distinct (map (\<lambda>i. ing_nn (io_Ingress i)) ready)" "(process_step threads)\<^sup>*\<^sup>* (started t s0) s"
  shows "(\<forall>node snap name rc vh cl. map_of (rs_snapshots (pr_state s)) node = Some snap \<longrightarrow>
      map_of (sn_routes snap) name = Some rc \<longrightarrow> Some vh \<in> set (rc_VirtualHosts rc) \<longrightarrow>
      cl \<in> set (vhost_clusters vh) \<longrightarrow> cl = ServiceStatsClusterName \<or> cl \<in> dom (map_of (sn_clusters snap))) \<and>
    (\<forall>k ti k' ti'. caches_abs (rs_caches (pr_state s)) k = Some ti \<longrightarrow> caches_abs (rs_caches (pr_state s)) k' = Some ti' \<longrightarrow>
      k \<noteq> k' \<longrightarrow> ti_domains ti \<inter> ti_domains ti' = {}) \<and>
    (\<forall>w w' k l l'. pr_workers s w = Some (k, l) \<longrightarrow> pr_workers s w' = Some (k, l') \<longrightarrow> w = w')"
proof -
  have inv: "process_inv threads s" by (rule process_reachable [OF assms])
  then have st: "state_ok (pr_state s)" by (simp add: process_inv_def)
  have "snapshot_closed snap" if "map_of (rs_snapshots (pr_state s)) node = Some snap" for node snap
    using st that by (auto simp: state_ok_def snapshot_ok_def)
  then show ?thesis
    using caches_invD(5) [OF state_ok_caches(1) [OF st]] inv unfolding snapshot_closed_def process_inv_def by blast
qed

lemma ex_started:
  assumes "NewController (\<lambda>_. ex_renv) None (\<lambda>_. 0) (Inr [ex_ready ''a'', ex_object]) = Inr s"
  obtains snap rc where "map_of (rs_snapshots s) nodeID = Some snap"
    "map_of (sn_routes snap) (internalRouteConfigName ! 2) = Some rc" "set (ti_internalVirtualHosts ex_pti ! 2) \<subseteq> set (rc_VirtualHosts rc)"
proof -
  have tr: "translatable (se_world (re_snap ex_renv)) (re_translator ex_renv) None
      (snd (InsertProbe (re_hash ex_renv) (io_Ingress ([ex_ready ''a''] ! 0))))"
    using ex_primed_translatable(1) by (simp add: ex_renv_ok ex_primed_def)
  obtain ti st st' snap rc where x: "translateIngress (se_world (re_snap ex_renv)) (re_translator ex_renv) None
      (snd (InsertProbe (re_hash ex_renv) (io_Ingress ([ex_ready ''a''] ! 0)))) False st = (Inr (Some ti), st')"
    "map_of (rs_snapshots s) nodeID = Some snap" "map_of (sn_routes snap) (internalRouteConfigName ! 2) = Some rc"
    "set (ti_internalVirtualHosts ti ! 2) \<subseteq> set (rc_VirtualHosts rc)"
    by (rule startup_installs [OF assms ex_ready_list(2) ex_renv_ok(1) _ _ _ _ _ refl refl refl tr, of 2])
      (use ex_ready_name(1) in auto)
  have "ti = ex_pti" using x(1) ex_pti by (simp add: ex_renv_ok ex_primed_def)
  then show ?thesis using that x by blast
qed

theorem process_never_dangles_witness:
  "\<exists>s snap rc vh. (process_step 2)\<^sup>*\<^sup>* (started 0 (projr (NewController (\<lambda>_. ex_renv) None (\<lambda>_. 0) (Inr [ex_ready ''a'', ex_object])))) s \<and>
    pr_workers s 0 = Some (ex_gone, DeletionJob ex_gone, ToDelete) \<and>
    map_of (rs_snapshots (pr_state s)) nodeID = Some snap \<and> map_of (sn_routes snap) (internalRouteConfigName ! 2) = Some rc \<and>
    Some vh \<in> set (rc_VirtualHosts rc) \<and> ''default/hello_region3'' \<in> set (vhost_clusters vh) \<and>
    ''default/hello_region3'' \<in> dom (map_of (sn_clusters snap))"
proof -
  obtain s where s: "NewController (\<lambda>_. ex_renv) None (\<lambda>_. 0) (Inr [ex_ready ''a'', ex_object]) = Inr s"
    using ex_startup by blast
  obtain snap rc where snap: "map_of (rs_snapshots s) nodeID = Some snap"
    "map_of (sn_routes snap) (internalRouteConfigName ! 2) = Some rc" "set (ti_internalVirtualHosts ex_pti ! 2) \<subseteq> set (rc_VirtualHosts rc)"
    by (rule ex_started [OF s])
  let ?vh = "the (hd (ti_internalVirtualHosts ex_pti ! 2))"
  have vh: "Some ?vh \<in> set (ti_internalVirtualHosts ex_pti ! 2)" "''default/hello_region3'' \<in> set (vhost_clusters ?vh)"
    "''default/hello_region3'' \<noteq> ServiceStatsClusterName"
    by code_simp+
  let ?s = "two_at {ex_gone} s (Some (ex_gone, DeletionJob ex_gone, ToDelete)) None"
  have st: "(process_step 2)\<^sup>*\<^sup>* (started 0 s) ?s"
    unfolding two_started by (rule two_pick(1) [where lister = "\<lambda>_ _. Inl (ErrNotFound ''b'')", OF two_alive]) (simp_all add: ex_dispatched lister_ok_def)
  have at: "pr_state ?s = s" "pr_workers ?s 0 = Some (ex_gone, DeletionJob ex_gone, ToDelete)" by (simp_all add: two_at_def two_workers)
  have "\<forall>node snap name rc vh cl. map_of (rs_snapshots (pr_state ?s)) node = Some snap \<longrightarrow>
      map_of (sn_routes snap) name = Some rc \<longrightarrow> Some vh \<in> set (rc_VirtualHosts rc) \<longrightarrow>
      cl \<in> set (vhost_clusters vh) \<longrightarrow> cl = ServiceStatsClusterName \<or> cl \<in> dom (map_of (sn_clusters snap))"
    by (rule conjunct1 [OF process_never_dangles [OF s ex_ready_list(2) ex_renv_ok(1) _ _ _ st]]) (use ex_ready_name(1) in auto)
  then have "''default/hello_region3'' \<in> dom (map_of (sn_clusters snap))" unfolding at using snap vh by blast
  moreover have "Some ?vh \<in> set (rc_VirtualHosts rc)" using snap(3) vh(1) by blast
  ultimately show ?thesis using s st at snap(1,2) vh(2) by (intro exI [of _ ?s] exI [of _ snap] exI [of _ rc] exI [of _ ?vh]) simp
qed

section \<open>The process and the gateways\<close>

text \<open>
  The process beside the xDS server: a step of the process that installs no snapshot leaves the
  server alone, one that installs a snapshot sets it in the server's cache, and in between the
  gateways connect, ask, get responses and disconnect.
\<close>

inductive system_step :: "nat \<Rightarrow> process \<times> xds_system \<Rightarrow> process \<times> xds_system \<Rightarrow> bool" for threads where
  Quiet: "process_step threads s s' \<Longrightarrow> rs_snapshots (pr_state s') = rs_snapshots (pr_state s) \<Longrightarrow> system_step threads (s, x) (s', x)"
| Pushed: "process_step threads s s' \<Longrightarrow> rs_snapshots (pr_state s') = AList.update nodeID snap (rs_snapshots (pr_state s)) \<Longrightarrow>
    orders_ok ords \<Longrightarrow> cache_SetSnapshot ords nodeID snap (xs_cache x) (xs_chans x) = Inr (cache, chans) \<Longrightarrow>
    system_step threads (s, x) (s', x\<lparr>xs_cache := cache, xs_chans := chans\<rparr>)"
| Gateway: "xds_step (\<lambda>_. False) x x' \<Longrightarrow> system_step threads (s, x) (s, x')"

text \<open>The snapshots the process has installed since its start.\<close>

definition installed :: "nat \<Rightarrow> process \<Rightarrow> Snapshot \<Rightarrow> bool" where
  "installed threads p snap \<longleftrightarrow> (\<exists>s. (process_step threads)\<^sup>*\<^sup>* p s \<and> map_of (rs_snapshots (pr_state s)) nodeID = Some snap)"

text \<open>Every step of the process is one of the first two: it installs at most one snapshot, for the gateways.\<close>

lemma worker_step_pushes:
  assumes "worker_step env ctx now (j, pc) s = (jp, s')"
  shows "rs_snapshots s' = rs_snapshots s \<or> (\<exists>snap. rs_snapshots s' = AList.update nodeID snap (rs_snapshots s))"
  using assms
  by (cases "(env, ctx, now, (j, pc), s)" rule: worker_step.cases)
    (auto simp: translate_step_def settle_def SetSnapshot_def Let_def
       split: sum.split_asm prod.split_asm fault.split_asm option.split_asm job.split_asm if_split_asm)

lemma process_step_pushes:
  assumes "process_step threads s s'"
  shows "rs_snapshots (pr_state s') = rs_snapshots (pr_state s) \<or>
    (\<exists>snap. rs_snapshots (pr_state s') = AList.update nodeID snap (rs_snapshots (pr_state s)))"
  using assms unfolding process_step_def
  by (elim disjE internal_step.cases external_step.cases) (auto dest: worker_step_pushes)

lemma xds_step_mono: "xds_step ok x x' \<Longrightarrow> (\<And>snap. ok snap \<Longrightarrow> ok' snap) \<Longrightarrow> xds_step ok' x x'"
  by (induction rule: xds_step.induct) (auto intro: xds_step.intros)

lemma SetSnapshot_snapshots: "cache_SetSnapshot ords node snap c chans = Inr (c', chans') \<Longrightarrow>
    sc_snapshots c' = AList.update node snap (sc_snapshots c)"
  by (auto simp: cache_SetSnapshot_def Let_def go_simps split: option.splits)

lemma CreateWatch_snapshots: "CreateWatch ords now req known ch c h = Inr (cancel, c', h') \<Longrightarrow> sc_snapshots c' = sc_snapshots c"
  by (auto simp: CreateWatch_def Let_def go_simps split: option.splits if_split_asm)

lemma gateway_snapshots: "xds_step (\<lambda>_. False) x x' \<Longrightarrow> sc_snapshots (xs_cache x') = sc_snapshots (xs_cache x)"
proof (induction rule: xds_step.induct)
  case (Request ords s sid st now onRequest req st' cache chans t asked)
  from Request(4) refl [of "complete_request st req"] show ?case
    by (cases rule: receive_cases) (auto dest!: CreateWatch_snapshots split: option.splits)
next
  case (BadRequest s sid st ords now onRequest req e cache chans)
  then show ?case using BadRequest_state [OF BadRequest(2)] by (simp add: close_watches_frame)
qed (simp_all add: close_watches_frame)

lemma system_run:
  assumes "(system_step threads)\<^sup>*\<^sup>* (started t s0, xds_started s0) (s, x)"
  shows "(process_step threads)\<^sup>*\<^sup>* (started t s0) s \<and> (xds_step (installed threads (started t s0)))\<^sup>*\<^sup>* (xds_started s0) x \<and>
    sc_snapshots (xs_cache x) = rs_snapshots (pr_state s)"
  using assms
proof (induction "(s, x)" arbitrary: s x rule: rtranclp_induct)
  case base
  then show ?case by (simp add: xds_started_def started_def)
next
  case (step y s' x')
  let ?ok = "installed threads (started t s0)"
  obtain s x where y: "y = (s, x)" by fastforce
  with step have IH: "(process_step threads)\<^sup>*\<^sup>* (started t s0) s" "(xds_step ?ok)\<^sup>*\<^sup>* (xds_started s0) x"
    "sc_snapshots (xs_cache x) = rs_snapshots (pr_state s)"
    by blast+
  from step(2) [unfolded y] show ?case
  proof cases
    case Quiet
    then show ?thesis using IH by (auto intro: rtranclp.rtrancl_into_rtrancl)
  next
    case (Pushed snap ords cache chans)
    have p: "(process_step threads)\<^sup>*\<^sup>* (started t s0) s'" using IH(1) Pushed(2) by (rule rtranclp.rtrancl_into_rtrancl)
    then have "?ok snap" using Pushed(3) by (auto simp: installed_def AList.update_conv')
    then have "xds_step ?ok x x'"
      unfolding Pushed(1) by (rule xds_step.SetSnap [where ok = ?ok, OF Pushed(4) _ Pushed(5)])
    then show ?thesis
      using p IH(2,3) Pushed(1,3) SetSnapshot_snapshots [OF Pushed(5)] by (auto intro: rtranclp.rtrancl_into_rtrancl)
  next
    case Gateway
    then have "xds_step ?ok x x'" using xds_step_mono by blast
    then show ?thesis using IH Gateway gateway_snapshots by (auto intro: rtranclp.rtrancl_into_rtrancl)
  qed
qed

lemma installed_closed:
  assumes "NewController envs ctx now ingresses = Inr s0" "getReadyIngresses ingresses = Inr ready"
    and "\<And>k. env_ok (envs k)" "\<And>k. 0 \<le> now k" "\<And>i. i \<in> set ready \<Longrightarrow> name_ok (ing_nn (io_Ingress i))"
    and "distinct (map (\<lambda>i. ing_nn (io_Ingress i)) ready)" "installed threads (started t s0) snap"
  shows "snapshot_closed snap" "wf_alist (sn_routes snap)"
proof -
  obtain s where s: "(process_step threads)\<^sup>*\<^sup>* (started t s0) s" "map_of (rs_snapshots (pr_state s)) nodeID = Some snap"
    using assms(7) by (auto simp: installed_def)
  have "snapshot_ok snap" using process_reachable [OF assms(1-6) s(1)] s(2) by (auto simp: process_inv_def state_ok_def)
  then show "snapshot_closed snap" "wf_alist (sn_routes snap)" by (simp_all add: snapshot_ok_def)
qed

lemma answer_routes:
  assumes "orders_ok ords" "rq_TypeUrl req = RouteType" "ResRoute rc \<in> set (rp_Resources (answer_of ords snap req))"
  shows "\<exists>name. (name, rc) \<in> set (sn_routes snap)"
  using assms by (auto simp: answer_of_def createResponse_def GetResourcesAndTTL_def orders_ok_def range_order_set split: if_split_asm)

text \<open>
  C7: No gateway is ever told to use a cluster it cannot get. After a successful start-up without external authorization, in every
  interleaving of the work queue, the janitor and the gateways, the cache of the xDS server holds
  exactly the snapshots the process installed; every response with routes that waits
  for a connected gateway was made of one installed snapshot, carries its version, and its routes name only
  clusters of that same snapshot, or the gateway's own statistics cluster.
\<close>

theorem gateways_never_dangle:
  assumes "NewController envs ctx now ingresses = Inr s0" "getReadyIngresses ingresses = Inr ready"
    and "\<And>k. env_ok (envs k)" "\<And>k. 0 \<le> now k" "\<And>i. i \<in> set ready \<Longrightarrow> name_ok (ing_nn (io_Ingress i))"
    and "distinct (map (\<lambda>i. ing_nn (io_Ingress i)) ready)" "(system_step threads)\<^sup>*\<^sup>* (started t s0, xds_started s0) (s, x)"
  shows "sc_snapshots (xs_cache x) = rs_snapshots (pr_state s) \<and>
    (\<forall>sid st w resp. xs_streams x sid = Some st \<longrightarrow> map_of (st_responders st) RouteType = Some w \<longrightarrow> xs_chans x ! wa_response w = Some resp \<longrightarrow>
      (\<exists>snap. installed threads (started t s0) snap \<and> rp_Version resp = sn_version snap \<and>
        (\<forall>rc vh cl. ResRoute rc \<in> set (rp_Resources resp) \<longrightarrow> Some vh \<in> set (rc_VirtualHosts rc) \<longrightarrow>
          cl \<in> set (vhost_clusters vh) \<longrightarrow> cl = ServiceStatsClusterName \<or> cl \<in> dom (map_of (sn_clusters snap)))))"
proof (intro conjI allI impI)
  show "sc_snapshots (xs_cache x) = rs_snapshots (pr_state s)" using system_run [OF assms(7)] by blast
next
  fix sid st w resp
  assume R: "xs_streams x sid = Some st" "map_of (st_responders st) RouteType = Some w" "xs_chans x ! wa_response w = Some resp"
  let ?ok = "installed threads (started t s0)"
  note run = system_run [OF assms(7)]
  obtain snap0 where snap0: "rs_snapshots s0 = [(nodeID, snap0)]" by (rule startup_snapshots [OF assms(1,2)])
  then have "?ok snap0" unfolding installed_def by (intro exI [of _ "started t s0"]) (simp add: started_def)
  then obtain x0 where x0: "xds_init x0" "(xds_step ?ok)\<^sup>*\<^sup>* x0 (xds_started s0)"
    by (rule xds_started_reached [OF snap0])
  then have reach: "(xds_step ?ok)\<^sup>*\<^sup>* x0 x" using run by (meson rtranclp_trans)
  obtain ords snap where r: "orders_ok ords" "?ok snap" "resp = answer_of ords snap (rp_Request resp)"
    "rq_TypeUrl (rp_Request resp) = RouteType"
    by (rule delivered_from_snapshot [OF x0(1) reach R])
  note closed = installed_closed [OF assms(1-6) r(2)]
  have "rp_Version resp = sn_version snap" by (subst r(3)) (simp add: r(4) GetVersion_def)
  moreover have "\<exists>name. map_of (sn_routes snap) name = Some rc" if "ResRoute rc \<in> set (rp_Resources resp)" for rc
    using answer_routes [OF r(1,4), of rc snap] that r(3) closed(2) by (auto simp: wf_alist_def)
  ultimately show "\<exists>snap. ?ok snap \<and> rp_Version resp = sn_version snap \<and>
      (\<forall>rc vh cl. ResRoute rc \<in> set (rp_Resources resp) \<longrightarrow> Some vh \<in> set (rc_VirtualHosts rc) \<longrightarrow>
        cl \<in> set (vhost_clusters vh) \<longrightarrow> cl = ServiceStatsClusterName \<or> cl \<in> dom (map_of (sn_clusters snap)))"
    using r(2) closed(1) unfolding snapshot_closed_def by blast
qed

theorem gateways_never_dangle_witness:
  "\<exists>s x st w resp rc vh snap. (system_step 2)\<^sup>*\<^sup>* (started 0 s, xds_started s) (started 0 s, x) \<and> xs_streams x 0 = Some st \<and>
    map_of (st_responders st) RouteType = Some w \<and> xs_chans x ! wa_response w = Some resp \<and>
    ResRoute rc \<in> set (rp_Resources resp) \<and> Some vh \<in> set (rc_VirtualHosts rc) \<and>
    ''default/hello_region3'' \<in> set (vhost_clusters vh) \<and> installed 2 (started 0 s) snap \<and> rp_Version resp = sn_version snap \<and>
    ''default/hello_region3'' \<in> dom (map_of (sn_clusters snap))"
proof -
  obtain s where s: "NewController (\<lambda>_. ex_renv) None (\<lambda>_. 0) (Inr [ex_ready ''a'', ex_object]) = Inr s"
    using ex_startup by blast
  obtain snap where snaps: "rs_snapshots s = [(nodeID, snap)]" "sn_version snap = ''v1''"
    by (rule startup_snapshots [OF s ex_ready_list(2)]) (simp add: ex_renv_def)
  obtain rc where rc: "map_of (sn_routes snap) (internalRouteConfigName ! 2) = Some rc" "set (ti_internalVirtualHosts ex_pti ! 2) \<subseteq> set (rc_VirtualHosts rc)"
    by (rule ex_started [OF s]) (simp add: snaps(1))
  let ?req = "(ex_request [] [])\<lparr>rq_TypeUrl := RouteType\<rparr>"
  let ?x1 = "(xds_started s)\<lparr>xs_streams := (xs_streams (xds_started s))(0 \<mapsto> new_stream resource_AnyType)\<rparr>"
  obtain st cancel cache where req: "receive_request ex_co 7 (\<lambda>_. None) ?req (new_stream resource_AnyType)
      (xs_cache ?x1) (xs_chans ?x1) = Inr (Inr st, cache, [Some (answer_of ex_co snap ?req)])"
    "map_of (st_responders st) RouteType = Some \<lparr>wa_cancel = cancel, wa_nonce = [], wa_response = 0\<rparr>"
    by (rule first_answer [OF snaps(1), of ?req ex_co 7]) (auto simp: snaps(2) ex_request_def)
  define x where "x = \<lparr>xs_cache = cache, xs_chans = [Some (answer_of ex_co snap ?req)],
    xs_streams = (xs_streams ?x1)(0 \<mapsto> st), xs_asked =
      (if accepts (complete_request (new_stream resource_AnyType) ?req) (map_of (st_responders (new_stream resource_AnyType)) (rq_TypeUrl (complete_request (new_stream resource_AnyType) ?req)))
       then (xs_asked ?x1)(0 := (xs_asked ?x1 0)(rq_TypeUrl (complete_request (new_stream resource_AnyType) ?req) := complete_request (new_stream resource_AnyType) ?req)) else xs_asked ?x1)\<rparr>"
  have step1: "xds_step (\<lambda>_. False) (xds_started s) ?x1"
    by (rule xds_step.Connect) (simp add: xds_started_def)
  have step2: "xds_step (\<lambda>_. False) ?x1 x"
    unfolding x_def by (rule xds_step.Request [OF ex_co_ok _ _ req(1) refl refl]) (simp_all add: xds_started_def NewXdsServer_def newSnapshotCache_def)
  have run: "(system_step 2)\<^sup>*\<^sup>* (started 0 s, xds_started s) (started 0 s, x)"
    using system_step.Gateway [OF step1, of 2 "started 0 s"] system_step.Gateway [OF step2, of 2 "started 0 s"]
    by (meson converse_rtranclp_into_rtranclp rtranclp.rtrancl_refl)
  let ?w = "\<lparr>wa_cancel = cancel, wa_nonce = [], wa_response = 0\<rparr>" and ?resp = "answer_of ex_co snap ?req"
  have x: "xs_streams x 0 = Some st" "xs_chans x ! wa_response ?w = Some ?resp" by (simp_all add: x_def)
  have ready: "\<And>i. i \<in> set [ex_ready ''a''] \<Longrightarrow> name_ok (ing_nn (io_Ingress i))" using ex_ready_name(1) by simp
  obtain snap' where snap': "installed 2 (started 0 s) snap'" "rp_Version ?resp = sn_version snap'"
    "\<forall>rc vh cl. ResRoute rc \<in> set (rp_Resources ?resp) \<longrightarrow> Some vh \<in> set (rc_VirtualHosts rc) \<longrightarrow>
        cl \<in> set (vhost_clusters vh) \<longrightarrow> cl = ServiceStatsClusterName \<or> cl \<in> dom (map_of (sn_clusters snap'))"
    using gateways_never_dangle [OF s ex_ready_list(2) ex_renv_ok(1) _ ready _ run, THEN conjunct2, rule_format, OF _ _ _ x(1) req(2) x(2)] by auto
  let ?vh = "the (hd (ti_internalVirtualHosts ex_pti ! 2))"
  have vh: "Some ?vh \<in> set (ti_internalVirtualHosts ex_pti ! 2)" "''default/hello_region3'' \<in> set (vhost_clusters ?vh)"
    "''default/hello_region3'' \<noteq> ServiceStatsClusterName"
    by code_simp+
  have r: "ResRoute rc \<in> set (rp_Resources ?resp)"
    using map_of_SomeD [OF rc(1)] by (force simp: answer_of_def createResponse_def GetResourcesAndTTL_def ex_co_def ex_request_def)
  have "''default/hello_region3'' \<in> dom (map_of (sn_clusters snap'))" using snap'(3) r vh rc(2) by blast
  then show ?thesis
    using run x req(2) r snap'(1,2) vh rc(2)
    by (intro exI [of _ s] exI [of _ x] exI [of _ st] exI [of _ ?w] exI [of _ ?resp] exI [of _ rc] exI [of _ ?vh] exI [of _ snap'] conjI) auto
qed

end
